(* ===== verification/Gw_Prelude.thy ===== *)
theory Gw_Prelude
  imports Main "HOL-Library.AList" "HOL-Library.Char_ord" "HOL-Library.List_Lexorder"
begin

text \<open>
  The shared base of the development: the exceptions of the modelled code and its results,
  and the string operations of Python that the sources use.

  A \<open>string\<close> stands for a Python \<open>str\<close> whose code points are below 256, and also for
  \<open>bytes\<close>. On that range \<open>strip\<close>, \<open>lower\<close>, \<open>split\<close>, \<open>int\<close> are Python's.
\<close>

section \<open>Exceptions and results\<close>

text \<open>
  One constructor per exception class the code raises or that a library call it makes raises.
  \<open>UnicodeError\<close> and \<open>JSONDecodeError\<close> are subclasses of \<open>ValueError\<close>; \<open>AsnDatabaseError\<close> and
  (since Python 3.11) \<open>asyncio.TimeoutError\<close> are subclasses of \<open>OSError\<close>.
\<close>

datatype exn =
    ValueError string
  | UnicodeError
  | JSONDecodeError
  | OSError string
  | AsnDatabaseError string
  | TimeoutError
  | IncompleteReadError
  | LimitOverrunError
  | TypeError
  | KeyError
  | AttributeError
  | IndexError
  | UserError string
  | UpdateFailure string
  | RuntimeError string
  | HTTPException string
  | TimeoutExpired
  | CalledProcessError string
  | KeyboardInterrupt

type_synonym 'a res = "exn + 'a"

fun is_ValueError :: "exn \<Rightarrow> bool" where
  "is_ValueError (ValueError _) = True"
| "is_ValueError UnicodeError = True"
| "is_ValueError JSONDecodeError = True"
| "is_ValueError _ = False"

fun is_OSError :: "exn \<Rightarrow> bool" where
  "is_OSError (OSError _) = True"
| "is_OSError (AsnDatabaseError _) = True"
| "is_OSError TimeoutError = True"
| "is_OSError _ = False"

definition rbind :: "'a res \<Rightarrow> ('a \<Rightarrow> 'b res) \<Rightarrow> 'b res" where
  "rbind r f = (case r of Inl e \<Rightarrow> Inl e | Inr x \<Rightarrow> f x)"

definition ensure :: "bool \<Rightarrow> exn \<Rightarrow> unit res" where
  "ensure b e = (if b then Inr () else Inl e)"

text \<open>\<open>try: r except P: h\<close>.\<close>

definition catch :: "'a res \<Rightarrow> (exn \<Rightarrow> bool) \<Rightarrow> (exn \<Rightarrow> 'a res) \<Rightarrow> 'a res" where
  "catch r P h = (case r of Inl e \<Rightarrow> if P e then h e else Inl e | Inr x \<Rightarrow> Inr x)"

definition of_option :: "exn \<Rightarrow> 'a option \<Rightarrow> 'a res" where
  "of_option e x = (case x of None \<Rightarrow> Inl e | Some y \<Rightarrow> Inr y)"

definition ok :: "'a res \<Rightarrow> bool" where
  "ok r = (case r of Inl _ \<Rightarrow> False | Inr _ \<Rightarrow> True)"

fun rmap :: "('a \<Rightarrow> 'b res) \<Rightarrow> 'a list \<Rightarrow> 'b list res" where
  "rmap f [] = Inr []"
| "rmap f (x # xs) = rbind (f x) (\<lambda>y. rbind (rmap f xs) (\<lambda>ys. Inr (y # ys)))"

named_theorems res_simps "equations and inversions of the result operations"

lemma rbind_simps [simp]:
  "rbind (Inl e) f = Inl e"
  "rbind (Inr x) f = f x"
  by (simp_all add: rbind_def)

lemma rbind_eq_Inr [res_simps]: "rbind r f = Inr y \<longleftrightarrow> (\<exists>x. r = Inr x \<and> f x = Inr y)"
  by (cases r) auto

lemma rbind_eq_Inl [res_simps]:
  "rbind r f = Inl e \<longleftrightarrow> r = Inl e \<or> (\<exists>x. r = Inr x \<and> f x = Inl e)"
  by (cases r) auto

lemma ensure_eq_Inr [res_simps]: "ensure b e = Inr u \<longleftrightarrow> b"
  by (simp add: ensure_def)

lemma ensure_eq_Inl [res_simps]: "ensure b e = Inl e' \<longleftrightarrow> \<not> b \<and> e' = e"
  by (auto simp: ensure_def)

lemma ensure_simps [simp]:
  "ensure True e = Inr ()"
  "ensure False e = Inl e"
  by (simp_all add: ensure_def)

lemma of_option_eq_Inr [res_simps]: "of_option e x = Inr y \<longleftrightarrow> x = Some y"
  by (auto simp: of_option_def split: option.splits)

lemma of_option_simps [simp]:
  "of_option e None = Inl e"
  "of_option e (Some x) = Inr x"
  by (simp_all add: of_option_def)

lemma of_option_eq_Inl [res_simps]: "of_option e x = Inl e' \<longleftrightarrow> x = None \<and> e' = e"
  by (auto simp: of_option_def split: option.splits)

lemma catch_simps [simp]:
  "catch (Inr x) P h = Inr x"
  "P e \<Longrightarrow> catch (Inl e) P h = h e"
  "\<not> P e \<Longrightarrow> catch (Inl e) P h = Inl e"
  by (simp_all add: catch_def)

lemma catch_eq_Inr [res_simps]:
  "catch r P h = Inr y \<longleftrightarrow> r = Inr y \<or> (\<exists>e. r = Inl e \<and> P e \<and> h e = Inr y)"
  by (cases r) (auto simp: catch_def)

lemma catch_eq_Inl [res_simps]:
  "catch r P h = Inl e \<longleftrightarrow> (\<exists>e'. r = Inl e' \<and> (if P e' then h e' = Inl e else e = e'))"
  by (cases r) (auto simp: catch_def)

lemma ok_simps [simp]: "ok (Inr x)" "\<not> ok (Inl e)"
  by (simp_all add: ok_def)

lemma ok_iff: "ok r \<longleftrightarrow> (\<exists>x. r = Inr x)"
  by (cases r) auto

lemma rmap_Inr_map: "(\<And>x. x \<in> set xs \<Longrightarrow> f x = Inr (g x)) \<Longrightarrow> rmap f xs = Inr (map g xs)"
  by (induction xs) auto

lemma rmap_Inr_D: "rmap f xs = Inr ys \<Longrightarrow> list_all2 (\<lambda>x y. f x = Inr y) xs ys"
  by (induction xs arbitrary: ys) (auto simp: res_simps)

section \<open>Operations with a state\<close>

text \<open>
  An operation that changes a state and returns or raises; what was changed before an exception
  stays changed.
\<close>

type_synonym ('s, 'a) act = "'s \<Rightarrow> 'a res \<times> 's"

definition io_return :: "'a \<Rightarrow> ('s, 'a) act" where
  "io_return x c = (Inr x, c)"

definition io_raise :: "exn \<Rightarrow> ('s, 'a) act" where
  "io_raise e c = (Inl e, c)"

definition io_bind :: "('s, 'a) act \<Rightarrow> ('a \<Rightarrow> ('s, 'b) act) \<Rightarrow> ('s, 'b) act" where
  "io_bind m f c = (case m c of (Inl e, c') \<Rightarrow> (Inl e, c') | (Inr x, c') \<Rightarrow> f x c')"

definition io_lift :: "'a res \<Rightarrow> ('s, 'a) act" where
  "io_lift r c = (r, c)"

definition io_ensure :: "bool \<Rightarrow> exn \<Rightarrow> ('s, unit) act" where
  "io_ensure b e = (if b then io_return () else io_raise e)"

named_theorems io_simps "the operations of a connection"

lemma io_bind_simps [simp]:
  "m c = (Inl e, c') \<Longrightarrow> io_bind m f c = (Inl e, c')"
  "m c = (Inr x, c') \<Longrightarrow> io_bind m f c = f x c'"
  by (simp_all add: io_bind_def)

lemma io_bind_eq_Inr [io_simps]:
  "io_bind m f c = (Inr y, c') \<longleftrightarrow> (\<exists>x c1. m c = (Inr x, c1) \<and> f x c1 = (Inr y, c'))"
  by (auto simp: io_bind_def split: prod.splits sum.splits)

lemma io_bind_cases:
  assumes "io_bind m f c = (r, c')"
  obtains (fails) e where "m c = (Inl e, c')" and "r = Inl e"
    | (runs) x c1 where "m c = (Inr x, c1)" and "f x c1 = (r, c')"
  using assms by (auto simp: io_bind_def split: prod.splits sum.splits)

lemma io_return_eq [io_simps]: "io_return x c = (r, c') \<longleftrightarrow> r = Inr x \<and> c' = c"
  by (auto simp: io_return_def)

lemma io_raise_eq [io_simps]: "io_raise e c = (r, c') \<longleftrightarrow> r = Inl e \<and> c' = c"
  by (auto simp: io_raise_def)

lemma io_lift_eq: "io_lift x c = (r, c') \<longleftrightarrow> x = r \<and> c' = c"
  by (auto simp: io_lift_def)

lemma io_ensure_Inr [io_simps]: "io_ensure b e c = (Inr u, c') \<longleftrightarrow> b \<and> c' = c"
  by (auto simp: io_ensure_def io_return_def io_raise_def)

section \<open>Characters\<close>

abbreviation code :: "char \<Rightarrow> nat" where
  "code c \<equiv> of_char c"

abbreviation chr :: "nat \<Rightarrow> char" where
  "chr n \<equiv> char_of n"

definition CR :: char where "CR = CHR 0x0D"
definition LF :: char where "LF = CHR 0x0A"
definition CRLF :: string where "CRLF = [CHR 0x0D, CHR 0x0A]"

definition is_ascii :: "char \<Rightarrow> bool" where
  "is_ascii c \<longleftrightarrow> code c < 128"

text \<open>\<open>str.isspace\<close> below 256.\<close>

definition is_space :: "char \<Rightarrow> bool" where
  "is_space c = (let n = code c in
     (9 \<le> n \<and> n \<le> 13) \<or> (28 \<le> n \<and> n \<le> 32) \<or> n = 133 \<or> n = 160)"

text \<open>The whitespace of \<open>bytes.strip\<close>.\<close>

definition is_bspace :: "char \<Rightarrow> bool" where
  "is_bspace c = (let n = code c in (9 \<le> n \<and> n \<le> 13) \<or> n = 32)"

definition is_digit :: "char \<Rightarrow> bool" where
  "is_digit c = (let n = code c in 48 \<le> n \<and> n \<le> 57)"

definition is_upper :: "char \<Rightarrow> bool" where
  "is_upper c = (let n = code c in 65 \<le> n \<and> n \<le> 90)"

definition is_lower :: "char \<Rightarrow> bool" where
  "is_lower c = (let n = code c in 97 \<le> n \<and> n \<le> 122)"

text \<open>\<open>str.isalnum\<close> on ASCII characters, which is where the code applies it.\<close>

definition is_alnum :: "char \<Rightarrow> bool" where
  "is_alnum c \<longleftrightarrow> is_digit c \<or> is_upper c \<or> is_lower c"

definition lower_char :: "char \<Rightarrow> char" where
  "lower_char c = (let n = code c in
     if (65 \<le> n \<and> n \<le> 90) \<or> (192 \<le> n \<and> n \<le> 222 \<and> n \<noteq> 215) then chr (n + 32) else c)"

definition upper_char :: "char \<Rightarrow> char" where
  "upper_char c = (let n = code c in
     if (97 \<le> n \<and> n \<le> 122) \<or> (224 \<le> n \<and> n \<le> 254 \<and> n \<noteq> 247) then chr (n - 32) else c)"

lemma code_chr [simp]: "n < 256 \<Longrightarrow> code (chr n) = n"
  by simp

lemma code_inj: "code c = code d \<Longrightarrow> c = d"
  by simp

lemma lower_char_idem [simp]: "lower_char (lower_char c) = lower_char c"
  by (auto simp: lower_char_def Let_def)

lemma is_space_lower [simp]: "is_space (lower_char c) = is_space c"
  by (auto simp: lower_char_def is_space_def Let_def)

section \<open>Strings\<close>

definition lower :: "string \<Rightarrow> string" where
  "lower s = map lower_char s"

definition upper :: "string \<Rightarrow> string" where
  "upper s = map upper_char s"

definition lstrip_by :: "(char \<Rightarrow> bool) \<Rightarrow> string \<Rightarrow> string" where
  "lstrip_by P s = dropWhile P s"

definition rstrip_by :: "(char \<Rightarrow> bool) \<Rightarrow> string \<Rightarrow> string" where
  "rstrip_by P s = rev (dropWhile P (rev s))"

definition strip_by :: "(char \<Rightarrow> bool) \<Rightarrow> string \<Rightarrow> string" where
  "strip_by P s = rstrip_by P (lstrip_by P s)"

definition strip :: "string \<Rightarrow> string" where
  "strip s = strip_by is_space s"

definition bstrip :: "string \<Rightarrow> string" where
  "bstrip s = strip_by is_bspace s"

text \<open>\<open>s.startswith(p)\<close>, \<open>s.endswith(p)\<close> and \<open>p in s\<close>.\<close>

fun starts_with :: "string \<Rightarrow> string \<Rightarrow> bool" where
  "starts_with [] s = True"
| "starts_with (c # p) [] = False"
| "starts_with (c # p) (d # s) = (c = d \<and> starts_with p s)"

definition ends_with :: "string \<Rightarrow> string \<Rightarrow> bool" where
  "ends_with p s = starts_with (rev p) (rev s)"

fun contains :: "string \<Rightarrow> string \<Rightarrow> bool" where
  "contains p [] = (p = [])"
| "contains p (c # s) = (starts_with p (c # s) \<or> contains p s)"

text \<open>\<open>s.split(c)\<close>, \<open>s.split(c, 1)\<close>, \<open>s.rsplit(c, 1)\<close> for a one-character separator.\<close>

fun split_on :: "char \<Rightarrow> string \<Rightarrow> string list" where
  "split_on c [] = [[]]"
| "split_on c (d # s) =
     (if d = c then [] # split_on c s
      else (case split_on c s of [] \<Rightarrow> [[d]] | p # ps \<Rightarrow> (d # p) # ps))"

fun split1 :: "char \<Rightarrow> string \<Rightarrow> (string \<times> string) option" where
  "split1 c [] = None"
| "split1 c (d # s) =
     (if d = c then Some ([], s) else map_option (\<lambda>(a, b). (d # a, b)) (split1 c s))"

definition before :: "char \<Rightarrow> string \<Rightarrow> string" where
  "before c s = takeWhile (\<lambda>d. d \<noteq> c) s"

definition rsplit1 :: "char \<Rightarrow> string \<Rightarrow> (string \<times> string) option" where
  "rsplit1 c s = map_option (\<lambda>(a, b). (rev b, rev a)) (split1 c (rev s))"

fun join :: "string \<Rightarrow> string list \<Rightarrow> string" where
  "join sep [] = []"
| "join sep [x] = x"
| "join sep (x # y # ys) = x @ sep @ join sep (y # ys)"

text \<open>\<open>s.split()\<close>.\<close>

fun words_aux :: "string \<Rightarrow> string \<Rightarrow> string list" where
  "words_aux cur [] = (if cur = [] then [] else [rev cur])"
| "words_aux cur (c # s) =
     (if is_space c then (if cur = [] then words_aux [] s else rev cur # words_aux [] s)
      else words_aux (c # cur) s)"

definition words :: "string \<Rightarrow> string list" where
  "words s = words_aux [] s"

text \<open>The text before the first occurrence of a separator string, and what follows it.\<close>

fun split_at :: "string \<Rightarrow> string \<Rightarrow> (string \<times> string) option" where
  "split_at p [] = (if p = [] then Some ([], []) else None)"
| "split_at p (c # s) =
     (if starts_with p (c # s) then Some ([], drop (length p) (c # s))
      else map_option (\<lambda>(a, b). (c # a, b)) (split_at p s))"

lemma starts_with_iff: "starts_with p s \<longleftrightarrow> (\<exists>t. s = p @ t)"
  by (induction p s rule: starts_with.induct) auto

lemma starts_with_append [simp]: "starts_with p (p @ s)"
  by (auto simp: starts_with_iff)

lemma contains_iff: "contains p s \<longleftrightarrow> (\<exists>a b. s = a @ p @ b)"
proof (induction s)
  case Nil
  then show ?case by auto
next
  case (Cons c s)
  note IH = Cons
  show ?case
  proof
    assume "contains p (c # s)"
    then consider "starts_with p (c # s)" | "contains p s" by auto
    then show "\<exists>a b. c # s = a @ p @ b"
    proof cases
      case 1
      then obtain t where "c # s = p @ t" by (auto simp: starts_with_iff)
      then have "c # s = [] @ p @ t" by simp
      then show ?thesis by blast
    next
      case 2
      then obtain a b where "s = a @ p @ b" using Cons by blast
      then have "c # s = (c # a) @ p @ b" by simp
      then show ?thesis by blast
    qed
  next
    assume "\<exists>a b. c # s = a @ p @ b"
    then obtain a b where ab: "c # s = a @ p @ b" by blast
    show "contains p (c # s)"
    proof (cases a)
      case Nil
      with ab have "starts_with p (c # s)" by (auto simp: starts_with_iff)
      then show ?thesis by simp
    next
      case (Cons a0 a')
      with ab have "s = a' @ p @ b" by simp
      with IH have "contains p s" by blast
      then show ?thesis by simp
    qed
  qed
qed

lemma split_on_nonempty [simp]: "split_on c s \<noteq> []"
  by (induction s) (auto split: list.splits)

lemma split_on_notin [simp]: "c \<notin> set s \<Longrightarrow> split_on c s = [s]"
  by (induction s) auto

lemma split_on_append: "c \<notin> set a \<Longrightarrow> split_on c (a @ c # s) = a # split_on c s"
  by (induction a) auto

lemma split_on_parts: "p \<in> set (split_on c s) \<Longrightarrow> c \<notin> set p"
  by (induction s arbitrary: p) (auto split: if_splits list.splits)

lemma join_split_on: "join [c] (split_on c s) = s"
proof (induction s)
  case Nil
  then show ?case by simp
next
  case (Cons d s)
  obtain p ps where "split_on c s = p # ps"
    by (cases "split_on c s") auto
  with Cons show ?case by (cases ps) auto
qed

lemma split_on_join:
  "ps \<noteq> [] \<Longrightarrow> (\<And>p. p \<in> set ps \<Longrightarrow> c \<notin> set p) \<Longrightarrow> split_on c (join [c] ps) = ps"
  by (induction "[c]" ps rule: join.induct) (auto simp: split_on_append)

lemma split1_append: "c \<notin> set a \<Longrightarrow> split1 c (a @ c # b) = Some (a, b)"
  by (induction a) auto

lemma split1_None_iff: "split1 c s = None \<longleftrightarrow> c \<notin> set s"
  by (induction s) auto

lemma split1_Some: "split1 c s = Some (a, b) \<longleftrightarrow> s = a @ c # b \<and> c \<notin> set a"
proof
  show "split1 c s = Some (a, b) \<Longrightarrow> s = a @ c # b \<and> c \<notin> set a"
    by (induction s arbitrary: a) (auto split: if_splits)
qed (auto simp: split1_append)

lemma rsplit1_Some: "rsplit1 c s = Some (a, b) \<longleftrightarrow> s = a @ c # b \<and> c \<notin> set b"
proof
  assume "rsplit1 c s = Some (a, b)"
  then have "split1 c (rev s) = Some (rev b, rev a)"
    by (auto simp: rsplit1_def)
  then have "rev s = rev b @ c # rev a" and "c \<notin> set b"
    by (auto simp: split1_Some)
  then show "s = a @ c # b \<and> c \<notin> set b"
    by (metis append.assoc append_Cons append_Nil rev.simps(2) rev_append rev_rev_ident)
next
  assume "s = a @ c # b \<and> c \<notin> set b"
  then have "split1 c (rev s) = Some (rev b, rev a)"
    by (auto simp: split1_Some)
  then show "rsplit1 c s = Some (a, b)"
    by (simp add: rsplit1_def)
qed

lemma rsplit1_append: "c \<notin> set b \<Longrightarrow> rsplit1 c (a @ c # b) = Some (a, b)"
  by (simp add: rsplit1_Some)

lemma rsplit1_None_iff: "rsplit1 c s = None \<longleftrightarrow> c \<notin> set s"
  by (simp add: rsplit1_def split1_None_iff)

lemma lower_idem [simp]: "lower (lower s) = lower s"
  by (simp add: lower_def)

lemma lower_append [simp]: "lower (s @ t) = lower s @ lower t"
  by (simp add: lower_def)

lemma dropWhile_hd_idem: "dropWhile P (dropWhile P s) = dropWhile P s"
  by (induction s) auto

lemma dropWhile_hd: "dropWhile P s \<noteq> [] \<Longrightarrow> \<not> P (hd (dropWhile P s))"
  by (induction s) auto

lemma rstrip_lstrip_hd:
  assumes "rstrip_by P (dropWhile P s) \<noteq> []"
  shows "\<not> P (hd (rstrip_by P (dropWhile P s)))"
proof -
  let ?t = "dropWhile P s"
  have "?t \<noteq> []"
    using assms by (cases ?t) (simp_all add: rstrip_by_def)
  then have hd: "\<not> P (hd ?t)" by (rule dropWhile_hd)
  obtain w where "rev ?t = w @ dropWhile P (rev ?t)"
    by (metis takeWhile_dropWhile_id)
  then have t: "?t = rstrip_by P ?t @ rev w"
    unfolding rstrip_by_def by (metis rev_append rev_rev_ident)
  have "hd ?t = hd (rstrip_by P ?t)"
    using assms t by (metis hd_append2)
  with hd show ?thesis by simp
qed

lemma strip_by_fix:
  assumes "s \<noteq> [] \<Longrightarrow> \<not> P (hd s)" and "s \<noteq> [] \<Longrightarrow> \<not> P (last s)"
  shows "strip_by P s = s"
proof (cases "s = []")
  case True
  then show ?thesis by (simp add: strip_by_def lstrip_by_def rstrip_by_def)
next
  case False
  with assms(1) have l: "dropWhile P s = s"
    by (cases s) auto
  from False assms(2) have "dropWhile P (rev s) = rev s"
    by (cases "rev s") (auto simp: hd_rev [symmetric])
  with l show ?thesis by (simp add: strip_by_def lstrip_by_def rstrip_by_def)
qed

lemma strip_by_hd: "strip_by P s \<noteq> [] \<Longrightarrow> \<not> P (hd (strip_by P s))"
  unfolding strip_by_def lstrip_by_def by (rule rstrip_lstrip_hd)

lemma rstrip_by_last: "rstrip_by P s \<noteq> [] \<Longrightarrow> \<not> P (last (rstrip_by P s))"
  using dropWhile_hd [of P "rev s"] unfolding rstrip_by_def last_rev rev_is_Nil_conv .

lemma strip_by_idem: "strip_by P (strip_by P s) = strip_by P s"
proof (rule strip_by_fix)
  show "strip_by P s \<noteq> [] \<Longrightarrow> \<not> P (hd (strip_by P s))" by (rule strip_by_hd)
  show "strip_by P s \<noteq> [] \<Longrightarrow> \<not> P (last (strip_by P s))"
    unfolding strip_by_def by (rule rstrip_by_last)
qed

lemma strip_idem [simp]: "strip (strip s) = strip s"
  by (simp add: strip_def strip_by_idem)

lemma strip_Nil [simp]: "strip [] = []"
  by (simp add: strip_def strip_by_def lstrip_by_def rstrip_by_def)

lemma strip_nospace: "(\<And>c. c \<in> set s \<Longrightarrow> \<not> is_space c) \<Longrightarrow> strip s = s"
  unfolding strip_def by (rule strip_by_fix) auto

lemma set_strip: "set (strip s) \<subseteq> set s"
  by (auto simp: strip_def strip_by_def lstrip_by_def rstrip_by_def dest!: set_dropWhileD)

section \<open>Numbers in text\<close>

text \<open>\<open>str(n)\<close> for base 10 and the \<open>%x\<close> format for base 16.\<close>

definition hexdigit :: "nat \<Rightarrow> char" where
  "hexdigit n = ''0123456789abcdef'' ! n"

fun digits :: "nat \<Rightarrow> nat \<Rightarrow> string" where
  "digits b n =
     (if b < 2 \<or> n < b then [hexdigit n] else digits b (n div b) @ [hexdigit (n mod b)])"

declare digits.simps [simp del]

abbreviation dec :: "nat \<Rightarrow> string" where
  "dec n \<equiv> digits 10 n"

abbreviation hex :: "nat \<Rightarrow> string" where
  "hex n \<equiv> digits 16 n"

definition str_of_int :: "int \<Rightarrow> string" where
  "str_of_int i = (if i < 0 then CHR ''-'' # dec (nat (- i)) else dec (nat i))"

definition digit_val :: "char \<Rightarrow> nat" where
  "digit_val c = (let n = code c in
     if 48 \<le> n \<and> n \<le> 57 then n - 48
     else if 97 \<le> n \<and> n \<le> 122 then n - 87
     else if 65 \<le> n \<and> n \<le> 90 then n - 55
     else 36)"

definition digits_val :: "nat \<Rightarrow> string \<Rightarrow> nat" where
  "digits_val b s = foldl (\<lambda>acc c. acc * b + digit_val c) 0 s"

text \<open>
  \<open>int(s, b)\<close>: surrounding whitespace, one sign, an optional \<open>0x\<close> for base 16, and single
  underscores between digits. \<open>None\<close> is the \<open>ValueError\<close>. (The limit of 4300 digits is not
  modelled.)
\<close>

fun underscores_ok :: "string \<Rightarrow> bool" where
  "underscores_ok [] = True"
| "underscores_ok [c] = (c \<noteq> CHR ''_'')"
| "underscores_ok (c # d # s) =
     (\<not> (c = CHR ''_'' \<and> d = CHR ''_'') \<and> underscores_ok (d # s))"

definition py_nat :: "nat \<Rightarrow> string \<Rightarrow> nat option" where
  "py_nat b s =
     (if s \<noteq> [] \<and> hd s \<noteq> CHR ''_'' \<and> underscores_ok s
         \<and> list_all (\<lambda>c. c = CHR ''_'' \<or> digit_val c < b) s
      then Some (digits_val b (filter (\<lambda>c. c \<noteq> CHR ''_'') s)) else None)"

definition drop_hex_prefix :: "string \<Rightarrow> string" where
  "drop_hex_prefix s =
     (if starts_with ''0x_'' s \<or> starts_with ''0X_'' s then drop 3 s
      else if starts_with ''0x'' s \<or> starts_with ''0X'' s then drop 2 s else s)"

definition py_int_signed :: "nat \<Rightarrow> string \<Rightarrow> int option" where
  "py_int_signed b s =
     (let body = (\<lambda>u. py_nat b (if b = 16 then drop_hex_prefix u else u)) in
      if starts_with ''-'' s then map_option (\<lambda>n. - int n) (body (tl s))
      else if starts_with ''+'' s then map_option int (body (tl s))
      else map_option int (body s))"

definition py_int :: "string \<Rightarrow> int option" where
  "py_int s = py_int_signed 10 (strip s)"

text \<open>\<open>int(b, 16)\<close> on \<open>bytes\<close>.\<close>

definition py_int_hex :: "string \<Rightarrow> int option" where
  "py_int_hex s = py_int_signed 16 (bstrip s)"

definition is_hexchar :: "char \<Rightarrow> bool" where
  "is_hexchar c \<longleftrightarrow> (48 \<le> code c \<and> code c \<le> 57) \<or> (97 \<le> code c \<and> code c \<le> 102)"

lemma code_hexdigit: "n < 16 \<Longrightarrow> code (hexdigit n) = (if n < 10 then 48 + n else 87 + n)"
proof -
  assume "n < 16"
  moreover have "list_all (\<lambda>n. code (hexdigit n) = (if n < 10 then 48 + n else 87 + n)) [0..<16]"
    by code_simp
  ultimately show ?thesis by (simp add: list_all_iff)
qed

lemma digit_val_hexdigit: "n < 16 \<Longrightarrow> digit_val (hexdigit n) = n"
  by (simp add: digit_val_def code_hexdigit Let_def)

lemma is_hexchar_hexdigit: "n < 16 \<Longrightarrow> is_hexchar (hexdigit n)"
  by (simp add: is_hexchar_def code_hexdigit)

lemma is_hexchar_neq:
  assumes "is_hexchar c" and "\<not> is_hexchar d"
  shows "c \<noteq> d"
  using assms by blast

lemma is_hexchar_facts:
  assumes "is_hexchar c"
  shows "\<not> is_space c" "\<not> is_bspace c" "is_ascii c" "is_alnum c" "lower_char c = c"
    "c \<noteq> CHR ''_''" "c \<noteq> CHR ''-''" "c \<noteq> CHR ''+''" "c \<noteq> CHR ''x''" "c \<noteq> CHR ''X''"
    "c \<noteq> CHR '':''" "c \<noteq> CHR ''.''" "c \<noteq> CHR ''%''" "c \<noteq> CHR ''/''" "c \<noteq> CHR ''[''"
    "c \<noteq> CHR '']''"
  using assms
  by (auto simp: is_hexchar_def is_space_def is_bspace_def is_ascii_def is_alnum_def
      is_digit_def is_lower_def lower_char_def Let_def)

lemma digits_chars:
  assumes "2 \<le> b" and "b \<le> 16" and "c \<in> set (digits b n)"
  shows "is_hexchar c \<and> digit_val c < b"
  using assms
proof (induction b n rule: digits.induct)
  case (1 b n)
  have m: "n mod b < b" "n mod b < 16"
    using "1.prems"(1,2) mod_less_divisor [of b n] by linarith+
  show ?case
  proof (cases "n < b")
    case True
    with "1.prems" have "c = hexdigit n" by (subst (asm) digits.simps) simp
    with True "1.prems" show ?thesis
      by (simp add: digit_val_hexdigit is_hexchar_hexdigit)
  next
    case False
    with "1.prems" have "c \<in> set (digits b (n div b)) \<or> c = hexdigit (n mod b)"
      by (subst (asm) digits.simps) auto
    then show ?thesis
    proof
      assume "c \<in> set (digits b (n div b))"
      with False "1" show ?thesis by simp
    next
      assume "c = hexdigit (n mod b)"
      with m show ?thesis by (simp add: digit_val_hexdigit is_hexchar_hexdigit)
    qed
  qed
qed

lemma digits_nonempty [simp]: "digits b n \<noteq> []" "[] \<noteq> digits b n"
  by (subst digits.simps, simp)+

lemma digits_val_snoc: "digits_val b (s @ [c]) = digits_val b s * b + digit_val c"
  by (simp add: digits_val_def)

lemma digits_val_digits:
  assumes "2 \<le> b" and "b \<le> 16"
  shows "digits_val b (digits b n) = n"
  using assms
proof (induction b n rule: digits.induct)
  case (1 b n)
  have m: "n mod b < 16"
    using "1.prems" mod_less_divisor [of b n] by linarith
  show ?case
  proof (cases "n < b")
    case True
    with "1.prems" show ?thesis
      by (subst digits.simps) (simp add: digits_val_def digit_val_hexdigit)
  next
    case False
    with "1.IH" "1.prems" have ih: "digits_val b (digits b (n div b)) = n div b" by simp
    have "digits_val b (digits b n) = n div b * b + n mod b"
      using False "1.prems" m
      by (subst digits.simps) (simp add: digits_val_snoc ih digit_val_hexdigit)
    then show ?thesis by simp
  qed
qed

lemma dec_chars: "c \<in> set (dec n) \<Longrightarrow> is_hexchar c \<and> digit_val c < 10"
  by (rule digits_chars) auto

lemma hex_chars: "c \<in> set (hex n) \<Longrightarrow> is_hexchar c"
  using digits_chars [of 16 c n] by auto

lemma underscores_ok_none: "(\<And>c. c \<in> set s \<Longrightarrow> c \<noteq> CHR ''_'') \<Longrightarrow> underscores_ok s"
  by (induction s rule: underscores_ok.induct) auto

lemma py_nat_digits:
  assumes "2 \<le> b" and "b \<le> 16"
  shows "py_nat b (digits b n) = Some n"
proof -
  have ch: "\<And>c. c \<in> set (digits b n) \<Longrightarrow> c \<noteq> CHR ''_'' \<and> digit_val c < b"
    using digits_chars [OF assms] is_hexchar_facts(6) by blast
  then have f: "filter (\<lambda>c. c \<noteq> CHR ''_'') (digits b n) = digits b n"
    by (simp add: filter_id_conv)
  have hd: "hd (digits b n) \<noteq> CHR ''_''"
    using ch by simp
  have us: "underscores_ok (digits b n)"
    using ch by (intro underscores_ok_none) blast
  have all: "list_all (\<lambda>c. c = CHR ''_'' \<or> digit_val c < b) (digits b n)"
    using ch by (simp add: list_all_iff)
  show ?thesis
    by (simp add: py_nat_def f hd us all digits_val_digits [OF assms])
qed

lemma strip_dec [simp]: "strip (dec n) = dec n"
  using dec_chars is_hexchar_facts(1) by (intro strip_nospace) blast

lemma starts_with_hd: "starts_with [c] s \<longleftrightarrow> s \<noteq> [] \<and> hd s = c"
  by (cases s) auto

lemma py_int_dec [simp]: "py_int (dec n) = Some (int n)"
proof -
  have "is_hexchar (hd (dec n))" using dec_chars [of "hd (dec n)" n] by simp
  then have "hd (dec n) \<noteq> CHR ''-''" and "hd (dec n) \<noteq> CHR ''+''"
    by (rule is_hexchar_facts)+
  then show ?thesis
    using py_nat_digits [of 10 n]
    by (simp add: py_int_def py_int_signed_def Let_def starts_with_hd)
qed

lemma str_of_int_nonneg: "0 \<le> i \<Longrightarrow> str_of_int i = dec (nat i)"
  by (simp add: str_of_int_def)

lemma py_int_str_of_int: "0 \<le> i \<Longrightarrow> py_int (str_of_int i) = Some i"
  by (simp add: str_of_int_nonneg)

section \<open>Bytes\<close>

text \<open>\<open>str.encode()\<close> (UTF-8) below 256, and \<open>n.to_bytes(2, "big")\<close>.\<close>

definition utf8_char :: "char \<Rightarrow> string" where
  "utf8_char c = (let n = code c in
     if n < 128 then [c] else [chr (192 + n div 64), chr (128 + n mod 64)])"

definition utf8 :: "string \<Rightarrow> string" where
  "utf8 s = concat (map utf8_char s)"

definition be16 :: "nat \<Rightarrow> string" where
  "be16 n = [chr (n div 256), chr (n mod 256)]"

definition of_be16 :: "string \<Rightarrow> nat" where
  "of_be16 s = code (s ! 0) * 256 + code (s ! 1)"

lemma of_be16_be16: "n < 65536 \<Longrightarrow> of_be16 (be16 n) = n"
  by (simp add: of_be16_def be16_def)

lemma length_be16 [simp]: "length (be16 n) = 2"
  by (simp add: be16_def)

lemma utf8_ascii: "(\<And>c. c \<in> set s \<Longrightarrow> is_ascii c) \<Longrightarrow> utf8 s = s"
  by (induction s) (auto simp: utf8_def utf8_char_def is_ascii_def Let_def)

end
