(* ===== verification/Py_Json.thy ===== *)
theory Py_Json
  imports Gw_Prelude Complex_Main
begin

text \<open>
  The values that \<open>json.loads\<close> makes and the dynamically typed operations the code applies to
  them: truth, \<open>isinstance\<close>, \<open>dict.get\<close>, \<open>str\<close>, \<open>int\<close>, \<open>==\<close>. A JSON object is an association
  list in insertion order with distinct keys. Non-finite floats are not modelled.
\<close>

datatype json =
    JNull
  | JBool bool
  | JInt int
  | JFloat rat
  | JStr string
  | JArr "json list"
  | JObj "(string \<times> json) list"

type_synonym dict = "(string \<times> json) list"

text \<open>
  What the model takes from the Python runtime as a function argument: the text \<open>str\<close> makes of
  a float, a list or a dict, and the IDNA codec on names that are not ASCII. No branch of the
  code depends on more than the result, so every theorem quantifies over both.
\<close>

record pyrt =
  rt_repr :: "json \<Rightarrow> string"
  rt_idna :: "string \<Rightarrow> string option"

fun truthy :: "json \<Rightarrow> bool" where
  "truthy JNull = False"
| "truthy (JBool b) = b"
| "truthy (JInt i) = (i \<noteq> 0)"
| "truthy (JFloat q) = (q \<noteq> 0)"
| "truthy (JStr s) = (s \<noteq> [])"
| "truthy (JArr xs) = (xs \<noteq> [])"
| "truthy (JObj kvs) = (kvs \<noteq> [])"

text \<open>\<open>v or d\<close>, \<open>m.get(k, d)\<close> and \<open>m.get(k)\<close>.\<close>

definition or_else :: "json \<Rightarrow> json \<Rightarrow> json" where
  "or_else v d = (if truthy v then v else d)"

definition get_default :: "dict \<Rightarrow> string \<Rightarrow> json \<Rightarrow> json" where
  "get_default m k d = (case map_of m k of None \<Rightarrow> d | Some v \<Rightarrow> v)"

definition get :: "dict \<Rightarrow> string \<Rightarrow> json" where
  "get m k = get_default m k JNull"

text \<open>\<open>m[k]\<close>.\<close>

definition item :: "dict \<Rightarrow> string \<Rightarrow> json res" where
  "item m k = of_option KeyError (map_of m k)"

fun is_JObj :: "json \<Rightarrow> bool" where
  "is_JObj (JObj _) = True"
| "is_JObj _ = False"

fun is_JStr :: "json \<Rightarrow> bool" where
  "is_JStr (JStr _) = True"
| "is_JStr _ = False"

fun as_dict :: "json \<Rightarrow> dict option" where
  "as_dict (JObj m) = Some m"
| "as_dict _ = None"

fun as_list :: "json \<Rightarrow> json list option" where
  "as_list (JArr xs) = Some xs"
| "as_list _ = None"

text \<open>The dicts of a list, as \<open>[e for e in xs if isinstance(e, dict)]\<close>.\<close>

definition dicts :: "json list \<Rightarrow> dict list" where
  "dicts xs = List.map_filter as_dict xs"

fun py_str :: "pyrt \<Rightarrow> json \<Rightarrow> string" where
  "py_str rt JNull = ''None''"
| "py_str rt (JBool b) = (if b then ''True'' else ''False'')"
| "py_str rt (JInt i) = str_of_int i"
| "py_str rt (JStr s) = s"
| "py_str rt v = rt_repr rt v"

text \<open>\<open>int(v)\<close>.\<close>

fun json_int :: "json \<Rightarrow> int res" where
  "json_int (JBool b) = Inr (if b then 1 else 0)"
| "json_int (JInt i) = Inr i"
| "json_int (JFloat q) = Inr (if q < 0 then - \<lfloor>- q\<rfloor> else \<lfloor>q\<rfloor>)"
| "json_int (JStr s) = of_option (ValueError ''invalid literal for int()'') (py_int s)"
| "json_int _ = Inl TypeError"

fun num_of :: "json \<Rightarrow> rat option" where
  "num_of (JBool b) = Some (if b then 1 else 0)"
| "num_of (JInt i) = Some (of_int i)"
| "num_of (JFloat q) = Some q"
| "num_of _ = None"

text \<open>
  \<open>v == w\<close>: numbers compare across their types, dicts by their keys in any order.
\<close>

function (sequential) py_eq :: "json \<Rightarrow> json \<Rightarrow> bool" where
  "py_eq (JStr s) w = (w = JStr s)"
| "py_eq JNull w = (w = JNull)"
| "py_eq (JArr xs) w =
     (case w of JArr ys \<Rightarrow> length xs = length ys \<and> list_all (\<lambda>(x, y). py_eq x y) (zip xs ys)
      | _ \<Rightarrow> False)"
| "py_eq (JObj xs) w =
     (case w of JObj ys \<Rightarrow> length xs = length ys \<and>
        list_all (\<lambda>(k, x). case map_of ys k of None \<Rightarrow> False | Some y \<Rightarrow> py_eq x y) xs
      | _ \<Rightarrow> False)"
| "py_eq v w = (num_of v \<noteq> None \<and> num_of v = num_of w)"
  by pat_completeness auto

lemma size_in_list: "x \<in> set xs \<Longrightarrow> size x < Suc (size_list size xs)"
  using size_list_estimation' [of x xs "size x" size] by simp

lemma size_in_dict:
  "(k, x) \<in> set m \<Longrightarrow> size x < Suc (size_list (size_prod (\<lambda>x. 0) size) m)"
  using size_list_estimation' [of "(k, x)" m "size x" "size_prod (\<lambda>x. 0) size"] by simp

lemma size_in_zip:
  "(x, y) \<in> set (zip xs ys) \<Longrightarrow> size x < Suc (size_list size xs)"
  by (intro size_in_list) (rule set_zip_leftD)

termination py_eq
  by (relation "measure (\<lambda>(v, w). size v)") (auto intro: size_in_zip size_in_dict)

text \<open>\<open>m[k] = v\<close> and \<open>m.pop(k, None)\<close> on the association list.\<close>

abbreviation set_item :: "string \<Rightarrow> json \<Rightarrow> dict \<Rightarrow> dict" where
  "set_item k v m \<equiv> AList.update k v m"

abbreviation pop_item :: "string \<Rightarrow> dict \<Rightarrow> dict" where
  "pop_item k m \<equiv> AList.delete k m"

text \<open>
  A text that holds JSON is represented by what \<open>json.loads\<close> makes of it; \<open>EmptyText\<close> is the
  empty string and \<open>BadText\<close> any other text on which \<open>json.loads\<close> raises.
\<close>

datatype jtext = JText json | BadText | EmptyText

fun json_loads :: "jtext \<Rightarrow> json res" where
  "json_loads (JText v) = Inr v"
| "json_loads _ = Inl JSONDecodeError"

text \<open>\<open>json.dumps\<close> keeps the order of the keys, \<open>json.dumps(sort_keys=True)\<close> sorts them.\<close>

definition json_dumps :: "json \<Rightarrow> jtext" where
  "json_dumps v = JText v"

fun sort_keys :: "json \<Rightarrow> json" where
  "sort_keys (JArr xs) = JArr (map sort_keys xs)"
| "sort_keys (JObj m) = JObj (sort_key fst (map (\<lambda>(k, v). (k, sort_keys v)) m))"
| "sort_keys v = v"

definition json_dumps_sorted :: "json \<Rightarrow> jtext" where
  "json_dumps_sorted v = JText (sort_keys v)"

section \<open>Accesses to a value of unknown type\<close>

text \<open>Subscript, \<open>.get\<close>, \<open>.items()\<close>, iteration, as the code applies them to what it has parsed.\<close>

definition subscript :: "json \<Rightarrow> string \<Rightarrow> json res" where
  "subscript v k = (case v of JObj m \<Rightarrow> item m k | _ \<Rightarrow> Inl TypeError)"

definition attr_get :: "json \<Rightarrow> string \<Rightarrow> json res" where
  "attr_get v k = (case v of JObj m \<Rightarrow> Inr (get m k) | _ \<Rightarrow> Inl AttributeError)"

definition text_of :: "json \<Rightarrow> string res" where
  "text_of v = (case v of JStr s \<Rightarrow> Inr s | _ \<Rightarrow> Inl TypeError)"

definition items_of :: "json \<Rightarrow> dict res" where
  "items_of v = (case v of JObj m \<Rightarrow> Inr m | _ \<Rightarrow> Inl TypeError)"

definition elements_of :: "json \<Rightarrow> json list res" where
  "elements_of v = (case v of JArr xs \<Rightarrow> Inr xs | _ \<Rightarrow> Inl TypeError)"

definition first_of :: "json \<Rightarrow> json res" where
  "first_of v = (case v of JArr [] \<Rightarrow> Inl IndexError | JArr (x # _) \<Rightarrow> Inr x | JObj _ \<Rightarrow> Inl KeyError | _ \<Rightarrow> Inl TypeError)"

definition dict_attr :: "json \<Rightarrow> dict res" where
  "dict_attr v = (case v of JObj m \<Rightarrow> Inr m | _ \<Rightarrow> Inl AttributeError)"

text \<open>What a set or the keys of a dict can be asked for.\<close>

fun hashable :: "json \<Rightarrow> bool" where
  "hashable (JArr _) = False"
| "hashable (JObj _) = False"
| "hashable _ = True"

section \<open>Lemmas\<close>

named_theorems dict_simps "lookups in updated dicts"

lemma get_Nil [simp]: "get [] k = JNull"
  by (simp add: get_def get_default_def)

lemma get_Cons [simp]: "get ((k', v) # m) k = (if k = k' then v else get m k)"
  by (simp add: get_def get_default_def)

lemma get_default_Nil [simp]: "get_default [] k d = d"
  by (simp add: get_default_def)

lemma get_default_Cons [simp]:
  "get_default ((k', v) # m) k d = (if k = k' then v else get_default m k d)"
  by (simp add: get_default_def)

lemma get_update [dict_simps]: "get (AList.update k' v m) k = (if k = k' then v else get m k)"
  by (simp add: get_def get_default_def update_conv)

lemma map_of_update_item [dict_simps]:
  "map_of (AList.update k' v m) k = (if k = k' then Some v else map_of m k)"
  by (simp add: update_conv)

lemma or_else_simps [simp]:
  "truthy v \<Longrightarrow> or_else v d = v"
  "\<not> truthy v \<Longrightarrow> or_else v d = d"
  by (simp_all add: or_else_def)

lemma dicts_simps [simp]:
  "dicts [] = []"
  "dicts (JObj m # xs) = m # dicts xs"
  by (simp_all add: dicts_def List.map_filter_def)

lemma dicts_map_JObj [simp]: "dicts (map JObj ms) = ms"
  by (induction ms) auto

lemma dicts_append [simp]: "dicts (xs @ ys) = dicts xs @ dicts ys"
  by (simp add: dicts_def List.map_filter_def)

lemma set_dicts: "m \<in> set (dicts xs) \<longleftrightarrow> JObj m \<in> set xs"
  by (induction xs) (auto simp: dicts_def List.map_filter_def elim!: as_dict.elims)

lemma json_loads_dumps [simp]: "json_loads (json_dumps v) = Inr v"
  by (simp add: json_dumps_def)

lemma json_loads_dumps_sorted [simp]: "json_loads (json_dumps_sorted v) = Inr (sort_keys v)"
  by (simp add: json_dumps_sorted_def)

lemma map_of_sort_key:
  assumes "distinct (map fst m)"
  shows "map_of (sort_key fst m) = map_of m"
proof -
  have "distinct (map fst (sort_key fst m))"
    using assms by (simp add: distinct_map inj_on_def) 
  then show ?thesis
    using assms by (subst map_of_inject_set) simp_all
qed

lemma map_of_sort_keys:
  assumes "distinct (map fst m)" and "sort_keys (JObj m) = JObj m'"
  shows "map_of m' k = map_option sort_keys (map_of m k)"
proof -
  let ?g = "map (\<lambda>(k, v). (k, sort_keys v)) m"
  have "map fst ?g = map fst m" by (induction m) auto
  with assms(1) have "distinct (map fst ?g)" by metis
  then have "map_of (sort_key fst ?g) = map_of ?g" by (rule map_of_sort_key)
  moreover have "map_of ?g k = map_option sort_keys (map_of m k)"
    by (induction m) auto
  ultimately show ?thesis using assms(2) by simp
qed

lemma py_eq_refl_str [simp]: "py_eq (JStr s) (JStr s)"
  by simp

lemma text_of_Inr: "text_of v = Inr t \<longleftrightarrow> v = JStr t"
  by (cases v) (simp_all add: text_of_def)

end
