(* ===== verification/Py_Ip.thy ===== *)
theory Py_Ip
  imports Gw_Prelude
begin

text \<open>
  The part of Python 3.12's \<open>ipaddress\<close> module that the code uses: \<open>ip_address\<close>, the compressed
  text of an address, and \<open>ip_network(..., strict=False)\<close>. The main results are that printing
  and parsing an address are inverse, so that a normalised address is a fixed point of
  normalisation, and that a network contains the address it is made from.
\<close>

datatype ipaddr = V4 nat | V6 nat "string option"

section \<open>Parsing\<close>

definition parse_octet :: "string \<Rightarrow> nat option" where
  "parse_octet s =
     (if s \<noteq> [] \<and> list_all is_digit s \<and> length s \<le> 3 \<and> (s = ''0'' \<or> hd s \<noteq> CHR ''0'')
      then (let n = digits_val 10 s in if n \<le> 255 then Some n else None) else None)"

definition ipv4_of_string :: "string \<Rightarrow> nat option" where
  "ipv4_of_string s =
     (case split_on CHR ''.'' s of
        [a, b, c, d] \<Rightarrow>
          (case (parse_octet a, parse_octet b, parse_octet c, parse_octet d) of
             (Some w, Some x, Some y, Some z) \<Rightarrow> Some (((w * 256 + x) * 256 + y) * 256 + z)
           | _ \<Rightarrow> None)
      | _ \<Rightarrow> None)"

definition is_hexdigit :: "char \<Rightarrow> bool" where
  "is_hexdigit c \<longleftrightarrow> is_digit c \<or> (97 \<le> code c \<and> code c \<le> 102) \<or> (65 \<le> code c \<and> code c \<le> 70)"

definition parse_hextet :: "string \<Rightarrow> nat option" where
  "parse_hextet s =
     (if s \<noteq> [] \<and> list_all is_hexdigit s \<and> length s \<le> 4 then Some (digits_val 16 s) else None)"

fun those_hextets :: "string list \<Rightarrow> nat list option" where
  "those_hextets [] = Some []"
| "those_hextets (p # ps) =
     (case (parse_hextet p, those_hextets ps) of (Some h, Some hs) \<Rightarrow> Some (h # hs) | _ \<Rightarrow> None)"

definition hextets_val :: "nat list \<Rightarrow> nat" where
  "hextets_val hs = foldl (\<lambda>acc h. acc * 65536 + h) 0 hs"

fun empties :: "nat \<Rightarrow> string list \<Rightarrow> nat list" where
  "empties i [] = []"
| "empties i (p # ps) = (if p = [] then i # empties (Suc i) ps else empties (Suc i) ps)"

text \<open>An IPv4 suffix is replaced by its two hextets.\<close>

definition expand_suffix :: "string list \<Rightarrow> string list option" where
  "expand_suffix parts =
     (if CHR ''.'' \<in> set (last parts)
      then (case ipv4_of_string (last parts) of
              None \<Rightarrow> None
            | Some n \<Rightarrow> Some (butlast parts @ [hex (n div 65536 mod 65536), hex (n mod 65536)]))
      else Some parts)"

definition skip_parts :: "nat \<Rightarrow> nat \<Rightarrow> string list \<Rightarrow> nat option" where
  "skip_parts hi lo parts =
     (case (those_hextets (take hi parts), those_hextets (drop (length parts - lo) parts)) of
        (Some xs, Some ys) \<Rightarrow> Some (hextets_val (xs @ replicate (8 - (hi + lo)) 0 @ ys))
      | _ \<Rightarrow> None)"

definition parts_hi :: "string list \<Rightarrow> nat \<Rightarrow> nat" where
  "parts_hi parts skip = (if hd parts = [] then skip - 1 else skip)"

definition parts_lo :: "string list \<Rightarrow> nat \<Rightarrow> nat" where
  "parts_lo parts skip =
     (if last parts = [] then length parts - skip - 2 else length parts - skip - 1)"

definition ipv6_of_parts :: "string list \<Rightarrow> nat option" where
  "ipv6_of_parts parts =
     (if length parts > 9 then None else
      case empties 1 (butlast (tl parts)) of
        [] \<Rightarrow>
          (if length parts \<noteq> 8 then None
           else map_option hextets_val (those_hextets parts))
      | [skip] \<Rightarrow>
          (let hi = parts_hi parts skip; lo = parts_lo parts skip in
           if (hd parts = [] \<and> hi \<noteq> 0) \<or> (last parts = [] \<and> lo \<noteq> 0) \<or> 7 < hi + lo then None
           else skip_parts hi lo parts)
      | _ \<Rightarrow> None)"

definition ipv6_of_string :: "string \<Rightarrow> nat option" where
  "ipv6_of_string s =
     (let parts = split_on CHR '':'' s in
      if length parts < 3 then None
      else (case expand_suffix parts of None \<Rightarrow> None | Some ps \<Rightarrow> ipv6_of_parts ps))"

definition split_scope :: "string \<Rightarrow> (string \<times> string option) option" where
  "split_scope s =
     (case split1 CHR ''%'' s of
        None \<Rightarrow> Some (s, None)
      | Some (a, scope) \<Rightarrow>
          if scope = [] \<or> CHR ''%'' \<in> set scope then None else Some (a, Some scope))"

text \<open>\<open>ipaddress.ip_address(s)\<close>; \<open>None\<close> is the \<open>ValueError\<close>.\<close>

definition ip_address :: "string \<Rightarrow> ipaddr option" where
  "ip_address s =
     (case ipv4_of_string s of
        Some n \<Rightarrow> Some (V4 n)
      | None \<Rightarrow>
          if CHR ''/'' \<in> set s then None
          else (case split_scope s of
                  None \<Rightarrow> None
                | Some (a, scope) \<Rightarrow>
                    (case ipv6_of_string a of None \<Rightarrow> None | Some n \<Rightarrow> Some (V6 n scope))))"

section \<open>Printing\<close>

definition octets :: "nat \<Rightarrow> nat list" where
  "octets n = [n div 16777216 mod 256, n div 65536 mod 256, n div 256 mod 256, n mod 256]"

definition ipv4_str :: "nat \<Rightarrow> string" where
  "ipv4_str n = join ''.'' (map dec (octets n))"

definition hextets :: "nat \<Rightarrow> nat list" where
  "hextets n = map (\<lambda>k. n div 65536 ^ k mod 65536) [7, 6, 5, 4, 3, 2, 1, 0]"

text \<open>
  The longest run of zeros, the first one among equals: \<open>i\<close> is the index of the head of the
  list, \<open>(bs, bl)\<close> the start and length of the best run so far, \<open>cl\<close> the length of the run that
  ends just before the head.
\<close>

fun best_run :: "nat \<Rightarrow> nat \<times> nat \<Rightarrow> nat \<Rightarrow> nat list \<Rightarrow> nat \<times> nat" where
  "best_run i (bs, bl) cl [] = (bs, bl)"
| "best_run i (bs, bl) cl (h # hs) =
     (if h = 0
      then best_run (Suc i) (if bl < Suc cl then (i - cl, Suc cl) else (bs, bl)) (Suc cl) hs
      else best_run (Suc i) (bs, bl) 0 hs)"

definition compress_hextets :: "nat list \<Rightarrow> string list" where
  "compress_hextets hs =
     (case best_run 0 (0, 0) 0 hs of (bs, bl) \<Rightarrow>
        if 1 < bl then
          (let t0 = map hex hs;
               t1 = (if bs + bl = length hs then t0 @ [[]] else t0);
               t2 = take bs t1 @ [[]] @ drop (bs + bl) t1
           in if bs = 0 then [] # t2 else t2)
        else map hex hs)"

definition ipv6_str :: "nat \<Rightarrow> string" where
  "ipv6_str n = join '':'' (compress_hextets (hextets n))"

text \<open>\<open>str(a)\<close>, which is also \<open>a.compressed\<close>.\<close>

fun ip_str :: "ipaddr \<Rightarrow> string" where
  "ip_str (V4 n) = ipv4_str n"
| "ip_str (V6 n None) = ipv6_str n"
| "ip_str (V6 n (Some scope)) = ipv6_str n @ ''%'' @ scope"

fun ip_version :: "ipaddr \<Rightarrow> nat" where
  "ip_version (V4 _) = 4"
| "ip_version (V6 _ _) = 6"

section \<open>Networks\<close>

definition mask_low :: "nat \<Rightarrow> nat \<Rightarrow> nat" where
  "mask_low k n = n div 2 ^ k * 2 ^ k"

text \<open>
  \<open>str(ip_network(f"{a}/{p}", strict=False))\<close>; a prefix longer than the address is a
  \<open>ValueError\<close>. The scope of an IPv6 address survives only when no host bit is set.
\<close>

fun network_str :: "ipaddr \<Rightarrow> nat \<Rightarrow> string option" where
  "network_str (V4 n) p =
     (if p \<le> 32 then Some (ip_str (V4 (mask_low (32 - p) n)) @ ''/'' @ dec p) else None)"
| "network_str (V6 n scope) p =
     (if p \<le> 128 then
        (let m = mask_low (128 - p) n in
         Some (ip_str (V6 m (if m = n then scope else None)) @ ''/'' @ dec p))
      else None)"

text \<open>What the textual network stands for: the addresses that agree on the first \<open>p\<close> bits.\<close>

fun in_network :: "ipaddr \<Rightarrow> ipaddr \<Rightarrow> nat \<Rightarrow> bool" where
  "in_network (V4 x) (V4 n) p = (x div 2 ^ (32 - p) = n div 2 ^ (32 - p))"
| "in_network (V6 x _) (V6 n _) p = (x div 2 ^ (128 - p) = n div 2 ^ (128 - p))"
| "in_network _ _ p = False"

fun ip_wf :: "ipaddr \<Rightarrow> bool" where
  "ip_wf (V4 n) = (n < 2 ^ 32)"
| "ip_wf (V6 n None) = (n < 2 ^ 128)"
| "ip_wf (V6 n (Some scope)) =
     (n < 2 ^ 128 \<and> scope \<noteq> [] \<and> CHR ''%'' \<notin> set scope \<and> CHR ''/'' \<notin> set scope)"

section \<open>IPv4 round trip\<close>

lemma digit_val_digit: "is_digit c \<Longrightarrow> digit_val c < 10"
  by (auto simp: is_digit_def digit_val_def Let_def)

lemma hexchar_digit: "is_hexchar c \<Longrightarrow> digit_val c < 10 \<Longrightarrow> is_digit c"
  by (auto simp: is_hexchar_def is_digit_def digit_val_def Let_def split: if_splits)

lemma hexchar_hexdigit: "is_hexchar c \<Longrightarrow> is_hexdigit c"
  by (auto simp: is_hexchar_def is_hexdigit_def is_digit_def Let_def)

lemma dec_digits: "list_all is_digit (dec n)"
  using dec_chars hexchar_digit by (auto simp: list_all_iff)

lemma dec_small: "n < 10 \<Longrightarrow> dec n = [hexdigit n]"
  by (subst digits.simps) simp

lemma dec_step: "10 \<le> n \<Longrightarrow> dec n = dec (n div 10) @ [hexdigit (n mod 10)]"
  by (subst digits.simps) simp

lemma hd_dec_nonzero: "0 < n \<Longrightarrow> hd (dec n) \<noteq> CHR ''0''"
proof (induction n rule: less_induct)
  case (less n)
  show ?case
  proof (cases "n < 10")
    case True
    have "code (hexdigit n) \<noteq> 48" using less.prems True by (simp add: code_hexdigit)
    then have "hexdigit n \<noteq> CHR ''0''" by auto
    with True show ?thesis by (simp add: dec_small)
  next
    case False
    then have "0 < n div 10" and "n div 10 < n" by auto
    from less.IH [OF this(2) this(1)] show ?thesis
      using False by (simp add: dec_step hd_append2)
  qed
qed

lemma length_dec: "n < 10 ^ k \<Longrightarrow> 0 < k \<Longrightarrow> length (dec n) \<le> k"
proof (induction k arbitrary: n)
  case 0
  then show ?case by simp
next
  case (Suc k)
  show ?case
  proof (cases "n < 10")
    case True
    then show ?thesis by (simp add: dec_small)
  next
    case False
    then have "0 < k" using Suc.prems by (cases k) auto
    moreover have "n div 10 < 10 ^ k"
      using Suc.prems by (simp add: less_mult_imp_div_less mult.commute)
    ultimately have "length (dec (n div 10)) \<le> k" by (intro Suc.IH)
    with False show ?thesis by (simp add: dec_step)
  qed
qed

lemma parse_octet_dec: "n < 256 \<Longrightarrow> parse_octet (dec n) = Some n"
  using length_dec [of n 3] hd_dec_nonzero [of n] dec_digits [of n] digits_val_digits [of 10 n]
  by (cases "n = 0") (simp_all add: parse_octet_def, simp_all add: dec_small hexdigit_def)

lemma parse_octet_bound: "parse_octet s = Some n \<Longrightarrow> n < 256"
  by (auto simp: parse_octet_def Let_def split: if_splits)

lemma dec_no_dot: "CHR ''.'' \<notin> set (dec n)"
  using dec_chars is_hexchar_facts by blast

lemma octets_val:
  assumes "n < 2 ^ 32"
  shows "((n div 16777216 mod 256 * 256 + n div 65536 mod 256) * 256 + n div 256 mod 256) * 256
    + n mod 256 = (n :: nat)"
proof -
  let ?a = "n div 256" and ?b = "n div 256 div 256" and ?c = "n div 256 div 256 div 256"
  have b: "n div 65536 = ?b" and c: "n div 16777216 = ?c"
    by (simp_all add: div_mult2_eq [symmetric])
  have "?c mod 256 = ?c"
    unfolding c [symmetric] using assms by simp
  then show ?thesis unfolding b c by (simp only: div_mult_mod_eq)
qed

lemma ipv4_of_string_str:
  assumes "n < 2 ^ 32"
  shows "ipv4_of_string (ipv4_str n) = Some n"
proof -
  have "split_on CHR ''.'' (ipv4_str n) = map dec (octets n)"
    unfolding ipv4_str_def by (rule split_on_join) (auto simp: octets_def dec_no_dot)
  moreover have "parse_octet (dec (k mod 256)) = Some (k mod 256)" for k
    by (simp add: parse_octet_dec)
  ultimately show ?thesis
    using octets_val [OF assms] unfolding ipv4_of_string_def octets_def
    by (simp only: list.map list.case prod.case option.case)
qed

lemma ipv4_of_string_bound: "ipv4_of_string s = Some n \<Longrightarrow> n < 2 ^ 32"
  by (auto simp: ipv4_of_string_def split: list.splits option.splits dest!: parse_octet_bound)

lemma ipv4_of_string_chars:
  assumes "ipv4_of_string s = Some n" and "c \<in> set s"
  shows "is_digit c \<or> c = CHR ''.''"
proof -
  obtain a b d e where sp: "split_on CHR ''.'' s = [a, b, d, e]"
    and oct: "\<And>p. p \<in> {a, b, d, e} \<Longrightarrow> parse_octet p \<noteq> None"
    using assms(1) by (auto simp: ipv4_of_string_def split: list.splits option.splits)
  have dig: "list_all is_digit p" if "p \<in> {a, b, d, e}" for p
    using oct [OF that] by (auto simp: parse_octet_def split: if_splits)
  have "s = join ''.'' [a, b, d, e]" using join_split_on [of "CHR ''.''" s] sp by simp
  with assms(2) dig show ?thesis by (auto simp: list_all_iff)
qed

section \<open>IPv6 round trip\<close>

lemma length_hex: "n < 16 ^ k \<Longrightarrow> 0 < k \<Longrightarrow> length (hex n) \<le> k"
proof (induction k arbitrary: n)
  case 0
  then show ?case by simp
next
  case (Suc k)
  show ?case
  proof (cases "n < 16")
    case True
    then show ?thesis by (subst digits.simps) simp
  next
    case False
    then have "0 < k" using Suc.prems by (cases k) auto
    moreover have "n div 16 < 16 ^ k"
      using Suc.prems by (simp add: less_mult_imp_div_less mult.commute)
    ultimately have "length (hex (n div 16)) \<le> k" by (intro Suc.IH)
    with False show ?thesis by (subst digits.simps) simp
  qed
qed

lemma parse_hextet_hex:
  assumes "n < 65536"
  shows "parse_hextet (hex n) = Some n"
proof -
  have "length (hex n) \<le> 4" using length_hex [of n 4] assms by simp
  moreover have "list_all is_hexdigit (hex n)"
    using hex_chars hexchar_hexdigit by (auto simp: list_all_iff)
  ultimately show ?thesis by (simp add: parse_hextet_def digits_val_digits)
qed

lemma those_hextets_hex:
  "list_all (\<lambda>h. h < 65536) hs \<Longrightarrow> those_hextets (map hex hs) = Some hs"
  by (induction hs) (auto simp: parse_hextet_hex)

lemma foldl_radix:
  fixes B :: nat
  shows "foldl (\<lambda>acc h. acc * B + h) a ys
    = a * B ^ length ys + foldl (\<lambda>acc h. acc * B + h) 0 ys"
proof (induction ys rule: rev_induct)
  case Nil
  then show ?case by simp
next
  case (snoc y ys)
  then show ?case by (simp add: algebra_simps)
qed

lemma hextets_val_append: "hextets_val (xs @ ys) = hextets_val xs * 65536 ^ length ys + hextets_val ys"
  unfolding hextets_val_def foldl_append by (rule foldl_radix)

lemma hextets_val_bound: "list_all (\<lambda>h. h < 65536) hs \<Longrightarrow> hextets_val hs < 65536 ^ length hs"
proof (induction hs rule: rev_induct)
  case Nil
  then show ?case by (simp add: hextets_val_def)
next
  case (snoc h hs)
  define X :: nat where "X = 65536 ^ length hs"
  from snoc have "hextets_val hs < X" and "h < 65536" by (auto simp: X_def)
  then have "hextets_val hs * 65536 + h < X * 65536" by linarith
  moreover have "hextets_val (hs @ [h]) = hextets_val hs * 65536 + h"
    by (simp add: hextets_val_def)
  moreover have "(65536::nat) ^ length (hs @ [h]) = X * 65536" by (simp add: X_def)
  ultimately show ?case by (simp only:)
qed

lemma hextets_val_Cons: "hextets_val (h # hs) = h * 65536 ^ length hs + hextets_val hs"
  using hextets_val_append [of "[h]" hs] by (simp add: hextets_val_def)

lemma hextets_val_low:
  "hextets_val (map (\<lambda>k. n div 65536 ^ k mod 65536) (rev [0..<m])) = n mod 65536 ^ m"
proof (induction m)
  case 0
  then show ?case by (simp add: hextets_val_def)
next
  case (Suc m)
  have "n mod 65536 ^ Suc m = n div 65536 ^ m mod 65536 * 65536 ^ m + n mod 65536 ^ m"
    using mod_mult2_eq [of n "65536 ^ m" 65536] by (simp add: mult.commute)
  with Suc show ?case by (simp add: hextets_val_Cons)
qed

lemma hextets_val_hextets:
  assumes "n < 2 ^ 128"
  shows "hextets_val (hextets n) = n"
proof -
  have "[7, 6, 5, 4, 3, 2, 1, 0] = rev [0..<8]" by (simp add: upt_rec)
  then have "hextets_val (hextets n) = n mod 65536 ^ 8"
    unfolding hextets_def by (simp only: hextets_val_low)
  with assms show ?thesis by simp
qed

lemma hextets_props: "length (hextets n) = 8" "list_all (\<lambda>h. h < 65536) (hextets n)"
  by (simp_all add: hextets_def)

text \<open>The run that \<open>best_run\<close> reports really is a run of zeros inside the list.\<close>

lemma best_run_correct:
  assumes "best_run (length pre) (bs, bl) cl hs = (s, l)"
    and "cl \<le> length pre" and "\<forall>j. length pre - cl \<le> j \<and> j < length pre \<longrightarrow> pre ! j = 0"
    and "bs + bl \<le> length pre" and "\<forall>j. bs \<le> j \<and> j < bs + bl \<longrightarrow> pre ! j = 0"
  shows "s + l \<le> length (pre @ hs) \<and> (\<forall>j. s \<le> j \<and> j < s + l \<longrightarrow> (pre @ hs) ! j = 0)"
  using assms
proof (induction hs arbitrary: pre bs bl cl)
  case Nil
  then show ?case by (auto simp: nth_append)
next
  case (Cons h hs)
  have app: "pre @ h # hs = (pre @ [h]) @ hs" by simp
  show ?case
  proof (cases "h = 0")
    case True
    let ?b = "if bl < Suc cl then (length pre - cl, Suc cl) else (bs, bl)"
    obtain b1 b2 where b: "?b = (b1, b2)" by (cases ?b)
    have "best_run (length (pre @ [h])) (b1, b2) (Suc cl) hs = (s, l)"
      using Cons.prems(1) True b by simp
    then show ?thesis unfolding app
    proof (rule Cons.IH)
      show "Suc cl \<le> length (pre @ [h])" using Cons.prems(2) by simp
      show z: "\<forall>j. length (pre @ [h]) - Suc cl \<le> j \<and> j < length (pre @ [h]) \<longrightarrow> (pre @ [h]) ! j = 0"
        using Cons.prems(3) True by (auto simp: nth_append less_Suc_eq)
      show "b1 + b2 \<le> length (pre @ [h])"
        using b Cons.prems(2,4) by (auto split: if_splits)
      show "\<forall>j. b1 \<le> j \<and> j < b1 + b2 \<longrightarrow> (pre @ [h]) ! j = 0"
        using b z Cons.prems(2,4,5) True
        by (auto simp: nth_append split: if_splits)
    qed
  next
    case False
    then have "best_run (length (pre @ [h])) (bs, bl) 0 hs = (s, l)"
      using Cons.prems(1) by simp
    then show ?thesis unfolding app
      by (rule Cons.IH) (use Cons.prems in \<open>auto simp: nth_append\<close>)
  qed
qed

lemma best_run_zeros:
  assumes "best_run 0 (0, 0) 0 hs = (s, l)"
  shows "s + l \<le> length hs"
    and "hs = take s hs @ replicate l 0 @ drop (s + l) hs"
proof -
  have c: "s + l \<le> length hs \<and> (\<forall>j. s \<le> j \<and> j < s + l \<longrightarrow> hs ! j = 0)"
    using best_run_correct [of "[]" 0 0 0 hs s l] assms by simp
  then show "s + l \<le> length hs" by simp
  have "take l (drop s hs) = replicate l 0"
    using c by (intro nth_equalityI) auto
  then have "drop s hs = replicate l 0 @ drop (s + l) hs"
    by (metis append_take_drop_id drop_drop add.commute)
  then show "hs = take s hs @ replicate l 0 @ drop (s + l) hs"
    by (metis append_take_drop_id)
qed

text \<open>
  Every compressed form has the same shape: the hextets before the run, an empty part, the
  hextets after it, where a side without hextets is one more empty part.
\<close>

definition side :: "nat list \<Rightarrow> string list" where
  "side hs = (if hs = [] then [[]] else map hex hs)"

lemma side_simps [simp]: "side [] = [[]]" "side (h # hs) = hex h # map hex hs"
  by (simp_all add: side_def)

lemma side_nonempty [simp]: "side hs \<noteq> []"
  by (simp add: side_def)

lemma compress_hextets_shape:
  assumes "best_run 0 (0, 0) 0 hs = (s, l)" and "1 < l"
  shows "compress_hextets hs = side (take s hs) @ [[]] @ side (drop (s + l) hs)"
proof -
  have le: "s + l \<le> length hs" using best_run_zeros(1) [OF assms(1)] .
  then have ne: "hs \<noteq> []" using assms(2) by auto
  show ?thesis
  proof (cases "s + l = length hs")
    case True
    then have "drop (s + l) (map hex hs @ [[]]) = [[]]" and "take s (map hex hs @ [[]]) = map hex (take s hs)"
      and "drop (s + l) hs = []"
      by (simp_all add: take_map)
    with True assms ne show ?thesis
      by (auto simp: compress_hextets_def Let_def side_def)
  next
    case False
    with le have "drop (s + l) hs \<noteq> []" by simp
    with False assms ne show ?thesis
      by (auto simp: compress_hextets_def Let_def side_def take_map drop_map)
  qed
qed

lemma empties_append: "empties i (xs @ ys) = empties i xs @ empties (i + length xs) ys"
  by (induction xs arbitrary: i) auto

lemma empties_none: "(\<And>p. p \<in> set ps \<Longrightarrow> p \<noteq> []) \<Longrightarrow> empties i ps = []"
  by (induction ps arbitrary: i) auto

lemma side_interior: "[] \<notin> set (tl (side xs)) \<and> [] \<notin> set (butlast (side xs))"
proof (cases "xs = []")
  case True
  then show ?thesis by simp
next
  case False
  then have "side xs = map hex xs" by (simp add: side_def)
  then show ?thesis by (auto simp: map_tl [symmetric] map_butlast [symmetric])
qed

lemma empties_sides:
  "empties 1 (butlast (tl (side xs @ [[]] @ side ys))) = [length (side xs)]"
proof -
  have "butlast (tl (side xs @ [[]] @ side ys)) = tl (side xs) @ [[]] @ butlast (side ys)"
    by (simp add: butlast_append)
  moreover have "empties i (tl (side xs)) = []" and "empties i (butlast (side ys)) = []" for i
    using side_interior [of xs] side_interior [of ys] by (metis empties_none)+
  ultimately show ?thesis by (simp add: empties_append)
qed

lemma ipv6_of_parts_skip:
  assumes "empties 1 (butlast (tl ps)) = [k]" and "length ps \<le> 9"
    and "parts_hi ps k = hi" and "parts_lo ps k = lo"
    and "hd ps = [] \<Longrightarrow> hi = 0" and "last ps = [] \<Longrightarrow> lo = 0" and "hi + lo \<le> 7"
    and "those_hextets (take hi ps) = Some xs"
    and "those_hextets (drop (length ps - lo) ps) = Some ys"
  shows "ipv6_of_parts ps = Some (hextets_val (xs @ replicate (8 - (hi + lo)) 0 @ ys))"
proof -
  have "ipv6_of_parts ps = skip_parts hi lo ps"
    using assms(1-7) by (auto simp: ipv6_of_parts_def)
  then show ?thesis by (simp add: skip_parts_def assms(8,9))
qed

lemma ipv6_of_parts_sides:
  assumes "list_all (\<lambda>h. h < 65536) xs" and "list_all (\<lambda>h. h < 65536) ys"
    and "length xs + length ys \<le> 6"
  shows "ipv6_of_parts (side xs @ [[]] @ side ys)
    = Some (hextets_val (xs @ replicate (8 - (length xs + length ys)) 0 @ ys))"
proof (rule ipv6_of_parts_skip [OF empties_sides])
  let ?p = "side xs @ [[]] @ side ys"
  have hd: "hd ?p = [] \<longleftrightarrow> xs = []" by (cases xs) auto
  have last: "last ?p = [] \<longleftrightarrow> ys = []"
    by (cases ys rule: rev_cases) (auto simp: side_def)
  show "length ?p \<le> 9" using assms(3) by (simp add: side_def)
  show "parts_hi ?p (length (side xs)) = length xs"
    unfolding parts_hi_def hd by (simp add: side_def)
  show "parts_lo ?p (length (side xs)) = length ys"
    unfolding parts_lo_def last by (simp add: side_def)
  show "hd ?p = [] \<Longrightarrow> length xs = 0" and "last ?p = [] \<Longrightarrow> length ys = 0"
    unfolding hd last by simp_all
  show "length xs + length ys \<le> 7" using assms(3) by simp
  have "take (length xs) ?p = map hex xs" by (cases "xs = []") (simp_all add: side_def)
  then show "those_hextets (take (length xs) ?p) = Some xs"
    by (simp only: those_hextets_hex [OF assms(1)])
  have "drop (length ?p - length ys) ?p = map hex ys"
    by (cases "ys = []") (simp_all add: side_def)
  then show "those_hextets (drop (length ?p - length ys) ?p) = Some ys"
    by (simp only: those_hextets_hex [OF assms(2)])
qed

lemma ipv6_of_parts_plain:
  assumes "list_all (\<lambda>h. h < 65536) hs" and "length hs = 8"
  shows "ipv6_of_parts (map hex hs) = Some (hextets_val hs)"
proof -
  have "empties 1 (butlast (tl (map hex hs))) = []"
  proof (rule empties_none)
    fix p
    assume "p \<in> set (butlast (tl (map hex hs)))"
    then have "p \<in> set (map hex hs)" by (metis in_set_butlastD list.set_sel(2) tl_Nil)
    then show "p \<noteq> []" by auto
  qed
  then show ?thesis
    using assms by (simp add: ipv6_of_parts_def those_hextets_hex)
qed

lemma hex_no:
  "CHR '':'' \<notin> set (hex n)" "CHR ''.'' \<notin> set (hex n)" "CHR ''%'' \<notin> set (hex n)" "CHR ''/'' \<notin> set (hex n)"
  using hex_chars is_hexchar_facts by blast+

lemma side_no:
  "p \<in> set (side hs) \<Longrightarrow> CHR '':'' \<notin> set p \<and> CHR ''.'' \<notin> set p \<and> CHR ''%'' \<notin> set p \<and> CHR ''/'' \<notin> set p"
  by (auto simp: side_def hex_no split: if_splits)

lemma compress_cases:
  assumes "length hs = 8" and "list_all (\<lambda>h. h < 65536) hs"
  obtains xs ys where "compress_hextets hs = side xs @ [[]] @ side ys"
      and "hs = xs @ replicate (8 - (length xs + length ys)) 0 @ ys" and "length xs + length ys \<le> 6"
  | "compress_hextets hs = map hex hs"
proof (cases "best_run 0 (0, 0) 0 hs")
  case (Pair s l)
  show ?thesis
  proof (cases "1 < l")
    case True
    note z = best_run_zeros [OF Pair]
    have "length (take s hs) + length (drop (s + l) hs) = 8 - l"
      using z(1) assms(1) by simp
    then have "8 - (length (take s hs) + length (drop (s + l) hs)) = l"
      using z(1) assms(1) by simp
    with that(1) [OF compress_hextets_shape [OF Pair True]] z True assms(1) show ?thesis
      by simp
  next
    case False
    with Pair that(2) show ?thesis by (simp add: compress_hextets_def)
  qed
qed

lemma compress_parts:
  assumes "length hs = 8" and "list_all (\<lambda>h. h < 65536) hs"
  shows "ipv6_of_parts (compress_hextets hs) = Some (hextets_val hs)"
    and "3 \<le> length (compress_hextets hs)"
    and "p \<in> set (compress_hextets hs) \<Longrightarrow>
      CHR '':'' \<notin> set p \<and> CHR ''.'' \<notin> set p \<and> CHR ''%'' \<notin> set p \<and> CHR ''/'' \<notin> set p"
proof -
  show "ipv6_of_parts (compress_hextets hs) = Some (hextets_val hs)"
    using assms
  proof (cases rule: compress_cases)
    case (1 xs ys)
    have "list_all (\<lambda>h. h < 65536) xs" "list_all (\<lambda>h. h < 65536) ys"
      using assms(2) 1(2) by (metis list_all_append)+
    with 1 show ?thesis by (metis ipv6_of_parts_sides)
  next
    case 2
    with assms show ?thesis by (simp add: ipv6_of_parts_plain)
  qed
  show "3 \<le> length (compress_hextets hs)"
    using assms
  proof (cases rule: compress_cases)
    case (1 xs ys)
    have "1 \<le> length (side xs)" "1 \<le> length (side ys)" by (simp_all add: Suc_le_eq)
    with 1(1) show ?thesis by simp
  next
    case 2
    with assms show ?thesis by simp
  qed
  show "p \<in> set (compress_hextets hs) \<Longrightarrow>
      CHR '':'' \<notin> set p \<and> CHR ''.'' \<notin> set p \<and> CHR ''%'' \<notin> set p \<and> CHR ''/'' \<notin> set p"
    using assms
  proof (cases rule: compress_cases)
    case (1 xs ys)
    assume "p \<in> set (compress_hextets hs)"
    with 1(1) show ?thesis using side_no [of p xs] side_no [of p ys] by auto
  next
    case 2
    assume "p \<in> set (compress_hextets hs)"
    with 2 show ?thesis by (auto simp: hex_no)
  qed
qed

lemma set_join: "c \<in> set (join sep ps) \<Longrightarrow> c \<in> set sep \<or> (\<exists>p \<in> set ps. c \<in> set p)"
  by (induction sep ps rule: join.induct) auto

lemma ipv6_str_facts:
  shows "n < 2 ^ 128 \<Longrightarrow> ipv6_of_string (ipv6_str n) = Some n"
    and "CHR ''%'' \<notin> set (ipv6_str n)" and "CHR ''/'' \<notin> set (ipv6_str n)"
    and "CHR '':'' \<in> set (ipv6_str n)"
proof -
  let ?ps = "compress_hextets (hextets n)"
  note cp = compress_parts [OF hextets_props(1) [of n] hextets_props(2) [of n]]
  have ne: "?ps \<noteq> []" using cp(2) by auto
  have sp: "split_on CHR '':'' (ipv6_str n) = ?ps"
    unfolding ipv6_str_def by (rule split_on_join) (use ne cp(3) in auto)
  have "CHR ''.'' \<notin> set (last ?ps)" using ne cp(3) last_in_set by blast
  then have "expand_suffix ?ps = Some ?ps" by (simp add: expand_suffix_def)
  then show "n < 2 ^ 128 \<Longrightarrow> ipv6_of_string (ipv6_str n) = Some n"
    using cp(1,2) by (simp add: ipv6_of_string_def Let_def sp hextets_val_hextets)
  show "CHR ''%'' \<notin> set (ipv6_str n)" and "CHR ''/'' \<notin> set (ipv6_str n)"
    unfolding ipv6_str_def using cp(3) by (auto dest!: set_join)
  show "CHR '':'' \<in> set (ipv6_str n)"
  proof (rule ccontr)
    assume "CHR '':'' \<notin> set (ipv6_str n)"
    then have "split_on CHR '':'' (ipv6_str n) = [ipv6_str n]" by simp
    with arg_cong [OF sp, of length] cp(2) show False by simp
  qed
qed

lemma ipv4_of_string_colon: "CHR '':'' \<in> set s \<Longrightarrow> ipv4_of_string s = None"
  using ipv4_of_string_chars [of s _ "CHR '':''"]
  by (cases "ipv4_of_string s") (auto simp: is_digit_def Let_def)

theorem ip_address_ip_str:
  assumes "ip_wf a"
  shows "ip_address (ip_str a) = Some a"
proof (cases a)
  case (V4 n)
  with assms show ?thesis by (simp add: ip_address_def ipv4_of_string_str)
next
  case (V6 n scope)
  note f = ipv6_str_facts [of n]
  show ?thesis
  proof (cases scope)
    case None
    with V6 assms f show ?thesis
      by (simp add: ip_address_def ipv4_of_string_colon split_scope_def split1_None_iff [THEN iffD2])
  next
    case (Some sc)
    have "split1 CHR ''%'' (ipv6_str n @ ''%'' @ sc) = Some (ipv6_str n, sc)"
      using f(2) by (simp add: split1_append)
    with V6 Some assms f show ?thesis
      by (simp add: ip_address_def ipv4_of_string_colon split_scope_def)
  qed
qed

section \<open>What a parsed address looks like\<close>

lemma parse_hextet_bound: "parse_hextet p = Some h \<Longrightarrow> h < 65536"
proof -
  assume p: "parse_hextet p = Some h"
  have gen: "list_all is_hexdigit s \<Longrightarrow> digits_val 16 s < 16 ^ length s" for s
  proof (induction s rule: rev_induct)
    case Nil
    then show ?case by (simp add: digits_val_def)
  next
    case (snoc c s)
    then have "digit_val c < 16"
      by (auto simp: is_hexdigit_def is_digit_def digit_val_def Let_def)
    with snoc show ?case by (simp add: digits_val_snoc)
  qed
  from p have "digits_val 16 p = h" "list_all is_hexdigit p" "length p \<le> 4"
    by (auto simp: parse_hextet_def split: if_splits)
  with gen [of p] have "h < 16 ^ length p" by simp
  also have "(16::nat) ^ length p \<le> 16 ^ 4" using \<open>length p \<le> 4\<close> by (rule power_increasing) simp
  finally show ?thesis by simp
qed

lemma those_hextets_bound:
  "those_hextets ps = Some hs \<Longrightarrow> length hs = length ps \<and> list_all (\<lambda>h. h < 65536) hs"
  by (induction ps arbitrary: hs) (auto split: option.splits dest: parse_hextet_bound)

lemma hextets_val_bound8:
  assumes "length hs \<le> 8" and "list_all (\<lambda>h. h < 65536) hs"
  shows "hextets_val hs < 2 ^ 128"
proof -
  have "hextets_val hs < 65536 ^ length hs" using assms(2) by (rule hextets_val_bound)
  also have "(65536::nat) ^ length hs \<le> 65536 ^ 8" using assms(1) by (intro power_increasing) auto
  finally show ?thesis by simp
qed

lemma skip_parts_bound:
  assumes "skip_parts hi lo ps = Some n" and "hi + lo \<le> 7"
  shows "n < 2 ^ 128"
proof -
  obtain xs ys where xy: "those_hextets (take hi ps) = Some xs"
      "those_hextets (drop (length ps - lo) ps) = Some ys"
    and n: "n = hextets_val (xs @ replicate (8 - (hi + lo)) 0 @ ys)"
    using assms(1) by (auto simp: skip_parts_def split: option.splits)
  have "length xs \<le> hi" "length ys \<le> lo"
    using xy by (auto dest!: those_hextets_bound)
  then show ?thesis
    unfolding n using xy assms(2)
    by (intro hextets_val_bound8) (auto simp: list_all_iff dest!: those_hextets_bound)
qed

lemma ipv6_of_parts_bound:
  assumes "ipv6_of_parts ps = Some n"
  shows "n < 2 ^ 128"
proof -
  consider hs where "length ps = 8" "those_hextets ps = Some hs" "n = hextets_val hs"
    | hi lo where "skip_parts hi lo ps = Some n" "hi + lo \<le> 7"
    using assms unfolding ipv6_of_parts_def Let_def
    by (auto split: if_splits list.splits)
  then show ?thesis
  proof cases
    case 1
    then show ?thesis by (metis hextets_val_bound8 those_hextets_bound order_refl)
  next
    case 2
    then show ?thesis by (rule skip_parts_bound)
  qed
qed

lemma ipv6_of_string_bound: "ipv6_of_string s = Some n \<Longrightarrow> n < 2 ^ 128"
  by (auto simp: ipv6_of_string_def Let_def split: if_splits option.splits
      dest: ipv6_of_parts_bound)

lemma ip_address_wf:
  assumes "ip_address s = Some a"
  shows "ip_wf a"
proof (cases "ipv4_of_string s")
  case (Some n)
  with assms show ?thesis by (auto simp: ip_address_def dest: ipv4_of_string_bound)
next
  case None
  with assms obtain b scope n where sc: "CHR ''/'' \<notin> set s" "split_scope s = Some (b, scope)"
    and n: "ipv6_of_string b = Some n" and a: "a = V6 n scope"
    by (auto simp: ip_address_def split: if_splits option.splits)
  show ?thesis
  proof (cases scope)
    case None
    with a ipv6_of_string_bound [OF n] show ?thesis by simp
  next
    case (Some z)
    with sc(2) have "s = b @ CHR ''%'' # z" "z \<noteq> []" "CHR ''%'' \<notin> set z"
      by (auto simp: split_scope_def split1_Some split: option.splits if_splits)
    with a ipv6_of_string_bound [OF n] Some sc(1) show ?thesis by simp
  qed
qed

lemma ip_address_normal: "ip_address s = Some a \<Longrightarrow> ip_address (ip_str a) = Some a"
  by (rule ip_address_ip_str) (rule ip_address_wf)

text \<open>The network of an address contains it, and is determined by the prefix bits alone.\<close>

lemma mask_low_div: "mask_low k n div 2 ^ k = n div 2 ^ k"
  by (simp add: mask_low_def)

lemma mask_low_le: "mask_low k n \<le> n"
  by (simp add: mask_low_def)

lemma in_network_self: "in_network a a p"
  by (cases a) auto

end
