(* ===== verification/Candidate.thy ===== *)
theory Candidate
  imports Py_Json Py_Ip
begin

text \<open>
  The canonical proxy candidate of \<open>validator/sources/base.py\<close>: parsing of the two accepted
  forms, normalisation of the host, and the snapshot that later workers read back. The lemmas
  show that a parsed candidate is in normal form, that normalisation is idempotent, and that a
  candidate survives the snapshot that the fetcher publishes and the validator parses again.
\<close>

definition ALLOWED_PROTOCOLS :: "string list" where
  "ALLOWED_PROTOCOLS = [''http'', ''https'', ''socks4'', ''socks5'']"

record candidate =
  c_host :: string
  c_port :: int
  c_protocol :: string
  c_source :: string
  c_credential_ref :: "string option"
  c_metadata :: "(string \<times> string) list"

definition endpoint :: "candidate \<Rightarrow> string" where
  "endpoint c =
     (if CHR '':'' \<in> set (c_host c) then ''['' @ c_host c @ '']'' else c_host c)
     @ '':'' @ str_of_int (c_port c)"

definition address :: "candidate \<Rightarrow> string" where
  "address c = c_protocol c @ ''://'' @ endpoint c"

definition opt_str :: "string option \<Rightarrow> json" where
  "opt_str x = (case x of None \<Rightarrow> JNull | Some s \<Rightarrow> JStr s)"

definition str_dict :: "(string \<times> string) list \<Rightarrow> json" where
  "str_dict m = JObj (map (\<lambda>(k, v). (k, JStr v)) m)"

definition snapshot_without_validation :: "candidate \<Rightarrow> dict" where
  "snapshot_without_validation c =
     [(''host'', JStr (c_host c)), (''port'', JInt (c_port c)), (''protocol'', JStr (c_protocol c)),
      (''source'', JStr (c_source c)), (''credential_ref'', opt_str (c_credential_ref c)),
      (''metadata'', str_dict (c_metadata c)),
      (''endpoint'', JStr (endpoint c)), (''address'', JStr (address c))]"

definition snapshot :: "candidate \<Rightarrow> int \<Rightarrow> string \<Rightarrow> dict" where
  "snapshot c latency_ms anonymity_level =
     snapshot_without_validation c
     @ [(''latency_ms'', JInt latency_ms), (''anonymous'', JBool True),
        (''anonymity_level'', JStr anonymity_level)]"

definition split_endpoint :: "string \<Rightarrow> (string \<times> int) res" where
  "split_endpoint s =
     rbind
       (if starts_with ''['' s then
          (case split1 CHR '']'' s of
             Some (opening, c # port_text) \<Rightarrow>
               if c = CHR '':'' then Inr (tl opening, port_text)
               else Inl (ValueError ''invalid bracketed IPv6 endpoint'')
           | _ \<Rightarrow> Inl (ValueError ''invalid bracketed IPv6 endpoint''))
        else if count_list s CHR '':'' \<noteq> 1 then
          Inl (ValueError ''endpoint must be hostname:port, IPv4:port, or [IPv6]:port'')
        else of_option (ValueError ''endpoint'') (rsplit1 CHR '':'' s))
       (\<lambda>(host, port_text).
          rbind (of_option (ValueError ''endpoint port must be an integer'') (py_int port_text))
            (\<lambda>port. Inr (host, port)))"

text \<open>
  \<open>s.encode("idna")\<close>: an ASCII name is returned as it is when its labels have a legal length;
  for other names the codec of the runtime is used.
\<close>

definition idna_encode :: "pyrt \<Rightarrow> string \<Rightarrow> string res" where
  "idna_encode rt s =
     (if s = [] then Inr []
      else if list_all is_ascii s then
        (let labels = split_on CHR ''.'' s in
         if list_all (\<lambda>l. 0 < length l \<and> length l < 64) (butlast labels) \<and> length (last labels) < 64
         then Inr s else Inl UnicodeError)
      else of_option UnicodeError (rt_idna rt s))"

definition ascii_decode :: "string \<Rightarrow> string res" where
  "ascii_decode s = (if list_all is_ascii s then Inr s else Inl UnicodeError)"

definition label_ok :: "string \<Rightarrow> bool" where
  "label_ok l =
     (l \<noteq> [] \<and> length l \<le> 63
      \<and> (let r = filter (\<lambda>c. c \<noteq> CHR ''-'') l in r \<noteq> [] \<and> list_all is_alnum r)
      \<and> \<not> starts_with ''-'' l \<and> \<not> ends_with ''-'' l)"

definition is_dot :: "char \<Rightarrow> bool" where
  "is_dot c \<longleftrightarrow> c = CHR ''.''"

definition normalise_host :: "pyrt \<Rightarrow> string \<Rightarrow> string res" where
  "normalise_host rt host =
     (let v = lower (strip host) in
      if v = [] \<or> list_ex is_space v then Inl (ValueError ''invalid proxy host'')
      else (case ip_address v of
              Some a \<Rightarrow> Inr (ip_str a)
            | None \<Rightarrow>
                (case rbind (idna_encode rt v) ascii_decode of
                   Inl _ \<Rightarrow> Inl (ValueError ''invalid proxy hostname'')
                 | Inr ascii_host \<Rightarrow>
                     if 253 < length ascii_host
                        \<or> \<not> list_all label_ok (split_on CHR ''.'' (rstrip_by is_dot ascii_host))
                     then Inl (ValueError ''invalid proxy hostname'')
                     else Inr (rstrip_by is_dot ascii_host))))"

definition int_port :: "json \<Rightarrow> int res" where
  "int_port v = catch (json_int v) (\<lambda>e. is_ValueError e \<or> e = TypeError)
     (\<lambda>_. Inl (ValueError ''port must be an integer''))"

fun str_map :: "dict \<Rightarrow> (string \<times> string) list option" where
  "str_map [] = Some []"
| "str_map ((k, JStr s) # m) = map_option (\<lambda>r. (k, s) # r) (str_map m)"
| "str_map (_ # m) = None"

definition host_and_port :: "pyrt \<Rightarrow> dict \<Rightarrow> (string \<times> int) res" where
  "host_and_port rt value =
     (let raw_endpoint = strip (py_str rt (or_else (get value ''endpoint'') (JStr [])));
          raw_host = strip (py_str rt (or_else (get value ''host'') (JStr [])));
          raw_port = get value ''port'' in
      if raw_endpoint \<noteq> [] then
        rbind (split_endpoint raw_endpoint) (\<lambda>(endpoint_host, endpoint_port).
        rbind (if raw_host \<noteq> [] then
                 rbind (normalise_host rt raw_host) (\<lambda>h1.
                 rbind (normalise_host rt endpoint_host) (\<lambda>h2.
                 ensure (h1 = h2) (ValueError ''host conflicts with endpoint'')))
               else Inr ()) (\<lambda>_.
        rbind (if raw_port \<noteq> JNull then
                 rbind (int_port raw_port) (\<lambda>configured_port.
                 ensure (configured_port = endpoint_port) (ValueError ''port conflicts with endpoint''))
               else Inr ()) (\<lambda>_.
        Inr (endpoint_host, endpoint_port))))
      else if raw_host \<noteq> [] \<and> raw_port \<noteq> JNull then
        rbind (int_port raw_port) (\<lambda>port. Inr (raw_host, port))
      else Inl (ValueError ''candidate requires host and port (or endpoint)''))"

definition parse_candidate :: "pyrt \<Rightarrow> dict \<Rightarrow> string \<Rightarrow> candidate res" where
  "parse_candidate rt value default_source =
     rbind (host_and_port rt value) (\<lambda>(host, port).
     let protocol = lower (strip (py_str rt (or_else (get value ''protocol'') (JStr []))));
         source = strip (py_str rt (or_else (get value ''source'') (JStr default_source)));
         credential_ref = get value ''credential_ref'';
         metadata = or_else (get value ''metadata'') (JObj []) in
     rbind (ensure (protocol \<in> set ALLOWED_PROTOCOLS \<and> source \<noteq> [])
       (ValueError ''candidate requires an allowed protocol and source'')) (\<lambda>_.
     rbind (normalise_host rt host) (\<lambda>host.
     rbind (ensure (1 \<le> port \<and> port \<le> 65535)
       (ValueError ''proxy port is outside 1..65535'')) (\<lambda>_.
     rbind (ensure (credential_ref = JNull \<or> strip (py_str rt credential_ref) \<noteq> [])
       (ValueError ''credential_ref cannot be blank'')) (\<lambda>_.
     rbind (of_option (ValueError ''metadata must be a string map'')
       (case metadata of JObj m \<Rightarrow> str_map m | _ \<Rightarrow> None)) (\<lambda>meta.
     Inr \<lparr>c_host = host, c_port = port, c_protocol = protocol, c_source = source,
       c_credential_ref = (if truthy credential_ref then Some (py_str rt credential_ref) else None),
       c_metadata = meta\<rparr>))))))"

section \<open>Normal form\<close>

text \<open>
  The documented behaviour of the IDNA codec that idempotence rests on: nameprep folds case, so
  what it returns is in lower case.
\<close>

definition idna_lower :: "pyrt \<Rightarrow> bool" where
  "idna_lower rt \<longleftrightarrow> (\<forall>s r. rt_idna rt s = Some r \<longrightarrow> lower r = r)"

definition host_normal :: "pyrt \<Rightarrow> string \<Rightarrow> bool" where
  "host_normal rt h \<longleftrightarrow> normalise_host rt h = Inr h"

definition candidate_wf :: "pyrt \<Rightarrow> candidate \<Rightarrow> bool" where
  "candidate_wf rt c \<longleftrightarrow>
     host_normal rt (c_host c) \<and> 1 \<le> c_port c \<and> c_port c \<le> 65535
     \<and> c_protocol c \<in> set ALLOWED_PROTOCOLS
     \<and> c_source c \<noteq> [] \<and> strip (c_source c) = c_source c
     \<and> (case c_credential_ref c of None \<Rightarrow> True | Some r \<Rightarrow> strip r \<noteq> [])"

lemma digit_hexdigit: "is_digit c \<Longrightarrow> hexdigit (digit_val c) = c"
proof -
  assume d: "is_digit c"
  then have v: "digit_val c = code c - 48" "48 \<le> code c" "code c \<le> 57"
    by (auto simp: is_digit_def digit_val_def Let_def)
  then have "code (hexdigit (digit_val c)) = code c" by (simp add: code_hexdigit)
  then show ?thesis by (rule code_inj)
qed

lemma digits_val_pos:
  "list_all is_digit s \<Longrightarrow> s \<noteq> [] \<Longrightarrow> hd s \<noteq> CHR ''0'' \<Longrightarrow> 0 < digits_val 10 s"
proof (induction s rule: rev_induct)
  case Nil
  then show ?case by simp
next
  case (snoc c s)
  show ?case
  proof (cases "s = []")
    case True
    with snoc.prems have "is_digit c" "c \<noteq> CHR ''0''" by auto
    then have "hexdigit (digit_val c) \<noteq> hexdigit 0"
      by (simp add: digit_hexdigit) (simp add: hexdigit_def)
    then have "0 < digit_val c" by (cases "digit_val c") auto
    with True show ?thesis by (simp add: digits_val_def)
  next
    case False
    with snoc show ?thesis by (simp add: digits_val_snoc)
  qed
qed

lemma dec_digits_val:
  "list_all is_digit s \<Longrightarrow> s \<noteq> [] \<Longrightarrow> s = ''0'' \<or> hd s \<noteq> CHR ''0'' \<Longrightarrow> dec (digits_val 10 s) = s"
proof (induction s rule: rev_induct)
  case Nil
  then show ?case by simp
next
  case (snoc c s)
  from snoc.prems have c: "is_digit c" by simp
  then have d: "digit_val c < 10" by (rule digit_val_digit)
  show ?case
  proof (cases "s = []")
    case True
    with c d show ?thesis by (simp add: digits_val_def dec_small digit_hexdigit)
  next
    case False
    with snoc.prems have hd: "hd s \<noteq> CHR ''0''" by (cases s) auto
    with False snoc.prems have pos: "0 < digits_val 10 s" by (intro digits_val_pos) auto
    then have "10 \<le> digits_val 10 (s @ [c])" by (simp add: digits_val_snoc)
    then have "dec (digits_val 10 (s @ [c])) = dec (digits_val 10 s) @ [c]"
      using d by (simp add: dec_step digits_val_snoc digit_hexdigit [OF c])
    with False hd snoc show ?thesis by simp
  qed
qed

lemma parse_octet_canonical: "parse_octet p = Some n \<Longrightarrow> dec n = p \<and> n < 256"
  using dec_digits_val [of p] by (auto simp: parse_octet_def Let_def split: if_splits)

lemma octets_compose:
  assumes "w < 256" and "x < 256" and "y < 256" and "z < 256"
  shows "octets (((w * 256 + x) * 256 + y) * 256 + z) = [w, x, y, z]"
proof -
  have st: "(k * 256 + d) div 256 = k" "(k * 256 + d) mod 256 = d" if "d < 256" for k d :: nat
    using that by auto
  have "n div 65536 = n div 256 div 256" and "n div 16777216 = n div 256 div 256 div 256" for n :: nat
    by (simp_all add: div_mult2_eq [symmetric])
  then show ?thesis
    unfolding octets_def using assms by (simp only: st mod_less)
qed

lemma ipv4_str_of_string:
  assumes "ipv4_of_string s = Some n"
  shows "ipv4_str n = s"
proof -
  obtain a b d e w x y z where sp: "split_on CHR ''.'' s = [a, b, d, e]"
    and o: "parse_octet a = Some w" "parse_octet b = Some x" "parse_octet d = Some y" "parse_octet e = Some z"
    and n: "n = ((w * 256 + x) * 256 + y) * 256 + z"
    using assms by (auto simp: ipv4_of_string_def split: list.splits option.splits)
  note c = o [THEN parse_octet_canonical]
  have "octets n = [w, x, y, z]"
    unfolding n using c by (intro octets_compose) blast+
  then have "ipv4_str n = join ''.'' [a, b, d, e]"
    using c by (simp add: ipv4_str_def)
  with sp join_split_on [of "CHR ''.''" s] show ?thesis by simp
qed

text \<open>An IPv4 address has one notation only: leading zeros are refused.\<close>

lemma ip_address_V4_text: "ip_address s = Some (V4 n) \<Longrightarrow> s = ip_str (V4 n)"
  using ipv4_str_of_string [of s n] by (auto simp: ip_address_def split: option.splits if_splits)

lemma ipv6_has_colon: "ipv6_of_string s = Some n \<Longrightarrow> CHR '':'' \<in> set s"
  by (rule ccontr) (simp add: ipv6_of_string_def)

lemma ip_address_no_colon:
  assumes "ip_address s = Some a" and "CHR '':'' \<notin> set s"
  shows "ip_str a = s"
proof (cases "ipv4_of_string s")
  case (Some n)
  with assms(1) show ?thesis by (auto simp: ip_address_def ipv4_str_of_string)
next
  case None
  with assms(1) obtain b scope n where "split_scope s = Some (b, scope)" "ipv6_of_string b = Some n"
    by (auto simp: ip_address_def split: if_splits option.splits)
  moreover from this have "CHR '':'' \<in> set b" by (intro ipv6_has_colon)
  ultimately have "CHR '':'' \<in> set s"
    by (auto simp: split_scope_def split1_Some split: option.splits if_splits)
  with assms(2) show ?thesis by simp
qed

text \<open>The characters of a printed address: those of numbers, separators, and the scope.\<close>

definition plain_char :: "char \<Rightarrow> bool" where
  "plain_char c \<longleftrightarrow> \<not> is_space c \<and> lower_char c = c"

lemma plain_hexchar: "is_hexchar c \<Longrightarrow> plain_char c"
  by (simp add: plain_char_def is_hexchar_facts)

lemma plain_seps: "plain_char CHR ''.''" "plain_char CHR '':''" "plain_char CHR ''%''"
  by (simp_all add: plain_char_def is_space_def lower_char_def)

lemma plain_digits: "c \<in> set (dec n) \<Longrightarrow> plain_char c" "c \<in> set (hex n) \<Longrightarrow> plain_char c"
  using dec_chars hex_chars plain_hexchar by blast+

lemma plain_ipv4_str: "c \<in> set (ipv4_str n) \<Longrightarrow> plain_char c"
  unfolding ipv4_str_def by (auto dest!: set_join intro: plain_digits plain_seps)

lemma compress_hextets_chars: "p \<in> set (compress_hextets hs) \<Longrightarrow> p = [] \<or> p \<in> set (map hex hs)"
  by (auto simp: compress_hextets_def Let_def split: prod.splits if_splits
      dest: in_set_takeD in_set_dropD)

lemma plain_ipv6_str: "c \<in> set (ipv6_str n) \<Longrightarrow> plain_char c"
  unfolding ipv6_str_def
  by (auto dest!: set_join compress_hextets_chars intro: plain_seps plain_digits)

lemma plain_ip_str:
  assumes "ip_address v = Some a" and "\<And>c. c \<in> set v \<Longrightarrow> plain_char c" and "c \<in> set (ip_str a)"
  shows "plain_char c"
proof (cases a)
  case (V4 n)
  with assms(3) show ?thesis by (auto intro: plain_ipv4_str)
next
  case (V6 n scope)
  show ?thesis
  proof (cases scope)
    case None
    with V6 assms(3) show ?thesis by (auto intro: plain_ipv6_str)
  next
    case (Some z)
    with V6 assms(1) have "ipv4_of_string v = None" and "set z \<subseteq> set v"
      by (auto simp: ip_address_def split_scope_def split1_Some split: option.splits if_splits)
    with V6 Some assms(2,3) show ?thesis
      by (auto intro: plain_ipv6_str plain_seps)
  qed
qed

lemma plain_strip: "(\<And>c. c \<in> set s \<Longrightarrow> plain_char c) \<Longrightarrow> strip s = s"
  by (rule strip_nospace) (simp add: plain_char_def)

lemma plain_lower: "(\<And>c. c \<in> set s \<Longrightarrow> plain_char c) \<Longrightarrow> lower s = s"
  by (induction s) (auto simp: lower_def plain_char_def)

lemma plain_value:
  assumes "\<not> list_ex is_space (lower (strip h))" and "c \<in> set (lower (strip h))"
  shows "plain_char c"
  using assms by (auto simp: plain_char_def list_ex_iff lower_def)

lemma ip_str_nonempty [simp]: "ip_str a \<noteq> []"
proof -
  have "ipv4_str n \<noteq> []" for n by (simp add: ipv4_str_def octets_def)
  moreover have "ipv6_str n \<noteq> []" for n using ipv6_str_facts(4) [of n] by auto
  ultimately show ?thesis by (cases a rule: ip_str.cases) auto
qed

lemma rstrip_dot_split:
  assumes "list_all label_ok (split_on CHR ''.'' r)"
  shows "rstrip_by is_dot r = r" and "r \<noteq> []"
proof -
  show "r \<noteq> []" using assms by (cases r) (auto simp: label_ok_def)
  then obtain s c where r: "r = s @ [c]" by (metis rev_exhaust)
  have "c \<noteq> CHR ''.''"
  proof
    assume "c = CHR ''.''"
    then have "split_on CHR ''.'' r = split_on CHR ''.'' s @ [[]]"
      unfolding r by (induction s) (auto split: list.splits)
    with assms show False by (simp add: label_ok_def)
  qed
  then show "rstrip_by is_dot r = r" by (simp add: rstrip_by_def r is_dot_def)
qed

lemma label_length: "label_ok l \<Longrightarrow> 0 < length l \<and> length l < 64"
  by (simp add: label_ok_def)

lemma label_chars: "label_ok l \<Longrightarrow> c \<in> set l \<Longrightarrow> is_alnum c \<or> c = CHR ''-''"
  by (auto simp: label_ok_def Let_def list_all_iff)

lemma labels_chars:
  assumes "list_all label_ok (split_on CHR ''.'' r)" and "c \<in> set r"
  shows "is_alnum c \<or> c = CHR ''-'' \<or> c = CHR ''.''"
proof -
  have "c \<in> set (join [CHR ''.''] (split_on CHR ''.'' r))" using assms(2) by (simp add: join_split_on)
  then show ?thesis
    using assms(1) by (auto dest!: set_join simp: list_all_iff dest: label_chars)
qed

lemma hostname_char_facts:
  assumes "is_alnum c \<or> c = CHR ''-'' \<or> c = CHR ''.''"
  shows "\<not> is_space c" "is_ascii c" "c \<noteq> CHR '':''" "c \<noteq> CHR ''[''" "c \<noteq> CHR '']''"
  using assms
  by (auto simp: is_alnum_def is_digit_def is_upper_def is_lower_def is_space_def is_ascii_def Let_def)

lemma hostname_fixpoint:
  assumes lab: "list_all label_ok (split_on CHR ''.'' r)" and len: "length r \<le> 253"
    and low: "lower r = r"
  shows "normalise_host rt r = Inr r"
proof -
  note ch = labels_chars [OF lab]
  have sp: "strip r = r" using ch hostname_char_facts(1) by (intro strip_nospace) blast
  have nospace: "\<not> list_ex is_space r" using ch hostname_char_facts(1) by (auto simp: list_ex_iff)
  have asc: "list_all is_ascii r" using ch hostname_char_facts(2) by (auto simp: list_all_iff)
  have colon: "CHR '':'' \<notin> set r" using ch hostname_char_facts(3) by blast
  note rs = rstrip_dot_split [OF lab]
  let ?ls = "split_on CHR ''.'' r"
  have l: "0 < length l \<and> length l < 64" if "l \<in> set ?ls" for l
    using that lab unfolding list_all_iff by (intro label_length) blast
  have "list_all (\<lambda>l. 0 < length l \<and> length l < 64) (butlast ?ls)"
    unfolding list_all_iff using l in_set_butlastD by metis
  moreover have "length (last ?ls) < 64"
    using l [of "last ?ls"] by simp
  ultimately have idna: "rbind (idna_encode rt r) ascii_decode = Inr r"
    using rs(2) asc by (simp add: idna_encode_def ascii_decode_def Let_def)
  show ?thesis
  proof (cases "ip_address r")
    case (Some a)
    then have "ip_str a = r" using colon by (rule ip_address_no_colon)
    with Some show ?thesis
      using rs(2) nospace by (simp add: normalise_host_def sp low Let_def)
  next
    case None
    then show ?thesis
      using rs nospace idna len lab by (simp add: normalise_host_def sp low Let_def)
  qed
qed

lemma set_rstrip_by: "set (rstrip_by P s) \<subseteq> set s"
  by (auto simp: rstrip_by_def dest!: set_dropWhileD)

lemma length_rstrip_by: "length (rstrip_by P s) \<le> length s"
  by (simp add: rstrip_by_def length_dropWhile_le [of P "rev s", simplified])

lemma normalise_host_name:
  assumes "normalise_host rt h = Inr r" and "ip_address (lower (strip h)) = None"
  obtains ah where "idna_encode rt (lower (strip h)) = Inr ah" and "length ah \<le> 253"
    and "list_all label_ok (split_on CHR ''.'' (rstrip_by is_dot ah))" and "r = rstrip_by is_dot ah"
proof -
  let ?v = "lower (strip h)"
  have "?v \<noteq> [] \<and> \<not> list_ex is_space ?v"
    using assms(1) unfolding normalise_host_def Let_def by (simp split: if_splits)
  then have eq: "normalise_host rt h =
      (case rbind (idna_encode rt ?v) ascii_decode of
         Inl _ \<Rightarrow> Inl (ValueError ''invalid proxy hostname'')
       | Inr ascii_host \<Rightarrow>
           if 253 < length ascii_host
              \<or> \<not> list_all label_ok (split_on CHR ''.'' (rstrip_by is_dot ascii_host))
           then Inl (ValueError ''invalid proxy hostname'')
           else Inr (rstrip_by is_dot ascii_host))"
    unfolding normalise_host_def Let_def assms(2) by simp
  show thesis
  proof (cases "rbind (idna_encode rt ?v) ascii_decode")
    case (Inl e)
    then show thesis using assms(1) unfolding eq by simp
  next
    case (Inr ah)
    then have "idna_encode rt ?v = Inr ah"
      unfolding rbind_eq_Inr ascii_decode_def by (auto split: if_splits)
    moreover have "length ah \<le> 253" "list_all label_ok (split_on CHR ''.'' (rstrip_by is_dot ah))"
      "r = rstrip_by is_dot ah"
      using assms(1) unfolding eq Inr by (simp_all split: if_splits)
    ultimately show thesis by (rule that)
  qed
qed

lemma normalise_host_normal:
  assumes "idna_lower rt" and "normalise_host rt h = Inr r"
  shows "normalise_host rt r = Inr r"
proof -
  let ?v = "lower (strip h)"
  have v: "?v \<noteq> []" "\<not> list_ex is_space ?v"
    using assms(2) by (auto simp: normalise_host_def Let_def split: if_splits)
  have plain: "\<And>c. c \<in> set ?v \<Longrightarrow> plain_char c" using plain_value [OF v(2)] .
  show ?thesis
  proof (cases "ip_address ?v")
    case (Some a)
    with v assms(2) have r: "r = ip_str a" by (auto simp: normalise_host_def Let_def)
    have pr: "\<And>c. c \<in> set r \<Longrightarrow> plain_char c"
      unfolding r using Some plain by (rule plain_ip_str)
    have "ip_address r = Some a" unfolding r using Some by (rule ip_address_normal)
    moreover have "\<not> list_ex is_space r" using pr by (auto simp: plain_char_def list_ex_iff)
    ultimately show ?thesis
      by (simp add: normalise_host_def plain_strip [OF pr] plain_lower [OF pr] Let_def) (simp add: r)
  next
    case None
    with assms(2) obtain ah where ah: "idna_encode rt ?v = Inr ah"
      and len: "length ah \<le> 253" and lab: "list_all label_ok (split_on CHR ''.'' (rstrip_by is_dot ah))"
      and r: "r = rstrip_by is_dot ah"
      by (rule normalise_host_name)
    then have "ah = ?v \<or> rt_idna rt ?v = Some ah"
      by (auto simp: idna_encode_def Let_def of_option_eq_Inr split: if_splits)
    then have "lower ah = ah"
    proof
      assume "ah = ?v"
      then show ?thesis by (simp only: lower_idem)
    next
      assume "rt_idna rt ?v = Some ah"
      then show ?thesis using assms(1)[unfolded idna_lower_def] by blast
    qed
    then have low: "map lower_char ah = map id ah" by (simp only: lower_def list.map_id)
    have "lower_char c = c" if "c \<in> set ah" for c
      using low that unfolding map_eq_conv id_apply by blast
    then have "\<And>c. c \<in> set r \<Longrightarrow> lower_char c = c" using set_rstrip_by r by blast
    then have "lower r = r" by (simp add: lower_def map_idI)
    moreover have "length r \<le> 253" using len length_rstrip_by [of is_dot ah] r by simp
    ultimately show ?thesis using lab r by (intro hostname_fixpoint) simp_all
  qed
qed

section \<open>Parsed candidates\<close>

lemma parse_candidate_Inr:
  assumes "parse_candidate rt value ds = Inr c"
  shows "\<exists>h. normalise_host rt h = Inr (c_host c)" and "1 \<le> c_port c" and "c_port c \<le> 65535"
    and "c_protocol c \<in> set ALLOWED_PROTOCOLS" and "c_source c \<noteq> []"
    and "strip (c_source c) = c_source c"
    and "case c_credential_ref c of None \<Rightarrow> True | Some r \<Rightarrow> strip r \<noteq> []"
  using assms
  by (auto simp: parse_candidate_def Let_def res_simps split: prod.splits)

lemma parse_candidate_wf:
  assumes "idna_lower rt" and "parse_candidate rt value ds = Inr c"
  shows "candidate_wf rt c"
  using parse_candidate_Inr [OF assms(2)] normalise_host_normal [OF assms(1)]
  by (auto simp: candidate_wf_def host_normal_def)

lemma str_map_str_dict: "str_map (map (\<lambda>(k, v). (k, JStr v)) m) = Some m"
  by (induction m) auto

lemma host_normal_chars:
  assumes "host_normal rt h"
  shows "h \<noteq> []" and "\<not> is_space (hd h)" and "\<not> starts_with ''['' h"
    and "strip h = h"
proof -
  let ?v = "lower (strip h)"
  have v: "?v \<noteq> []" "\<not> list_ex is_space ?v"
    using assms by (auto simp: host_normal_def normalise_host_def Let_def split: if_splits)
  have *: "h \<noteq> [] \<and> (\<forall>c \<in> set h. \<not> is_space c) \<and> \<not> starts_with ''['' h"
  proof (cases "ip_address ?v")
    case (Some a)
    with v assms have h: "h = ip_str a" by (auto simp: host_normal_def normalise_host_def Let_def)
    have pl: "\<And>c. c \<in> set h \<Longrightarrow> plain_char c"
      unfolding h by (rule plain_ip_str [OF Some]) (rule plain_value [OF v(2)])
    have "hd h \<noteq> CHR ''[''"
    proof (cases a)
      case (V4 n)
      then have "h = ipv4_str n" by (simp add: h)
      then have "hd h = hd (dec (n div 16777216 mod 256))" by (simp add: ipv4_str_def octets_def hd_append)
      then have "is_hexchar (hd h)" using dec_chars by (metis digits_nonempty(1) list.set_sel(1))
      then show ?thesis by (rule is_hexchar_facts)
    next
      case (V6 n scope)
      have "hd h = hd (ipv6_str n)"
        using V6 h ipv6_str_facts(4) [of n] by (cases scope) (auto simp: hd_append)
      moreover have "CHR ''['' \<notin> set (ipv6_str n)"
        unfolding ipv6_str_def
        by (auto dest!: set_join compress_hextets_chars hex_chars is_hexchar_facts(15))
      ultimately show ?thesis using ipv6_str_facts(4) [of n]
        by (metis empty_iff empty_set list.set_sel(1))
    qed
    then show ?thesis using pl h by (auto simp: plain_char_def starts_with_hd)
  next
    case None
    with assms[unfolded host_normal_def] obtain ah where
      lab: "list_all label_ok (split_on CHR ''.'' (rstrip_by is_dot ah))" and r: "h = rstrip_by is_dot ah"
      by (rule normalise_host_name)
    have "\<And>c. c \<in> set h \<Longrightarrow> \<not> is_space c \<and> c \<noteq> CHR ''[''"
      using labels_chars [OF lab] hostname_char_facts r by metis
    with rstrip_dot_split(2) [OF lab] r show ?thesis
      by (auto simp: starts_with_hd)
  qed
  then show "h \<noteq> []" and "\<not> is_space (hd h)" and "\<not> starts_with ''['' h" by auto
  from * show "strip h = h" by (intro strip_nospace) blast
qed

lemma str_of_int_facts:
  assumes "0 \<le> i"
  shows "py_int (str_of_int i) = Some i" and "CHR '':'' \<notin> set (str_of_int i)"
    and "str_of_int i \<noteq> []" and "\<not> is_space (last (str_of_int i))"
proof -
  show "py_int (str_of_int i) = Some i" using assms by (rule py_int_str_of_int)
  have h: "\<And>c. c \<in> set (str_of_int i) \<Longrightarrow> is_hexchar c"
    using assms dec_chars by (auto simp: str_of_int_nonneg)
  show "CHR '':'' \<notin> set (str_of_int i)" using h is_hexchar_facts(11) by blast
  show ne: "str_of_int i \<noteq> []" using assms by (simp add: str_of_int_nonneg)
  show "\<not> is_space (last (str_of_int i))" using h [of "last (str_of_int i)"] ne
    by (simp add: is_hexchar_facts(1))
qed

lemma split_endpoint_endpoint:
  assumes "host_normal rt (c_host c)" and "0 \<le> c_port c" and "CHR '']'' \<notin> set (c_host c)"
  shows "split_endpoint (endpoint c) = Inr (c_host c, c_port c)"
proof (cases "CHR '':'' \<in> set (c_host c)")
  case True
  have "split1 CHR '']'' (endpoint c) = Some (CHR ''['' # c_host c, CHR '':'' # str_of_int (c_port c))"
    using True assms(3) split1_append [of "CHR '']''" "CHR ''['' # c_host c"]
    by (simp add: endpoint_def)
  moreover have "starts_with ''['' (endpoint c)" using True by (simp add: endpoint_def)
  ultimately show ?thesis
    using str_of_int_facts(1) [OF assms(2)] by (simp add: split_endpoint_def)
next
  case False
  note hn = host_normal_chars [OF assms(1)]
  have "\<not> starts_with ''['' (endpoint c)"
    using False hn(1,3) by (simp add: endpoint_def starts_with_hd hd_append)
  moreover have "count_list (endpoint c) CHR '':'' = 1"
    using False str_of_int_facts(2) [OF assms(2)]
    by (simp add: endpoint_def count_notin)
  moreover have "rsplit1 CHR '':'' (endpoint c) = Some (c_host c, str_of_int (c_port c))"
    using False str_of_int_facts(2) [OF assms(2)] by (simp add: endpoint_def rsplit1_append)
  ultimately show ?thesis
    using str_of_int_facts(1) [OF assms(2)] by (simp add: split_endpoint_def)
qed

lemma strip_endpoint:
  assumes "host_normal rt (c_host c)" and "0 \<le> c_port c"
  shows "strip (endpoint c) = endpoint c" and "endpoint c \<noteq> []"
proof -
  note hn = host_normal_chars [OF assms(1)]
  show ne: "endpoint c \<noteq> []" by (simp add: endpoint_def)
  have "\<not> is_space (hd (endpoint c))"
    using hn(1,2) by (auto simp: endpoint_def hd_append is_space_def Let_def)
  moreover have "\<not> is_space (last (endpoint c))"
    using str_of_int_facts(3,4) [OF assms(2)] by (simp add: endpoint_def)
  ultimately show "strip (endpoint c) = endpoint c"
    unfolding strip_def by (intro strip_by_fix) auto
qed

text \<open>
  Any dict that carries the fields of a well-formed candidate parses back to that candidate,
  whatever else it holds. The one exception is a scoped IPv6 address whose scope contains a
  closing bracket, which \<open>split_endpoint\<close> cannot read.
\<close>

definition carries :: "dict \<Rightarrow> candidate \<Rightarrow> bool" where
  "carries m c \<longleftrightarrow>
     get m ''host'' = JStr (c_host c) \<and> get m ''port'' = JInt (c_port c)
     \<and> get m ''protocol'' = JStr (c_protocol c) \<and> get m ''source'' = JStr (c_source c)
     \<and> get m ''credential_ref'' = opt_str (c_credential_ref c)
     \<and> get m ''metadata'' = str_dict (c_metadata c) \<and> get m ''endpoint'' = JStr (endpoint c)"

lemma or_else_str_dict: "or_else (str_dict m) (JObj []) = str_dict m"
  by (cases m) (auto simp: str_dict_def or_else_def)

lemma lower_protocol: "p \<in> set ALLOWED_PROTOCOLS \<Longrightarrow> lower (strip p) = p \<and> p \<noteq> []"
proof -
  have "\<forall>p \<in> set ALLOWED_PROTOCOLS. lower (strip p) = p \<and> p \<noteq> []" by code_simp
  then show "p \<in> set ALLOWED_PROTOCOLS \<Longrightarrow> ?thesis" by blast
qed

lemma parse_carried:
  assumes "carries m c" and "candidate_wf rt c" and "CHR '']'' \<notin> set (c_host c)"
  shows "parse_candidate rt m ds = Inr c"
proof -
  have g: "get m ''protocol'' = JStr (c_protocol c)" "get m ''source'' = JStr (c_source c)"
    "get m ''credential_ref'' = opt_str (c_credential_ref c)"
    "get m ''metadata'' = str_dict (c_metadata c)"
    using assms(1) by (simp_all add: carries_def)
  have wf: "host_normal rt (c_host c)" "1 \<le> c_port c" "c_port c \<le> 65535"
    "c_protocol c \<in> set ALLOWED_PROTOCOLS" "c_source c \<noteq> []" "strip (c_source c) = c_source c"
    "case c_credential_ref c of None \<Rightarrow> True | Some r \<Rightarrow> strip r \<noteq> []"
    using assms(2) by (simp_all add: candidate_wf_def)
  have p: "0 \<le> c_port c" using wf(2) by simp
  note hn = host_normal_chars [OF wf(1)]
  note e = strip_endpoint [OF wf(1) p]
  have nh: "normalise_host rt (c_host c) = Inr (c_host c)" using wf(1) by (simp add: host_normal_def)
  have hp: "host_and_port rt m = Inr (c_host c, c_port c)"
    using assms(1) split_endpoint_endpoint [OF wf(1) p assms(3)] e hn(1,4) nh
    by (simp add: host_and_port_def carries_def int_port_def or_else_def)
  have cr: "opt_str r = JNull \<or> strip (py_str rt (opt_str r)) \<noteq> []"
      "(if truthy (opt_str r) then Some (py_str rt (opt_str r)) else None) = r"
    if "r = c_credential_ref c" for r
    using that wf(7) by (auto simp: opt_str_def split: option.splits)
  have md: "(case or_else (str_dict d) (JObj []) of JObj m \<Rightarrow> str_map m | _ \<Rightarrow> None) = Some d" for d
    by (simp add: or_else_str_dict) (simp add: str_dict_def str_map_str_dict)
  note pr = lower_protocol [OF wf(4)]
  have rec: "\<lparr>c_host = c_host c, c_port = c_port c, c_protocol = c_protocol c, c_source = c_source c,
      c_credential_ref = c_credential_ref c, c_metadata = c_metadata c\<rparr> = c"
    by simp
  have tr: "truthy (JStr (c_protocol c))" "truthy (JStr (c_source c))" using wf(5) pr by simp_all
  show ?thesis
    unfolding parse_candidate_def hp rbind_simps prod.case Let_def
      g or_else_simps(1) [OF tr(1)] or_else_simps(1) [OF tr(2)] py_str.simps
    using wf pr by (simp only: nh rbind_simps ensure_simps md of_option_simps cr rec) simp
qed

lemma carries_snapshot_without_validation: "carries (snapshot_without_validation c) c"
  by (simp add: carries_def snapshot_without_validation_def)

lemma carries_snapshot: "carries (snapshot c l a) c"
  by (simp add: carries_def snapshot_def snapshot_without_validation_def)

section \<open>Properties\<close>

text \<open>A runtime and a candidate for the concrete instances.\<close>

definition plain_rt :: pyrt where
  "plain_rt = \<lparr>rt_repr = (\<lambda>_. []), rt_idna = (\<lambda>_. None)\<rparr>"

lemma plain_rt_idna_lower: "idna_lower plain_rt"
  by (simp add: plain_rt_def idna_lower_def)

definition sample_candidate :: candidate where
  "sample_candidate = \<lparr>c_host = ''proxy.example'', c_port = 1080, c_protocol = ''socks5'',
     c_source = ''inventory'', c_credential_ref = Some ''billing-a'', c_metadata = [(''zone'', ''eu'')]\<rparr>"

lemma sample_candidate_wf: "candidate_wf plain_rt sample_candidate"
  by code_simp

text \<open>
  C19. Whatever dict \<open>parse_candidate\<close> accepts, the candidate is canonical: its host is a fixed
  point of the normalisation, its port is in range, its protocol is allowed, its source is
  stripped and not empty, and its credential reference is not blank.
\<close>

theorem parse_candidate_canonical:
  assumes "idna_lower rt" and "parse_candidate rt value ds = Inr c"
  shows "normalise_host rt (c_host c) = Inr (c_host c) \<and> 1 \<le> c_port c \<and> c_port c \<le> 65535
    \<and> c_protocol c \<in> set ALLOWED_PROTOCOLS \<and> c_source c \<noteq> [] \<and> strip (c_source c) = c_source c
    \<and> (\<forall>r. c_credential_ref c = Some r \<longrightarrow> strip r \<noteq> [])"
  using parse_candidate_wf [OF assms]
  by (auto simp: candidate_wf_def host_normal_def split: option.splits)

lemma parse_candidate_canonical_witness:
  "\<exists>c. parse_candidate plain_rt
     [(''endpoint'', JStr '' Proxy.Example.:1080 ''), (''protocol'', JStr ''SOCKS5''), (''port'', JStr ''1080'')]
     ''inventory'' = Inr c
   \<and> normalise_host plain_rt (c_host c) = Inr (c_host c) \<and> c_host c = ''proxy.example''"
proof -
  have "parse_candidate plain_rt
     [(''endpoint'', JStr '' Proxy.Example.:1080 ''), (''protocol'', JStr ''SOCKS5''), (''port'', JStr ''1080'')]
     ''inventory'' = Inr \<lparr>c_host = ''proxy.example'', c_port = 1080, c_protocol = ''socks5'',
       c_source = ''inventory'', c_credential_ref = None, c_metadata = []\<rparr>"
    by code_simp
  with parse_candidate_canonical [OF plain_rt_idna_lower this] show ?thesis by simp
qed

text \<open>
  A well-formed candidate survives its snapshots: parsing what the fetcher publishes, or what
  the validator publishes after a measurement, gives the candidate back, with whatever default
  source. (A scoped IPv6 address whose scope holds a closing bracket is the exception.)
\<close>

theorem candidate_snapshot_roundtrip:
  assumes "candidate_wf rt c" and "CHR '']'' \<notin> set (c_host c)"
  shows "parse_candidate rt (snapshot_without_validation c) ds = Inr c
    \<and> parse_candidate rt (snapshot c latency level) ds = Inr c"
  using assms parse_carried carries_snapshot carries_snapshot_without_validation by blast

lemma candidate_snapshot_roundtrip_witness:
  "parse_candidate plain_rt (snapshot_without_validation sample_candidate) ''x'' = Inr sample_candidate
   \<and> parse_candidate plain_rt (snapshot sample_candidate 120 ''anonymous'') ''x'' = Inr sample_candidate"
  by (rule candidate_snapshot_roundtrip [OF sample_candidate_wf]) (simp add: sample_candidate_def)

text \<open>
  Normalisation is idempotent: the second application of \<open>normalise_host\<close> to its own result
  changes nothing, for IPv4, IPv6 (scoped or not) and host names alike.
\<close>

theorem normalise_host_idempotent:
  assumes "idna_lower rt"
  shows "rbind (normalise_host rt h) (normalise_host rt) = normalise_host rt h"
  using normalise_host_normal [OF assms] by (cases "normalise_host rt h") simp_all

lemma normalise_host_idempotent_witness:
  "rbind (normalise_host plain_rt ''Proxy.Example. '') (normalise_host plain_rt)
   = normalise_host plain_rt ''Proxy.Example. ''"
  by (rule normalise_host_idempotent [OF plain_rt_idna_lower])

text \<open>
  The authority form of a canonical candidate reads back: splitting \<open>host:port\<close> or
  \<open>[IPv6]:port\<close> at the printed endpoint gives exactly the host and the port of the candidate.
\<close>

theorem endpoint_split_roundtrip:
  assumes "candidate_wf rt c" and "CHR '']'' \<notin> set (c_host c)"
  shows "split_endpoint (endpoint c) = Inr (c_host c, c_port c)"
  using assms by (intro split_endpoint_endpoint) (auto simp: candidate_wf_def)

lemma endpoint_split_roundtrip_witness:
  "split_endpoint (endpoint sample_candidate) = Inr (''proxy.example'', 1080)"
  using endpoint_split_roundtrip [OF sample_candidate_wf] by (simp add: sample_candidate_def)

end
