(* ===== verification/Snapshot_Store.thy ===== *)
theory Snapshot_Store
  imports Py_Json
begin

text \<open>
  The snapshot storage of \<open>validator/storage.py\<close>. The Redis server is a parameter: a client
  record with the operations the code calls, and the laws of \<open>redis_client\<close> for them. The
  publication of a snapshot is the sequence of the commands it awaits, so that a crash is a
  prefix of the sequence and concurrent publishers are interleavings of several ones.
\<close>

definition RAW_KEY :: string where "RAW_KEY = ''proxy_pool:raw:v1''"
definition VALIDATED_KEY :: string where "VALIDATED_KEY = ''proxy_pool:validated:v1''"
definition RESERVE_KEY :: string where "RESERVE_KEY = ''proxy_pool:reserve:v1''"
definition ACTIVE_KEY :: string where "ACTIVE_KEY = ''proxy_pool:active:v1''"
definition GATEWAY_ACTIVE_KEY :: string where "GATEWAY_ACTIVE_KEY = ''transparent-gateway:validated:v1''"

definition LIVE_KEYS :: "string list" where
  "LIVE_KEYS = [RAW_KEY, VALIDATED_KEY, RESERVE_KEY, ACTIVE_KEY, GATEWAY_ACTIVE_KEY]"

section \<open>The client\<close>

datatype command = SET string jtext | RENAME string string

text \<open>\<open>r_exec\<close> either takes effect or raises and leaves the data as they are.\<close>

record 'd redis =
  r_get :: "'d \<Rightarrow> string \<Rightarrow> jtext option"
  r_exec :: "command \<Rightarrow> 'd \<Rightarrow> 'd res"

fun run :: "'d redis \<Rightarrow> command list \<Rightarrow> 'd \<Rightarrow> 'd \<times> unit res" where
  "run cl [] d = (d, Inr ())"
| "run cl (c # cs) d =
     (case r_exec cl c d of Inl e \<Rightarrow> (d, Inl e) | Inr d' \<Rightarrow> run cl cs d')"

definition read_snapshot :: "'d redis \<Rightarrow> string \<Rightarrow> 'd \<Rightarrow> dict option res" where
  "read_snapshot cl key d =
     (case r_get cl d key of
        None \<Rightarrow> Inr None
      | Some EmptyText \<Rightarrow> Inr None
      | Some raw \<Rightarrow>
          rbind (json_loads raw) (\<lambda>v.
          case v of
            JObj m \<Rightarrow>
              (case get m ''entries'' of
                 JArr _ \<Rightarrow> Inr (Some m)
               | _ \<Rightarrow> Inl (ValueError (''invalid snapshot stored at '' @ key)))
          | _ \<Rightarrow> Inl (ValueError (''invalid snapshot stored at '' @ key))))"

text \<open>\<open>uuid4().hex\<close> is the argument \<open>uuid\<close>.\<close>

definition temporary_key :: "string \<Rightarrow> string \<Rightarrow> string" where
  "temporary_key key uuid = key @ '':tmp:'' @ uuid"

definition publish_commands :: "string \<Rightarrow> string \<Rightarrow> dict \<Rightarrow> command list" where
  "publish_commands uuid key snapshot =
     (let temporary = temporary_key key uuid; encoded = json_dumps_sorted (JObj snapshot) in
      [SET temporary encoded, RENAME temporary key])"

definition publish_snapshot :: "'d redis \<Rightarrow> string \<Rightarrow> string \<Rightarrow> dict \<Rightarrow> 'd \<Rightarrow> 'd \<times> unit res" where
  "publish_snapshot cl uuid key snapshot d = run cl (publish_commands uuid key snapshot) d"

definition publish_active_commands :: "string \<Rightarrow> string \<Rightarrow> dict \<Rightarrow> command list" where
  "publish_active_commands uuid1 uuid2 snapshot =
     publish_commands uuid1 ACTIVE_KEY snapshot @ publish_commands uuid2 GATEWAY_ACTIVE_KEY snapshot"

definition publish_active_snapshot :: "'d redis \<Rightarrow> string \<Rightarrow> string \<Rightarrow> dict \<Rightarrow> 'd \<Rightarrow> 'd \<times> unit res" where
  "publish_active_snapshot cl uuid1 uuid2 snapshot d =
     (case publish_snapshot cl uuid1 ACTIVE_KEY snapshot d of
        (d', Inl e) \<Rightarrow> (d', Inl e)
      | (d', Inr _) \<Rightarrow> publish_snapshot cl uuid2 GATEWAY_ACTIVE_KEY snapshot d')"

text \<open>The in-memory client of \<open>tests/test_proxy_pipeline.py\<close>.\<close>

type_synonym store = "string \<rightharpoonup> jtext"

fun fake_exec :: "command \<Rightarrow> store \<Rightarrow> store res" where
  "fake_exec (SET key v) d = Inr (d(key \<mapsto> v))"
| "fake_exec (RENAME source destination) d =
     (case d source of None \<Rightarrow> Inl KeyError
      | Some v \<Rightarrow> Inr ((d(source := None))(destination \<mapsto> v)))"

definition FakeRedis :: "store redis" where
  "FakeRedis = \<lparr>r_get = (\<lambda>d. d), r_exec = fake_exec\<rparr>"

section \<open>The laws of the client\<close>

text \<open>
  Documented behaviour of Redis: \<open>SET\<close> writes one key, \<open>RENAME\<close> moves the value of an existing
  key over the destination in one step, and neither touches another key.
\<close>

definition redis_laws :: "'d redis \<Rightarrow> bool" where
  "redis_laws cl \<longleftrightarrow>
     (\<forall>k v d d'. r_exec cl (SET k v) d = Inr d' \<longrightarrow> r_get cl d' = (r_get cl d)(k \<mapsto> v))
     \<and> (\<forall>k l d d'. r_exec cl (RENAME k l) d = Inr d' \<longrightarrow>
          r_get cl d k \<noteq> None \<and> r_get cl d' = ((r_get cl d)(k := None))(l := r_get cl d k))"

text \<open>The server answers: \<open>SET\<close> succeeds, and so does \<open>RENAME\<close> of an existing key.\<close>

definition redis_up :: "'d redis \<Rightarrow> bool" where
  "redis_up cl \<longleftrightarrow>
     (\<forall>k v d. ok (r_exec cl (SET k v) d))
     \<and> (\<forall>k l d. r_get cl d k \<noteq> None \<longrightarrow> ok (r_exec cl (RENAME k l) d))"

lemma FakeRedis_laws: "redis_laws FakeRedis"
  by (auto simp: redis_laws_def FakeRedis_def split: option.splits)

lemma FakeRedis_up: "redis_up FakeRedis"
  by (auto simp: redis_up_def FakeRedis_def)

lemma temporary_key_neq [simp]: "temporary_key key uuid \<noteq> key" "key \<noteq> temporary_key key uuid"
  by (auto simp: temporary_key_def)

lemma temporary_key_apart [simp]:
  "ACTIVE_KEY \<noteq> temporary_key GATEWAY_ACTIVE_KEY u" "GATEWAY_ACTIVE_KEY \<noteq> temporary_key ACTIVE_KEY u"
  by (simp_all add: temporary_key_def ACTIVE_KEY_def GATEWAY_ACTIVE_KEY_def)

lemma read_snapshot_encoded:
  assumes "distinct (map fst s)" and "get s ''entries'' = JArr es"
    and "r_get cl d key = Some (json_dumps_sorted (JObj s))"
  shows "\<exists>m. read_snapshot cl key d = Inr (Some m) \<and> JObj m = sort_keys (JObj s)
    \<and> (\<forall>k. map_of m k = map_option sort_keys (map_of s k))"
proof -
  obtain m where m: "sort_keys (JObj s) = JObj m" by simp
  note mo = map_of_sort_keys [OF assms(1) m]
  have "map_of s ''entries'' = Some (JArr es)"
    using assms(2) by (auto simp: get_def get_default_def split: option.splits)
  then have "get m ''entries'' = JArr (map sort_keys es)"
    by (simp add: get_def get_default_def mo)
  then have "read_snapshot cl key d = Inr (Some m)"
    using assms(3) m by (simp add: read_snapshot_def json_dumps_sorted_def)
  with m mo show ?thesis by auto
qed

text \<open>The interface between the workers and the store.\<close>

locale redis_client =
  fixes cl :: "'d redis"
  assumes laws: "redis_laws cl"
begin

lemma get_SET: "r_exec cl (SET k v) d = Inr d' \<Longrightarrow> r_get cl d' = (r_get cl d)(k \<mapsto> v)"
  using laws by (simp add: redis_laws_def)

lemma get_RENAME: "r_exec cl (RENAME k l) d = Inr d' \<Longrightarrow>
    r_get cl d k \<noteq> None \<and> r_get cl d' = ((r_get cl d)(k := None))(l := r_get cl d k)"
  using laws unfolding redis_laws_def by blast

lemma publish_ok:
  assumes "publish_snapshot cl uuid key s d = (d', Inr ())"
  shows "r_get cl d' = ((r_get cl d)(temporary_key key uuid := None))(key \<mapsto> json_dumps_sorted (JObj s))"
proof -
  let ?t = "temporary_key key uuid" and ?e = "json_dumps_sorted (JObj s)"
  from assms obtain d1 where 1: "r_exec cl (SET ?t ?e) d = Inr d1" and 2: "r_exec cl (RENAME ?t key) d1 = Inr d'"
    by (auto simp: publish_snapshot_def publish_commands_def Let_def split: sum.splits)
  show ?thesis using get_SET [OF 1] get_RENAME [OF 2] by (auto simp: fun_eq_iff)
qed

text \<open>A failed publication has changed the temporary key at most.\<close>

lemma publish_failed:
  assumes "publish_snapshot cl uuid key s d = (d', Inl e)"
  shows "k \<noteq> temporary_key key uuid \<Longrightarrow> r_get cl d' k = r_get cl d k"
proof -
  let ?t = "temporary_key key uuid" and ?e = "json_dumps_sorted (JObj s)"
  assume k: "k \<noteq> ?t"
  show ?thesis
  proof (cases "r_exec cl (SET ?t ?e) d")
    case (Inl x)
    with assms show ?thesis by (simp add: publish_snapshot_def publish_commands_def Let_def)
  next
    case (Inr d1)
    with assms have "d' = d1"
      by (simp add: publish_snapshot_def publish_commands_def Let_def split: sum.splits)
    with get_SET [OF Inr] k show ?thesis by simp
  qed
qed

lemma publish_up:
  assumes "redis_up cl"
  shows "\<exists>d'. publish_snapshot cl uuid key s d = (d', Inr ())"
proof -
  let ?t = "temporary_key key uuid" and ?e = "json_dumps_sorted (JObj s)"
  obtain d1 where 1: "r_exec cl (SET ?t ?e) d = Inr d1"
    using assms unfolding redis_up_def ok_iff by blast
  have "r_get cl d1 ?t \<noteq> None" using get_SET [OF 1] by simp
  with assms obtain d2 where "r_exec cl (RENAME ?t key) d1 = Inr d2"
    unfolding redis_up_def ok_iff by blast
  with 1 show ?thesis by (simp add: publish_snapshot_def publish_commands_def Let_def)
qed

lemma publish_get:
  assumes "publish_snapshot cl uuid key s d = (d', Inr ())"
  shows "r_get cl d' key = Some (json_dumps_sorted (JObj s))"
    and "k \<noteq> key \<Longrightarrow> k \<noteq> temporary_key key uuid \<Longrightarrow> r_get cl d' k = r_get cl d k"
  using publish_ok [OF assms] by simp_all

lemma publish_read:
  assumes "publish_snapshot cl uuid key s d = (d', Inr ())" and "distinct (map fst s)"
    and "get s ''entries'' = JArr es"
  shows "\<exists>m. read_snapshot cl key d' = Inr (Some m) \<and> JObj m = sort_keys (JObj s)
    \<and> (\<forall>k. map_of m k = map_option sort_keys (map_of s k))"
  using read_snapshot_encoded [OF assms(2,3) publish_get(1) [OF assms(1)]] .

lemma publish_active_failed:
  assumes "publish_active_snapshot cl u1 u2 s d = (d', Inl e)"
  shows "r_get cl d' GATEWAY_ACTIVE_KEY = r_get cl d GATEWAY_ACTIVE_KEY
    \<and> r_get cl d' ACTIVE_KEY \<in> {r_get cl d ACTIVE_KEY, Some (json_dumps_sorted (JObj s))}"
proof -
  have neq: "ACTIVE_KEY \<noteq> GATEWAY_ACTIVE_KEY" by (simp add: ACTIVE_KEY_def GATEWAY_ACTIVE_KEY_def)
  obtain d1 r1 where p1: "publish_snapshot cl u1 ACTIVE_KEY s d = (d1, r1)" by fastforce
  show ?thesis
  proof (cases r1)
    case (Inl e1)
    with p1 assms have "d' = d1" by (simp add: publish_active_snapshot_def)
    with p1 Inl publish_failed [of u1 ACTIVE_KEY s d d1 e1] show ?thesis by simp
  next
    case (Inr u)
    then have p1: "publish_snapshot cl u1 ACTIVE_KEY s d = (d1, Inr ())" using p1 by simp
    with assms have p2: "publish_snapshot cl u2 GATEWAY_ACTIVE_KEY s d1 = (d', Inl e)"
      by (simp add: publish_active_snapshot_def)
    note f = publish_failed [OF p2] and g = publish_get [OF p1]
    have "r_get cl d' ACTIVE_KEY = Some (json_dumps_sorted (JObj s))"
      using f [of ACTIVE_KEY] g(1) by simp
    moreover have "r_get cl d' GATEWAY_ACTIVE_KEY = r_get cl d GATEWAY_ACTIVE_KEY"
      using f [of GATEWAY_ACTIVE_KEY] g(2) [of GATEWAY_ACTIVE_KEY] neq by simp
    ultimately show ?thesis by simp
  qed
qed

lemma publish_active_keeps:
  "publish_active_snapshot cl u1 u2 s d = (d', Inl e) \<Longrightarrow> r_get cl d' GATEWAY_ACTIVE_KEY = r_get cl d GATEWAY_ACTIVE_KEY"
  using publish_active_failed by blast

end

interpretation fake: redis_client FakeRedis
  by unfold_locales (rule FakeRedis_laws)

section \<open>Concurrent publishers\<close>

text \<open>
  A publication in progress: its key, its \<open>uuid\<close>, its snapshot, and the commands it has still to
  send. A step lets one publication send its next command, or stops one for good (its worker
  is killed, or the command raised).
\<close>

record publication =
  p_key :: string
  p_uuid :: string
  p_snapshot :: dict
  p_rest :: "command list"

definition fresh_publication :: "string \<Rightarrow> string \<Rightarrow> dict \<Rightarrow> publication" where
  "fresh_publication uuid key s =
     \<lparr>p_key = key, p_uuid = uuid, p_snapshot = s, p_rest = publish_commands uuid key s\<rparr>"

inductive pub_step :: "'d redis \<Rightarrow> 'd \<times> publication list \<Rightarrow> 'd \<times> publication list \<Rightarrow> bool"
  for cl :: "'d redis" where
  send: "i < length ps \<Longrightarrow> p_rest (ps ! i) = c # cs \<Longrightarrow> r_exec cl c d = Inr d' \<Longrightarrow>
    pub_step cl (d, ps) (d', ps[i := (ps ! i)\<lparr>p_rest := cs\<rparr>])"
| stop: "i < length ps \<Longrightarrow> pub_step cl (d, ps) (d, ps[i := (ps ! i)\<lparr>p_rest := []\<rparr>])"

inductive_cases pub_step_cases: "pub_step cl (d, ps) s'"

definition p_temp :: "publication \<Rightarrow> string" where
  "p_temp p = temporary_key (p_key p) (p_uuid p)"

definition p_encoded :: "publication \<Rightarrow> jtext" where
  "p_encoded p = json_dumps_sorted (JObj (p_snapshot p))"

definition p_progress :: "(string \<rightharpoonup> jtext) \<Rightarrow> publication \<Rightarrow> bool" where
  "p_progress m p \<longleftrightarrow>
     p_rest p = []
     \<or> p_rest p = [RENAME (p_temp p) (p_key p)] \<and> m (p_temp p) = Some (p_encoded p)
     \<or> p_rest p = publish_commands (p_uuid p) (p_key p) (p_snapshot p)"

text \<open>Temporary keys are pairwise distinct and none is a key that somebody publishes to.\<close>

definition temps_apart :: "publication list \<Rightarrow> bool" where
  "temps_apart ps \<longleftrightarrow> distinct (map p_temp ps) \<and> set (map p_temp ps) \<inter> set (map p_key ps) = {}"

definition published_or_old ::
  "(string \<rightharpoonup> jtext) \<Rightarrow> publication list \<Rightarrow> (string \<rightharpoonup> jtext) \<Rightarrow> bool" where
  "published_or_old m0 ps m \<longleftrightarrow>
     (\<forall>k. k \<notin> set (map p_temp ps) \<longrightarrow>
        m k = m0 k \<or> (\<exists>p \<in> set ps. p_key p = k \<and> m k = Some (p_encoded p)))"

definition pub_inv :: "'d redis \<Rightarrow> (string \<rightharpoonup> jtext) \<Rightarrow> 'd \<times> publication list \<Rightarrow> bool" where
  "pub_inv cl m0 s \<longleftrightarrow>
     (case s of (d, ps) \<Rightarrow> temps_apart ps \<and> (\<forall>p \<in> set ps. p_progress (r_get cl d) p)
        \<and> published_or_old m0 ps (r_get cl d))"

lemma p_temp_update [simp]: "p_temp (p\<lparr>p_rest := cs\<rparr>) = p_temp p"
  by (simp add: p_temp_def)

lemma p_encoded_update [simp]: "p_encoded (p\<lparr>p_rest := cs\<rparr>) = p_encoded p"
  by (simp add: p_encoded_def)

lemma map_update_same: "i < length ps \<Longrightarrow> f x = f (ps ! i) \<Longrightarrow> map f (ps[i := x]) = map f ps"
  by (simp add: map_update) (metis list_update_id nth_map length_map)

lemma temps_apart_update [simp]:
  "i < length ps \<Longrightarrow> temps_apart (ps[i := (ps ! i)\<lparr>p_rest := cs\<rparr>]) = temps_apart ps"
  using map_update_same [of i ps p_temp] map_update_same [of i ps p_key]
  by (simp add: temps_apart_def)

lemma progress_cong:
  "p_progress m q \<Longrightarrow> m' (p_temp q) = m (p_temp q) \<Longrightarrow> p_progress m' q"
  by (auto simp: p_progress_def)

lemma progress_stopped: "p_progress m (q\<lparr>p_rest := []\<rparr>)"
  by (simp add: p_progress_def)

lemma published_or_old_update:
  assumes "i < length ps"
  shows "published_or_old m0 (ps[i := (ps ! i)\<lparr>p_rest := cs\<rparr>]) m = published_or_old m0 ps m"
proof -
  let ?qs = "ps[i := (ps ! i)\<lparr>p_rest := cs\<rparr>]" and ?g = "\<lambda>p. (p_key p, p_encoded p)"
  have "map ?g ?qs = map ?g ps" "map p_temp ?qs = map p_temp ps"
    using assms by (simp_all add: map_update_same)
  moreover have *: "(\<exists>p \<in> set rs. p_key p = k \<and> m k = Some (p_encoded p))
      \<longleftrightarrow> (\<exists>e. (k, e) \<in> set (map ?g rs) \<and> m k = Some e)" for rs k
    by auto
  ultimately show ?thesis unfolding published_or_old_def * by presburger
qed

lemma temps_apart_other:
  assumes "temps_apart ps" and "i < length ps" and "j < length ps" and "j \<noteq> i"
  shows "p_temp (ps ! j) \<noteq> p_temp (ps ! i)" and "p_temp (ps ! j) \<noteq> p_key (ps ! i)"
proof -
  from assms(1) have "distinct (map p_temp ps)"
    and dis: "set (map p_temp ps) \<inter> set (map p_key ps) = {}" by (simp_all only: temps_apart_def)
  then show "p_temp (ps ! j) \<noteq> p_temp (ps ! i)"
    using assms(2-4) by (simp add: distinct_conv_nth)
  have "p_temp (ps ! j) \<in> set (map p_temp ps)" "p_key (ps ! i) \<in> set (map p_key ps)"
    using assms(2,3) by simp_all
  with dis show "p_temp (ps ! j) \<noteq> p_key (ps ! i)" by (metis IntI empty_iff)
qed

lemma progress_update:
  assumes "\<forall>p \<in> set ps. p_progress m p" and "i < length ps" and "p_progress m' x"
    and "\<And>j. j < length ps \<Longrightarrow> j \<noteq> i \<Longrightarrow> m' (p_temp (ps ! j)) = m (p_temp (ps ! j))"
  shows "\<forall>p \<in> set (ps[i := x]). p_progress m' p"
proof
  fix p assume "p \<in> set (ps[i := x])"
  then obtain j where j: "j < length ps" "p = ps[i := x] ! j" by (auto simp: in_set_conv_nth)
  show "p_progress m' p"
  proof (cases "j = i")
    case False
    with j have "p = ps ! j" "p_progress m (ps ! j)" using assms(1) by simp_all
    with assms(4) [OF j(1) False] show ?thesis by (simp add: progress_cong)
  qed (use j assms(2,3) in simp)
qed

context redis_client
begin

lemma send_step:
  assumes "pub_inv cl m0 (d, ps)" and "i < length ps" and "p_rest (ps ! i) = c # cs"
    and "r_exec cl c d = Inr d'"
  shows "pub_inv cl m0 (d', ps[i := (ps ! i)\<lparr>p_rest := cs\<rparr>])"
proof -
  let ?p = "ps ! i" and ?m = "r_get cl d" and ?m' = "r_get cl d'"
  have inv: "temps_apart ps" "\<forall>p \<in> set ps. p_progress ?m p" "published_or_old m0 ps ?m"
    using assms(1) by (simp_all add: pub_inv_def)
  note other = temps_apart_other [OF inv(1) assms(2)]
  have pt: "p_temp ?p \<in> set (map p_temp ps)" and pp: "?p \<in> set ps" using assms(2) by simp_all
  from inv(2) pp have "p_progress ?m ?p" by blast
  then consider (rename) "c = RENAME (p_temp ?p) (p_key ?p)" "cs = []" "?m (p_temp ?p) = Some (p_encoded ?p)"
    | (set) "c = SET (p_temp ?p) (p_encoded ?p)" "cs = [RENAME (p_temp ?p) (p_key ?p)]"
    using assms(3) by (auto simp: p_progress_def publish_commands_def p_temp_def p_encoded_def Let_def)
  then have "published_or_old m0 ps ?m' \<and> (\<forall>p \<in> set (ps[i := ?p\<lparr>p_rest := cs\<rparr>]). p_progress ?m' p)"
  proof cases
    case rename
    have m': "?m' = (?m(p_temp ?p := None))(p_key ?p := Some (p_encoded ?p))"
      using get_RENAME assms(4) rename(1,3) by simp
    have "published_or_old m0 ps ?m'"
      using inv(3) pp pt unfolding published_or_old_def m' by auto
    moreover have "\<forall>p \<in> set (ps[i := ?p\<lparr>p_rest := cs\<rparr>]). p_progress ?m' p"
      using inv(2) assms(2) by (rule progress_update) (use other in \<open>simp_all add: rename(2) progress_stopped m'\<close>)
    ultimately show ?thesis ..
  next
    case set
    have m': "?m' = ?m(p_temp ?p \<mapsto> p_encoded ?p)" using get_SET assms(4) set(1) by simp
    have "published_or_old m0 ps ?m'"
      using inv(3) pt unfolding published_or_old_def m' by auto
    moreover have "p_progress ?m' (?p\<lparr>p_rest := cs\<rparr>)" by (simp add: p_progress_def set(2) m')
    then have "\<forall>p \<in> set (ps[i := ?p\<lparr>p_rest := cs\<rparr>]). p_progress ?m' p"
      by (rule progress_update [OF inv(2) assms(2)]) (use other in \<open>simp add: m'\<close>)
    ultimately show ?thesis ..
  qed
  then show ?thesis
    using inv(1) assms(2) by (simp add: pub_inv_def published_or_old_update)
qed

lemma pub_step_inv: "pub_step cl s s' \<Longrightarrow> pub_inv cl m0 s \<Longrightarrow> pub_inv cl m0 s'"
proof (induction rule: pub_step.induct)
  case (send i ps c cs d d')
  show ?case by (rule send_step [OF send(4,1,2,3)])
next
  case (stop i ps d)
  then have "\<forall>p \<in> set (ps[i := (ps ! i)\<lparr>p_rest := []\<rparr>]). p_progress (r_get cl d) p"
    by (intro progress_update [of _ "r_get cl d"]) (simp_all add: pub_inv_def progress_stopped)
  with stop show ?case by (simp add: pub_inv_def published_or_old_update)
qed

lemma pub_steps_inv: "(pub_step cl)\<^sup>*\<^sup>* s s' \<Longrightarrow> pub_inv cl m0 s \<Longrightarrow> pub_inv cl m0 s'"
  by (induction rule: rtranclp_induct) (auto intro: pub_step_inv)

end

lemma fresh_progress: "p_progress m (fresh_publication uuid key s)"
  by (simp add: p_progress_def fresh_publication_def)

lemma fresh_simps [simp]:
  "p_key (fresh_publication uuid key s) = key"
  "p_encoded (fresh_publication uuid key s) = json_dumps_sorted (JObj s)"
  "p_temp (fresh_publication uuid key s) = temporary_key key uuid"
  by (simp_all add: fresh_publication_def p_encoded_def p_temp_def)

lemma start_inv:
  assumes "temps_apart ps" and "\<forall>p \<in> set ps. p = fresh_publication (p_uuid p) (p_key p) (p_snapshot p)"
  shows "pub_inv cl (r_get cl d) (d, ps)"
proof -
  have "p_progress (r_get cl d) p" if "p \<in> set ps" for p
    using bspec [OF assms(2) that] fresh_progress by metis
  then show ?thesis using assms(1) by (simp add: pub_inv_def published_or_old_def)
qed

lemma pub_step_ids:
  assumes "(pub_step cl)\<^sup>*\<^sup>* s s'"
  shows "map (\<lambda>p. (p_temp p, p_key p, p_encoded p)) (snd s') = map (\<lambda>p. (p_temp p, p_key p, p_encoded p)) (snd s)"
  using assms
proof (induction rule: rtranclp_induct)
  case (step y z)
  from step(2) have "map (\<lambda>p. (p_temp p, p_key p, p_encoded p)) (snd z)
      = map (\<lambda>p. (p_temp p, p_key p, p_encoded p)) (snd y)"
    by (induction rule: pub_step.induct) (simp_all add: map_update_same)
  with step(3) show ?case by simp
qed simp

lemma published_or_old_cong:
  assumes "map (\<lambda>p. (p_temp p, p_key p, p_encoded p)) qs = map (\<lambda>p. (p_temp p, p_key p, p_encoded p)) ps"
    and "published_or_old m0 qs m"
  shows "published_or_old m0 ps m"
proof -
  let ?f = "\<lambda>p. (p_temp p, p_key p, p_encoded p)"
  have s: "set (map ?f qs) = set (map ?f ps)" using assms(1) by (rule arg_cong)
  have t: "k \<in> set (map p_temp rs) \<longleftrightarrow> (\<exists>a b. (k, a, b) \<in> set (map ?f rs))" for k rs by auto
  have e: "(\<exists>p \<in> set rs. p_key p = k \<and> m k = Some (p_encoded p))
      \<longleftrightarrow> (\<exists>a e. (a, k, e) \<in> set (map ?f rs) \<and> m k = Some e)" for k rs
    by auto
  show ?thesis using assms(2) unfolding published_or_old_def t e s .
qed

section \<open>Properties\<close>

text \<open>
  A snapshot that is published is what the next worker reads: with a server that answers, the
  publication ends without an error, the reader gets the same members (with nested keys sorted),
  and no other key changes except the temporary one, which is gone.
\<close>

theorem publish_then_read:
  assumes "redis_laws cl" and "redis_up cl" and "distinct (map fst s)" and "get s ''entries'' = JArr es"
  shows "\<exists>d'. publish_snapshot cl uuid key s d = (d', Inr ())
    \<and> (\<exists>m. read_snapshot cl key d' = Inr (Some m) \<and> (\<forall>k. map_of m k = map_option sort_keys (map_of s k)))
    \<and> r_get cl d' (temporary_key key uuid) = None
    \<and> (\<forall>k. k \<noteq> key \<and> k \<noteq> temporary_key key uuid \<longrightarrow> r_get cl d' k = r_get cl d k)"
proof -
  have c: "redis_client cl" using assms(1) by (rule redis_client.intro)
  obtain d' where p: "publish_snapshot cl uuid key s d = (d', Inr ())"
    using redis_client.publish_up [OF c assms(2)] by blast
  have "r_get cl d' (temporary_key key uuid) = None"
    using redis_client.publish_ok [OF c p] by simp
  with p redis_client.publish_read [OF c p assms(3,4)] redis_client.publish_get(2) [OF c p]
  show ?thesis by blast
qed

lemma publish_then_read_witness:
  "\<exists>d' m. publish_snapshot FakeRedis ''u1'' RAW_KEY [(''generated_at'', JInt 5), (''entries'', JArr [])]
       (\<lambda>_. None) = (d', Inr ())
     \<and> read_snapshot FakeRedis RAW_KEY d' = Inr (Some m) \<and> map_of m ''generated_at'' = Some (JInt 5)"
  using publish_then_read [OF FakeRedis_laws FakeRedis_up,
      of "[(''generated_at'', JInt 5), (''entries'', JArr [])]" "[]" "''u1''" RAW_KEY "\<lambda>_. None"]
  by auto

text \<open>
  C13. Publication is atomic under every interleaving: however the commands of any number of
  concurrent publishers alternate, and whichever of them stop half-way, at every moment each key
  (other than the temporary ones) holds the value it had at the start or the complete encoding of
  a snapshot that one of them publishes to that key.
\<close>

theorem publication_atomic:
  assumes "redis_laws cl" and "temps_apart ps"
    and "list_all (\<lambda>p. p = fresh_publication (p_uuid p) (p_key p) (p_snapshot p)) ps"
    and "(pub_step cl)\<^sup>*\<^sup>* (d, ps) (d', ps')" and "k \<notin> set (map p_temp ps)"
  shows "r_get cl d' k = r_get cl d k
    \<or> (\<exists>p \<in> set ps. p_key p = k \<and> r_get cl d' k = Some (json_dumps_sorted (JObj (p_snapshot p))))"
proof -
  have "pub_inv cl (r_get cl d) (d, ps)"
    using assms(2) assms(3)[unfolded list_all_iff] by (rule start_inv)
  then have "pub_inv cl (r_get cl d) (d', ps')"
    using redis_client.pub_steps_inv [OF redis_client.intro [OF assms(1)] assms(4)] by blast
  then have "published_or_old (r_get cl d) ps' (r_get cl d')" by (simp add: pub_inv_def)
  then have "published_or_old (r_get cl d) ps (r_get cl d')"
    by (rule published_or_old_cong [OF pub_step_ids [OF assms(4), unfolded snd_conv]])
  then have "k \<notin> set (map p_temp ps) \<longrightarrow> r_get cl d' k = r_get cl d k
    \<or> (\<exists>p \<in> set ps. p_key p = k \<and> r_get cl d' k = Some (json_dumps_sorted (JObj (p_snapshot p))))"
    unfolding published_or_old_def p_encoded_def by (rule spec)
  then show ?thesis using assms(5) by (rule mp)
qed

definition two_publishers :: "publication list" where
  "two_publishers = [fresh_publication ''u1'' RAW_KEY [(''entries'', JArr [])],
     fresh_publication ''u2'' RAW_KEY [(''entries'', JArr [JNull])]]"

lemma publication_atomic_witness:
  "\<exists>d' ps'. (pub_step FakeRedis)\<^sup>*\<^sup>* (\<lambda>_. None, two_publishers) (d', ps')
     \<and> d' (temporary_key RAW_KEY ''u1'') \<noteq> None
     \<and> (d' RAW_KEY = None \<or> (\<exists>p \<in> set two_publishers. p_key p = RAW_KEY
          \<and> d' RAW_KEY = Some (json_dumps_sorted (JObj (p_snapshot p)))))"
proof -
  let ?p = "two_publishers ! 0" and ?t = "temporary_key RAW_KEY ''u1''"
  let ?e = "json_dumps_sorted (JObj [(''entries'', JArr [])])"
  let ?ps = "two_publishers[0 := ?p\<lparr>p_rest := [RENAME ?t RAW_KEY]\<rparr>]"
  have "pub_step FakeRedis (\<lambda>_. None, two_publishers) ((\<lambda>_. None)(?t \<mapsto> ?e), ?ps)"
    by (rule pub_step.send [where c = "SET ?t ?e"])
      (simp_all add: two_publishers_def fresh_publication_def publish_commands_def FakeRedis_def Let_def)
  then have r: "(pub_step FakeRedis)\<^sup>*\<^sup>* (\<lambda>_. None, two_publishers) ((\<lambda>_. None)(?t \<mapsto> ?e), ?ps)" ..
  have a: "temps_apart two_publishers"
    by (simp add: temps_apart_def two_publishers_def temporary_key_def RAW_KEY_def)
  have f: "list_all (\<lambda>p. p = fresh_publication (p_uuid p) (p_key p) (p_snapshot p)) two_publishers"
    by (simp add: two_publishers_def fresh_publication_def)
  have k: "RAW_KEY \<notin> set (map p_temp two_publishers)"
    by (simp add: two_publishers_def)
  from publication_atomic [OF FakeRedis_laws a f r k] r show ?thesis
    by (intro exI [of _ "(\<lambda>_. None)(?t \<mapsto> ?e)"] exI [of _ ?ps]) (simp add: FakeRedis_def)
qed

text \<open>
  A failed publication is harmless: when any command of \<open>publish_active_snapshot\<close> raises, the
  key of the gateway still has its old value, and the internal active key has its old value or
  the complete new snapshot.
\<close>

theorem publish_active_failure:
  assumes "redis_laws cl" and "publish_active_snapshot cl u1 u2 s d = (d', Inl e)"
  shows "r_get cl d' GATEWAY_ACTIVE_KEY = r_get cl d GATEWAY_ACTIVE_KEY
    \<and> r_get cl d' ACTIVE_KEY \<in> {r_get cl d ACTIVE_KEY, Some (json_dumps_sorted (JObj s))}"
  using redis_client.publish_active_failed [OF redis_client.intro [OF assms(1)] assms(2)] .

text \<open>A client whose \<open>RENAME\<close> onto the gateway's key raises.\<close>

definition BrokenRedis :: "store redis" where
  "BrokenRedis = \<lparr>r_get = (\<lambda>d. d), r_exec = (\<lambda>c d. case c of
     RENAME k l \<Rightarrow> if l = GATEWAY_ACTIVE_KEY then Inl (OSError ''connection lost'') else fake_exec c d
   | SET k v \<Rightarrow> fake_exec c d)\<rparr>"

lemma publish_active_failure_witness:
  "\<exists>d' e. publish_active_snapshot BrokenRedis ''u1'' ''u2'' [(''entries'', JArr [])] (\<lambda>_. None) = (d', Inl e)
     \<and> d' GATEWAY_ACTIVE_KEY = None"
proof -
  have l: "redis_laws BrokenRedis"
    by (auto simp: redis_laws_def BrokenRedis_def split: option.splits if_splits)
  have "\<exists>d'. publish_active_snapshot BrokenRedis ''u1'' ''u2'' [(''entries'', JArr [])] (\<lambda>_. None)
      = (d', Inl (OSError ''connection lost''))"
    by (simp add: publish_active_snapshot_def publish_snapshot_def publish_commands_def BrokenRedis_def
        ACTIVE_KEY_def GATEWAY_ACTIVE_KEY_def Let_def)
  then obtain d' where p: "publish_active_snapshot BrokenRedis ''u1'' ''u2'' [(''entries'', JArr [])]
      (\<lambda>_. None) = (d', Inl (OSError ''connection lost''))" ..
  have "r_get BrokenRedis d' GATEWAY_ACTIVE_KEY = r_get BrokenRedis (\<lambda>_. None) GATEWAY_ACTIVE_KEY"
    using publish_active_failure [OF l p] by blast
  with p show ?thesis by (simp add: BrokenRedis_def)
qed

end
