(* ===== verification/Py_Float.thy ===== *)
theory Py_Float
  imports Complex_Main "HOL-Library.Log_Nat"
begin

text \<open>
  Python's \<open>float\<close> is the IEEE double. A finite double is represented by the rational it stands
  for, and an operation by the exact result rounded to 53 significant bits, to nearest with ties
  to even. Overflow beyond the largest double and the subnormal range are not modelled; the
  scores and times computed by the code stay far inside.
\<close>

section \<open>Rounding\<close>

definition round_even :: "rat \<Rightarrow> int" where
  "round_even q = (let f = \<lfloor>q\<rfloor>; d = q - of_int f in
     if d < 1 / 2 then f else if 1 / 2 < d then f + 1 else if even f then f else f + 1)"

text \<open>The binary exponent: \<open>2 powi expo q \<le> q < 2 powi (expo q + 1)\<close> for positive \<open>q\<close>.\<close>

definition expo :: "rat \<Rightarrow> int" where
  "expo q = (if 1 \<le> q then int (floorlog 2 (nat \<lfloor>q\<rfloor>)) - 1
     else - int (floorlog 2 (nat (\<lceil>1 / q\<rceil> - 1))))"

definition ulp :: "rat \<Rightarrow> rat" where
  "ulp q = 2 powi (expo q - 52)"

definition fl_pos :: "rat \<Rightarrow> rat" where
  "fl_pos q = of_int (round_even (q / ulp q)) * ulp q"

definition fl :: "rat \<Rightarrow> rat" where
  "fl q = (if q = 0 then 0 else if 0 < q then fl_pos q else - fl_pos (- q))"

definition fadd :: "rat \<Rightarrow> rat \<Rightarrow> rat" where
  "fadd a b = fl (a + b)"

definition fmul :: "rat \<Rightarrow> rat \<Rightarrow> rat" where
  "fmul a b = fl (a * b)"

definition fdiv :: "rat \<Rightarrow> rat \<Rightarrow> rat" where
  "fdiv a b = fl (a / b)"

text \<open>\<open>float(n)\<close> for an integer, and \<open>round(x, 6)\<close>.\<close>

definition fint :: "int \<Rightarrow> rat" where
  "fint n = fl (of_int n)"

definition fround6 :: "rat \<Rightarrow> rat" where
  "fround6 x = fl (of_int (round_even (x * 1000000)) / 1000000)"

section \<open>Rounding is monotone and fixes what it can represent\<close>

lemma round_even_int [simp]: "round_even (of_int n) = n"
  by (simp add: round_even_def)

lemma round_even_cases:
  "round_even q = \<lfloor>q\<rfloor> \<and> q - of_int \<lfloor>q\<rfloor> \<le> 1 / 2 \<or> round_even q = \<lfloor>q\<rfloor> + 1 \<and> 1 / 2 \<le> q - of_int \<lfloor>q\<rfloor>"
  by (auto simp: round_even_def Let_def)

lemma round_even_mono:
  assumes "a \<le> b"
  shows "round_even a \<le> round_even b"
proof (cases "\<lfloor>a\<rfloor> = \<lfloor>b\<rfloor>")
  case True
  with assms show ?thesis by (auto simp: round_even_def Let_def)
next
  case False
  with floor_mono [OF assms] have "\<lfloor>a\<rfloor> + 1 \<le> \<lfloor>b\<rfloor>" by simp
  then show ?thesis using round_even_cases [of a] round_even_cases [of b] by linarith
qed

lemma two_powi_pos [simp]: "(0::rat) < 2 powi e"
  by (simp add: zero_less_power_int)

lemma two_powi_mono: "e \<le> f \<Longrightarrow> (2::rat) powi e \<le> 2 powi f"
  by (simp add: power_int_increasing)

lemma two_powi_less_D: "(2::rat) powi e < 2 powi f \<Longrightarrow> e < f"
  by (metis linorder_not_le two_powi_mono)

lemma floorlog_bounds:
  fixes n :: nat
  assumes "0 < n"
  shows "2 ^ (floorlog 2 n - 1) \<le> n" and "n < 2 ^ floorlog 2 n" and "1 \<le> floorlog 2 n"
  using assms floorlog_bounds [of n 2] floorlog_power
  by (auto simp: floorlog_def)

lemma expo_ge1:
  assumes "1 \<le> q"
  shows "2 powi expo q \<le> q \<and> q < 2 powi (expo q + 1)"
proof -
  let ?n = "nat \<lfloor>q\<rfloor>"
  let ?L = "floorlog 2 ?n"
  have n: "0 < ?n" using assms by simp
  have L: "1 \<le> ?L" "2 ^ (?L - 1) \<le> ?n" "?n < 2 ^ ?L"
    using floorlog_bounds [OF n] by auto
  have e: "expo q = int (?L - 1)"
    using assms L(1) by (simp add: expo_def of_nat_diff)
  have "(2::rat) ^ (?L - 1) \<le> of_nat ?n"
    using L(2) by (metis of_nat_le_iff of_nat_numeral of_nat_power)
  moreover have "of_nat ?n \<le> q" using assms by (simp add: of_nat_nat)
  ultimately have low: "2 powi expo q \<le> q"
    unfolding e power_int_of_nat by linarith
  have "Suc ?n \<le> 2 ^ ?L" using L(3) by (rule Suc_leI)
  then have "(of_nat (Suc ?n) :: rat) \<le> 2 ^ ?L"
    by (metis of_nat_le_iff of_nat_numeral of_nat_power)
  moreover have "q < of_nat (Suc ?n)" using assms by (simp add: of_nat_nat) linarith
  moreover have "expo q + 1 = int ?L" using e L(1) by simp
  ultimately have "q < 2 powi (expo q + 1)"
    by (simp only: power_int_of_nat)
  with low show ?thesis by blast
qed

lemma expo_lt1:
  assumes "0 < q" and "q < 1"
  shows "2 powi expo q \<le> q \<and> q < 2 powi (expo q + 1)"
proof -
  let ?n = "nat (\<lceil>1 / q\<rceil> - 1)"
  let ?L = "floorlog 2 ?n"
  have inv: "1 < 1 / q" using assms by simp
  then have c: "2 \<le> \<lceil>1 / q\<rceil>" by linarith
  then have n: "0 < ?n" by simp
  have L: "1 \<le> ?L" "2 ^ (?L - 1) \<le> ?n" "?n < 2 ^ ?L"
    using floorlog_bounds [OF n] by auto
  have e: "expo q = - int ?L" using assms by (simp add: expo_def)
  have nc: "of_nat ?n = (of_int \<lceil>1 / q\<rceil> - 1 :: rat)"
    using c assms(1) by (subst of_nat_nat) simp_all
  have "(of_nat (Suc ?n) :: rat) \<le> 2 ^ ?L"
    using L(3) by (metis Suc_leI of_nat_le_iff of_nat_numeral of_nat_power)
  then have "1 / q \<le> 2 ^ ?L" using nc by (simp, linarith)
  then have "1 / 2 ^ ?L \<le> q" using assms(1) by (simp add: field_simps)
  then have low: "2 powi expo q \<le> q"
    unfolding e power_int_minus power_int_of_nat by (simp add: field_simps)
  have "(2::rat) ^ (?L - 1) \<le> of_nat ?n"
    using L(2) by (metis of_nat_le_iff of_nat_numeral of_nat_power)
  then have "2 ^ (?L - 1) < 1 / q" using nc by linarith
  then have "q < 1 / 2 ^ (?L - 1)" using assms(1) by (simp add: field_simps)
  moreover have "expo q + 1 = - int (?L - 1)" using e L(1) by (simp add: of_nat_diff)
  ultimately have "q < 2 powi (expo q + 1)"
    by (simp only: power_int_minus power_int_of_nat) (simp add: field_simps)
  with low show ?thesis by blast
qed

lemma expo_bounds:
  assumes "0 < q"
  shows "2 powi expo q \<le> q" and "q < 2 powi (expo q + 1)"
  using assms expo_ge1 [of q] expo_lt1 [of q] by (cases "1 \<le> q"; auto)+

lemma expo_mono:
  assumes "0 < a" and "a \<le> b"
  shows "expo a \<le> expo b"
proof -
  have "2 powi expo a < (2::rat) powi (expo b + 1)"
    using expo_bounds [of a] expo_bounds [of b] assms by linarith
  then show ?thesis using two_powi_less_D by fastforce
qed

lemma ulp_pos [simp]: "0 < ulp q"
  by (simp add: ulp_def)

lemma powi_split: "(2::rat) powi (e + 52 - 52) = 2 powi e"
  by simp

lemma scaled_bounds:
  assumes "0 < q"
  shows "2 ^ 52 \<le> q / ulp q" and "q / ulp q < 2 ^ 53"
proof -
  have u: "ulp q * 2 ^ 52 = 2 powi expo q"
  proof -
    have "ulp q * 2 ^ 52 = 2 powi (expo q - 52) * 2 powi (52::int)"
      by (simp add: ulp_def)
    also have "\<dots> = 2 powi (expo q - 52 + 52)"
      by (rule power_int_add [symmetric]) simp
    finally show ?thesis by simp
  qed
  then have u1: "ulp q * 2 ^ 53 = 2 powi (expo q + 1)"
    by (simp add: power_int_add)
  show "2 ^ 52 \<le> q / ulp q"
    using expo_bounds(1) [OF assms] u by (simp add: pos_le_divide_eq mult.commute)
  show "q / ulp q < 2 ^ 53"
    using expo_bounds(2) [OF assms] u1 by (simp add: pos_divide_less_eq mult.commute)
qed

lemma fl_pos_bounds:
  assumes "0 < q"
  shows "2 powi expo q \<le> fl_pos q" and "fl_pos q \<le> 2 powi (expo q + 1)"
proof -
  have "round_even (of_int (2 ^ 52)) \<le> round_even (q / ulp q)"
    using scaled_bounds(1) [OF assms] by (intro round_even_mono) simp
  then have "(2::rat) ^ 52 \<le> of_int (round_even (q / ulp q))"
    unfolding round_even_int by (metis of_int_le_iff of_int_numeral of_int_power)
  then have "2 ^ 52 * ulp q \<le> fl_pos q"
    unfolding fl_pos_def by (intro mult_right_mono) (simp_all add: less_imp_le)
  moreover have e: "2 ^ 52 * ulp q = 2 powi expo q"
  proof -
    have "2 ^ 52 * ulp q = 2 powi (52::int) * 2 powi (expo q - 52)" by (simp add: ulp_def)
    also have "\<dots> = 2 powi (52 + (expo q - 52))" by (rule power_int_add [symmetric]) simp
    finally show ?thesis by simp
  qed
  ultimately show "2 powi expo q \<le> fl_pos q" by simp
  have "round_even (q / ulp q) \<le> round_even (of_int (2 ^ 53))"
    using scaled_bounds(2) [OF assms] by (intro round_even_mono) simp
  then have "of_int (round_even (q / ulp q)) \<le> (2::rat) ^ 53"
    unfolding round_even_int by (metis of_int_le_iff of_int_numeral of_int_power)
  then have "fl_pos q \<le> 2 ^ 53 * ulp q"
    unfolding fl_pos_def by (intro mult_right_mono) (simp_all add: less_imp_le)
  also have "2 ^ 53 * ulp q = 2 powi (expo q + 1)"
    using e by (simp add: power_int_add)
  finally show "fl_pos q \<le> 2 powi (expo q + 1)" .
qed

lemma fl_pos_pos: "0 < q \<Longrightarrow> 0 < fl_pos q"
  using fl_pos_bounds(1) [of q] two_powi_pos [of "expo q"] by linarith

lemma fl_pos_mono:
  assumes "0 < a" and "a \<le> b"
  shows "fl_pos a \<le> fl_pos b"
proof (cases "expo a = expo b")
  case True
  then have u: "ulp a = ulp b" by (simp add: ulp_def)
  have "a / ulp a \<le> b / ulp a" using assms by (simp add: divide_right_mono less_imp_le)
  then have "round_even (a / ulp a) \<le> round_even (b / ulp b)"
    unfolding u by (rule round_even_mono)
  then show ?thesis
    unfolding fl_pos_def u by (intro mult_right_mono) (simp_all add: less_imp_le)
next
  case False
  with expo_mono [OF assms] have "expo a + 1 \<le> expo b" by simp
  then have "(2::rat) powi (expo a + 1) \<le> 2 powi expo b" by (rule two_powi_mono)
  then show ?thesis
    using fl_pos_bounds [of a] fl_pos_bounds [of b] assms by linarith
qed

lemma fl_zero [simp]: "fl 0 = 0"
  by (simp add: fl_def)

lemma fl_mono:
  assumes "a \<le> b"
  shows "fl a \<le> fl b"
proof -
  consider "0 < a" | "b < 0" | "a \<le> 0" "0 \<le> b" using assms by linarith
  then show ?thesis
  proof cases
    case 1
    with assms show ?thesis by (simp add: fl_def fl_pos_mono)
  next
    case 2
    then have "fl_pos (- b) \<le> fl_pos (- a)" using assms by (intro fl_pos_mono) auto
    with 2 assms show ?thesis by (simp add: fl_def)
  next
    case 3
    then have "fl a \<le> 0" using fl_pos_pos [of "- a"] by (auto simp: fl_def)
    moreover have "0 \<le> fl b" using 3 fl_pos_pos [of b] by (auto simp: fl_def)
    ultimately show ?thesis by linarith
  qed
qed

text \<open>A multiple of a power of two with at most 53 significant bits is a double.\<close>

lemma fl_pos_exact:
  assumes "0 < q" and "q = of_int m * 2 powi k" and "m \<le> 2 ^ 53"
  shows "fl_pos q = q"
proof -
  have "\<exists>n. q / ulp q = of_int n"
  proof (cases "expo q - 52 \<le> k")
    case True
    then obtain d where d: "k - (expo q - 52) = int d" by (metis diff_ge_0_iff_ge nonneg_int_cases)
    have "q / ulp q = of_int m * (2 powi k / 2 powi (expo q - 52))"
      by (simp add: assms(2) ulp_def)
    also have "\<dots> = of_int m * 2 powi (k - (expo q - 52))"
      by (simp add: power_int_diff)
    also have "\<dots> = of_int (m * 2 ^ d)"
      unfolding d power_int_of_nat by simp
    finally show ?thesis by blast
  next
    case False
    have "(of_int m :: rat) \<le> of_int (2 ^ 53)"
      using assms(3) by (simp only: of_int_le_iff)
    then have "(of_int m :: rat) \<le> 2 ^ 53" by (simp only: of_int_power of_int_numeral)
    then have "q \<le> 2 ^ 53 * 2 powi k"
      unfolding assms(2) by (intro mult_right_mono) (simp_all only: less_imp_le two_powi_pos)
    also have "\<dots> = 2 powi (53 + k)" by (simp add: power_int_add)
    finally have le: "q \<le> 2 powi (53 + k)" .
    then have "expo q \<le> 53 + k"
    proof -
      have "(2::rat) powi expo q < 2 powi (53 + k + 1)"
      proof -
        have "2 powi expo q \<le> q" by (rule expo_bounds(1) [OF assms(1)])
        also note le
        also have "(2::rat) powi (53 + k) < 2 powi (53 + k + 1)" by (simp add: power_int_add)
        finally show ?thesis .
      qed
      then show ?thesis using two_powi_less_D by fastforce
    qed
    with False have e: "expo q = 53 + k" by simp
    with expo_bounds(1) [OF assms(1)] le have "q = 2 powi expo q" by simp
    then have "q / ulp q = 2 powi expo q / 2 powi (expo q - 52)" by (simp add: ulp_def)
    also have "\<dots> = 2 powi (expo q - (expo q - 52))" by (rule power_int_diff [symmetric]) simp
    also have "\<dots> = of_int (2 ^ 52)" by simp
    finally show ?thesis by blast
  qed
  then obtain n where "q / ulp q = of_int n" by blast
  then show ?thesis
    by (metis fl_pos_def nonzero_eq_divide_eq round_even_int ulp_pos less_irrefl)
qed

lemma fl_pos_idem:
  assumes "0 < q"
  shows "fl_pos (fl_pos q) = fl_pos q"
proof (rule fl_pos_exact)
  show "0 < fl_pos q" by (rule fl_pos_pos [OF assms])
  show "fl_pos q = of_int (round_even (q / ulp q)) * 2 powi (expo q - 52)"
    by (simp add: fl_pos_def ulp_def)
  have "round_even (q / ulp q) \<le> round_even (of_int (2 ^ 53))"
    using scaled_bounds(2) [OF assms] by (intro round_even_mono) simp
  then show "round_even (q / ulp q) \<le> 2 ^ 53" unfolding round_even_int .
qed

lemma fl_idem [simp]: "fl (fl q) = fl q"
  using fl_pos_idem [of q] fl_pos_idem [of "- q"] fl_pos_pos [of q] fl_pos_pos [of "- q"]
  by (auto simp: fl_def)

lemma fl_of_int:
  assumes "\<bar>n\<bar> \<le> 2 ^ 53"
  shows "fl (of_int n) = of_int n"
proof -
  have "0 < n \<Longrightarrow> fl_pos (of_int n) = of_int n"
    using assms by (intro fl_pos_exact [where m = n and k = 0]) auto
  moreover have "n < 0 \<Longrightarrow> fl_pos (of_int (- n)) = of_int (- n)"
    using assms by (intro fl_pos_exact [where m = "- n" and k = 0]) auto
  ultimately show ?thesis by (auto simp: fl_def)
qed

lemma fint_small: "\<bar>n\<bar> \<le> 2 ^ 53 \<Longrightarrow> fint n = of_int n"
  by (simp add: fint_def fl_of_int)

lemma fint_mono: "a \<le> b \<Longrightarrow> fint a \<le> fint b"
  by (simp add: fint_def fl_mono)

end
