(* ===== verification/Egress_Pool.thy ===== *)
theory Egress_Pool
  imports Candidate Snapshot_Store Py_Float "HOL-Library.Multiset"
begin

text \<open>
  The pool of \<open>gateway/egress_relay.py\<close>: the candidates of the published snapshot, the
  round-robin index, the cooldown of each candidate and target port, and the set of candidates
  that carried DNS over TCP. \<open>choose\<close> and \<open>record_result\<close> run under the lock of the pool, so each
  is one step; what Redis answers and what the clock shows are arguments of the step. The lemmas
  say which candidates can be chosen, that the choice is fair, and that a failure keeps a
  candidate out until its cooldown has passed, however the steps of the connections interleave.
\<close>

definition DNS_TCP_CAPABLE_KEY :: string where
  "DNS_TCP_CAPABLE_KEY = ''transparent-gateway:dns-tcp53-capable:v1''"

record pool =
  pl_size :: int
  pl_entries :: "json list"
  pl_index :: nat
  pl_last_refresh :: rat
  pl_failures :: "string \<times> nat \<rightharpoonup> rat"
  pl_dns_capable :: "string set"

definition pool_init :: "int \<Rightarrow> pool" where
  "pool_init n = \<lparr>pl_size = n, pl_entries = [], pl_index = 0, pl_last_refresh = 0,
     pl_failures = Map.empty, pl_dns_capable = {}\<rparr>"

definition pool_key :: "pyrt \<Rightarrow> dict \<Rightarrow> string" where
  "pool_key rt candidate =
     py_str rt (or_else (get candidate ''address'')
       (JStr (py_str rt (get candidate ''protocol'') @ ''://'' @ py_str rt (get candidate ''endpoint''))))"

section \<open>The refresh\<close>

text \<open>\<open>xs[:n]\<close>.\<close>

definition prefix_slice :: "int \<Rightarrow> 'a list \<Rightarrow> 'a list" where
  "prefix_slice n xs = (if 0 \<le> n then take (nat n) xs else take (length xs - nat (- n)) xs)"

text \<open>What Redis answers to the two reads of one refresh.\<close>

record redis_reply =
  rr_snapshot :: "jtext option res"
  rr_dns_capable :: "jtext option res"

fun present :: "jtext option \<Rightarrow> bool" where
  "present None = False"
| "present (Some t) = (t \<noteq> EmptyText)"

text \<open>\<open>json.loads(raw).get("entries", [])\<close>, when it is a list.\<close>

definition snapshot_entries :: "jtext option \<Rightarrow> json list option res" where
  "snapshot_entries raw =
     (case raw of
        None \<Rightarrow> Inr None
      | Some t \<Rightarrow>
          if t = EmptyText then Inr None
          else rbind (json_loads t) (\<lambda>v.
            case v of
              JObj m \<Rightarrow> Inr (as_list (get_default m ''entries'' (JArr [])))
            | _ \<Rightarrow> Inl AttributeError))"

definition capable_names :: "pyrt \<Rightarrow> jtext option \<Rightarrow> string set option res" where
  "capable_names rt raw =
     (case raw of
        None \<Rightarrow> Inr None
      | Some t \<Rightarrow>
          if t = EmptyText then Inr None
          else rbind (json_loads t) (\<lambda>v.
            Inr (map_option (\<lambda>xs. set (map (py_str rt) xs)) (as_list v))))"

text \<open>
  The \<open>try\<close> block of the refresh: \<open>except Exception\<close> ends it at the first error, with what was
  assigned before.
\<close>

definition load_pool :: "pyrt \<Rightarrow> redis_reply \<Rightarrow> pool \<Rightarrow> pool" where
  "load_pool rt reply pool =
     (case (rr_snapshot reply, rr_dns_capable reply) of
        (Inr raw, Inr dns_capable) \<Rightarrow>
          (case snapshot_entries raw of
             Inl _ \<Rightarrow> pool
           | Inr parsed \<Rightarrow>
               (let pool = (case parsed of
                      None \<Rightarrow> pool
                    | Some es \<Rightarrow> pool\<lparr>pl_entries := prefix_slice (pl_size pool) es\<rparr>) in
                case capable_names rt dns_capable of
                  Inr (Some names) \<Rightarrow> pool\<lparr>pl_dns_capable := names\<rparr>
                | _ \<Rightarrow> pool))
      | _ \<Rightarrow> pool)"

section \<open>Choosing a candidate\<close>

text \<open>The three readings of the clock in one call, and the answer of Redis.\<close>

record choose_call =
  ch_checked :: rat
  ch_refreshed :: rat
  ch_reply :: redis_reply
  ch_now :: rat

definition refresh_pool :: "pyrt \<Rightarrow> choose_call \<Rightarrow> pool \<Rightarrow> pool" where
  "refresh_pool rt call pool =
     (if 3 \<le> fadd (ch_checked call) (- pl_last_refresh pool)
      then load_pool rt (ch_reply call) (pool\<lparr>pl_last_refresh := ch_refreshed call\<rparr>)
      else pool)"

definition cooled_down :: "pool \<Rightarrow> string \<times> nat \<Rightarrow> rat \<Rightarrow> bool" where
  "cooled_down pool k now \<longleftrightarrow> (case pl_failures pool k of None \<Rightarrow> 0 | Some t \<Rightarrow> t) \<le> now"

definition eligible_candidates :: "pyrt \<Rightarrow> pool \<Rightarrow> nat \<Rightarrow> string list \<Rightarrow> rat \<Rightarrow> dict list" where
  "eligible_candidates rt pool target_port excluded now =
     (let candidates = filter (\<lambda>entry. pool_key rt entry \<notin> set excluded
              \<and> cooled_down pool (pool_key rt entry, target_port) now) (dicts (pl_entries pool)) in
      if target_port = 53
      then sort_key (\<lambda>entry. pool_key rt entry \<notin> pl_dns_capable pool) candidates
      else candidates)"

definition pool_choose ::
  "pyrt \<Rightarrow> choose_call \<Rightarrow> nat \<Rightarrow> string list \<Rightarrow> pool \<Rightarrow> pool \<times> dict option" where
  "pool_choose rt call target_port excluded pool =
     (let pool = refresh_pool rt call pool;
          candidates = eligible_candidates rt pool target_port excluded (ch_now call) in
      if candidates = [] then (pool, None)
      else (pool\<lparr>pl_index := pl_index pool + 1\<rparr>,
            Some (candidates ! (pl_index pool mod length candidates))))"

text \<open>
  \<open>record_result\<close>, with \<open>time.monotonic()\<close> and \<open>float(UPSTREAM_FAILURE_COOLDOWN_SECONDS)\<close>, which
  raises when the setting is not a number.
\<close>

definition record_result ::
  "pyrt \<Rightarrow> rat \<Rightarrow> rat res \<Rightarrow> dict \<Rightarrow> nat \<Rightarrow> bool \<Rightarrow> pool \<Rightarrow> pool \<times> unit res" where
  "record_result rt now cooldown candidate target_port success pool =
     (let key = pool_key rt candidate in
      if success then
        (let pool = pool\<lparr>pl_failures := (pl_failures pool)((key, target_port) := None)\<rparr> in
         (if target_port = 53 then pool\<lparr>pl_dns_capable := insert key (pl_dns_capable pool)\<rparr> else pool, Inr ()))
      else
        (case cooldown of
           Inl e \<Rightarrow> (pool, Inl e)
         | Inr seconds \<Rightarrow>
             (pool\<lparr>pl_failures := (pl_failures pool)((key, target_port) \<mapsto> fadd now seconds)\<rparr>, Inr ())))"

section \<open>The steps of a pool\<close>

text \<open>
  Any connection may choose or record at any time; the clock never goes back and the cooldown is
  one setting. A state of the relation is the time of the last step with the pool.
\<close>

datatype pool_event =
    Chose nat "string list" "dict option"
  | Recorded dict nat bool

inductive pool_step :: "pyrt \<Rightarrow> rat \<Rightarrow> rat \<times> pool \<Rightarrow> pool_event \<Rightarrow> rat \<times> pool \<Rightarrow> bool"
  for rt :: pyrt and seconds :: rat where
  chose: "t \<le> ch_now call \<Longrightarrow> pool_choose rt call port excluded p = (p', c)
    \<Longrightarrow> pool_step rt seconds (t, p) (Chose port excluded c) (ch_now call, p')"
| recorded: "t \<le> now \<Longrightarrow> record_result rt now (Inr seconds) c port success p = (p', r)
    \<Longrightarrow> pool_step rt seconds (t, p) (Recorded c port success) (now, p')"

inductive pool_run :: "pyrt \<Rightarrow> rat \<Rightarrow> rat \<times> pool \<Rightarrow> pool_event list \<Rightarrow> rat \<times> pool \<Rightarrow> bool"
  for rt :: pyrt and seconds :: rat and s :: "rat \<times> pool" where
  start: "pool_run rt seconds s [] s"
| then_step: "pool_run rt seconds s es s' \<Longrightarrow> pool_step rt seconds s' e s''
    \<Longrightarrow> pool_run rt seconds s (es @ [e]) s''"

inductive_cases chose_stepE: "pool_step rt seconds (t, p) (Chose port excluded c) (t', p')"
inductive_cases pool_run_snocE: "pool_run rt seconds s (es @ [e]) s'"

section \<open>Lemmas\<close>

lemma load_pool_keeps [simp]:
  "pl_size (load_pool rt r p) = pl_size p" "pl_index (load_pool rt r p) = pl_index p"
  "pl_failures (load_pool rt r p) = pl_failures p" "pl_last_refresh (load_pool rt r p) = pl_last_refresh p"
  by (simp_all add: load_pool_def Let_def split: sum.split option.split)

lemma refresh_pool_keeps [simp]:
  "pl_size (refresh_pool rt call p) = pl_size p" "pl_index (refresh_pool rt call p) = pl_index p"
  "pl_failures (refresh_pool rt call p) = pl_failures p"
  by (simp_all add: refresh_pool_def)

lemma set_eligible:
  "set (eligible_candidates rt p port ex now) =
     {e \<in> set (dicts (pl_entries p)). pool_key rt e \<notin> set ex \<and> cooled_down p (pool_key rt e, port) now}"
  by (auto simp: eligible_candidates_def Let_def)

lemma choose_Some:
  assumes "pool_choose rt call port ex p = (p', Some c)"
  shows "c \<in> set (eligible_candidates rt (refresh_pool rt call p) port ex (ch_now call))"
    and "p' = (refresh_pool rt call p)\<lparr>pl_index := pl_index p + 1\<rparr>"
  using assms by (auto simp: pool_choose_def Let_def split: if_splits intro!: nth_mem)

lemma choose_None:
  assumes "pool_choose rt call port ex p = (p', None)"
  shows "eligible_candidates rt (refresh_pool rt call p) port ex (ch_now call) = []"
    and "p' = refresh_pool rt call p"
  using assms by (auto simp: pool_choose_def Let_def split: if_splits)

lemma choose_failures: "pool_choose rt call port ex p = (p', c) \<Longrightarrow> pl_failures p' = pl_failures p"
  by (cases c) (auto dest: choose_Some(2) choose_None(2))

text \<open>The choices of consecutive calls.\<close>

fun choose_many :: "pyrt \<Rightarrow> choose_call list \<Rightarrow> nat \<Rightarrow> string list \<Rightarrow> pool \<Rightarrow> pool \<times> dict option list" where
  "choose_many rt [] port excluded pool = (pool, [])"
| "choose_many rt (call # calls) port excluded pool =
     (case pool_choose rt call port excluded pool of
        (pool', c) \<Rightarrow> (case choose_many rt calls port excluded pool' of (pool'', cs) \<Rightarrow> (pool'', c # cs)))"

text \<open>A call that does not refresh and sees the candidates \<open>cs\<close>.\<close>

definition quiet :: "pyrt \<Rightarrow> pool \<Rightarrow> nat \<Rightarrow> string list \<Rightarrow> dict list \<Rightarrow> choose_call \<Rightarrow> bool" where
  "quiet rt pool port excluded cs call \<longleftrightarrow> fadd (ch_checked call) (- pl_last_refresh pool) < 3
     \<and> eligible_candidates rt pool port excluded (ch_now call) = cs"

lemma eligible_index [simp]:
  "eligible_candidates rt (pool\<lparr>pl_index := i\<rparr>) port ex now = eligible_candidates rt pool port ex now"
  by (simp add: eligible_candidates_def cooled_down_def Let_def)

lemma quiet_index [simp]: "quiet rt (pool\<lparr>pl_index := i\<rparr>) port ex cs = quiet rt pool port ex cs"
  by (rule ext) (simp add: quiet_def)

lemma quiet_choose:
  assumes "quiet rt pool port ex cs call" and "cs \<noteq> []"
  shows "pool_choose rt call port ex pool =
    (pool\<lparr>pl_index := pl_index pool + 1\<rparr>, Some (cs ! (pl_index pool mod length cs)))"
  using assms by (simp add: pool_choose_def refresh_pool_def quiet_def)

lemma choose_many_quiet:
  assumes "list_all (quiet rt pool port ex cs) calls" and "cs \<noteq> []"
  shows "choose_many rt calls port ex pool =
    (pool\<lparr>pl_index := pl_index pool + length calls\<rparr>,
     map (\<lambda>i. Some (cs ! ((pl_index pool + i) mod length cs))) [0..<length calls])"
  using assms(1)
proof (induction calls arbitrary: pool)
  case (Cons call calls)
  have "choose_many rt calls port ex (pool\<lparr>pl_index := pl_index pool + 1\<rparr>) =
    (pool\<lparr>pl_index := pl_index pool + 1 + length calls\<rparr>,
     map (\<lambda>i. Some (cs ! ((pl_index pool + 1 + i) mod length cs))) [0..<length calls])"
    using Cons.prems by (subst Cons.IH) simp_all
  moreover have "[0..<length (call # calls)] = 0 # map Suc [0..<length calls]"
    by (simp add: map_Suc_upt upt_conv_Cons del: upt_Suc)
  moreover have "pool_choose rt call port ex pool =
    (pool\<lparr>pl_index := pl_index pool + 1\<rparr>, Some (cs ! (pl_index pool mod length cs)))"
    using Cons.prems assms(2) by (intro quiet_choose) simp_all
  ultimately show ?case
    by (simp add: o_def del: upt_Suc)
qed simp

lemma one_round: "map (\<lambda>i. xs ! ((k + i) mod length xs)) [0..<length xs] = rotate k xs"
  by (rule nth_equalityI) (simp_all add: nth_rotate)

lemma mset_rotate_eq [simp]: "mset (rotate k xs) = mset xs"
  unfolding rotate_drop_take by (metis add.commute append_take_drop_id mset_append)

text \<open>The failure of a candidate stays recorded through every step but its own success.\<close>

lemma fadd_mono: "a \<le> b \<Longrightarrow> fadd a c \<le> fadd b c"
  by (simp add: fadd_def fl_mono)

definition success_of :: "pyrt \<Rightarrow> string \<times> nat \<Rightarrow> pool_event \<Rightarrow> bool" where
  "success_of rt k e = (case e of Recorded c port success \<Rightarrow> success \<and> (pool_key rt c, port) = k | _ \<Rightarrow> False)"

lemma failure_kept:
  assumes "pool_step rt seconds (t, p) e (t', p')" and "\<not> success_of rt k e"
    and "pl_failures p k = Some u" and "until \<le> u" and "until \<le> fadd t seconds"
  shows "t \<le> t' \<and> (\<exists>u'. pl_failures p' k = Some u' \<and> until \<le> u')"
  using assms(1)
proof cases
  case (chose call port ex c)
  with choose_failures assms(3,4) show ?thesis by metis
next
  case (recorded c port success r)
  moreover have "until \<le> fadd t' seconds"
    using assms(5) fadd_mono [OF recorded(2)] by (rule order_trans)
  ultimately show ?thesis
    using assms(2-4) by (auto simp: record_result_def Let_def success_of_def split: if_splits)
qed

lemma failure_kept_run:
  assumes "pool_run rt seconds (t, p) es (t', p')" and "\<not> list_ex (success_of rt k) es"
    and "pl_failures p k = Some u" and "until \<le> u" and "until \<le> fadd t seconds"
  shows "t \<le> t' \<and> (\<exists>u'. pl_failures p' k = Some u' \<and> until \<le> u')"
  using assms(1,2)
proof (induction es "(t', p')" arbitrary: t' p' rule: pool_run.induct)
  case start
  with assms show ?case by auto
next
  case (then_step es s' e)
  obtain t1 p1 where s': "s' = (t1, p1)" by fastforce
  from then_step s' have IH: "t \<le> t1 \<and> (\<exists>u'. pl_failures p1 k = Some u' \<and> until \<le> u')" by simp
  then obtain u1 where u1: "pl_failures p1 k = Some u1" "until \<le> u1" by blast
  have "until \<le> fadd t1 seconds" using assms(5) fadd_mono IH by (metis order_trans)
  from failure_kept [OF _ _ u1 this] then_step s' have "t1 \<le> t' \<and> (\<exists>u'. pl_failures p' k = Some u' \<and> until \<le> u')"
    by simp
  with IH show ?case by (metis order_trans)
qed

section \<open>Properties\<close>

text \<open>
  A choice is always an admissible candidate, and there is none only when no candidate is
  admissible: the candidate comes from the pool as it is after the refresh, has not been tried by
  this connection, and no failure of it with this port is in its cooldown.
\<close>

theorem choose_admissible:
  assumes "pool_choose rt call port tried pool = (pool', choice)"
  shows "case choice of
      Some c \<Rightarrow> JObj c \<in> set (pl_entries pool') \<and> pool_key rt c \<notin> set tried
        \<and> cooled_down pool (pool_key rt c, port) (ch_now call)
    | None \<Rightarrow> list_all (\<lambda>e. case e of
          JObj c \<Rightarrow> pool_key rt c \<in> set tried \<or> \<not> cooled_down pool (pool_key rt c, port) (ch_now call)
        | _ \<Rightarrow> True) (pl_entries pool')"
proof (cases choice)
  case (Some c)
  with choose_Some [of rt call port tried pool pool' c] assms show ?thesis
    by (auto simp: set_eligible set_dicts cooled_down_def)
next
  case None
  with choose_None [of rt call port tried pool pool'] assms
  have e: "set (eligible_candidates rt pool' port tried (ch_now call)) = {}" and f: "pl_failures pool' = pl_failures pool"
    by (auto simp: choose_failures)
  then show ?thesis
    using None by (auto simp: set_eligible set_dicts cooled_down_def list_all_iff not_le
        split: json.split option.splits)
qed

definition two_candidates :: "dict list" where
  "two_candidates = [[(''address'', JStr ''http://a:1'')], [(''address'', JStr ''http://b:1'')]]"

definition two_pool :: pool where
  "two_pool = (pool_init 150)\<lparr>pl_entries := map JObj two_candidates\<rparr>"

definition silent_redis :: redis_reply where
  "silent_redis = \<lparr>rr_snapshot = Inl (OSError ''down''), rr_dns_capable = Inl (OSError ''down'')\<rparr>"

definition call_at :: "rat \<Rightarrow> choose_call" where
  "call_at t = \<lparr>ch_checked = 1, ch_refreshed = 1, ch_reply = silent_redis, ch_now = t\<rparr>"

lemma two_eligible:
  "eligible_candidates plain_rt two_pool 443 [] 1 = two_candidates"
  by (simp add: eligible_candidates_def cooled_down_def two_pool_def pool_init_def two_candidates_def
      pool_key_def get_default_def get_def or_else_def)

lemma two_quiet: "quiet plain_rt two_pool 443 [] two_candidates (call_at 1)"
  using fl_of_int [of 1] two_eligible by (simp add: quiet_def two_pool_def pool_init_def call_at_def fadd_def)

lemma choose_admissible_witness:
  "JObj (hd two_candidates) \<in> set (pl_entries two_pool)
    \<and> cooled_down two_pool (pool_key plain_rt (hd two_candidates), 443) 1"
proof -
  have "two_candidates \<noteq> []" by (simp add: two_candidates_def)
  from choose_admissible [OF quiet_choose [OF two_quiet this]]
  show ?thesis by (simp add: two_pool_def pool_init_def call_at_def two_candidates_def)
qed

lemma choose_round:
  assumes "eligible \<noteq> []" and "length calls = length eligible"
    and "list_all (quiet rt pool port tried eligible) calls"
  shows "mset (snd (choose_many rt calls port tried pool)) = mset (map Some eligible)"
proof -
  let ?pick = "\<lambda>i. eligible ! ((pl_index pool + i) mod length eligible)"
  have "snd (choose_many rt calls port tried pool) = map Some (map ?pick [0..<length eligible])"
    using choose_many_quiet [OF assms(3,1)] assms(2) by simp
  also have "\<dots> = map Some (rotate (pl_index pool) eligible)"
    by (simp only: one_round)
  finally show ?thesis by (simp only: mset_map mset_rotate_eq)
qed

text \<open>
  The same happens with port 53, where the documentation says that candidates with a successful DNS
  connection are preferred: the sort only moves them to the front of the round, and a round still takes
  every candidate once, proven for DNS or not.
\<close>

lemma dns_preference_without_effect:
  assumes "eligible \<noteq> []" and "length calls = length eligible" and "list_all (quiet rt pool 53 tried eligible) calls"
    and "c \<in> set eligible" "distinct eligible" "pool_key rt c \<notin> pl_dns_capable pool"
  shows "count (mset (snd (choose_many rt calls 53 tried pool))) (Some c) = 1"
proof -
  have "distinct (map Some eligible)" using assms(5) by (simp add: distinct_map)
  moreover have "Some c \<in># mset (map Some eligible)" using assms(4) by simp
  ultimately show ?thesis unfolding choose_round[OF assms(1-3)] by (metis distinct_count_atmost_1 set_mset_mset)
qed

text \<open>
  C5. The choice is fair for every port but 53, where DNS has its own rule: as long as the pool does not
  change, any round of as many calls as there are admissible candidates chooses each of them exactly once,
  wherever the round begins.
\<close>

theorem choose_round_robin:
  assumes "port \<noteq> 53" and "eligible \<noteq> []" and "length calls = length eligible"
    and "list_all (quiet rt pool port tried eligible) calls"
  shows "mset (snd (choose_many rt calls port tried pool)) = mset (map Some eligible)
    \<and> (\<forall>call \<in> set calls. eligible = filter (\<lambda>e. pool_key rt e \<notin> set tried
        \<and> cooled_down pool (pool_key rt e, port) (ch_now call)) (dicts (pl_entries pool)))"
proof
  show "mset (snd (choose_many rt calls port tried pool)) = mset (map Some eligible)"
    using assms(2-4) by (rule choose_round)
  show "\<forall>call \<in> set calls. eligible = filter (\<lambda>e. pool_key rt e \<notin> set tried
        \<and> cooled_down pool (pool_key rt e, port) (ch_now call)) (dicts (pl_entries pool))"
    using assms(1,4) by (auto simp: list_all_iff quiet_def eligible_candidates_def)
qed

text \<open>
  C4. A failed candidate rests: once a failure with a port has been recorded, no connection is
  given that candidate for that port before the cooldown has passed, whatever the connections do
  in between, unless one of them records a success of it with that port.
\<close>

theorem failed_candidate_rests:
  assumes "record_result rt now (Inr seconds) c port False pool = (pool0, r)"
    and "pool_run rt seconds (now, pool0) (es @ [Chose port tried (Some c')]) (t', pool')"
    and "\<not> list_ex (success_of rt (pool_key rt c, port)) es" and "pool_key rt c' = pool_key rt c"
  shows "fadd now seconds \<le> t'"
proof -
  let ?k = "(pool_key rt c, port)"
  have u: "pl_failures pool0 ?k = Some (fadd now seconds)"
    using assms(1) by (auto simp: record_result_def Let_def)
  from assms(2) obtain t1 p1 where run: "pool_run rt seconds (now, pool0) es (t1, p1)"
    and last: "pool_step rt seconds (t1, p1) (Chose port tried (Some c')) (t', pool')"
    by (auto elim: pool_run_snocE)
  from failure_kept_run [OF run assms(3) u order_refl order_refl]
  obtain u' where u': "pl_failures p1 ?k = Some u'" "fadd now seconds \<le> u'" by blast
  from last obtain call where call: "t' = ch_now call"
    "pool_choose rt call port tried p1 = (pool', Some c')" by (auto elim: chose_stepE)
  from choose_Some(1) [OF call(2)] have "cooled_down p1 ?k (ch_now call)"
    by (simp add: set_eligible cooled_down_def assms(4))
  with u' call(1) show ?thesis by (simp add: cooled_down_def)
qed

lemma choose_round_robin_witness:
  "mset (snd (choose_many plain_rt [call_at 1, call_at 1] 443 [] two_pool)) = mset (map Some two_candidates)"
proof -
  have "length [call_at 1, call_at 1] = length two_candidates" "two_candidates \<noteq> []" by (simp_all add: two_candidates_def)
  moreover have "list_all (quiet plain_rt two_pool 443 [] two_candidates) [call_at 1, call_at 1]" by (simp add: two_quiet)
  moreover have "(443 :: nat) \<noteq> 53" by simp
  ultimately show ?thesis by (intro choose_round_robin [THEN conjunct1])
qed

lemma failed_candidate_rests_witness:
  "\<exists>pool0 r t' pool'. record_result plain_rt 1 (Inr 300) (hd two_candidates) 443 False two_pool = (pool0, r)
    \<and> pool_run plain_rt 300 (1, pool0) ([] @ [Chose 443 [] (Some (hd two_candidates))]) (t', pool')
    \<and> fadd 1 300 \<le> t'"
proof -
  let ?c = "hd two_candidates" and ?k = "(pool_key plain_rt (hd two_candidates), 443)"
  let ?p0 = "two_pool\<lparr>pl_failures := (pl_failures two_pool)(?k \<mapsto> fadd 1 300)\<rparr>"
  have r: "record_result plain_rt 1 (Inr 300) ?c 443 False two_pool = (?p0, Inr ())"
    by (simp add: record_result_def Let_def)
  have sum: "fadd 1 300 = 301"
    using fl_of_int [of 301] by (simp add: fadd_def)
  have e: "eligible_candidates plain_rt ?p0 443 [] 301 = two_candidates"
    by (simp add: eligible_candidates_def cooled_down_def two_pool_def pool_init_def two_candidates_def
        pool_key_def get_default_def get_def or_else_def sum)
  have q: "quiet plain_rt ?p0 443 [] two_candidates (call_at 301)"
    using e fl_of_int [of 1] by (simp add: quiet_def call_at_def two_pool_def pool_init_def fadd_def)
  have "two_candidates \<noteq> []" by (simp add: two_candidates_def)
  from quiet_choose [OF q this] have c: "pool_choose plain_rt (call_at 301) 443 [] ?p0
      = (?p0\<lparr>pl_index := 1\<rparr>, Some ?c)"
    by (simp add: two_pool_def pool_init_def two_candidates_def)
  have "(1::rat) \<le> ch_now (call_at 301)" by (simp add: call_at_def)
  from chose [OF this c] have step:
    "pool_step plain_rt 300 (1, ?p0) (Chose 443 [] (Some ?c)) (301, ?p0\<lparr>pl_index := 1\<rparr>)"
    by (simp add: call_at_def)
  have run: "pool_run plain_rt 300 (1, ?p0) ([] @ [Chose 443 [] (Some ?c)]) (301, ?p0\<lparr>pl_index := 1\<rparr>)"
    by (rule then_step [OF start step])
  have n: "\<not> list_ex (success_of plain_rt ?k) []" by simp
  from failed_candidate_rests [OF r run n refl] r run show ?thesis by blast
qed

end
