(* ===== verification/Py_Url.thy ===== *)
theory Py_Url
  imports Py_Ip
begin

text \<open>
  \<open>urllib.parse.urlsplit\<close> and the accessors of \<open>SplitResult\<close> that the code uses, on code points
  below 256 (where the NFKC check of the authority never fires). \<open>None\<close> for the host name, the
  user or the password is the empty text here: the code only tests them for truth.
\<close>

record url =
  u_scheme :: string
  u_netloc :: string
  u_path :: string
  u_query :: string
  u_fragment :: string

definition partition_at :: "char \<Rightarrow> string \<Rightarrow> string \<times> string" where
  "partition_at c s = (case split1 c s of None \<Rightarrow> (s, []) | Some p \<Rightarrow> p)"

definition is_scheme_char :: "char \<Rightarrow> bool" where
  "is_scheme_char c \<longleftrightarrow> is_alnum c \<or> c \<in> set ''+-.''"

text \<open>The text in brackets must be an IPv6 address or a future address.\<close>

definition bracketed_ok :: "string \<Rightarrow> bool" where
  "bracketed_ok h =
     (if starts_with ''v'' h then
        (case split1 CHR ''.'' (tl h) of
           Some (hexa, rest) \<Rightarrow> hexa \<noteq> [] \<and> list_all is_hexdigit hexa \<and> rest \<noteq> []
         | None \<Rightarrow> False)
      else (case ip_address h of Some (V6 _ _) \<Rightarrow> True | _ \<Rightarrow> False))"

definition netloc_ok :: "string \<Rightarrow> bool" where
  "netloc_ok netloc \<longleftrightarrow>
     (CHR ''['' \<in> set netloc) = (CHR '']'' \<in> set netloc)
     \<and> (CHR ''['' \<in> set netloc \<longrightarrow>
          bracketed_ok (fst (partition_at CHR '']'' (snd (partition_at CHR ''['' netloc)))))"

definition clean_url :: "string \<Rightarrow> string" where
  "clean_url s =
     filter (\<lambda>c. c \<noteq> CHR 0x09 \<and> c \<noteq> CR \<and> c \<noteq> LF) (dropWhile (\<lambda>c. code c \<le> 32) s)"

definition split_scheme :: "string \<Rightarrow> string \<times> string" where
  "split_scheme s =
     (case split1 CHR '':'' s of
        Some (a, b) \<Rightarrow>
          if a \<noteq> [] \<and> is_alnum (hd a) \<and> \<not> is_digit (hd a) \<and> list_all is_scheme_char a
          then (lower a, b) else ([], s)
      | None \<Rightarrow> ([], s))"

definition urlsplit :: "string \<Rightarrow> url res" where
  "urlsplit s =
     (let (scheme, rest) = split_scheme (clean_url s);
          has_netloc = starts_with ''//'' rest;
          netloc = (if has_netloc then takeWhile (\<lambda>c. c \<notin> set ''/?#'') (drop 2 rest) else []);
          tail = (if has_netloc then drop (length netloc) (drop 2 rest) else rest);
          (before_fragment, fragment) = partition_at CHR ''#'' tail;
          (path, query) = partition_at CHR ''?'' before_fragment in
      rbind (ensure (netloc_ok netloc) (ValueError ''Invalid IPv6 URL'')) (\<lambda>_.
      Inr \<lparr>u_scheme = scheme, u_netloc = netloc, u_path = path, u_query = query, u_fragment = fragment\<rparr>))"

definition userinfo :: "url \<Rightarrow> string" where
  "userinfo u = (case rsplit1 CHR ''@'' (u_netloc u) of None \<Rightarrow> [] | Some (a, b) \<Rightarrow> a)"

definition hostinfo :: "url \<Rightarrow> string \<times> string" where
  "hostinfo u =
     (let h = (case rsplit1 CHR ''@'' (u_netloc u) of None \<Rightarrow> u_netloc u | Some (a, b) \<Rightarrow> b) in
      case split1 CHR ''['' h of
        Some (_, bracketed) \<Rightarrow>
          (let (host, rest) = partition_at CHR '']'' bracketed in (host, snd (partition_at CHR '':'' rest)))
      | None \<Rightarrow> partition_at CHR '':'' h)"

definition u_username :: "url \<Rightarrow> string" where
  "u_username u = fst (partition_at CHR '':'' (userinfo u))"

definition u_password :: "url \<Rightarrow> string" where
  "u_password u = snd (partition_at CHR '':'' (userinfo u))"

definition u_hostname :: "url \<Rightarrow> string" where
  "u_hostname u =
     (let h = fst (hostinfo u); zoneless = before CHR ''%'' h in lower zoneless @ drop (length zoneless) h)"

definition u_port :: "url \<Rightarrow> nat option res" where
  "u_port u =
     (let p = snd (hostinfo u) in
      if p = [] then Inr None
      else if list_all is_digit p \<and> digits_val 10 p \<le> 65535 then Inr (Some (digits_val 10 p))
      else Inl (ValueError ''Port could not be cast to integer value''))"

lemma u_port_bound: "u_port u = Inr (Some p) \<Longrightarrow> p \<le> 65535"
  by (auto simp: u_port_def Let_def split: if_splits)

end
