(* ===== verification/Connectors.thy ===== *)
theory Connectors
  imports Candidate Py_Url
begin

text \<open>
  The source connectors of \<open>validator/sources\<close>: the registry of connector types and the loader
  of the operator's configuration (\<open>registry.py\<close>, \<open>__init__.py\<close>), the JSON Lines inventory
  (\<open>jsonl_inventory.py\<close>), the HTTPS feed (\<open>http_json_feed.py\<close>) and the merge of all collected
  candidates (\<open>collect_all\<close>). Files, the JSON decoder and the provider's server are the fields
  of the record \<open>world\<close>. Log lines are not modelled.
\<close>

section \<open>What the connectors read\<close>

datatype http_reply =
    HttpOk "string option" string
  | HttpRedirect string
  | HttpFail exn

record world =
  w_text :: "string \<Rightarrow> string res"
  w_json :: "string \<Rightarrow> jtext"
  w_http :: "string \<Rightarrow> (string \<times> string) list \<Rightarrow> http_reply"

text \<open>\<open>json.loads(s)\<close>, and \<open>str.splitlines\<close> on code points below 256.\<close>

definition loads :: "world \<Rightarrow> string \<Rightarrow> json res" where
  "loads w s = json_loads (w_json w s)"

definition is_break :: "char \<Rightarrow> bool" where
  "is_break c \<longleftrightarrow> (let n = code c in (10 \<le> n \<and> n \<le> 13) \<or> (28 \<le> n \<and> n \<le> 30) \<or> n = 133)"

fun splitlines_aux :: "string \<Rightarrow> string \<Rightarrow> string list" where
  "splitlines_aux cur [] = (if cur = [] then [] else [rev cur])"
| "splitlines_aux cur (c # s) =
     (if c = CR then
        (case s of d # s' \<Rightarrow> if d = LF then rev cur # splitlines_aux [] s' else rev cur # splitlines_aux [] s
         | [] \<Rightarrow> rev cur # splitlines_aux [] s)
      else if is_break c then rev cur # splitlines_aux [] s
      else splitlines_aux (c # cur) s)"

definition splitlines :: "string \<Rightarrow> string list" where
  "splitlines s = splitlines_aux [] s"

section \<open>The connectors\<close>

datatype connector =
    JsonlInventoryConnector (conn_name: string) (jsonl_path: string)
  | HttpJsonFeedConnector (conn_name: string) (feed_url: string) (feed_token_file: "string option")

definition jsonl_init :: "string \<Rightarrow> string \<Rightarrow> connector res" where
  "jsonl_init name path =
     (if name = [] \<or> path = [] then Inl (ValueError ''jsonl_inventory requires name and path'')
      else Inr (JsonlInventoryConnector name path))"

definition jsonl_from_config :: "pyrt \<Rightarrow> dict \<Rightarrow> connector res" where
  "jsonl_from_config rt config =
     jsonl_init (py_str rt (or_else (get config ''name'') (JStr [])))
       (py_str rt (or_else (get config ''path'') (JStr [])))"

text \<open>The \<open>try\<close> block for one line, and the generator over the lines.\<close>

definition jsonl_line :: "pyrt \<Rightarrow> world \<Rightarrow> string \<Rightarrow> string \<Rightarrow> candidate res" where
  "jsonl_line rt w name content =
     rbind (loads w content) (\<lambda>v.
     rbind (of_option (ValueError ''line is not an object'') (as_dict v)) (\<lambda>m.
     parse_candidate rt m name))"

fun jsonl_lines :: "pyrt \<Rightarrow> world \<Rightarrow> string \<Rightarrow> string list \<Rightarrow> candidate list res" where
  "jsonl_lines rt w name [] = Inr []"
| "jsonl_lines rt w name (line # ls) =
     (let content = strip line in
      if content = [] \<or> starts_with ''#'' content then jsonl_lines rt w name ls
      else (case jsonl_line rt w name content of
              Inr c \<Rightarrow> rbind (jsonl_lines rt w name ls) (\<lambda>cs. Inr (c # cs))
            | Inl e \<Rightarrow> if is_ValueError e then jsonl_lines rt w name ls else Inl e))"

definition jsonl_collect :: "pyrt \<Rightarrow> world \<Rightarrow> string \<Rightarrow> string \<Rightarrow> candidate list res" where
  "jsonl_collect rt w name path =
     rbind (w_text w path) (\<lambda>text. jsonl_lines rt w name (splitlines text))"

definition MAX_FEED_BYTES :: nat where
  "MAX_FEED_BYTES = 5 * 1024 * 1024"

definition feed_init :: "string \<Rightarrow> string \<Rightarrow> string option \<Rightarrow> connector res" where
  "feed_init name url token_file =
     (if name = [] \<or> \<not> starts_with ''https://'' url
      then Inl (ValueError ''http_json_feed requires name and an HTTPS URL'')
      else rbind (urlsplit url) (\<lambda>p.
        if u_hostname p = [] \<or> u_username p \<noteq> [] \<or> u_password p \<noteq> [] \<or> u_fragment p \<noteq> [] \<or> u_query p \<noteq> []
        then Inl (ValueError ''provider URL must not contain credentials, query or fragment'')
        else Inr (HttpJsonFeedConnector name url token_file)))"

definition feed_from_config :: "pyrt \<Rightarrow> dict \<Rightarrow> connector res" where
  "feed_from_config rt config =
     (if truthy (get config ''token_env'')
      then Inl (ValueError ''token_env is unsupported; migrate to token_file'')
      else feed_init (py_str rt (or_else (get config ''name'') (JStr [])))
        (py_str rt (or_else (get config ''url'') (JStr [])))
        (if truthy (get config ''token_file'') then Some (py_str rt (get config ''token_file'')) else None))"

text \<open>\<open>NoRedirect.redirect_request\<close> and the request of \<open>_fetch\<close>.\<close>

definition redirect_request :: "string \<Rightarrow> 'a res" where
  "redirect_request newurl = Inl (ValueError ''provider redirects are disabled'')"

definition token_ok :: "string \<Rightarrow> bool" where
  "token_ok t \<longleftrightarrow> t \<noteq> [] \<and> list_all (\<lambda>c. 33 \<le> code c \<and> code c \<le> 126) t"

definition feed_headers :: "world \<Rightarrow> string option \<Rightarrow> (string \<times> string) list res" where
  "feed_headers w token_file =
     (let headers = [(''Accept'', ''application/json''), (''User-Agent'', ''transparent-gateway/1'')] in
      case token_file of
        Some f \<Rightarrow>
          if f = [] then Inr headers
          else rbind (w_text w f) (\<lambda>t.
            rbind (ensure (token_ok (strip t)) (ValueError ''provider token file is empty or invalid'')) (\<lambda>_.
            Inr (headers @ [(''Authorization'', ''Bearer '' @ strip t)])))
      | None \<Rightarrow> Inr headers)"

text \<open>\<open>opener.open(...)\<close> as the answer of the server to the one request that is sent.\<close>

definition feed_open :: "world \<Rightarrow> string \<Rightarrow> (string \<times> string) list \<Rightarrow> (string option \<times> string) res" where
  "feed_open w url headers =
     (case w_http w url headers of
        HttpOk content_length body \<Rightarrow> Inr (content_length, body)
      | HttpRedirect newurl \<Rightarrow> redirect_request newurl
      | HttpFail e \<Rightarrow> Inl e)"

definition content_length_value :: "string option \<Rightarrow> int res" where
  "content_length_value h =
     (case h of Some s \<Rightarrow> if s = [] then Inr 0 else of_option (ValueError ''invalid literal for int()'') (py_int s)
      | None \<Rightarrow> Inr 0)"

definition feed_body :: "world \<Rightarrow> string \<Rightarrow> string option \<Rightarrow> string res" where
  "feed_body w url token_file =
     rbind (feed_headers w token_file) (\<lambda>headers.
     rbind (feed_open w url headers) (\<lambda>(content_length, data).
     rbind (content_length_value content_length) (\<lambda>n.
     rbind (ensure (n \<le> int MAX_FEED_BYTES) (ValueError ''provider feed exceeds 5 MB limit'')) (\<lambda>_.
     let body = take (MAX_FEED_BYTES + 1) data in
     rbind (ensure (length body \<le> MAX_FEED_BYTES) (ValueError ''provider feed exceeds 5 MB limit'')) (\<lambda>_.
     Inr body)))))"

definition feed_fetch :: "world \<Rightarrow> string \<Rightarrow> string option \<Rightarrow> json list res" where
  "feed_fetch w url token_file =
     rbind (feed_body w url token_file) (\<lambda>body.
     rbind (loads w body) (\<lambda>payload.
     of_option (ValueError ''provider feed must return a JSON list'') (as_list payload)))"

definition feed_item :: "pyrt \<Rightarrow> string \<Rightarrow> json \<Rightarrow> candidate res" where
  "feed_item rt name value =
     rbind (of_option (ValueError ''feed item is not an object'') (as_dict value)) (\<lambda>m.
     parse_candidate rt m name)"

fun feed_items :: "pyrt \<Rightarrow> string \<Rightarrow> json list \<Rightarrow> candidate list res" where
  "feed_items rt name [] = Inr []"
| "feed_items rt name (v # vs) =
     (case feed_item rt name v of
        Inr c \<Rightarrow> rbind (feed_items rt name vs) (\<lambda>cs. Inr (c # cs))
      | Inl e \<Rightarrow> if is_ValueError e then feed_items rt name vs else Inl e)"

definition feed_collect :: "pyrt \<Rightarrow> world \<Rightarrow> string \<Rightarrow> string \<Rightarrow> string option \<Rightarrow> candidate list res" where
  "feed_collect rt w name url token_file =
     rbind (feed_fetch w url token_file) (\<lambda>vs. feed_items rt name vs)"

fun collect :: "pyrt \<Rightarrow> world \<Rightarrow> connector \<Rightarrow> candidate list res" where
  "collect rt w (JsonlInventoryConnector name path) = jsonl_collect rt w name path"
| "collect rt w (HttpJsonFeedConnector name url token_file) = feed_collect rt w name url token_file"

section \<open>The registry and the loader\<close>

type_synonym 'c registry = "(string \<times> (dict \<Rightarrow> 'c res)) list"

definition types :: "'c registry \<Rightarrow> string set" where
  "types reg = fst ` set reg"

definition register :: "string \<Rightarrow> (dict \<Rightarrow> 'c res) \<Rightarrow> 'c registry \<Rightarrow> 'c registry res" where
  "register kind factory reg =
     (if kind = [] \<or> map_of reg kind \<noteq> None
      then Inl (ValueError (''duplicate or empty connector type: '' @ kind))
      else Inr (reg @ [(kind, factory)]))"

definition create :: "'c registry \<Rightarrow> string \<Rightarrow> dict \<Rightarrow> 'c res" where
  "create reg kind config =
     (case map_of reg kind of
        None \<Rightarrow> Inl (ValueError (''connector type is not registered: '' @ kind))
      | Some factory \<Rightarrow> factory config)"

definition CONNECTOR_REGISTRY :: "pyrt \<Rightarrow> connector registry" where
  "CONNECTOR_REGISTRY rt =
     (case rbind (register ''jsonl_inventory'' (jsonl_from_config rt) [])
            (register ''http_json_feed'' (feed_from_config rt)) of
        Inr reg \<Rightarrow> reg | Inl _ \<Rightarrow> [])"

fun strings :: "json list \<Rightarrow> string list option" where
  "strings [] = Some []"
| "strings (JStr s # xs) = map_option (Cons s) (strings xs)"
| "strings (_ # xs) = None"

fun load_active :: "pyrt \<Rightarrow> 'c registry \<Rightarrow> string list \<Rightarrow> string list \<Rightarrow> json list \<Rightarrow> 'c list res" where
  "load_active rt reg allowed names [] = Inr []"
| "load_active rt reg allowed names (JObj entry # rest) =
     (let kind = py_str rt (or_else (get entry ''type'') (JStr []));
          name = py_str rt (or_else (get entry ''name'') (JStr [])) in
      rbind (ensure (kind \<in> set allowed)
        (ValueError (''active connector type is not allowed: '' @ kind))) (\<lambda>_.
      rbind (ensure (name \<noteq> [] \<and> name \<notin> set names)
        (ValueError (''connector name is empty or duplicated: '' @ name))) (\<lambda>_.
      rbind (create reg kind entry) (\<lambda>c.
      rbind (load_active rt reg allowed (name # names) rest) (\<lambda>cs.
      Inr (c # cs))))))"
| "load_active rt reg allowed names (_ # rest) =
     Inl (ValueError ''active connector entry must be an object'')"

definition load_connectors :: "pyrt \<Rightarrow> world \<Rightarrow> string \<Rightarrow> 'c registry \<Rightarrow> 'c list res" where
  "load_connectors rt w path reg =
     rbind (w_text w path) (\<lambda>text.
     rbind (loads w text) (\<lambda>v.
     rbind (of_option (ValueError ''connector configuration must be an object'') (as_dict v)) (\<lambda>config.
     rbind (of_option (ValueError ''allowed_connector_types must be a list of strings'')
       (Option.bind (as_list (get config ''allowed_connector_types'')) strings)) (\<lambda>allowed.
     rbind (of_option (ValueError ''active_connectors must be a list'')
       (as_list (get config ''active_connectors''))) (\<lambda>active.
     rbind (ensure (\<forall>kind \<in> set allowed. kind \<in> types reg)
       (ValueError ''allowed connector types are not registered'')) (\<lambda>_.
     load_active rt reg allowed [] active))))))"

text \<open>
  \<open>collect_all\<close>: the results of \<open>gather(..., return_exceptions=True)\<close> stand in the order of the
  connectors, however the connectors interleave, as they share no state.
\<close>

type_synonym ident = "string \<times> string \<times> int \<times> string option"

definition ident :: "candidate \<Rightarrow> ident" where
  "ident c = (c_protocol c, c_host c, c_port c, c_credential_ref c)"

definition add_unique :: "candidate list \<Rightarrow> (ident \<times> candidate) list \<Rightarrow> (ident \<times> candidate) list" where
  "add_unique cs unique = fold (\<lambda>c u. AList.update (ident c) c u) cs unique"

definition collect_all :: "('c \<Rightarrow> candidate list res) \<Rightarrow> 'c list \<Rightarrow> candidate list" where
  "collect_all one connectors =
     (let collected = map one connectors in
      map snd (fold (\<lambda>candidates unique.
          case candidates of Inl _ \<Rightarrow> unique | Inr cs \<Rightarrow> add_unique cs unique) collected []))"

section \<open>The loader accepts only what the operator allows\<close>

lemma create_Inr: "create reg kind config = Inr c \<longleftrightarrow> (\<exists>f. map_of reg kind = Some f \<and> f config = Inr c)"
  by (auto simp: create_def split: option.splits)

lemma types_map_of: "kind \<in> types reg \<longleftrightarrow> map_of reg kind \<noteq> None"
  by (simp add: types_def map_of_eq_None_iff)

lemma register_Inr:
  "register kind f reg = Inr reg' \<longleftrightarrow> kind \<noteq> [] \<and> kind \<notin> types reg \<and> reg' = reg @ [(kind, f)]"
  by (auto simp: register_def types_map_of)

text \<open>A registry that \<open>register\<close> built: distinct kinds, none empty.\<close>

definition registry_wf :: "'c registry \<Rightarrow> bool" where
  "registry_wf reg \<longleftrightarrow> distinct (map fst reg) \<and> [] \<notin> types reg"

lemma register_wf: "registry_wf reg \<Longrightarrow> register kind f reg = Inr reg' \<Longrightarrow> registry_wf reg'"
  by (auto simp: registry_wf_def register_Inr types_def)

text \<open>What \<open>load_connectors\<close> makes of one entry of the configuration.\<close>

definition entry_loads :: "pyrt \<Rightarrow> 'c registry \<Rightarrow> string list \<Rightarrow> json \<Rightarrow> 'c \<Rightarrow> bool" where
  "entry_loads rt reg allowed v c \<longleftrightarrow>
     (case v of JObj m \<Rightarrow>
        (let kind = py_str rt (or_else (get m ''type'') (JStr [])) in
         kind \<in> set allowed \<and> create reg kind m = Inr c)
      | _ \<Rightarrow> False)"

definition entry_name :: "pyrt \<Rightarrow> json \<Rightarrow> string" where
  "entry_name rt v =
     (case v of JObj m \<Rightarrow> py_str rt (or_else (get m ''name'') (JStr [])) | _ \<Rightarrow> [])"

lemma load_active_Inr:
  assumes "load_active rt reg allowed names active = Inr cs"
  shows "list_all2 (entry_loads rt reg allowed) active cs"
    and "distinct (map (entry_name rt) active)"
    and "\<forall>v \<in> set active. entry_name rt v \<noteq> [] \<and> entry_name rt v \<notin> set names"
proof -
  have "list_all2 (entry_loads rt reg allowed) active cs
    \<and> distinct (map (entry_name rt) active)
    \<and> (\<forall>v \<in> set active. entry_name rt v \<noteq> [] \<and> entry_name rt v \<notin> set names)"
    using assms
  proof (induction rt reg allowed names active arbitrary: cs rule: load_active.induct)
    case (2 rt reg allowed names entry rest)
    let ?kind = "py_str rt (or_else (get entry ''type'') (JStr []))"
    let ?name = "py_str rt (or_else (get entry ''name'') (JStr []))"
    from 2(2) obtain c cs' where *: "?kind \<in> set allowed" "?name \<noteq> []" "?name \<notin> set names"
      "create reg ?kind entry = Inr c" "load_active rt reg allowed (?name # names) rest = Inr cs'"
      "cs = c # cs'"
      by (auto simp: res_simps Let_def)
    have "entry_loads rt reg allowed (JObj entry) c" "entry_name rt (JObj entry) = ?name"
      using *(1,4) by (simp_all add: entry_loads_def entry_name_def)
    moreover note 2(1) [OF refl refl *(5)]
    ultimately show ?case using * by (auto simp: res_simps)
  qed simp_all
  then show "list_all2 (entry_loads rt reg allowed) active cs"
    and "distinct (map (entry_name rt) active)"
    and "\<forall>v \<in> set active. entry_name rt v \<noteq> [] \<and> entry_name rt v \<notin> set names"
    by blast+
qed

lemma create_name:
  "create (CONNECTOR_REGISTRY rt) kind m = Inr c \<Longrightarrow> conn_name c = py_str rt (or_else (get m ''name'') (JStr []))"
  by (auto simp: create_Inr CONNECTOR_REGISTRY_def register_def jsonl_from_config_def feed_from_config_def
      jsonl_init_def feed_init_def res_simps Let_def split: if_splits)

section \<open>Collected candidates\<close>

lemma split_endpoint_error: "split_endpoint s = Inl e \<Longrightarrow> is_ValueError e"
  by (auto simp: split_endpoint_def res_simps split: if_splits option.splits list.splits prod.splits)

lemma normalise_host_error: "normalise_host rt h = Inl e \<Longrightarrow> is_ValueError e"
  unfolding normalise_host_def Let_def
  by (simp split: if_splits option.splits sum.splits, (metis is_ValueError.simps(1))+)

lemma json_int_error: "json_int v = Inl e \<Longrightarrow> is_ValueError e \<or> e = TypeError"
  by (cases v) (auto simp: res_simps)

lemma int_port_error: "int_port v = Inl e \<Longrightarrow> is_ValueError e"
  using json_int_error [of v] by (auto simp: int_port_def res_simps split: if_splits)

lemma host_and_port_error: "host_and_port rt m = Inl e \<Longrightarrow> is_ValueError e"
  unfolding host_and_port_def Let_def
  by (auto simp: res_simps split: if_splits prod.splits
      dest: split_endpoint_error normalise_host_error int_port_error)

lemma parse_candidate_error: "parse_candidate rt m name = Inl e \<Longrightarrow> is_ValueError e"
  unfolding parse_candidate_def Let_def
  by (auto simp: res_simps split: prod.splits dest: host_and_port_error normalise_host_error)

lemma loads_error: "loads w s = Inl e \<Longrightarrow> is_ValueError e"
  by (cases "w_json w s") (auto simp: loads_def)

lemma jsonl_line_error: "jsonl_line rt w name s = Inl e \<Longrightarrow> is_ValueError e"
  by (auto simp: jsonl_line_def res_simps dest: loads_error parse_candidate_error)

lemma feed_item_error: "feed_item rt name v = Inl e \<Longrightarrow> is_ValueError e"
  by (auto simp: feed_item_def res_simps dest: parse_candidate_error)

definition ok_list :: "'a res \<Rightarrow> 'a list" where
  "ok_list r = (case r of Inl _ \<Rightarrow> [] | Inr x \<Rightarrow> [x])"

lemma ok_list_simps [simp]: "ok_list (Inl e) = []" "ok_list (Inr x) = [x]"
  by (simp_all add: ok_list_def)

lemma in_ok_list [simp]: "x \<in> set (ok_list r) \<longleftrightarrow> r = Inr x"
  by (cases r) auto

text \<open>The candidates of one line of the inventory: at most one, none for blanks and comments.\<close>

definition line_candidates :: "pyrt \<Rightarrow> world \<Rightarrow> string \<Rightarrow> string \<Rightarrow> candidate list" where
  "line_candidates rt w name line =
     (if strip line = [] \<or> starts_with ''#'' (strip line) then []
      else ok_list (jsonl_line rt w name (strip line)))"

lemma jsonl_lines_total: "jsonl_lines rt w name ls = Inr (concat (map (line_candidates rt w name) ls))"
proof (induction ls)
  case (Cons line ls)
  then show ?case
    by (cases "jsonl_line rt w name (strip line)")
      (auto simp: line_candidates_def Let_def dest: jsonl_line_error)
qed simp

lemma feed_items_total: "feed_items rt name vs = Inr (concat (map (\<lambda>v. ok_list (feed_item rt name v)) vs))"
proof (induction vs)
  case (Cons v vs)
  then show ?case
    by (cases "feed_item rt name v") (auto dest: feed_item_error)
qed simp

lemma collect_parsed:
  assumes "collect rt w c = Inr cs" and "x \<in> set cs"
  shows "\<exists>m. parse_candidate rt m (conn_name c) = Inr x"
  using assms
  by (cases c) (auto simp: jsonl_collect_def feed_collect_def res_simps jsonl_lines_total feed_items_total
      line_candidates_def jsonl_line_def feed_item_def split: if_splits sum.splits)

lemma collect_wf:
  "collect rt w c = Inr cs \<Longrightarrow> x \<in> set cs \<Longrightarrow> idna_lower rt \<Longrightarrow> candidate_wf rt x"
  using collect_parsed parse_candidate_wf by blast

section \<open>The merge\<close>

lemma add_unique_Cons: "add_unique (c # cs) u = add_unique cs (AList.update (ident c) c u)"
  by (simp add: add_unique_def)

lemma add_unique_append: "add_unique (cs @ ds) u = add_unique ds (add_unique cs u)"
  by (simp add: add_unique_def)

lemma add_unique_distinct: "distinct (map fst u) \<Longrightarrow> distinct (map fst (add_unique cs u))"
  by (induction cs arbitrary: u) (auto simp: add_unique_Cons distinct_update, simp add: add_unique_def)

lemma add_unique_map_of:
  "map_of (add_unique cs u) k = (case find (\<lambda>c. ident c = k) (rev cs) of Some c \<Rightarrow> Some c | None \<Rightarrow> map_of u k)"
proof (induction cs rule: rev_induct)
  case Nil
  then show ?case by (simp add: add_unique_def)
next
  case (snoc c cs)
  have "add_unique (cs @ [c]) u = AList.update (ident c) c (add_unique cs u)"
    by (simp add: add_unique_def)
  with snoc show ?case by (simp add: update_conv)
qed

text \<open>All candidates of the connectors that did not fail, in the order of the connectors.\<close>

definition collected :: "('c \<Rightarrow> candidate list res) \<Rightarrow> 'c list \<Rightarrow> candidate list" where
  "collected one conns = concat (map (\<lambda>c. case one c of Inl _ \<Rightarrow> [] | Inr cs \<Rightarrow> cs) conns)"

lemma collect_all_eq: "collect_all one conns = map snd (add_unique (collected one conns) [])"
proof -
  have "fold (\<lambda>candidates unique. case candidates of Inl _ \<Rightarrow> unique | Inr cs \<Rightarrow> add_unique cs unique)
      (map one conns) u = add_unique (collected one conns) u" for u
    by (induction conns arbitrary: u) (auto simp: collected_def add_unique_append add_unique_def split: sum.splits)
  then show ?thesis by (simp add: collect_all_def)
qed

lemma in_merged:
  assumes "(k, c) \<in> set (add_unique cs [])"
  shows "ident c = k" and "find (\<lambda>x. ident x = k) (rev cs) = Some c"
proof -
  have "map_of (add_unique cs []) k = Some c"
    using add_unique_distinct [of "[]" cs] assms by (simp add: map_of_eq_Some_iff)
  then show "find (\<lambda>x. ident x = k) (rev cs) = Some c"
    by (simp add: add_unique_map_of split: option.splits)
  then show "ident c = k" by (auto simp: find_Some_iff)
qed

lemma merged_snd: "map ident (map snd (add_unique cs [])) = map fst (add_unique cs [])"
  using in_merged(1) by (auto simp: map_eq_conv split: prod.splits)

text \<open>The merge as a function of the list, without the table.\<close>

definition merged :: "candidate list \<Rightarrow> candidate list" where
  "merged cs = map (\<lambda>k. last (filter (\<lambda>c. ident c = k) cs)) (rev (remdups (rev (map ident cs))))"

lemma merged_keys: "map fst (add_unique cs []) = rev (remdups (rev (map ident cs)))"
proof (induction cs rule: rev_induct)
  case Nil
  then show ?case by (simp add: add_unique_def)
next
  case (snoc c cs)
  have "add_unique (cs @ [c]) [] = AList.update (ident c) c (add_unique cs [])" by (simp add: add_unique_def)
  moreover have "ident c \<in> set (map fst (add_unique cs [])) \<longleftrightarrow> ident c \<in> set (map ident cs)"
    unfolding snoc.IH by simp
  ultimately show ?case using snoc.IH by (auto simp: update_keys)
qed

lemma find_rev_last: "find P (rev cs) = Some c \<Longrightarrow> last (filter P cs) = c"
  by (induction cs rule: rev_induct) (auto split: if_splits)

lemma collect_all_distinct: "distinct (map ident (collect_all one conns))"
  unfolding collect_all_eq merged_snd by (rule add_unique_distinct) simp

lemma collect_all_last:
  assumes "c \<in> set (collect_all one conns)"
  shows "find (\<lambda>x. ident x = ident c) (rev (collected one conns)) = Some c"
  using assms in_merged unfolding collect_all_eq by fastforce

lemma find_SomeD: "find P xs = Some x \<Longrightarrow> x \<in> set xs \<and> P x"
  by (induction xs) (auto split: if_splits)

lemma collect_all_subset: "c \<in> set (collect_all one conns) \<Longrightarrow> c \<in> set (collected one conns)"
  using collect_all_last [of c one conns] find_SomeD by fastforce

lemma collected_Inr:
  "x \<in> set (collected one conns) \<longleftrightarrow> (\<exists>c \<in> set conns. \<exists>cs. one c = Inr cs \<and> x \<in> set cs)"
proof -
  have "x \<in> set (case one c of Inl _ \<Rightarrow> [] | Inr cs \<Rightarrow> cs) \<longleftrightarrow> (\<exists>cs. one c = Inr cs \<and> x \<in> set cs)" for c
    by (cases "one c") auto
  then show ?thesis by (simp add: collected_def)
qed

text \<open>
  The interface \<open>ProxySourceConnector\<close>: a connector yields candidates that its own parser
  accepted, or fails as a whole. The merge relies on nothing else.
\<close>

locale proxy_source =
  fixes one :: "'c \<Rightarrow> candidate list res" and good :: "candidate \<Rightarrow> bool"
  assumes yields_good: "one c = Inr cs \<Longrightarrow> x \<in> set cs \<Longrightarrow> good x"
begin

lemma merged_good: "x \<in> set (collect_all one conns) \<Longrightarrow> good x"
  using collect_all_subset yields_good unfolding collected_Inr by blast

lemma merged_distinct: "distinct (collect_all one conns)"
  using collect_all_distinct [of one conns] by (simp add: distinct_map)

lemma failed_source_isolated:
  "one bad = Inl e \<Longrightarrow> collect_all one (as @ bad # bs) = collect_all one (as @ bs)"
  by (simp add: collect_all_eq collected_def)

end

interpretation source: proxy_source "collect rt w" "\<lambda>c. idna_lower rt \<longrightarrow> candidate_wf rt c" for rt w
  by unfold_locales (rule impI, rule collect_wf)

section \<open>Properties\<close>

lemma load_connectors_Inr:
  assumes "load_connectors rt w path reg = Inr cs"
  obtains content config allowed active where "w_text w path = Inr content" and "loads w content = Inr (JObj config)"
    and "Option.bind (as_list (get config ''allowed_connector_types'')) strings = Some allowed"
    and "get config ''active_connectors'' = JArr active"
    and "set allowed \<subseteq> types reg" and "load_active rt reg allowed [] active = Inr cs"
proof -
  from assms obtain content v config allowed active where *: "w_text w path = Inr content" "loads w content = Inr v"
    "as_dict v = Some config"
    "Option.bind (as_list (get config ''allowed_connector_types'')) strings = Some allowed"
    "as_list (get config ''active_connectors'') = Some active"
    "\<forall>kind \<in> set allowed. kind \<in> types reg" "load_active rt reg allowed [] active = Inr cs"
    by (auto simp: load_connectors_def res_simps)
  from *(3) have v: "v = JObj config" by (auto elim: as_dict.elims)
  from *(5) have "get config ''active_connectors'' = JArr active" by (auto elim: as_list.elims)
  then show thesis using * v by (intro that) auto
qed

text \<open>
  A configuration that \<open>load_connectors\<close> accepts is a JSON object whose allow list names only
  registered types, and every connector it makes comes, in order, from an active entry of an
  allowed type, under a name that is not empty and that no other connector has.
\<close>

theorem load_connectors_allow_list:
  assumes "load_connectors rt w path (CONNECTOR_REGISTRY rt) = Inr cs"
  shows "\<exists>content config allowed active. w_text w path = Inr content \<and> loads w content = Inr (JObj config)
    \<and> Option.bind (as_list (get config ''allowed_connector_types'')) strings = Some allowed
    \<and> get config ''active_connectors'' = JArr active
    \<and> set allowed \<subseteq> {''jsonl_inventory'', ''http_json_feed''}
    \<and> list_all2 (entry_loads rt (CONNECTOR_REGISTRY rt) allowed) active cs
    \<and> distinct (map conn_name cs) \<and> [] \<notin> set (map conn_name cs)"
proof -
  from assms obtain content config allowed active where *: "w_text w path = Inr content"
    "loads w content = Inr (JObj config)"
    "Option.bind (as_list (get config ''allowed_connector_types'')) strings = Some allowed"
    "get config ''active_connectors'' = JArr active"
    "set allowed \<subseteq> types (CONNECTOR_REGISTRY rt)"
    "load_active rt (CONNECTOR_REGISTRY rt) allowed [] active = Inr cs"
    by (rule load_connectors_Inr)
  note la = load_active_Inr [OF *(6)]
  have "conn_name c = entry_name rt v" if "entry_loads rt (CONNECTOR_REGISTRY rt) allowed v c" for v c
    using that create_name by (auto simp: entry_loads_def entry_name_def Let_def split: json.splits)
  with la(1) have "map conn_name cs = map (entry_name rt) active"
    by (induction rule: list_all2_induct) simp_all
  moreover have "types (CONNECTOR_REGISTRY rt) = {''jsonl_inventory'', ''http_json_feed''}"
    by (auto simp: types_def CONNECTOR_REGISTRY_def register_def)
  moreover have "[] \<notin> set (map (entry_name rt) active)" using la(3) by auto
  ultimately have "set allowed \<subseteq> {''jsonl_inventory'', ''http_json_feed''}"
    "distinct (map conn_name cs)" "[] \<notin> set (map conn_name cs)"
    using *(5) la(2) by metis+
  with *(1-4) la(1) show ?thesis by blast
qed

definition sample_config :: json where
  "sample_config = JObj [(''allowed_connector_types'', JArr [JStr ''jsonl_inventory'']),
     (''active_connectors'', JArr [JObj [(''type'', JStr ''jsonl_inventory''), (''name'', JStr ''a''),
        (''path'', JStr ''/inventory/a.jsonl'')]])]"

definition sample_world :: world where
  "sample_world = \<lparr>w_text = (\<lambda>p. Inr ''text''), w_json = (\<lambda>s. JText sample_config),
     w_http = (\<lambda>u h. HttpRedirect ''https://other.example/'')\<rparr>"

lemma load_connectors_allow_list_witness:
  "load_connectors plain_rt sample_world ''c.json'' (CONNECTOR_REGISTRY plain_rt)
     = Inr [JsonlInventoryConnector ''a'' ''/inventory/a.jsonl'']
   \<and> (\<exists>content config allowed active. w_text sample_world ''c.json'' = Inr content
      \<and> loads sample_world content = Inr (JObj config)
      \<and> Option.bind (as_list (get config ''allowed_connector_types'')) strings = Some allowed
      \<and> get config ''active_connectors'' = JArr active \<and> set allowed \<subseteq> {''jsonl_inventory'', ''http_json_feed''})"
proof -
  have *: "load_connectors plain_rt sample_world ''c.json'' (CONNECTOR_REGISTRY plain_rt)
     = Inr [JsonlInventoryConnector ''a'' ''/inventory/a.jsonl'']"
    by (simp add: load_connectors_def sample_world_def loads_def sample_config_def types_def create_def
        CONNECTOR_REGISTRY_def register_def jsonl_from_config_def jsonl_init_def Let_def)
  with load_connectors_allow_list [OF *] show ?thesis by blast
qed

text \<open>
  \<open>collect_all\<close> is the following function of everything that was collected from the connectors
  that did not fail: the identities (protocol, host, port, credential) in the order in which they were
  first seen, each with the last candidate collected for it.
\<close>

theorem collect_all_unique_last:
  "collect_all one conns = merged (collected one conns)"
proof -
  let ?cs = "collected one conns"
  have "snd e = last (filter (\<lambda>c. ident c = fst e) ?cs)" if "e \<in> set (add_unique ?cs [])" for e
    using find_rev_last[OF in_merged(2)[of "fst e" "snd e" ?cs]] that by simp
  then have "map snd (add_unique ?cs []) = map (\<lambda>k. last (filter (\<lambda>c. ident c = k) ?cs)) (map fst (add_unique ?cs []))"
    by simp
  then show ?thesis by (simp add: collect_all_eq merged_def merged_keys)
qed

text \<open>
  Every candidate that leaves \<open>collect_all\<close> is canonical, whatever the sources return: bad
  lines, bad feed items and failing connectors are dropped, not passed on.
\<close>

theorem collect_all_candidates_wf:
  assumes "idna_lower rt" and "c \<in> set (collect_all (collect rt w) conns)"
  shows "candidate_wf rt c"
  using source.merged_good [OF assms(2)] assms(1) by blast

definition inventory_world :: world where
  "inventory_world = \<lparr>w_text = (\<lambda>p. Inr (''# proxies'' @ [LF] @ ''not json'' @ [CR, LF] @ ''line'')),
     w_json = (\<lambda>s. if s = ''line'' then JText (JObj (snapshot_without_validation sample_candidate)) else BadText),
     w_http = (\<lambda>u h. HttpFail TimeoutError)\<rparr>"

lemma collect_all_candidates_wf_witness:
  "collect_all (collect plain_rt inventory_world)
     [HttpJsonFeedConnector ''f'' ''https://feed.example/'' None, JsonlInventoryConnector ''a'' ''b'']
     = [sample_candidate] \<and> candidate_wf plain_rt sample_candidate"
proof -
  have *: "collect_all (collect plain_rt inventory_world)
     [HttpJsonFeedConnector ''f'' ''https://feed.example/'' None, JsonlInventoryConnector ''a'' ''b'']
     = [sample_candidate]"
  proof -
    have "splitlines (''# proxies'' @ [LF] @ ''not json'' @ [CR, LF] @ ''line'')
        = [''# proxies'', ''not json'', ''line'']"
      and st: "strip ''# proxies'' = ''# proxies''" "strip ''not json'' = ''not json''" "strip ''line'' = ''line''"
      by code_simp+
    moreover have "parse_candidate plain_rt (snapshot_without_validation sample_candidate) ''a''
        = Inr sample_candidate"
      using carries_snapshot_without_validation sample_candidate_wf
      by (rule parse_carried) (simp add: sample_candidate_def)
    ultimately have "jsonl_collect plain_rt inventory_world ''a'' ''b'' = Inr [sample_candidate]"
      by (simp add: jsonl_collect_def jsonl_lines_total line_candidates_def jsonl_line_def loads_def
          inventory_world_def)
    moreover have "feed_collect plain_rt inventory_world ''f'' ''https://feed.example/'' None = Inl TimeoutError"
      by (simp add: feed_collect_def feed_fetch_def feed_body_def feed_headers_def feed_open_def
          inventory_world_def)
    ultimately show ?thesis by (simp add: collect_all_eq collected_def add_unique_def)
  qed
  then have "sample_candidate \<in> set (collect_all (collect plain_rt inventory_world)
     [HttpJsonFeedConnector ''f'' ''https://feed.example/'' None, JsonlInventoryConnector ''a'' ''b''])"
    by simp
  from collect_all_candidates_wf [OF plain_rt_idna_lower this] * show ?thesis by blast
qed

text \<open>
  Failures are isolated: a source that raises leaves the result of all others unchanged, and
  a readable inventory never raises, as each line contributes its candidate or nothing.
\<close>

theorem source_failure_isolated:
  "(case one bad of Inl e \<Rightarrow> collect_all one (as @ bad # bs) = collect_all one (as @ bs) | Inr _ \<Rightarrow> True)
   \<and> jsonl_collect rt w name path =
       rbind (w_text w path) (\<lambda>text. Inr (concat (map (line_candidates rt w name) (splitlines text))))"
  by (auto simp: collect_all_eq collected_def jsonl_collect_def jsonl_lines_total split: sum.splits)

lemma feed_body_headers:
  "feed_headers w token_file = Inl e \<Longrightarrow> feed_fetch w url token_file = Inl e"
  by (simp add: feed_fetch_def feed_body_def)

lemma feed_fetch_Inr:
  assumes "feed_fetch w url token_file = Inr vs"
  obtains headers h data where "feed_headers w token_file = Inr headers"
    and "w_http w url headers = HttpOk h data" and "length data \<le> MAX_FEED_BYTES"
    and "loads w data = Inr (JArr vs)"
proof -
  from assms obtain body payload where b: "feed_body w url token_file = Inr body"
    and l: "loads w body = Inr payload" "as_list payload = Some vs"
    by (auto simp: feed_fetch_def res_simps)
  from l(2) have "payload = JArr vs" by (auto elim: as_list.elims)
  moreover from b obtain headers h data where *: "feed_headers w token_file = Inr headers"
    "feed_open w url headers = Inr (h, data)" "length (take (MAX_FEED_BYTES + 1) data) \<le> MAX_FEED_BYTES"
    "body = take (MAX_FEED_BYTES + 1) data"
    by (auto simp: feed_body_def res_simps Let_def simp del: length_take)
  moreover have "w_http w url headers = HttpOk h data"
    using *(2) by (auto simp: feed_open_def redirect_request_def split: http_reply.splits)
  moreover have "length data \<le> MAX_FEED_BYTES" using *(3) by simp
  ultimately show thesis using l(1) by (intro that) simp_all
qed

text \<open>
  The provider's feed is fetched only on the agreed terms: a result means that the one request
  sent to the configured URL was answered directly, without a redirect, that the body was no
  longer than \<open>MAX_FEED_BYTES\<close> and holds that JSON list, and that a configured token was a
  printable text of the token file, sent as the bearer of that request.
\<close>

theorem feed_fetch_guarded:
  assumes "feed_fetch w url token_file = Inr vs"
  shows "\<exists>headers h data. w_http w url headers = HttpOk h data \<and> length data \<le> MAX_FEED_BYTES
    \<and> loads w data = Inr (JArr vs)
    \<and> (case token_file of
         Some f \<Rightarrow> f = [] \<and> map_of headers ''Authorization'' = None
           \<or> (\<exists>t. w_text w f = Inr t \<and> token_ok (strip t)
               \<and> map_of headers ''Authorization'' = Some (''Bearer '' @ strip t))
       | None \<Rightarrow> map_of headers ''Authorization'' = None)"
proof -
  from assms obtain headers h data where *: "feed_headers w token_file = Inr headers"
    "w_http w url headers = HttpOk h data" "length data \<le> MAX_FEED_BYTES" "loads w data = Inr (JArr vs)"
    by (rule feed_fetch_Inr)
  have "case token_file of
         Some f \<Rightarrow> f = [] \<and> map_of headers ''Authorization'' = None
           \<or> (\<exists>t. w_text w f = Inr t \<and> token_ok (strip t)
               \<and> map_of headers ''Authorization'' = Some (''Bearer '' @ strip t))
       | None \<Rightarrow> map_of headers ''Authorization'' = None"
    using *(1) by (auto simp: feed_headers_def Let_def res_simps split: option.splits if_splits)
  with *(2-4) show ?thesis by blast
qed

definition feed_world :: world where
  "feed_world = \<lparr>w_text = (\<lambda>p. Inr (''secret'' @ [LF])), w_json = (\<lambda>s. JText (JArr [])),
     w_http = (\<lambda>u h. if map_of h ''Authorization'' = Some ''Bearer secret'' then HttpOk None ''[]''
                     else HttpRedirect ''https://other.example/'')\<rparr>"

lemma feed_fetch_guarded_witness:
  "feed_fetch feed_world ''https://feed.example/'' (Some ''/run/token'') = Inr []
   \<and> (\<exists>headers h data. w_http feed_world ''https://feed.example/'' headers = HttpOk h data
      \<and> length data \<le> MAX_FEED_BYTES \<and> loads feed_world data = Inr (JArr []))"
proof -
  have st: "strip (''secret'' @ [LF]) = ''secret''" "token_ok ''secret''" by code_simp+
  have *: "feed_fetch feed_world ''https://feed.example/'' (Some ''/run/token'') = Inr []"
    using st by (simp add: feed_fetch_def feed_body_def feed_headers_def feed_open_def feed_world_def
        content_length_value_def loads_def Let_def MAX_FEED_BYTES_def)
  with feed_fetch_guarded [OF *] show ?thesis by blast
qed

text \<open>
  A redirect of the provider is never followed: whatever the token, the fetch and the whole
  collection of that connector end in the \<open>ValueError\<close> of \<open>NoRedirect\<close>, so no bearer token
  reaches another server.
\<close>

theorem feed_redirect_refused:
  assumes "feed_headers w token_file = Inr headers" and "w_http w url headers = HttpRedirect newurl"
  shows "collect rt w (HttpJsonFeedConnector name url token_file)
    = Inl (ValueError ''provider redirects are disabled'')"
  using assms by (simp add: feed_collect_def feed_fetch_def feed_body_def feed_open_def redirect_request_def)

lemma feed_redirect_refused_witness:
  "collect plain_rt sample_world (HttpJsonFeedConnector ''f'' ''https://feed.example/'' None)
   = Inl (ValueError ''provider redirects are disabled'')"
  by (rule feed_redirect_refused [OF _ _, of _ _ "[(''Accept'', ''application/json''),
      (''User-Agent'', ''transparent-gateway/1'')]" _ "''https://other.example/''"])
    (simp_all add: feed_headers_def sample_world_def)

end
