(* ===== verification/Credentials.thy ===== *)
theory Credentials
  imports Connectors Py_Float
begin

text \<open>
  The reloadable credential store of \<open>common/credentials.py\<close>. The state has the three mutable
  fields of \<open>CredentialStore\<close>; the clock, the file, SHA-256, the JSON decoder and the loading of
  a CA file are what the code calls and are arguments. The lemmas show when a rotated file takes
  effect, that a failed reload keeps the store and fails closed, and that the cached values are
  always those of a file with the cached digest.
\<close>

record cred_env =
  ce_sha256 :: "string \<Rightarrow> string"
  ce_world :: world
  ce_load_ca :: "string \<Rightarrow> unit res"

text \<open>\<open>last_checked\<close> is \<open>None\<close> for minus infinity.\<close>

record cred_store =
  cs_interval :: rat
  cs_last_checked :: "rat option"
  cs_digest :: "string option"
  cs_values :: dict

definition cred_init :: "rat \<Rightarrow> cred_store res" where
  "cred_init interval =
     (if interval < 0 then Inl (ValueError ''credential reload interval cannot be negative'')
      else Inr \<lparr>cs_interval = interval, cs_last_checked = None, cs_digest = None, cs_values = []\<rparr>)"

text \<open>\<open>_reload\<close>, with the result of \<open>read_bytes()\<close>.\<close>

definition reload :: "cred_env \<Rightarrow> string res \<Rightarrow> cred_store \<Rightarrow> cred_store res" where
  "reload env file st =
     rbind (catch file is_OSError (\<lambda>_. Inl (ValueError ''proxy credential store is unavailable''))) (\<lambda>content.
     let digest = ce_sha256 env content in
     if cs_digest st = Some digest then Inr st
     else rbind (catch (loads (ce_world env) content) (\<lambda>e. e = UnicodeError \<or> e = JSONDecodeError)
            (\<lambda>_. Inl (ValueError ''proxy credential store is unreadable''))) (\<lambda>raw.
          case raw of
            JObj m \<Rightarrow> Inr (st\<lparr>cs_values := m, cs_digest := Some digest\<rparr>)
          | _ \<Rightarrow> Inl (ValueError ''proxy credential store must be an object'')))"

definition due :: "cred_store \<Rightarrow> rat \<Rightarrow> bool" where
  "due st now = (case cs_last_checked st of None \<Rightarrow> True | Some t \<Rightarrow> cs_interval st \<le> fadd now (- t))"

definition lookup_credential :: "dict \<Rightarrow> string \<Rightarrow> (string \<times> string) res" where
  "lookup_credential values ref =
     (case get values ref of
        JObj entry \<Rightarrow>
          (case (get entry ''username'', get entry ''password'') of
             (JStr username, JStr password) \<Rightarrow> Inr (username, password)
           | _ \<Rightarrow> Inl (ValueError ''proxy credential entry is invalid''))
      | _ \<Rightarrow> Inl (ValueError ''proxy credential reference is unavailable''))"

text \<open>The reload that \<open>get\<close> makes when it is due.\<close>

definition refresh :: "cred_env \<Rightarrow> rat \<Rightarrow> string res \<Rightarrow> cred_store \<Rightarrow> cred_store res" where
  "refresh env now file st =
     (if due st now then rbind (reload env file st) (\<lambda>s. Inr (s\<lparr>cs_last_checked := Some now\<rparr>))
      else Inr st)"

definition cred_get ::
  "cred_env \<Rightarrow> rat \<Rightarrow> string res \<Rightarrow> string option \<Rightarrow> cred_store \<Rightarrow> cred_store \<times> (string \<times> string) option res" where
  "cred_get env now file ref st =
     (case ref of
        None \<Rightarrow> (st, Inr None)
      | Some r \<Rightarrow>
          (case refresh env now file st of
             Inl e \<Rightarrow> (st, Inl e)
           | Inr st' \<Rightarrow> (st', rbind (lookup_credential (cs_values st') r) (\<lambda>p. Inr (Some p)))))"

definition APPROVED_CA :: string where
  "APPROVED_CA = ''/run/secrets/upstream-ca.crt''"

text \<open>The context is the list of CA files loaded on top of the default ones.\<close>

definition tls_context ::
  "cred_env \<Rightarrow> rat \<Rightarrow> string res \<Rightarrow> string option \<Rightarrow> cred_store \<Rightarrow> cred_store \<times> string list res" where
  "tls_context env now file ref st =
     (case ref of
        None \<Rightarrow> (st, Inr [])
      | Some r \<Rightarrow>
          (case cred_get env now file ref st of
             (st', Inl e) \<Rightarrow> (st', Inl e)
           | (st', Inr _) \<Rightarrow>
               (st', rbind (item (cs_values st') r) (\<lambda>v.
                 case v of
                   JObj entry \<Rightarrow>
                     (let ca_file = get entry ''ca_file'' in
                      if \<not> truthy ca_file then Inr []
                      else if ca_file \<noteq> JStr APPROVED_CA then Inl (ValueError ''unapproved proxy CA path'')
                      else rbind (ce_load_ca env APPROVED_CA) (\<lambda>_. Inr [APPROVED_CA]))
                 | _ \<Rightarrow> Inl AttributeError))))"

section \<open>Invariant\<close>

text \<open>The cached values are those of a text with the cached digest.\<close>

definition cred_inv :: "cred_env \<Rightarrow> cred_store \<Rightarrow> bool" where
  "cred_inv env st \<longleftrightarrow>
     (case cs_digest st of
        None \<Rightarrow> cs_values st = []
      | Some g \<Rightarrow> (\<exists>content. ce_sha256 env content = g \<and> loads (ce_world env) content = Inr (JObj (cs_values st))))"

lemma reload_Inr:
  assumes "reload env file st = Inr st'"
  obtains content where "file = Inr content"
    and "cs_digest st = Some (ce_sha256 env content) \<and> st' = st
      \<or> (\<exists>m. loads (ce_world env) content = Inr (JObj m)
          \<and> st' = st\<lparr>cs_values := m, cs_digest := Some (ce_sha256 env content)\<rparr>)"
proof -
  from assms obtain content where c: "file = Inr content"
    by (auto simp: reload_def res_simps)
  show thesis
  proof (cases "cs_digest st = Some (ce_sha256 env content)")
    case True
    with assms c that show thesis by (simp add: reload_def)
  next
    case False
    with assms c obtain v where v: "loads (ce_world env) content = Inr v"
      and st: "(case v of JObj m \<Rightarrow> Inr (st\<lparr>cs_values := m, cs_digest := Some (ce_sha256 env content)\<rparr>)
          | _ \<Rightarrow> Inl (ValueError ''proxy credential store must be an object'')) = Inr st'"
      by (auto simp: reload_def rbind_eq_Inr catch_eq_Inr)
    from st obtain m where "v = JObj m" by (cases v) simp_all
    with c v st that show thesis by simp
  qed
qed

lemma reload_inv: "cred_inv env st \<Longrightarrow> reload env file st = Inr st' \<Longrightarrow> cred_inv env st'"
  by (erule reload_Inr) (auto simp: cred_inv_def)

text \<open>The file cannot be read, or its new text is not a JSON object.\<close>

definition file_unusable :: "cred_env \<Rightarrow> cred_store \<Rightarrow> string res \<Rightarrow> bool" where
  "file_unusable env st file \<longleftrightarrow>
     (case file of
        Inl x \<Rightarrow> is_OSError x
      | Inr c \<Rightarrow> cs_digest st \<noteq> Some (ce_sha256 env c)
          \<and> (case loads (ce_world env) c of Inr (JObj _) \<Rightarrow> False | _ \<Rightarrow> True))"

lemma loads_error_eq: "loads w c = Inl e \<Longrightarrow> e = JSONDecodeError"
  by (cases "w_json w c") (simp_all add: loads_def)

lemma reload_unusable:
  assumes "file_unusable env st file"
  shows "\<exists>e. reload env file st = Inl e \<and> is_ValueError e"
proof (cases "file")
  case (Inl x)
  with assms show ?thesis by (simp add: file_unusable_def reload_def)
next
  case (Inr c)
  with assms have d: "cs_digest st \<noteq> Some (ce_sha256 env c)" by (simp add: file_unusable_def)
  show ?thesis
  proof (cases "loads (ce_world env) c")
    case (Inl e)
    with loads_error_eq [OF this] Inr d show ?thesis by (simp add: reload_def Let_def)
  next
    case loads: (Inr v)
    with assms Inr have "\<forall>m. v \<noteq> JObj m" by (auto simp: file_unusable_def)
    with Inr d loads show ?thesis by (cases v) (simp_all add: reload_def Let_def)
  qed
qed

lemma inv_last_checked [simp]: "cred_inv env (st\<lparr>cs_last_checked := t\<rparr>) = cred_inv env st"
  by (simp add: cred_inv_def cong: option.case_cong)

lemma cred_get_inv: "cred_inv env st \<Longrightarrow> cred_inv env (fst (cred_get env now file ref st))"
  using reload_inv by (auto simp: cred_get_def refresh_def res_simps split: option.splits sum.splits if_splits)

lemma tls_context_fst: "fst (tls_context env now file ref st) = fst (cred_get env now file ref st)"
  by (auto simp: tls_context_def cred_get_def split: option.splits prod.splits sum.splits)

lemma cred_init_inv: "cred_init i = Inr st \<Longrightarrow> cred_inv env st"
  by (auto simp: cred_init_def cred_inv_def split: if_splits)

text \<open>
  One step of the life of a store: some worker calls \<open>get\<close> or \<open>tls_context\<close> at some time, with
  whatever the file is at that moment.
\<close>

inductive cred_step :: "cred_env \<Rightarrow> cred_store \<Rightarrow> cred_store \<Rightarrow> bool" for env :: cred_env where
  get: "cred_step env st (fst (cred_get env now file ref st))"
| tls: "cred_step env st (fst (tls_context env now file ref st))"

lemma cred_steps_inv: "(cred_step env)\<^sup>*\<^sup>* st st' \<Longrightarrow> cred_inv env st \<Longrightarrow> cred_inv env st'"
proof (induction rule: rtranclp_induct)
  case (step y z)
  from step(2) step.IH [OF step.prems] show ?case
    by (induction rule: cred_step.induct) (simp_all add: tls_context_fst cred_get_inv)
qed simp

lemma lookup_error: "lookup_credential m r = Inl e \<Longrightarrow> is_ValueError e"
  by (auto simp: lookup_credential_def split: json.splits)

section \<open>Properties\<close>

text \<open>
  Whatever the sequence of calls and of file contents, the store never mixes files: the cached
  values are always the whole JSON object of one text that had the cached digest, or nothing.
\<close>

theorem credential_store_consistent:
  assumes "cred_init interval = Inr st0" and "(cred_step env)\<^sup>*\<^sup>* st0 st"
  shows "(cs_digest st = None \<and> cs_values st = [])
    \<or> (\<exists>content. cs_digest st = Some (ce_sha256 env content)
         \<and> loads (ce_world env) content = Inr (JObj (cs_values st)))"
proof -
  have "cred_inv env st" using assms(2) cred_init_inv [OF assms(1)] by (rule cred_steps_inv)
  then show ?thesis by (cases "cs_digest st") (auto simp: cred_inv_def)
qed

definition demo_credentials :: dict where
  "demo_credentials = [(''provider-a'', JObj [(''username'', JStr ''u''), (''password'', JStr ''p'')])]"

definition demo_env :: cred_env where
  "demo_env = \<lparr>ce_sha256 = (\<lambda>s. s),
     ce_world = \<lparr>w_text = (\<lambda>_. Inl (OSError ''missing'')), w_json = (\<lambda>s. if s = ''good'' then JText (JObj demo_credentials) else BadText),
       w_http = (\<lambda>_ _. HttpFail TimeoutError)\<rparr>,
     ce_load_ca = (\<lambda>_. Inr ())\<rparr>"

definition demo_store :: cred_store where
  "demo_store = \<lparr>cs_interval = 1, cs_last_checked = None, cs_digest = None, cs_values = []\<rparr>"

lemma demo_init: "cred_init 1 = Inr demo_store"
  by (simp add: cred_init_def demo_store_def)

lemma demo_get:
  "cred_get demo_env 0 (Inr ''good'') (Some ''provider-a'') demo_store =
    (\<lparr>cs_interval = 1, cs_last_checked = Some 0, cs_digest = Some ''good'', cs_values = demo_credentials\<rparr>,
     Inr (Some (''u'', ''p'')))"
  by (simp add: cred_get_def refresh_def demo_store_def due_def reload_def demo_env_def loads_def Let_def
      lookup_credential_def demo_credentials_def)

lemma credential_store_consistent_witness:
  "\<exists>st. (cred_step demo_env)\<^sup>*\<^sup>* demo_store st \<and> cs_values st = demo_credentials
     \<and> (\<exists>content. cs_digest st = Some (ce_sha256 demo_env content)
         \<and> loads (ce_world demo_env) content = Inr (JObj (cs_values st)))"
proof -
  let ?st = "fst (cred_get demo_env 0 (Inr ''good'') (Some ''provider-a'') demo_store)"
  have r: "(cred_step demo_env)\<^sup>*\<^sup>* demo_store ?st" by (rule r_into_rtranclp) (rule cred_step.get)
  have v: "cs_values ?st = demo_credentials" "cs_digest ?st \<noteq> None" by (simp_all add: demo_get)
  from credential_store_consistent [OF demo_init r] v r show ?thesis by (intro exI [of _ ?st]) simp
qed

text \<open>
  A rotated file takes effect at the first call after the reload interval: with a readable
  object in the file the result is the lookup in that file, whatever was cached before. (SHA-256
  is assumed not to give the new text the digest of a text with other content.)
\<close>

theorem credential_rotation:
  assumes "cred_inv env st" and "due st now" and "loads (ce_world env) content = Inr (JObj m)"
    and "\<forall>c. ce_sha256 env c = ce_sha256 env content \<longrightarrow> loads (ce_world env) c = loads (ce_world env) content"
  shows "cred_get env now (Inr content) (Some r) st =
    (st\<lparr>cs_values := m, cs_digest := Some (ce_sha256 env content), cs_last_checked := Some now\<rparr>,
     rbind (lookup_credential m r) (\<lambda>p. Inr (Some p)))"
proof -
  have "reload env (Inr content) st = Inr (st\<lparr>cs_values := m, cs_digest := Some (ce_sha256 env content)\<rparr>)"
  proof (cases "cs_digest st = Some (ce_sha256 env content)")
    case True
    with assms(1) obtain c where c: "ce_sha256 env c = ce_sha256 env content"
      "loads (ce_world env) c = Inr (JObj (cs_values st))" by (auto simp: cred_inv_def)
    from assms(4) c(1) have "loads (ce_world env) c = loads (ce_world env) content" by blast
    with c(2) assms(3) have "cs_values st = m" by simp
    with True show ?thesis by (simp add: reload_def)
  next
    case False
    with assms(3) show ?thesis by (simp add: reload_def)
  qed
  with assms(2) show ?thesis by (simp add: cred_get_def refresh_def)
qed

lemma credential_rotation_witness:
  "snd (cred_get demo_env 0 (Inr ''good'') (Some ''provider-a'') demo_store) = Inr (Some (''u'', ''p''))"
  using credential_rotation [of demo_env demo_store 0 "''good''" demo_credentials "''provider-a''"]
  by (simp add: cred_inv_def demo_store_def due_def demo_env_def loads_def
      lookup_credential_def demo_credentials_def)

text \<open>
  The store fails closed and retries: when the file cannot be read or decoded at a due call
  with a reference, the call raises a \<open>ValueError\<close>, hands out no credential, and leaves the store
  as it was, so that the next call is due again; between due calls the file is not consulted.
\<close>

theorem credential_fail_closed:
  assumes "file_unusable env st file"
  shows "if due st now
    then \<exists>e. cred_get env now file (Some r) st = (st, Inl e) \<and> is_ValueError e
    else \<forall>file'. cred_get env now file (Some r) st = cred_get env now file' (Some r) st"
  using reload_unusable [OF assms] by (auto simp: cred_get_def refresh_def)

lemma credential_fail_closed_witness:
  "\<exists>e. cred_get demo_env 0 (Inr ''bad'') (Some ''provider-a'') demo_store = (demo_store, Inl e) \<and> is_ValueError e"
  using credential_fail_closed [of demo_env demo_store "Inr ''bad''" 0 "''provider-a''"]
  by (simp add: file_unusable_def demo_env_def demo_store_def loads_def due_def)

text \<open>
  Only the one approved CA file is ever loaded: a TLS context for a credential has either no
  extra CA or exactly the approved path, and only when the entry of that reference names it;
  any other path raises.
\<close>

theorem tls_context_approved_ca:
  "case tls_context env now file ref st of
     (st', Inr cas) \<Rightarrow> cas = [] \<or> cas = [APPROVED_CA] \<and> (\<exists>r entry. ref = Some r
        \<and> map_of (cs_values st') r = Some (JObj entry) \<and> get entry ''ca_file'' = JStr APPROVED_CA
        \<and> ce_load_ca env APPROVED_CA = Inr ())
   | (st', Inl e) \<Rightarrow> ref \<noteq> None"
proof (cases ref)
  case None
  then show ?thesis by (simp add: tls_context_def)
next
  case (Some r)
  obtain st' g where g: "cred_get env now file ref st = (st', g)" by fastforce
  show ?thesis
  proof (cases g)
    case (Inl e)
    with Some g show ?thesis by (simp add: tls_context_def)
  next
    case (Inr p)
    let ?v = "map_of (cs_values st') r"
    have eq: "tls_context env now file ref st = (st', rbind (of_option KeyError ?v) (\<lambda>v.
        case v of
          JObj entry \<Rightarrow>
            (let ca_file = get entry ''ca_file'' in
             if \<not> truthy ca_file then Inr []
             else if ca_file \<noteq> JStr APPROVED_CA then Inl (ValueError ''unapproved proxy CA path'')
             else rbind (ce_load_ca env APPROVED_CA) (\<lambda>_. Inr [APPROVED_CA]))
        | _ \<Rightarrow> Inl AttributeError))"
      using Some g Inr by (simp add: tls_context_def item_def)
    show ?thesis
    proof (cases "\<exists>entry. ?v = Some (JObj entry)")
      case True
      then obtain entry where "?v = Some (JObj entry)" ..
      then show ?thesis unfolding eq using Some by (cases "ce_load_ca env APPROVED_CA") (auto simp: Let_def)
    next
      case False
      then show ?thesis unfolding eq using Some by (cases ?v) (auto split: json.splits)
    qed
  qed
qed

end
