(* ===== verification/Py_Stream.thy ===== *)
theory Py_Stream
  imports Py_Ip
begin

text \<open>
  The stream connections of \<open>asyncio\<close> as the code uses them. A connection holds the bytes the peer
  will send until it closes (\<open>cn_in\<close>), how many of them have arrived when a plain \<open>read\<close> looks
  (\<open>cn_arrived\<close>), the error that ends the stream instead of an end of file, the bytes written so
  far in clear and inside TLS, and what the peer sends after an upgrade to TLS. All of these are
  chosen by the peer and the network, so every theorem quantifies over them. A lost connection
  shows at the next read; \<open>write\<close> and \<open>drain\<close> do not fail.
\<close>

record conn =
  cn_in :: string
  cn_arrived :: nat
  cn_exc :: "exn option"
  cn_out :: string
  cn_secure :: bool
  cn_secret_out :: string
  cn_tls_in :: "string res"

type_synonym 'a io = "(conn, 'a) act"

text \<open>\<open>writer.write(s)\<close> followed by \<open>drain\<close>.\<close>

definition io_write :: "string \<Rightarrow> unit io" where
  "io_write s c =
     (Inr (), if cn_secure c then c\<lparr>cn_secret_out := cn_secret_out c @ s\<rparr> else c\<lparr>cn_out := cn_out c @ s\<rparr>)"

definition short_read :: "conn \<Rightarrow> exn" where
  "short_read c = (case cn_exc c of None \<Rightarrow> IncompleteReadError | Some e \<Rightarrow> e)"

definition take_in :: "nat \<Rightarrow> string io" where
  "take_in n c = (Inr (take n (cn_in c)), c\<lparr>cn_in := drop n (cn_in c)\<rparr>)"

definition readexactly :: "int \<Rightarrow> string io" where
  "readexactly n c =
     (if n < 0 then (Inl (ValueError ''readexactly size can not be less than zero''), c)
      else if nat n \<le> length (cn_in c) then take_in (nat n) c
      else (Inl (short_read c), c\<lparr>cn_in := []\<rparr>))"

text \<open>
  \<open>readuntil\<close> with the buffer limit of the stream. The separator is found when it begins within
  the limit; without a separator the buffer overruns or the stream ends first.
\<close>

definition readuntil :: "nat \<Rightarrow> string \<Rightarrow> string io" where
  "readuntil limit sep c =
     (case split_at sep (cn_in c) of
        Some (a, b) \<Rightarrow>
          if length a \<le> limit then take_in (length a + length sep) c else (Inl LimitOverrunError, c)
      | None \<Rightarrow>
          if limit + length sep < length (cn_in c) + 1 then (Inl LimitOverrunError, c)
          else (Inl (short_read c), c\<lparr>cn_in := []\<rparr>))"

text \<open>\<open>readline\<close>: the rest of the stream at its end, a \<open>ValueError\<close> when the line is too long.\<close>

definition readline :: "nat \<Rightarrow> string io" where
  "readline limit c =
     (case readuntil limit [LF] c of
        (Inl IncompleteReadError, c') \<Rightarrow> (Inr (cn_in c), c\<lparr>cn_in := []\<rparr>)
      | (Inl LimitOverrunError, c') \<Rightarrow> (Inl (ValueError ''Separator is not found''), c'\<lparr>cn_in := []\<rparr>)
      | r \<Rightarrow> r)"

text \<open>\<open>read(n)\<close>: at most what has arrived, at least one byte unless the stream has ended.\<close>

definition read_some :: "nat \<Rightarrow> string io" where
  "read_some n c =
     (if cn_in c = [] then (case cn_exc c of None \<Rightarrow> (Inr [], c) | Some e \<Rightarrow> (Inl e, c))
      else take_in (min n (max 1 (cn_arrived c))) c)"

text \<open>\<open>asyncio.wait_for\<close> around one operation, by whether it ends in time.\<close>

definition timed :: "bool \<Rightarrow> 'a io \<Rightarrow> 'a io" where
  "timed in_time m c = (if in_time then m c else (Inl TimeoutError, c))"

definition start_tls :: "unit io" where
  "start_tls c =
     (case cn_tls_in c of
        Inl e \<Rightarrow> (Inl e, c)
      | Inr s \<Rightarrow> (Inr (), c\<lparr>cn_in := s, cn_secure := True\<rparr>))"

section \<open>Standard encodings\<close>

definition encode_ascii :: "string \<Rightarrow> string res" where
  "encode_ascii s = (if list_all is_ascii s then Inr s else Inl UnicodeError)"

definition b64_char :: "nat \<Rightarrow> char" where
  "b64_char n = ''ABCDEFGHIJKLMNOPQRSTUVWXYZabcdefghijklmnopqrstuvwxyz0123456789+/'' ! n"

fun b64encode :: "string \<Rightarrow> string" where
  "b64encode [] = []"
| "b64encode [a] = (let n = code a in
     [b64_char (n div 4), b64_char (n mod 4 * 16), CHR ''='', CHR ''=''])"
| "b64encode [a, b] = (let n = code a; m = code b in
     [b64_char (n div 4), b64_char (n mod 4 * 16 + m div 16), b64_char (m mod 16 * 4), CHR ''=''])"
| "b64encode (a # b # c # s) = (let n = code a; m = code b; k = code c in
     [b64_char (n div 4), b64_char (n mod 4 * 16 + m div 16), b64_char (m mod 16 * 4 + k div 64),
      b64_char (k mod 64)] @ b64encode s)"

text \<open>A number \<open>0..255\<close> as one byte.\<close>

definition byte :: "nat \<Rightarrow> string" where
  "byte n = [chr n]"

definition be32 :: "nat \<Rightarrow> string" where
  "be32 n = be16 (n div 65536) @ be16 (n mod 65536)"

text \<open>
  \<open>inet_pton\<close> for the two families (a dotted quad without leading zeros, an IPv6 text without a
  scope) and \<open>inet_aton\<close>, which also takes fewer parts, octal and hexadecimal ones, and ignores
  what follows a space.
\<close>

definition inet_pton4 :: "string \<Rightarrow> string option" where
  "inet_pton4 s = map_option be32 (ipv4_of_string s)"

definition be128 :: "nat \<Rightarrow> string" where
  "be128 n = concat (map be16 (hextets n))"

definition inet_pton6 :: "string \<Rightarrow> string option" where
  "inet_pton6 s = map_option be128 (ipv6_of_string s)"

definition c_number :: "string \<Rightarrow> nat option" where
  "c_number s =
     (let base = (\<lambda>b t. if t \<noteq> [] \<and> list_all (\<lambda>c. digit_val c < b) t then Some (digits_val b t) else None) in
      if starts_with ''0x'' s \<or> starts_with ''0X'' s then base 16 (drop 2 s)
      else if starts_with ''0'' s then base 8 s
      else base 10 s)"

fun aton_value :: "nat list \<Rightarrow> nat option" where
  "aton_value [a] = (if a < 4294967296 then Some a else None)"
| "aton_value [a, b] = (if a < 256 \<and> b < 16777216 then Some (a * 16777216 + b) else None)"
| "aton_value [a, b, c] =
     (if a < 256 \<and> b < 256 \<and> c < 65536 then Some ((a * 256 + b) * 65536 + c) else None)"
| "aton_value [a, b, c, d] =
     (if a < 256 \<and> b < 256 \<and> c < 256 \<and> d < 256 then Some (((a * 256 + b) * 256 + c) * 256 + d) else None)"
| "aton_value _ = None"

definition inet_aton :: "string \<Rightarrow> string option" where
  "inet_aton s =
     (case those (map c_number (split_on CHR ''.'' (takeWhile (\<lambda>c. \<not> is_bspace c) s))) of
        None \<Rightarrow> None
      | Some ns \<Rightarrow> map_option be32 (aton_value ns))"

section \<open>Rules\<close>

text \<open>
  Every operation only appends to what has been written: nothing that was sent can be taken back.
  \<open>wrote m c s\<close> says that running \<open>m\<close> from \<open>c\<close> writes \<open>s\<close> in clear (and leaves the TLS state alone).
\<close>

definition wrote :: "'a io \<Rightarrow> conn \<Rightarrow> string \<Rightarrow> bool" where
  "wrote m c s \<longleftrightarrow> cn_out (snd (m c)) = cn_out c @ s"

definition silent :: "'a io \<Rightarrow> bool" where
  "silent m \<longleftrightarrow> (\<forall>c. cn_out (snd (m c)) = cn_out c \<and> cn_secret_out (snd (m c)) = cn_secret_out c
     \<and> cn_secure (snd (m c)) = cn_secure c)"

lemma silentD:
  assumes "silent m" and "m c = (r, c')"
  shows "cn_out c' = cn_out c" and "cn_secret_out c' = cn_secret_out c" and "cn_secure c' = cn_secure c"
  using assms by (metis silent_def snd_conv)+

lemma silent_basic [intro, simp]:
  "silent (io_return x)" "silent (io_raise e)" "silent (io_lift r)" "silent (io_ensure b e)"
  "silent (readexactly n)" "silent (readuntil l sep)" "silent (read_some k)"
  by (auto simp: silent_def io_return_def io_raise_def io_lift_def io_ensure_def readexactly_def
      readuntil_def read_some_def take_in_def split: option.splits)

lemma silent_readline [intro, simp]: "silent (readline l)"
  unfolding silent_def
proof
  fix c
  obtain r c' where rc: "readuntil l [LF] c = (r, c')" by fastforce
  have "silent (readuntil l [LF])" by simp
  note out = silentD [OF this rc]
  show "cn_out (snd (readline l c)) = cn_out c \<and> cn_secret_out (snd (readline l c)) = cn_secret_out c
     \<and> cn_secure (snd (readline l c)) = cn_secure c"
  proof (cases r)
    case (Inl e)
    with rc out show ?thesis by (cases e) (simp_all add: readline_def)
  next
    case (Inr x)
    with rc out show ?thesis by (simp add: readline_def)
  qed
qed

lemma silent_bind [intro]: "silent m \<Longrightarrow> (\<And>x. silent (f x)) \<Longrightarrow> silent (io_bind m f)"
  unfolding silent_def io_bind_def by (auto split: prod.splits sum.splits) (metis snd_conv)+

lemma silent_timed: "silent m \<Longrightarrow> silent (timed b m)"
  by (simp add: silent_def timed_def)

lemma io_write_out: "\<not> cn_secure c \<Longrightarrow> io_write s c = (Inr (), c\<lparr>cn_out := cn_out c @ s\<rparr>)"
  by (simp add: io_write_def)

lemma readexactly_Inr:
  assumes "readexactly n c = (Inr s, c')"
  shows "0 \<le> n" and "length s = nat n" and "cn_in c = s @ cn_in c'" and "c' = c\<lparr>cn_in := cn_in c'\<rparr>"
  using assms by (auto simp: readexactly_def take_in_def split: if_splits)

lemma readexactly_ok: "cn_in c = s @ t \<Longrightarrow> n = int (length s) \<Longrightarrow> readexactly n c = (Inr s, c\<lparr>cn_in := t\<rparr>)"
  by (simp add: readexactly_def take_in_def)

end
