(* ===== verification/Proxy_Probe.thy ===== *)
theory Proxy_Probe
  imports Connectors Py_Stream Py_Float
begin

text \<open>
  The protocol-aware probe of \<open>validator/proxy_probe.py\<close>: the check URL, the HTTP response reader
  (headers, chunked bodies, length bounds), the echo document, the tunnels through HTTP, SOCKS5
  and SOCKS4 proxies, and the classification of the observed anonymity.
\<close>

definition MAX_HTTP_HEADER_BYTES :: nat where "MAX_HTTP_HEADER_BYTES = 65536"
definition MAX_HTTP_BODY_BYTES :: nat where "MAX_HTTP_BODY_BYTES = 262144"

text \<open>The default buffer limit of a stream.\<close>

definition STREAM_LIMIT :: nat where "STREAM_LIMIT = 65536"

definition LEAK_HEADERS :: "string list" where
  "LEAK_HEADERS = [''client-ip'', ''cf-connecting-ip'', ''forwarded'', ''forwarded-for'',
     ''true-client-ip'', ''x-client-ip'', ''x-cluster-client-ip'', ''x-forwarded-for'', ''x-real-ip'']"

definition PROXY_MARKER_HEADERS :: "string list" where
  "PROXY_MARKER_HEADERS = LEAK_HEADERS @ [''proxy-connection'', ''via'', ''x-forwarded-proto'']"

section \<open>The check target\<close>

record check_target =
  t_scheme :: string
  t_host :: string
  t_port :: nat
  t_path :: string

definition default_port :: "string \<Rightarrow> nat" where
  "default_port scheme = (if scheme = ''https'' then 443 else 80)"

definition parse_target :: "string \<Rightarrow> check_target res" where
  "parse_target url =
     rbind (urlsplit url) (\<lambda>p.
     rbind (ensure (u_scheme p \<in> {''http'', ''https''} \<and> u_hostname p \<noteq> [])
       (ValueError ''ANONYMITY_CHECK_URL must be an http:// or https:// URL'')) (\<lambda>_.
     rbind (ensure (u_username p = [] \<and> u_password p = [] \<and> u_fragment p = [])
       (ValueError ''anonymity-check URL cannot contain credentials or a fragment'')) (\<lambda>_.
     rbind (catch (u_port p) is_ValueError
       (\<lambda>_. Inl (ValueError ''anonymity-check URL contains an invalid port''))) (\<lambda>port.
     let number = (case port of Some n \<Rightarrow> if n = 0 then default_port (u_scheme p) else n
                   | None \<Rightarrow> default_port (u_scheme p));
         path = (if u_path p = [] then ''/'' else u_path p);
         full = (if u_query p = [] then path else path @ ''?'' @ u_query p) in
     Inr \<lparr>t_scheme = u_scheme p, t_host = u_hostname p, t_port = number, t_path = full\<rparr>))))"

definition bracket_host :: "string \<Rightarrow> string" where
  "bracket_host h = (if CHR '':'' \<in> set h then ''['' @ h @ '']'' else h)"

definition authority :: "check_target \<Rightarrow> string" where
  "authority t =
     (if t_port t = default_port (t_scheme t) then bracket_host (t_host t)
      else bracket_host (t_host t) @ '':'' @ dec (t_port t))"

definition absolute_url :: "check_target \<Rightarrow> string" where
  "absolute_url t = t_scheme t @ ''://'' @ authority t @ t_path t"

section \<open>Reading a response\<close>

definition status_of :: "string \<Rightarrow> int res" where
  "status_of line =
     rbind (ensure (list_all is_ascii line) (OSError ''invalid HTTP response status'')) (\<lambda>_.
     case split1 CHR '' '' line of
       None \<Rightarrow> Inl (OSError ''invalid HTTP response status'')
     | Some (_, rest) \<Rightarrow>
         of_option (OSError ''invalid HTTP response status'') (py_int (before CHR '' '' rest)))"

text \<open>The lines of a header block, split at \<open>CRLF\<close>.\<close>

function split_crlf :: "string \<Rightarrow> string list" where
  "split_crlf s = (case split_at CRLF s of None \<Rightarrow> [s] | Some (a, b) \<Rightarrow> a # split_crlf b)"
  by pat_completeness auto

lemma split_at_parts: "split_at p s = Some (a, b) \<Longrightarrow> s = a @ p @ b"
proof (induction p s arbitrary: a rule: split_at.induct)
  case (2 p c s)
  show ?case
  proof (cases "starts_with p (c # s)")
    case True
    then obtain t where t: "c # s = p @ t" by (auto simp: starts_with_iff)
    moreover from True 2(2) have "a = []" "b = drop (length p) (c # s)" by auto
    ultimately show ?thesis by simp
  next
    case False
    with 2 show ?thesis by auto
  qed
qed (simp split: if_splits)

termination split_crlf
  by (relation "measure length") (auto dest: split_at_parts simp: CRLF_def)

declare split_crlf.simps [simp del]

fun header_fields :: "string list \<Rightarrow> (string \<times> string) list \<Rightarrow> (string \<times> string) list res" where
  "header_fields [] hs = Inr hs"
| "header_fields (line # ls) hs =
     (case split1 CHR '':'' line of
        None \<Rightarrow> Inl (OSError ''invalid HTTP response header'')
      | Some (name, v) \<Rightarrow> header_fields ls (AList.update (lower (strip name)) (strip v) hs))"

definition read_headers :: "(int \<times> (string \<times> string) list \<times> string) io" where
  "read_headers =
     io_bind (readuntil STREAM_LIMIT (CRLF @ CRLF)) (\<lambda>raw.
     io_bind (io_ensure (length raw \<le> MAX_HTTP_HEADER_BYTES)
       (OSError ''HTTP response headers are too large'')) (\<lambda>_.
     let lines = split_crlf (take (length raw - 4) raw) in
     io_bind (io_lift (status_of (hd lines))) (\<lambda>status.
     io_bind (io_lift (header_fields (tl lines) [])) (\<lambda>headers.
     io_return (status, headers, raw)))))"

text \<open>One round of the loop of \<open>_read_chunked\<close>: the end of the body, or one more chunk.\<close>

datatype chunk = LastChunk | Chunk string

definition read_chunk :: "string \<Rightarrow> chunk io" where
  "read_chunk body =
     io_bind (readline STREAM_LIMIT) (\<lambda>line.
     io_bind (io_lift (of_option (OSError ''invalid chunked response'')
       (py_int_hex (before CHR '';'' line)))) (\<lambda>size.
     if size = 0 then
       io_bind (readuntil STREAM_LIMIT CRLF) (\<lambda>_. io_return LastChunk)
     else
       io_bind (io_ensure (int (length body) + size \<le> int MAX_HTTP_BODY_BYTES)
         (OSError ''anonymity-check response is too large'')) (\<lambda>_.
       io_bind (readexactly size) (\<lambda>data.
       io_bind (readexactly 2) (\<lambda>delim.
       io_bind (io_ensure (delim = CRLF) (OSError ''invalid chunk delimiter'')) (\<lambda>_.
       io_return (Chunk data)))))))"

lemma py_int_hex_Nil: "py_int_hex [] = None"
  by (simp add: py_int_hex_def bstrip_def strip_by_def lstrip_by_def rstrip_by_def py_int_signed_def
      py_nat_def drop_hex_prefix_def)

lemma readuntil_shrinks:
  assumes "readuntil l sep c = (Inr s, c')"
  shows "cn_in c = s @ cn_in c'" and "c' = c\<lparr>cn_in := cn_in c'\<rparr>"
  using assms by (auto simp: readuntil_def take_in_def split: option.splits if_splits)

lemma readline_shrinks:
  assumes "readline l c = (Inr s, c')"
  shows "cn_in c = s @ cn_in c'" and "c' = c\<lparr>cn_in := cn_in c'\<rparr>"
proof -
  obtain r c1 where rc: "readuntil l [LF] c = (r, c1)" by fastforce
  have "cn_in c = s @ cn_in c' \<and> c' = c\<lparr>cn_in := cn_in c'\<rparr>"
  proof (cases r)
    case (Inl e)
    with rc assms show ?thesis by (cases e) (auto simp: readline_def)
  next
    case (Inr x)
    with rc assms readuntil_shrinks [of l "[LF]" c x c1] show ?thesis by (simp add: readline_def)
  qed
  then show "cn_in c = s @ cn_in c'" and "c' = c\<lparr>cn_in := cn_in c'\<rparr>" by blast+
qed

lemma read_chunk_Chunk:
  assumes "read_chunk body c = (Inr (Chunk data), c')"
  obtains line size where "readline STREAM_LIMIT c = (Inr line, c\<lparr>cn_in := data @ CRLF @ cn_in c'\<rparr>)"
    and "py_int_hex (before CHR '';'' line) = Some size" and "size \<noteq> 0"
    and "int (length body) + size \<le> int MAX_HTTP_BODY_BYTES" and "size = int (length data)"
    and "line \<noteq> []" and "cn_in c = line @ data @ CRLF @ cn_in c'" and "c' = c\<lparr>cn_in := cn_in c'\<rparr>"
proof -
  define k where "k size = (if size = 0 then io_bind (readuntil STREAM_LIMIT CRLF) (\<lambda>_. io_return LastChunk)
       else io_bind (io_ensure (int (length body) + size \<le> int MAX_HTTP_BODY_BYTES)
         (OSError ''anonymity-check response is too large'')) (\<lambda>_.
       io_bind (readexactly size) (\<lambda>data.
       io_bind (readexactly 2) (\<lambda>delim.
       io_bind (io_ensure (delim = CRLF) (OSError ''invalid chunk delimiter'')) (\<lambda>_.
       io_return (Chunk data))))))" for size
  have "read_chunk body = io_bind (readline STREAM_LIMIT) (\<lambda>line.
     io_bind (io_lift (of_option (OSError ''invalid chunked response'')
       (py_int_hex (before CHR '';'' line)))) k)"
    unfolding read_chunk_def k_def ..
  with assms obtain line c1 size where l: "readline STREAM_LIMIT c = (Inr line, c1)"
    and s: "py_int_hex (before CHR '';'' line) = Some size" and k: "k size c1 = (Inr (Chunk data), c')"
    by (auto simp: io_bind_eq_Inr io_lift_eq of_option_eq_Inr)
  from k have n0: "size \<noteq> 0" by (auto simp: k_def io_bind_eq_Inr io_return_eq)
  with k obtain c2 where b: "int (length body) + size \<le> int MAX_HTTP_BODY_BYTES"
    and r1: "readexactly size c1 = (Inr data, c2)" and r2: "readexactly 2 c2 = (Inr CRLF, c')"
    by (auto simp: k_def io_bind_eq_Inr io_return_eq io_ensure_Inr)
  note e1 = readexactly_Inr [OF r1] and e2 = readexactly_Inr [OF r2]
  have ne: "line \<noteq> []"
    using s py_int_hex_Nil by (auto simp: before_def)
  obtain t1 where t1: "c1 = c\<lparr>cn_in := t1\<rparr>" "cn_in c = line @ t1"
    using readline_shrinks [OF l] by metis
  obtain t2 where t2: "c2 = c1\<lparr>cn_in := t2\<rparr>" "t1 = data @ t2"
  proof -
    have "cn_in c1 = t1" by (simp add: t1(1))
    with e1(3,4) that show ?thesis by metis
  qed
  obtain t3 where t3: "c' = c2\<lparr>cn_in := t3\<rparr>" "t2 = CRLF @ t3"
  proof -
    have "cn_in c2 = t2" by (simp add: t2(1))
    with e2(3,4) that show ?thesis by metis
  qed
  show thesis
    by (rule that [of line size]) (use l s n0 b e1(1,2) ne t1 t2 t3 in simp_all)
qed

text \<open>The loop itself; every round that goes on has consumed input, so it ends.\<close>

function read_chunked :: "string \<Rightarrow> string io" where
  "read_chunked body c =
     (case read_chunk body c of
        (Inl e, c') \<Rightarrow> (Inl e, c')
      | (Inr LastChunk, c') \<Rightarrow> (Inr body, c')
      | (Inr (Chunk data), c') \<Rightarrow> read_chunked (body @ data) c')"
  by pat_completeness auto

lemma read_chunk_shrinks:
  assumes "(Inr (Chunk data), c') = read_chunk body c"
  shows "length (cn_in c') < length (cn_in c)"
proof -
  from assms [symmetric] obtain line where "line \<noteq> []" "cn_in c = line @ data @ CRLF @ cn_in c'"
    by (rule read_chunk_Chunk)
  then show ?thesis by simp
qed

termination read_chunked
  by (relation "measure (\<lambda>(body, c). length (cn_in c))") (auto dest: read_chunk_shrinks)

declare read_chunked.simps [simp del]

definition header_get :: "(string \<times> string) list \<Rightarrow> string \<Rightarrow> string \<Rightarrow> string" where
  "header_get hs name d = (case map_of hs name of None \<Rightarrow> d | Some v \<Rightarrow> v)"

definition read_body :: "(string \<times> string) list \<Rightarrow> string io" where
  "read_body headers =
     (if lower (header_get headers ''transfer-encoding'' []) = ''chunked'' then read_chunked []
      else (case map_of headers ''content-length'' of
        Some v \<Rightarrow>
          io_bind (io_lift (of_option (OSError ''invalid Content-Length'') (py_int v))) (\<lambda>length.
          io_bind (io_ensure (0 \<le> length \<and> length \<le> int MAX_HTTP_BODY_BYTES)
            (OSError ''anonymity-check response is too large'')) (\<lambda>_.
          readexactly length))
      | None \<Rightarrow>
          io_bind (read_some (MAX_HTTP_BODY_BYTES + 1)) (\<lambda>body.
          io_bind (io_ensure (length body \<le> MAX_HTTP_BODY_BYTES)
            (OSError ''anonymity-check response is too large'')) (\<lambda>_.
          io_return body))))"

definition read_http_response :: "string io" where
  "read_http_response =
     io_bind read_headers (\<lambda>(status, headers, _).
     io_bind (io_ensure (status = 200) (OSError ''anonymity-check endpoint returned HTTP error'')) (\<lambda>_.
     read_body headers))"

section \<open>The echo document\<close>

record echo =
  e_peer :: string
  e_headers :: "(string \<times> string) list"

definition parse_echo :: "pyrt \<Rightarrow> world \<Rightarrow> string \<Rightarrow> echo res" where
  "parse_echo rt w body =
     rbind (catch (loads w body) (\<lambda>e. e = UnicodeError \<or> e = JSONDecodeError)
       (\<lambda>_. Inl (OSError ''anonymity-check endpoint did not return JSON''))) (\<lambda>v.
     rbind (of_option (OSError ''anonymity-check JSON requires a headers object'') (as_dict v)) (\<lambda>payload.
     rbind (of_option (OSError ''anonymity-check JSON requires a headers object'')
       (as_dict (get payload ''headers''))) (\<lambda>hs.
     let peer = strip (before CHR '','' (py_str rt (or_else (or_else (get payload ''backend_peer'')
                  (get payload ''origin'')) (JStr [])))) in
     rbind (of_option (OSError ''anonymity-check JSON requires backend_peer or origin IP'')
       (ip_address peer)) (\<lambda>a.
     Inr \<lparr>e_peer = ip_str a,
       e_headers = fold (\<lambda>(name, v) m. AList.update (lower name) (py_str rt v) m) hs []\<rparr>))))"

section \<open>Requests\<close>

type_synonym auth = "(string \<times> string) option"

definition basic_proxy_authorization :: "auth \<Rightarrow> string" where
  "basic_proxy_authorization auth =
     (case auth of
        None \<Rightarrow> []
      | Some (user, password) \<Rightarrow>
          ''Proxy-Authorization: Basic '' @ b64encode (utf8 (user @ '':'' @ password)) @ CRLF)"

definition request_bytes :: "check_target \<Rightarrow> bool \<Rightarrow> auth \<Rightarrow> string res" where
  "request_bytes target absolute proxy_auth =
     encode_ascii
       (''GET '' @ (if absolute then absolute_url target else t_path target) @ '' HTTP/1.1'' @ CRLF
        @ ''Host: '' @ authority target @ CRLF
        @ (if absolute then basic_proxy_authorization proxy_auth else [])
        @ ''Accept: application/json'' @ CRLF
        @ ''User-Agent: transparent-gateway-validator/1'' @ CRLF
        @ ''Connection: close'' @ CRLF @ CRLF)"

definition connect_request :: "check_target \<Rightarrow> auth \<Rightarrow> string" where
  "connect_request target auth =
     (let authority = bracket_host (t_host target) @ '':'' @ dec (t_port target) in
      ''CONNECT '' @ authority @ '' HTTP/1.1'' @ CRLF @ ''Host: '' @ authority @ CRLF
      @ basic_proxy_authorization auth @ ''Connection: keep-alive'' @ CRLF @ CRLF)"

section \<open>Tunnels\<close>

definition http_proxy_tunnel :: "check_target \<Rightarrow> auth \<Rightarrow> unit io" where
  "http_proxy_tunnel target auth =
     io_bind (io_lift (encode_ascii (connect_request target auth))) (\<lambda>request.
     io_bind (io_write request) (\<lambda>_.
     io_bind read_headers (\<lambda>(status, _, _).
     io_ensure (200 \<le> status \<and> status < 300) (OSError ''HTTP proxy rejected CONNECT''))))"

text \<open>The reply to a SOCKS5 \<open>CONNECT\<close> after its four leading bytes: the bound address and port.\<close>

definition socks5_bind_address :: "nat \<Rightarrow> unit io" where
  "socks5_bind_address kind =
     io_bind
       (if kind = 1 then io_return 4
        else if kind = 3 then io_bind (readexactly 1) (\<lambda>b. io_return (code (hd b)))
        else if kind = 4 then io_return 16
        else io_raise (OSError ''invalid SOCKS5 bind address'')) (\<lambda>size.
     io_bind (readexactly (int size + 2)) (\<lambda>_. io_return ()))"

definition socks5_login :: "nat \<Rightarrow> string \<Rightarrow> string \<Rightarrow> unit io" where
  "socks5_login least raw_username raw_password =
     io_bind (io_ensure (least \<le> length raw_username \<and> length raw_username \<le> 255
         \<and> least \<le> length raw_password \<and> length raw_password \<le> 255)
       (ValueError ''SOCKS5 credentials must contain 1..255 bytes'')) (\<lambda>_.
     io_bind (io_write (byte 1 @ byte (length raw_username) @ raw_username
       @ byte (length raw_password) @ raw_password)) (\<lambda>_.
     io_bind (readexactly 2) (\<lambda>r.
     io_ensure (r = byte 1 @ byte 0) (OSError ''SOCKS5 username/password authentication failed''))))"

definition socks5_address :: "pyrt \<Rightarrow> string \<Rightarrow> string res" where
  "socks5_address rt host =
     (case inet_pton4 host of
        Some packed \<Rightarrow> Inr (byte 1 @ packed)
      | None \<Rightarrow>
          (case inet_pton6 host of
             Some packed \<Rightarrow> Inr (byte 4 @ packed)
           | None \<Rightarrow>
               rbind (idna_encode rt host) (\<lambda>hostname.
               rbind (ensure (length hostname \<le> 255) (ValueError ''anonymity-check hostname is too long'')) (\<lambda>_.
               Inr (byte 3 @ byte (length hostname) @ hostname)))))"

definition socks5_tunnel :: "pyrt \<Rightarrow> check_target \<Rightarrow> auth \<Rightarrow> unit io" where
  "socks5_tunnel rt target auth =
     (let m = (case auth of Some _ \<Rightarrow> byte 2 | None \<Rightarrow> byte 0) in
      io_bind (io_write (byte 5 @ byte 1 @ m)) (\<lambda>_.
      io_bind (readexactly 2) (\<lambda>response.
      io_bind (io_ensure (response = byte 5 @ m)
        (OSError ''SOCKS5 proxy rejected the required authentication method'')) (\<lambda>_.
      io_bind (case auth of
                 Some (username, password) \<Rightarrow> socks5_login 1 (utf8 username) (utf8 password)
               | None \<Rightarrow> io_return ()) (\<lambda>_.
      io_bind (io_lift (socks5_address rt (t_host target))) (\<lambda>address.
      io_bind (io_write (byte 5 @ byte 1 @ byte 0 @ address @ be16 (t_port target))) (\<lambda>_.
      io_bind (readexactly 4) (\<lambda>r.
      io_bind (io_ensure (take 2 r = byte 5 @ byte 0) (OSError ''SOCKS5 CONNECT failed'')) (\<lambda>_.
      socks5_bind_address (code (r ! 3)))))))))))"

definition socks4_tunnel :: "pyrt \<Rightarrow> check_target \<Rightarrow> auth \<Rightarrow> unit io" where
  "socks4_tunnel rt target auth =
     (let username = (case auth of Some (u, _) \<Rightarrow> utf8 u | None \<Rightarrow> []) in
      io_bind (io_ensure (length username \<le> 255 \<and> chr 0 \<notin> set username)
        (ValueError ''SOCKS4 username is invalid'')) (\<lambda>_.
      io_bind (io_lift (case inet_aton (t_host target) of
          Some a \<Rightarrow> Inr (a, [])
        | None \<Rightarrow> rbind (idna_encode rt (t_host target)) (\<lambda>h.
            Inr (byte 0 @ byte 0 @ byte 0 @ byte 1, h @ byte 0)))) (\<lambda>(address, suffix).
      io_bind (io_write (byte 4 @ byte 1 @ be16 (t_port target) @ address @ username @ byte 0 @ suffix)) (\<lambda>_.
      io_bind (readexactly 8) (\<lambda>response.
      io_ensure (code (response ! 1) = 90) (OSError ''SOCKS4 CONNECT rejected''))))))"

section \<open>Observations\<close>

text \<open>
  \<open>open_connection(host, port, ssl, server_name)\<close>; the flag \<open>in_time\<close> says whether the exchange
  ended before the timeout of \<open>wait_for\<close>. The connection is closed on every path, which leaves
  nothing to observe.
\<close>

type_synonym dial = "string \<Rightarrow> int \<Rightarrow> bool \<Rightarrow> conn res"

definition wait_for :: "bool \<Rightarrow> 'a res \<Rightarrow> 'a res" where
  "wait_for in_time r = (if in_time then r else Inl TimeoutError)"

definition echo_exchange :: "pyrt \<Rightarrow> world \<Rightarrow> check_target \<Rightarrow> bool \<Rightarrow> auth \<Rightarrow> echo io" where
  "echo_exchange rt w target absolute proxy_auth =
     io_bind (io_lift (request_bytes target absolute proxy_auth)) (\<lambda>request.
     io_bind (io_write request) (\<lambda>_.
     io_bind read_http_response (\<lambda>body.
     io_lift (parse_echo rt w body))))"

definition direct_observation ::
  "pyrt \<Rightarrow> world \<Rightarrow> dial \<Rightarrow> check_target \<Rightarrow> bool \<Rightarrow> echo res" where
  "direct_observation rt w dial target in_time =
     wait_for in_time
       (rbind (dial (t_host target) (int (t_port target)) (t_scheme target = ''https''))
         (\<lambda>c. fst (echo_exchange rt w target False None c)))"

definition is_http_proxy :: "string \<Rightarrow> bool" where
  "is_http_proxy protocol \<longleftrightarrow> protocol = ''http'' \<or> protocol = ''https''"

definition tunnel :: "pyrt \<Rightarrow> string \<Rightarrow> check_target \<Rightarrow> auth \<Rightarrow> unit io" where
  "tunnel rt protocol target auth =
     (if is_http_proxy protocol \<and> t_scheme target = ''https'' then http_proxy_tunnel target auth
      else if protocol = ''socks5'' then socks5_tunnel rt target auth
      else if protocol = ''socks4'' then socks4_tunnel rt target auth
      else if \<not> is_http_proxy protocol then io_raise (ValueError ''unsupported proxy protocol'')
      else io_return ())"

definition proxy_exchange ::
  "pyrt \<Rightarrow> world \<Rightarrow> candidate \<Rightarrow> check_target \<Rightarrow> auth \<Rightarrow> echo io" where
  "proxy_exchange rt w candidate target auth =
     (let absolute_request = (is_http_proxy (c_protocol candidate) \<and> t_scheme target = ''http'') in
      io_bind (tunnel rt (c_protocol candidate) target auth) (\<lambda>_.
      io_bind (if t_scheme target = ''https'' then start_tls else io_return ()) (\<lambda>_.
      echo_exchange rt w target absolute_request (if absolute_request then auth else None))))"

definition latency :: "rat \<Rightarrow> rat \<Rightarrow> int" where
  "latency started ended = max 1 (round_even (fmul (fadd ended (- started)) 1000))"

definition proxy_observation ::
  "pyrt \<Rightarrow> world \<Rightarrow> dial \<Rightarrow> candidate \<Rightarrow> check_target \<Rightarrow> auth \<Rightarrow> bool \<Rightarrow> rat \<Rightarrow> rat \<Rightarrow> (echo \<times> int) res" where
  "proxy_observation rt w dial candidate target auth in_time started ended =
     rbind (wait_for in_time
         (rbind (dial (c_host candidate) (c_port candidate) (c_protocol candidate = ''https''))
           (\<lambda>c. fst (proxy_exchange rt w candidate target auth c))))
       (\<lambda>observation. Inr (observation, latency started ended))"

definition normalise_identities :: "string list \<Rightarrow> string list res" where
  "normalise_identities vs =
     rmap (\<lambda>v. of_option (ValueError (''invalid direct client identity: '' @ v))
       (map_option ip_str (ip_address (strip v)))) vs"

definition classify_anonymity :: "echo \<Rightarrow> string list \<Rightarrow> string option res" where
  "classify_anonymity observation direct_identities =
     rbind (normalise_identities direct_identities) (\<lambda>ids.
     rbind (ensure (ids \<noteq> []) (ValueError ''at least one direct client identity is required'')) (\<lambda>_.
     Inr (if e_peer observation \<in> set ids then None
       else if list_ex (\<lambda>name. list_ex (\<lambda>i. contains i (header_get (e_headers observation) name [])) ids)
                 LEAK_HEADERS then None
       else if list_ex (\<lambda>name. map_of (e_headers observation) name \<noteq> None) PROXY_MARKER_HEADERS
       then Some ''anonymous'' else Some ''elite'')))"

section \<open>Bodies\<close>

lemma CRLF_eq: "CRLF = [CR, LF]"
  by (simp add: CRLF_def CR_def LF_def)

lemma read_chunked_bound:
  "read_chunked body c = (Inr b, c') \<Longrightarrow> length body \<le> MAX_HTTP_BODY_BYTES \<Longrightarrow> length b \<le> MAX_HTTP_BODY_BYTES"
proof (induction body c arbitrary: b c' rule: read_chunked.induct)
  case (1 body c)
  obtain r c1 where rc: "read_chunk body c = (r, c1)" by fastforce
  show ?case
  proof (cases r)
    case (Inl e)
    with rc "1.prems" show ?thesis by (simp add: read_chunked.simps)
  next
    case (Inr ch)
    show ?thesis
    proof (cases ch)
      case LastChunk
      with rc Inr "1.prems" show ?thesis by (simp add: read_chunked.simps)
    next
      case (Chunk data)
      with rc Inr have rc': "read_chunk body c = (Inr (Chunk data), c1)" by simp
      then obtain size where "int (length body) + size \<le> int MAX_HTTP_BODY_BYTES" "size = int (length data)"
        by (rule read_chunk_Chunk)
      then have le: "length (body @ data) \<le> MAX_HTTP_BODY_BYTES" by simp
      from rc' "1.prems"(1) have "read_chunked (body @ data) c1 = (Inr b, c')"
        by (subst (asm) read_chunked.simps) simp
      from "1.IH" [OF rc' [symmetric] refl refl this le] show ?thesis .
    qed
  qed
qed

lemma read_body_bound:
  assumes "read_body headers c = (Inr b, c')"
  shows "length b \<le> MAX_HTTP_BODY_BYTES"
proof (cases "lower (header_get headers ''transfer-encoding'' []) = ''chunked''")
  case True
  with assms have "read_chunked [] c = (Inr b, c')" by (simp add: read_body_def)
  then show ?thesis by (rule read_chunked_bound) simp
next
  case False
  show ?thesis
  proof (cases "map_of headers ''content-length''")
    case None
    with False assms show ?thesis by (auto simp: read_body_def io_simps io_ensure_Inr)
  next
    case (Some v)
    with False assms obtain n where "n \<le> int MAX_HTTP_BODY_BYTES" "readexactly n c = (Inr b, c')"
      by (auto simp: read_body_def io_simps io_ensure_Inr io_lift_eq)
    with readexactly_Inr(1,2) [OF this(2)] show ?thesis by simp
  qed
qed

lemma read_http_response_body:
  assumes "read_http_response c = (Inr b, c')"
  obtains headers raw c1 where "read_headers c = (Inr (200, headers, raw), c1)" and "read_body headers c1 = (Inr b, c')"
  using assms by (auto simp: read_http_response_def io_simps io_ensure_Inr)

lemma read_headers_Inr:
  assumes "read_headers c = (Inr (status, headers, raw), c')"
  shows "readuntil STREAM_LIMIT (CRLF @ CRLF) c = (Inr raw, c')" and "length raw \<le> MAX_HTTP_HEADER_BYTES"
    and "status_of (hd (split_crlf (take (length raw - 4) raw))) = Inr status"
    and "header_fields (tl (split_crlf (take (length raw - 4) raw))) [] = Inr headers"
  using assms by (auto simp: read_headers_def io_simps io_ensure_Inr io_lift_eq Let_def)

subsection \<open>Chunked encoding\<close>

definition encode_chunk :: "string \<Rightarrow> string" where
  "encode_chunk d = hex (length d) @ CRLF @ d @ CRLF"

definition encode_chunks :: "string list \<Rightarrow> string" where
  "encode_chunks ds = concat (map encode_chunk ds) @ ''0'' @ CRLF @ CRLF"

lemma hexchar_not_break: "is_hexchar c \<Longrightarrow> c \<noteq> LF \<and> c \<noteq> CR \<and> c \<noteq> CHR '';''"
  by (auto simp: is_hexchar_def LF_def CR_def)

lemma bstrip_hex_CRLF: "bstrip (hex n @ CRLF) = hex n"
proof -
  have ch: "is_hexchar (hd (hex n))" "is_hexchar (last (hex n))"
    using hex_chars [of "hd (hex n)" n] hex_chars [of "last (hex n)" n] by simp_all
  then have sp: "\<not> is_bspace (hd (hex n))" "\<not> is_bspace (last (hex n))"
    using is_hexchar_facts(2) by blast+
  have "is_bspace CR" "is_bspace LF" by code_simp+
  then have "rstrip_by is_bspace (hex n @ CRLF) = rstrip_by is_bspace (hex n)"
    by (simp add: rstrip_by_def CRLF_eq)
  moreover have "dropWhile is_bspace (rev (hex n)) = rev (hex n)"
    using sp(2) by (simp add: dropWhile_eq_self_iff hd_rev)
  then have "rstrip_by is_bspace (hex n) = hex n" by (simp add: rstrip_by_def)
  moreover have "lstrip_by is_bspace (hex n) = hex n" "lstrip_by is_bspace (hex n @ CRLF) = hex n @ CRLF"
    using sp(1) by (simp_all add: lstrip_by_def dropWhile_eq_self_iff)
  ultimately show ?thesis by (simp add: bstrip_def strip_by_def)
qed

lemma py_int_hex_line: "py_int_hex (hex n @ CRLF) = Some (int n)"
proof -
  have "is_hexchar (hd (hex n))" using hex_chars [of "hd (hex n)" n] by simp
  then have "hd (hex n) \<noteq> CHR ''-''" "hd (hex n) \<noteq> CHR ''+''" by (rule is_hexchar_facts)+
  moreover have "CHR ''x'' \<notin> set (hex n)" "CHR ''X'' \<notin> set (hex n)"
    using hex_chars is_hexchar_facts(9,10) by blast+
  then have "drop_hex_prefix (hex n) = hex n"
    by (auto simp: drop_hex_prefix_def starts_with_iff)
  ultimately show ?thesis
    using py_nat_digits [of 16 n]
    by (simp add: py_int_hex_def bstrip_hex_CRLF py_int_signed_def starts_with_hd)
qed

lemma split_at_LF: "LF \<notin> set a \<Longrightarrow> split_at [LF] (a @ LF # b) = Some (a, b)"
  by (induction a) auto

lemma readline_line:
  assumes "cn_in c = hex n @ CRLF @ t" and "length (hex n) < STREAM_LIMIT"
  shows "readline STREAM_LIMIT c = (Inr (hex n @ CRLF), c\<lparr>cn_in := t\<rparr>)"
proof -
  have "LF \<notin> set (hex n @ [CR])" using hex_chars hexchar_not_break by (auto simp: LF_def CR_def)
  then have "split_at [LF] ((hex n @ [CR]) @ LF # t) = Some (hex n @ [CR], t)" by (rule split_at_LF)
  moreover have "cn_in c = (hex n @ [CR]) @ LF # t" using assms(1) by (simp add: CRLF_eq)
  ultimately have "readuntil STREAM_LIMIT [LF] c = (Inr (hex n @ CRLF), c\<lparr>cn_in := t\<rparr>)"
    using assms(2) by (simp add: readuntil_def take_in_def CRLF_eq)
  then show ?thesis by (simp add: readline_def)
qed

lemma before_semicolon: "before CHR '';'' (hex n @ CRLF) = hex n @ CRLF"
proof -
  have "\<forall>c \<in> set (hex n @ CRLF). c \<noteq> CHR '';''"
    using hex_chars hexchar_not_break by (auto simp: CRLF_eq CR_def LF_def)
  then show ?thesis unfolding before_def by (intro takeWhile_eq_all_conv [THEN iffD2]) blast
qed

lemma hex_length_bound: "n \<le> MAX_HTTP_BODY_BYTES \<Longrightarrow> length (hex n) < STREAM_LIMIT"
  using length_hex [of n 5] by (simp add: MAX_HTTP_BODY_BYTES_def STREAM_LIMIT_def)

lemma read_chunk_step:
  assumes "cn_in c = encode_chunk d @ t" and "d \<noteq> []" and "length body + length d \<le> MAX_HTTP_BODY_BYTES"
  shows "read_chunk body c = (Inr (Chunk d), c\<lparr>cn_in := t\<rparr>)"
proof -
  let ?n = "length d"
  have "length (hex ?n) < STREAM_LIMIT" using assms(3) by (intro hex_length_bound) simp
  then have "readline STREAM_LIMIT c = (Inr (hex ?n @ CRLF), c\<lparr>cn_in := d @ CRLF @ t\<rparr>)"
    using assms(1) by (intro readline_line) (simp_all add: encode_chunk_def)
  moreover have "readexactly (int ?n) (c\<lparr>cn_in := d @ CRLF @ t\<rparr>) = (Inr d, c\<lparr>cn_in := CRLF @ t\<rparr>)"
    by (subst readexactly_ok [of _ d "CRLF @ t"]) simp_all
  moreover have "readexactly 2 (c\<lparr>cn_in := CRLF @ t\<rparr>) = (Inr CRLF, c\<lparr>cn_in := t\<rparr>)"
    by (subst readexactly_ok [of _ CRLF t]) (simp_all add: CRLF_eq)
  ultimately show ?thesis
    using assms(2,3)
    by (simp add: read_chunk_def io_bind_def before_semicolon py_int_hex_line io_lift_def io_ensure_def io_return_def)
qed

lemma read_chunk_end:
  assumes "cn_in c = ''0'' @ CRLF @ CRLF @ t"
  shows "read_chunk body c = (Inr LastChunk, c\<lparr>cn_in := t\<rparr>)"
proof -
  have z: "hex 0 = ''0''" by (simp add: digits.simps hexdigit_def)
  have "readline STREAM_LIMIT c = (Inr (hex 0 @ CRLF), c\<lparr>cn_in := CRLF @ t\<rparr>)"
    using assms by (intro readline_line) (simp_all add: z STREAM_LIMIT_def)
  moreover have "split_at CRLF (CRLF @ t) = Some ([], t)" by (simp add: CRLF_eq)
  then have "readuntil STREAM_LIMIT CRLF (c\<lparr>cn_in := CRLF @ t\<rparr>) = (Inr CRLF, c\<lparr>cn_in := t\<rparr>)"
    by (simp add: readuntil_def take_in_def)
  ultimately show ?thesis
    by (simp add: read_chunk_def io_bind_def before_semicolon py_int_hex_line io_lift_def io_return_def)
qed

lemma read_chunked_encoded:
  assumes "\<And>d. d \<in> set ds \<Longrightarrow> d \<noteq> []" and "length body + length (concat ds) \<le> MAX_HTTP_BODY_BYTES"
    and "cn_in c = encode_chunks ds @ t"
  shows "read_chunked body c = (Inr (body @ concat ds), c\<lparr>cn_in := t\<rparr>)"
  using assms
proof (induction ds arbitrary: body c)
  case Nil
  then have "cn_in c = ''0'' @ CRLF @ CRLF @ t" by (simp add: encode_chunks_def)
  then show ?case by (simp add: read_chunked.simps read_chunk_end)
next
  case (Cons d ds)
  have "cn_in c = encode_chunk d @ (encode_chunks ds @ t)" using Cons.prems(3) by (simp add: encode_chunks_def)
  moreover have "d \<noteq> []" "length body + length d \<le> MAX_HTTP_BODY_BYTES" using Cons.prems(1,2) by simp_all
  ultimately have "read_chunk body c = (Inr (Chunk d), c\<lparr>cn_in := encode_chunks ds @ t\<rparr>)"
    by (rule read_chunk_step)
  then have "read_chunked body c = read_chunked (body @ d) (c\<lparr>cn_in := encode_chunks ds @ t\<rparr>)"
    by (subst read_chunked.simps) simp
  also have "\<dots> = (Inr ((body @ d) @ concat ds), (c\<lparr>cn_in := encode_chunks ds @ t\<rparr>)\<lparr>cn_in := t\<rparr>)"
    using Cons.prems by (intro Cons.IH) auto
  finally show ?case by simp
qed

section \<open>What is sent\<close>

lemma io_write_Inr:
  "io_write s c = (Inr u, c') \<Longrightarrow> \<not> cn_secure c \<Longrightarrow> c' = c\<lparr>cn_out := cn_out c @ s\<rparr>"
  by (simp add: io_write_def)

definition socks5_greeting :: "auth \<Rightarrow> string" where
  "socks5_greeting auth = byte 5 @ byte 1 @ (case auth of Some _ \<Rightarrow> byte 2 | None \<Rightarrow> byte 0)"

definition socks5_login_bytes :: "auth \<Rightarrow> string" where
  "socks5_login_bytes auth =
     (case auth of
        None \<Rightarrow> []
      | Some (u, p) \<Rightarrow> byte 1 @ byte (length (utf8 u)) @ utf8 u @ byte (length (utf8 p)) @ utf8 p)"

text \<open>Whatever happens, nothing beyond the greeting is sent before the method is accepted.\<close>

text \<open>A client that waits for the choice of the method has sent only its greeting before.\<close>

lemma negotiation_guard:
  assumes "\<not> cn_secure c"
    and "io_bind (io_write g) (\<lambda>_. io_bind (readexactly 2) (\<lambda>response.
      io_bind (io_ensure (response = expect) e) k)) c = (r, c')"
  shows "cn_out c' = cn_out c @ g \<or> take 2 (cn_in c) = expect"
proof -
  from assms(2) obtain c1 where w: "io_write g c = (Inr (), c1)"
    and k: "io_bind (readexactly 2) (\<lambda>response. io_bind (io_ensure (response = expect) e) k) c1 = (r, c')"
    by (elim io_bind_cases) (simp_all add: io_write_def)
  note c1 = io_write_Inr [OF w assms(1)]
  have silent: "silent (readexactly 2)" by simp
  from k show ?thesis
  proof (cases rule: io_bind_cases)
    case (fails e)
    from silentD(1) [OF silent fails(1)] show ?thesis by (simp add: c1)
  next
    case (runs s c2)
    note o2 = silentD(1) [OF silent runs(1)] and e2 = readexactly_Inr [OF runs(1)]
    from runs(2) show ?thesis
    proof (cases rule: io_bind_cases)
      case (fails e)
      then have "c' = c2" by (simp add: io_ensure_def io_raise_def io_return_def split: if_splits)
      then show ?thesis using o2 by (simp add: c1)
    next
      case (runs u c3)
      then have "s = expect" by (simp add: io_ensure_Inr)
      moreover have "take 2 (cn_in c) = s" using e2(2,3) by (simp add: c1)
      ultimately show ?thesis by simp
    qed
  qed
qed

lemma socks5_guard:
  assumes "\<not> cn_secure c" and "socks5_tunnel rt target auth c = (r, c')"
  shows "cn_out c' = cn_out c @ socks5_greeting auth
    \<or> take 2 (cn_in c) = byte 5 @ (case auth of Some _ \<Rightarrow> byte 2 | None \<Rightarrow> byte 0)"
  using negotiation_guard [OF assms [unfolded socks5_tunnel_def Let_def]] by (simp add: socks5_greeting_def)

lemma socks5_login_Inr:
  assumes "socks5_login n u p c = (Inr (), c')" and "\<not> cn_secure c"
  shows "cn_out c' = cn_out c @ byte 1 @ byte (length u) @ u @ byte (length p) @ p"
    and "\<not> cn_secure c'" and "n \<le> length u" and "length u \<le> 255" and "n \<le> length p" and "length p \<le> 255"
    and "\<exists>t. cn_in c = byte 1 @ byte 0 @ t \<and> cn_in c' = t"
proof -
  from assms(1) obtain c1 s where l: "n \<le> length u" "length u \<le> 255" "n \<le> length p" "length p \<le> 255"
    and w: "io_write (byte 1 @ byte (length u) @ u @ byte (length p) @ p) c = (Inr (), c1)"
    and r: "readexactly 2 c1 = (Inr s, c')" and s: "s = byte 1 @ byte 0"
    by (auto simp: socks5_login_def io_simps io_ensure_Inr)
  note c1 = io_write_Inr [OF w assms(2)]
  have sl: "silent (readexactly 2)" by simp
  note o = silentD [OF sl r] and e = readexactly_Inr [OF r]
  show "cn_out c' = cn_out c @ byte 1 @ byte (length u) @ u @ byte (length p) @ p"
    "\<not> cn_secure c'" using o c1 assms(2) by simp_all
  show "\<exists>t. cn_in c = byte 1 @ byte 0 @ t \<and> cn_in c' = t" using e(3) s c1 by simp
qed (use assms in \<open>auto simp: socks5_login_def io_simps io_ensure_Inr\<close>)

lemma socks5_bind_silent: "silent (socks5_bind_address k)"
  unfolding socks5_bind_address_def by (intro silent_bind) (auto simp: split: if_splits)

text \<open>The bytes of a handshake that succeeded.\<close>

lemma socks5_success:
  assumes "\<not> cn_secure c" and "socks5_tunnel rt target auth c = (Inr (), c')"
  shows "\<exists>address. socks5_address rt (t_host target) = Inr address
    \<and> cn_out c' = cn_out c @ socks5_greeting auth @ socks5_login_bytes auth
        @ byte 5 @ byte 1 @ byte 0 @ address @ be16 (t_port target)"
proof -
  let ?m = "case auth of Some _ \<Rightarrow> byte 2 | None \<Rightarrow> byte 0"
  let ?login = "case auth of Some (u, p) \<Rightarrow> socks5_login 1 (utf8 u) (utf8 p) | None \<Rightarrow> io_return ()"
  from assms(2) obtain c1 s1 c2 c3 address c4 s4 c5 where
    w: "io_write (byte 5 @ byte 1 @ ?m) c = (Inr (), c1)" and r: "readexactly 2 c1 = (Inr s1, c2)"
    and l: "?login c2 = (Inr (), c3)" and a: "socks5_address rt (t_host target) = Inr address"
    and w2: "io_write (byte 5 @ byte 1 @ byte 0 @ address @ be16 (t_port target)) c3 = (Inr (), c4)"
    and r2: "readexactly 4 c4 = (Inr s4, c5)" and b: "socks5_bind_address (code (s4 ! 3)) c5 = (Inr (), c')"
    unfolding socks5_tunnel_def Let_def io_bind_eq_Inr io_lift_eq io_ensure_Inr by auto
  have sl: "silent (readexactly n)" for n by simp
  from io_write_Inr [OF w assms(1)] have c1: "c1 = c\<lparr>cn_out := cn_out c @ socks5_greeting auth\<rparr>"
    by (simp add: socks5_greeting_def)
  have o2: "cn_out c2 = cn_out c @ socks5_greeting auth" "\<not> cn_secure c2"
    using silentD [OF sl r] assms(1) by (simp_all add: c1)
  have o3: "cn_out c3 = cn_out c2 @ socks5_login_bytes auth \<and> \<not> cn_secure c3"
  proof (cases auth)
    case None
    with l o2 show ?thesis by (simp add: io_return_def socks5_login_bytes_def)
  next
    case (Some up)
    obtain u p where up: "up = (u, p)" by fastforce
    with l Some have "socks5_login 1 (utf8 u) (utf8 p) c2 = (Inr (), c3)" by simp
    from socks5_login_Inr(1,2) [OF this o2(2)] show ?thesis using Some up by (simp add: socks5_login_bytes_def)
  qed
  from io_write_Inr [OF w2] o3
  have c4: "c4 = c3\<lparr>cn_out := cn_out c3 @ byte 5 @ byte 1 @ byte 0 @ address @ be16 (t_port target)\<rparr>" by blast
  have "cn_out c' = cn_out c4"
    using silentD(1) [OF socks5_bind_silent b] silentD(1) [OF sl r2] by simp
  then show ?thesis using a o2 o3 c4 by simp
qed

text \<open>Before the upgrade to TLS nothing goes into the TLS stream.\<close>

definition clear_only :: "'a io \<Rightarrow> bool" where
  "clear_only m \<longleftrightarrow> (\<forall>c. \<not> cn_secure c \<longrightarrow>
     \<not> cn_secure (snd (m c)) \<and> cn_secret_out (snd (m c)) = cn_secret_out c)"

lemma clear_onlyD:
  assumes "clear_only m" and "m c = (r, c')" and "\<not> cn_secure c"
  shows "\<not> cn_secure c'" and "cn_secret_out c' = cn_secret_out c"
  using assms by (metis clear_only_def snd_conv)+

lemma clear_only_silent: "silent m \<Longrightarrow> clear_only m"
  by (simp add: silent_def clear_only_def)

lemma clear_only_write: "clear_only (io_write s)"
  by (simp add: clear_only_def io_write_def)

lemma clear_only_bind: "clear_only m \<Longrightarrow> (\<And>x. clear_only (f x)) \<Longrightarrow> clear_only (io_bind m f)"
  unfolding clear_only_def io_bind_def by (auto split: prod.splits sum.splits)

lemma silent_read_headers: "silent read_headers"
  unfolding read_headers_def Let_def by (intro silent_bind silent_basic)

lemmas clear_only_intros = clear_only_bind clear_only_write
  silent_basic [THEN clear_only_silent] silent_read_headers [THEN clear_only_silent]
  socks5_bind_silent [THEN clear_only_silent]

lemma clear_only_case_prod: "(\<And>a b. clear_only (f a b)) \<Longrightarrow> clear_only (case x of (a, b) \<Rightarrow> f a b)"
  by (cases x) simp

lemma clear_only_login: "clear_only (socks5_login n u p)"
  unfolding socks5_login_def by (intro clear_only_intros)

lemma clear_only_http: "clear_only (http_proxy_tunnel target auth)"
  unfolding http_proxy_tunnel_def by (intro clear_only_intros clear_only_case_prod)

lemma clear_only_socks4: "clear_only (socks4_tunnel rt target auth)"
  unfolding socks4_tunnel_def Let_def by (intro clear_only_intros clear_only_case_prod)

lemma clear_only_socks5: "clear_only (socks5_tunnel rt target auth)"
  unfolding socks5_tunnel_def Let_def
  by (intro clear_only_intros; auto split: option.splits intro: clear_only_login clear_only_intros)

lemma clear_only_tunnel: "clear_only (tunnel rt protocol target auth)"
  unfolding tunnel_def
  by (auto intro: clear_only_http clear_only_socks4 clear_only_socks5 clear_only_intros)

lemma silent_read_chunk: "silent (read_chunk body)"
  unfolding read_chunk_def by (intro silent_bind) (auto intro!: silent_bind)

lemma silent_read_chunked_aux:
  "cn_out (snd (read_chunked body c)) = cn_out c \<and> cn_secret_out (snd (read_chunked body c)) = cn_secret_out c
   \<and> cn_secure (snd (read_chunked body c)) = cn_secure c"
proof (induction body c rule: read_chunked.induct)
  case (1 body c)
  obtain r c1 where rc: "read_chunk body c = (r, c1)" by fastforce
  note o = silentD [OF silent_read_chunk rc]
  show ?case
  proof (cases r)
    case (Inl e)
    with rc o show ?thesis by (simp add: read_chunked.simps)
  next
    case (Inr ch)
    show ?thesis
    proof (cases ch)
      case LastChunk
      with rc Inr o show ?thesis by (simp add: read_chunked.simps)
    next
      case (Chunk data)
      with rc Inr have rc': "read_chunk body c = (Inr (Chunk data), c1)" by simp
      then have "read_chunked body c = read_chunked (body @ data) c1"
        by (subst read_chunked.simps) simp
      with "1.IH" [OF rc' [symmetric] refl refl] o show ?thesis by simp
    qed
  qed
qed

lemma silent_read_chunked: "silent (read_chunked body)"
  using silent_read_chunked_aux by (simp add: silent_def)

lemma silent_read_body: "silent (read_body headers)"
  unfolding read_body_def
  by (auto split: option.splits intro!: silent_read_chunked silent_bind)

lemma silent_read_http_response: "silent read_http_response"
  unfolding read_http_response_def
  by (intro silent_bind silent_read_headers) (auto split: prod.splits intro!: silent_bind silent_read_body)

lemma echo_exchange_secret:
  assumes "echo_exchange rt w target absolute auth c = (r, c')" and "cn_secure c"
  shows "cn_secret_out c' = cn_secret_out c
    \<or> (\<exists>request. request_bytes target absolute auth = Inr request \<and> cn_secret_out c' = cn_secret_out c @ request)"
proof (cases "request_bytes target absolute auth")
  case (Inl e)
  with assms(1) show ?thesis by (simp add: echo_exchange_def io_bind_def io_lift_def)
next
  case (Inr request)
  let ?c1 = "c\<lparr>cn_secret_out := cn_secret_out c @ request\<rparr>"
  have "echo_exchange rt w target absolute auth c
      = io_bind read_http_response (\<lambda>body. io_lift (parse_echo rt w body)) ?c1"
    using Inr assms(2) by (simp add: echo_exchange_def io_bind_def io_lift_def io_write_def)
  then have e: "io_bind read_http_response (\<lambda>body. io_lift (parse_echo rt w body)) ?c1 = (r, c')"
    using assms(1) by simp
  have "silent (io_bind read_http_response (\<lambda>body. io_lift (parse_echo rt w body)))"
    by (intro silent_bind silent_read_http_response) simp
  from silentD(2) [OF this e] Inr show ?thesis by simp
qed

section \<open>Properties\<close>

text \<open>
  The body that the check reads is bounded: whichever framing the peer chooses (chunked, a
  content length, or the end of the stream), and whatever it sends, an accepted response has a
  body of at most \<open>MAX_HTTP_BODY_BYTES\<close> and a header block of at most \<open>MAX_HTTP_HEADER_BYTES\<close>.
\<close>

theorem http_response_bounded:
  assumes "read_http_response c = (Inr body, c')"
  shows "length body \<le> MAX_HTTP_BODY_BYTES
    \<and> (\<exists>headers raw c1. read_headers c = (Inr (200, headers, raw), c1) \<and> length raw \<le> MAX_HTTP_HEADER_BYTES)"
proof -
  from assms obtain headers raw c1 where h: "read_headers c = (Inr (200, headers, raw), c1)"
    and b: "read_body headers c1 = (Inr body, c')"
    by (rule read_http_response_body)
  from read_body_bound [OF b] read_headers_Inr(2) [OF h] h show ?thesis by blast
qed

definition sample_conn :: "string \<Rightarrow> conn" where
  "sample_conn s = \<lparr>cn_in = s, cn_arrived = length s, cn_exc = None, cn_out = [], cn_secure = False,
     cn_secret_out = [], cn_tls_in = Inr []\<rparr>"

lemma readuntil_ok:
  assumes "split_at sep (cn_in c) = Some (a, b)" and "length a \<le> limit"
  shows "readuntil limit sep c = (Inr (a @ sep), c\<lparr>cn_in := b\<rparr>)"
  using assms split_at_parts [OF assms(1)] by (simp add: readuntil_def take_in_def)

definition sample_response :: "string \<Rightarrow> string" where
  "sample_response body = ''HTTP/1.1 200 OK'' @ CRLF @ ''Content-Length: 2'' @ CRLF @ CRLF @ body"

lemma sample_response_read:
  assumes "cn_in c = sample_response b" and "length b = 2"
  shows "\<exists>c'. read_http_response c = (Inr b, c')"
proof -
  let ?head = "''HTTP/1.1 200 OK'' @ CRLF @ ''Content-Length: 2''"
  have sp: "split_at (CRLF @ CRLF) (sample_response b) = Some (?head, b)"
    by (simp add: sample_response_def CRLF_eq CR_def LF_def)
  have l: "split_crlf ?head = [''HTTP/1.1 200 OK'', ''Content-Length: 2'']"
    and s: "status_of ''HTTP/1.1 200 OK'' = Inr 200"
    and f: "header_fields [''Content-Length: 2''] [] = Inr [(''content-length'', ''2'')]"
    and n: "py_int ''2'' = Some 2"
    by code_simp+
  have t: "take (length (?head @ CRLF @ CRLF) - 4) (?head @ CRLF @ CRLF) = ?head"
    by (simp add: CRLF_eq)
  have "length ?head \<le> STREAM_LIMIT" by (simp add: STREAM_LIMIT_def CRLF_eq)
  with sp have "readuntil STREAM_LIMIT (CRLF @ CRLF) c = (Inr (?head @ CRLF @ CRLF), c\<lparr>cn_in := b\<rparr>)"
    using readuntil_ok [of "CRLF @ CRLF" c ?head b STREAM_LIMIT] assms(1) by simp
  then have "read_headers c = (Inr (200, [(''content-length'', ''2'')], ?head @ CRLF @ CRLF), c\<lparr>cn_in := b\<rparr>)"
    using l s f t unfolding read_headers_def Let_def
    by (simp add: io_bind_def io_ensure_def io_return_def io_lift_def MAX_HTTP_HEADER_BYTES_def CRLF_eq)
  then show ?thesis using n assms(2)
    by (simp add: read_http_response_def io_bind_def io_ensure_def io_return_def io_lift_def read_body_def
        header_get_def lower_def MAX_HTTP_BODY_BYTES_def readexactly_def take_in_def)
qed

lemma sample_echo:
  assumes "cn_in c = sample_response b" and "length b = 2" and "request_bytes target absolute auth = Inr request"
  shows "fst (echo_exchange rt w target absolute auth c) = parse_echo rt w b"
proof -
  obtain c1 where w: "io_write request c = (Inr (), c1)" and i: "cn_in c1 = cn_in c"
    by (auto simp: io_write_def)
  from i assms(1) have "cn_in c1 = sample_response b" by simp
  from sample_response_read [OF this assms(2)] obtain c' where "read_http_response c1 = (Inr b, c')" ..
  then show ?thesis by (simp add: echo_exchange_def io_bind_def io_lift_def assms(3) w)
qed

lemma http_response_bounded_witness:
  "\<exists>c'. read_http_response (sample_conn (sample_response ''{}'')) = (Inr ''{}'', c')
     \<and> length ''{}'' \<le> MAX_HTTP_BODY_BYTES
     \<and> (\<exists>headers raw c1. read_headers (sample_conn (sample_response ''{}'')) = (Inr (200, headers, raw), c1))"
proof -
  have "cn_in (sample_conn (sample_response ''{}'')) = sample_response ''{}''" by (simp add: sample_conn_def)
  then obtain c' where c: "read_http_response (sample_conn (sample_response ''{}'')) = (Inr ''{}'', c')"
    using sample_response_read [of _ "''{}''"] by auto
  from http_response_bounded [OF c] c show ?thesis by blast
qed

text \<open>
  Chunked transfer encoding is decoded exactly: a body sent as any list of non-empty chunks
  within the bound is read back as their concatenation, and the bytes after the terminating chunk
  are left in the stream.
\<close>

theorem chunked_roundtrip:
  assumes "list_all (\<lambda>d. d \<noteq> []) ds" and "length (concat ds) \<le> MAX_HTTP_BODY_BYTES"
    and "cn_in c = encode_chunks ds @ rest"
  shows "read_chunked [] c = (Inr (concat ds), c\<lparr>cn_in := rest\<rparr>)"
  using read_chunked_encoded [of ds "[]" c rest] assms by (simp add: list_all_iff)

lemma chunked_roundtrip_witness:
  "read_chunked [] (sample_conn (encode_chunks [''{\"peer\":'', ''1}''] @ ''next''))
   = (Inr ''{\"peer\":1}'', (sample_conn (encode_chunks [''{\"peer\":'', ''1}''] @ ''next''))\<lparr>cn_in := ''next''\<rparr>)"
  using chunked_roundtrip [of "[''{\"peer\":'', ''1}'']"
      "sample_conn (encode_chunks [''{\"peer\":'', ''1}''] @ ''next'')" "''next''"]
  by (simp add: sample_conn_def MAX_HTTP_BODY_BYTES_def)

text \<open>
  The SOCKS5 handshake of the probe sends what RFC 1928 and RFC 1929 ask for, and no more than
  it may: a proxy that does not select the required method sees only the greeting, never the user
  name or the password; a handshake that succeeds has sent the greeting, the login message (when
  there are credentials) and the CONNECT request for the target, in this order.
\<close>

theorem socks5_handshake:
  assumes "\<not> cn_secure c" and "socks5_tunnel rt target auth c = (r, c')"
  shows "(take 2 (cn_in c) = byte 5 @ (case auth of Some _ \<Rightarrow> byte 2 | None \<Rightarrow> byte 0)
      \<or> cn_out c' = cn_out c @ socks5_greeting auth)
    \<and> (r = Inr () \<longrightarrow> (\<exists>address. socks5_address rt (t_host target) = Inr address
         \<and> cn_out c' = cn_out c @ socks5_greeting auth @ socks5_login_bytes auth
             @ byte 5 @ byte 1 @ byte 0 @ address @ be16 (t_port target)))"
  using socks5_guard [OF assms] socks5_success [OF assms(1)] assms(2) by blast

definition sample_target :: check_target where
  "sample_target = \<lparr>t_scheme = ''https'', t_host = ''echo.example'', t_port = 443, t_path = ''/''\<rparr>"

lemma socks5_handshake_witness:
  "cn_out (snd (socks5_tunnel plain_rt sample_target (Some (''user'', ''secret'')) (sample_conn (byte 5 @ byte 255))))
   = byte 5 @ byte 1 @ byte 2"
proof -
  let ?c = "sample_conn (byte 5 @ byte 255)"
  obtain r c' where rc: "socks5_tunnel plain_rt sample_target (Some (''user'', ''secret'')) ?c = (r, c')"
    by fastforce
  have "\<not> cn_secure ?c" by (simp add: sample_conn_def)
  from socks5_handshake [OF this rc] rc show ?thesis
    by (simp add: sample_conn_def byte_def socks5_greeting_def)
qed

text \<open>
  C18. The target never learns the proxy's credentials: when the check URL is HTTPS, whatever the
  proxy protocol and whatever the proxy answers, the only bytes that enter the TLS connection to
  the target are the plain GET request without any proxy authorization.
\<close>

theorem proxy_credentials_hidden_from_target:
  assumes "\<not> cn_secure c" and "cn_secret_out c = []" and "t_scheme target = ''https''"
    and "proxy_exchange rt w candidate target auth c = (r, c')"
  shows "cn_secret_out c' = [] \<or> request_bytes target False None = Inr (cn_secret_out c')"
proof -
  have ex: "io_bind (tunnel rt (c_protocol candidate) target auth) (\<lambda>_.
      io_bind start_tls (\<lambda>_. echo_exchange rt w target False None)) c = (r, c')"
    using assms(3,4) by (simp add: proxy_exchange_def)
  then show ?thesis
  proof (cases rule: io_bind_cases)
    case (fails e)
    from clear_onlyD(2) [OF clear_only_tunnel this(1) assms(1)] assms(2) show ?thesis by simp
  next
    case (runs u c1)
    note cl = clear_onlyD [OF clear_only_tunnel runs(1) assms(1)]
    from runs(2) show ?thesis
    proof (cases rule: io_bind_cases)
      case (fails e)
      then show ?thesis using cl(2) assms(2) by (auto simp: start_tls_def split: sum.splits)
    next
      case (runs u c2)
      then have "cn_secure c2" "cn_secret_out c2 = []"
        using cl(2) assms(2) by (auto simp: start_tls_def split: sum.splits)
      with echo_exchange_secret [OF runs(2)] show ?thesis by auto
    qed
  qed
qed

text \<open>
  C14. Identities are compared as addresses, not as texts: when the peer that the echo endpoint
  reports is one of the direct identities, in whatever notation either is written, the candidate
  is not accepted. An accepted candidate has only valid identities. No leak header holds a text
  that reads as an IPv4 identity; of an IPv6 identity the code searches the compressed notation
  only, and that is what is shown absent (another notation of it can pass, see the lemma
  \<open>ipv6_leak_missed\<close>). The level is \<open>elite\<close> exactly without proxy marker headers.
\<close>

theorem classify_anonymity_sound:
  assumes "parse_echo rt w body = Inr e" and "classify_anonymity e identities = Inr (Some level)"
  shows "(\<exists>a. e_peer e = ip_str a \<and> list_all (\<lambda>i. ip_address (strip i) \<noteq> Some a) identities)
    \<and> list_all (\<lambda>i. \<exists>b. ip_address (strip i) = Some b
         \<and> list_all (\<lambda>name. \<not> contains (ip_str b) (header_get (e_headers e) name [])) LEAK_HEADERS) identities
    \<and> (\<forall>i \<in> set identities. \<forall>n name pre t post. ip_address (strip i) = Some (V4 n)
         \<longrightarrow> name \<in> set LEAK_HEADERS \<longrightarrow> header_get (e_headers e) name [] = pre @ t @ post
         \<longrightarrow> ip_address t \<noteq> Some (V4 n))
    \<and> (level = ''elite'' \<longleftrightarrow> list_all (\<lambda>name. map_of (e_headers e) name = None) PROXY_MARKER_HEADERS)"
proof -
  from assms(1) obtain a where a: "e_peer e = ip_str a"
    by (auto simp: parse_echo_def res_simps Let_def)
  from assms(2) obtain ids where ids: "normalise_identities identities = Inr ids"
    and peer: "e_peer e \<notin> set ids"
    and leak: "\<not> list_ex (\<lambda>name. list_ex (\<lambda>i. contains i (header_get (e_headers e) name [])) ids) LEAK_HEADERS"
    and level: "level = (if list_ex (\<lambda>name. map_of (e_headers e) name \<noteq> None) PROXY_MARKER_HEADERS
       then ''anonymous'' else ''elite'')"
    by (auto simp: classify_anonymity_def res_simps split: if_splits)
  have all2: "list_all2 (\<lambda>v s. \<exists>b. ip_address (strip v) = Some b \<and> s = ip_str b) identities ids"
    using rmap_Inr_D [OF ids [unfolded normalise_identities_def]]
    by (rule list_all2_mono) (auto simp: of_option_eq_Inr)
  have id: "\<exists>b. ip_address (strip i) = Some b \<and> ip_str b \<in> set ids" if "i \<in> set identities" for i
    using all2 that by (induction rule: list_all2_induct) auto
  have "list_all (\<lambda>i. ip_address (strip i) \<noteq> Some a) identities"
    unfolding list_all_iff using id peer a by fastforce
  moreover have absent: "list_all (\<lambda>i. \<exists>b. ip_address (strip i) = Some b
         \<and> list_all (\<lambda>name. \<not> contains (ip_str b) (header_get (e_headers e) name [])) LEAK_HEADERS) identities"
    unfolding list_all_iff using id leak unfolding list_ex_iff by meson
  moreover have "ip_address t \<noteq> Some (V4 n)"
    if i: "i \<in> set identities" "ip_address (strip i) = Some (V4 n)" and name: "name \<in> set LEAK_HEADERS"
      and found: "header_get (e_headers e) name [] = pre @ t @ post" for i n name pre t post
  proof
    assume "ip_address t = Some (V4 n)"
    then have "t = ip_str (V4 n)" by (rule ip_address_V4_text)
    with found have "contains (ip_str (V4 n)) (header_get (e_headers e) name [])"
      unfolding contains_iff by blast
    moreover have "\<not> contains (ip_str (V4 n)) (header_get (e_headers e) name [])"
      using absent i name unfolding list_all_iff by (metis option.inject)
    ultimately show False by blast
  qed
  moreover have "level = ''elite'' \<longleftrightarrow> list_all (\<lambda>name. map_of (e_headers e) name = None) PROXY_MARKER_HEADERS"
    using level by (simp add: list_ex_iff list_all_iff del: PROXY_MARKER_HEADERS_def)
  ultimately show ?thesis using a by blast
qed

lemmas ip_eval = ip_address_def ipv4_of_string_def parse_octet_def is_digit_def digits_val_def
  digit_val_def Let_def

definition echo_json :: "string \<Rightarrow> (string \<times> json) list \<Rightarrow> jtext" where
  "echo_json peer headers = JText (JObj [(''backend_peer'', JStr peer), (''headers'', JObj headers)])"

definition echo_world :: world where
  "echo_world = \<lparr>w_text = (\<lambda>_. Inr []),
     w_json = (\<lambda>s. if s = ''[]'' then echo_json ''5.6.7.8'' [] else echo_json ''1.2.3.4'' [(''Via'', JStr ''1.1 p'')]),
     w_http = (\<lambda>_ _. HttpFail TimeoutError)\<rparr>"

lemma echo_address: "ip_address ''1.2.3.4'' = Some (V4 16909060)"
  by (simp add: ip_eval)

lemma client_address: "ip_address ''5.6.7.8'' = Some (V4 84281096)"
  by (simp add: ip_eval)

lemma client_address_str: "ip_str (V4 84281096) = ''5.6.7.8''"
  by (simp add: ipv4_str_def octets_def digits.simps hexdigit_def)

lemma echo_parsed:
  "parse_echo plain_rt echo_world ''{}'' = Inr \<lparr>e_peer = ip_str (V4 16909060), e_headers = [(''via'', ''1.1 p'')]\<rparr>"
  "parse_echo plain_rt echo_world ''[]'' = Inr \<lparr>e_peer = ''5.6.7.8'', e_headers = []\<rparr>"
proof -
  have "strip (before CHR '','' ''1.2.3.4'') = ''1.2.3.4''" "strip (before CHR '','' ''5.6.7.8'') = ''5.6.7.8''"
    "lower ''Via'' = ''via''" by code_simp+
  then show "parse_echo plain_rt echo_world ''{}'' = Inr \<lparr>e_peer = ip_str (V4 16909060), e_headers = [(''via'', ''1.1 p'')]\<rparr>"
    and "parse_echo plain_rt echo_world ''[]'' = Inr \<lparr>e_peer = ''5.6.7.8'', e_headers = []\<rparr>"
    by (simp_all add: parse_echo_def echo_world_def echo_json_def loads_def Let_def or_else_def echo_address
        client_address client_address_str del: ip_str.simps)
qed

lemma classify_sample:
  "classify_anonymity \<lparr>e_peer = ip_str (V4 16909060), e_headers = [(''via'', ''1.1 p'')]\<rparr> [''5.6.7.8'']
   = Inr (Some ''anonymous'')"
proof -
  have "strip ''5.6.7.8'' = ''5.6.7.8''" by code_simp
  moreover have "ip_str (V4 16909060) \<noteq> ip_str (V4 84281096)"
    by (simp add: ipv4_str_def octets_def digits.simps hexdigit_def)
  moreover have "\<not> contains (ip_str a) []" for a by simp
  ultimately show ?thesis
    by (simp add: classify_anonymity_def normalise_identities_def client_address LEAK_HEADERS_def
        PROXY_MARKER_HEADERS_def header_get_def del: ip_str.simps)
qed

lemma classify_anonymity_sound_witness:
  "\<exists>e. parse_echo plain_rt echo_world ''{}'' = Inr e \<and> classify_anonymity e [''5.6.7.8''] = Inr (Some ''anonymous'')
     \<and> (\<exists>a. e_peer e = ip_str a \<and> list_all (\<lambda>i. ip_address (strip i) \<noteq> Some a) [''5.6.7.8''])"
  using classify_anonymity_sound [OF echo_parsed(1) classify_sample] echo_parsed(1) classify_sample by blast

text \<open>
  The leak headers are searched for the compressed text of an address only: an IPv6 identity that
  a proxy forwards in another notation is not found, and the candidate passes as anonymous.
\<close>

lemma sample_ipv6:
  "ip_address ''2001:db8::1'' = Some (V6 42540766411282592856903984951653826561 None)"
proof -
  have "replicate 5 (0::nat) = [0, 0, 0, 0, 0]" by (simp add: numeral_eq_Suc)
  then show ?thesis
    by (simp add: ip_eval split_scope_def ipv6_of_string_def expand_suffix_def ipv6_of_parts_def
        skip_parts_def parts_hi_def parts_lo_def parse_hextet_def hextets_val_def is_hexdigit_def
        numeral_2_eq_2)
qed

lemma sample_ipv6_str: "ip_str (V6 42540766411282592856903984951653826561 None) = ''2001:db8::1''"
  by (simp add: ipv6_str_def hextets_def compress_hextets_def digits.simps hexdigit_def Let_def)

lemma ipv6_leak_missed:
  "classify_anonymity \<lparr>e_peer = ''5.6.7.8'', e_headers = [(''x-forwarded-for'', ''2001:0DB8:0:0:0:0:0:1'')]\<rparr>
      [''2001:db8::1''] = Inr (Some ''anonymous'')"
proof -
  have "strip ''2001:db8::1'' = ''2001:db8::1''" by code_simp
  then show ?thesis
    by (simp add: classify_anonymity_def normalise_identities_def LEAK_HEADERS_def
        PROXY_MARKER_HEADERS_def header_get_def sample_ipv6 sample_ipv6_str del: ip_str.simps)
qed

text \<open>
  Without a content length the body is whatever has arrived when the first \<open>read\<close> returns, not
  what the peer sends until it closes.
\<close>

lemma close_delimited_body_truncated:
  assumes "cn_in c \<noteq> []" and "1 \<le> cn_arrived c" and "cn_arrived c \<le> MAX_HTTP_BODY_BYTES"
  shows "fst (read_body [] c) = Inr (take (cn_arrived c) (cn_in c))"
proof -
  have "min (length (cn_in c)) (cn_arrived c) \<le> MAX_HTTP_BODY_BYTES" using assms(3) by simp
  with assms show ?thesis
    by (simp add: read_body_def header_get_def lower_def io_bind_def read_some_def take_in_def
        io_ensure_def io_return_def)
qed

lemma proxy_credentials_hidden_from_target_witness:
  "cn_secret_out (snd (proxy_exchange plain_rt echo_world sample_candidate sample_target
      (Some (''user'', ''secret'')) (sample_conn []))) = []
   \<or> request_bytes sample_target False None = Inr (cn_secret_out (snd (proxy_exchange plain_rt echo_world
      sample_candidate sample_target (Some (''user'', ''secret'')) (sample_conn []))))"
proof -
  let ?m = "proxy_exchange plain_rt echo_world sample_candidate sample_target (Some (''user'', ''secret''))"
  have "?m (sample_conn []) = (fst (?m (sample_conn [])), snd (?m (sample_conn [])))" by simp
  from proxy_credentials_hidden_from_target [OF _ _ _ this] show ?thesis
    by (simp add: sample_conn_def sample_target_def)
qed

end
