(* ===== verification/Egress_Relay.thy ===== *)
theory Egress_Relay
  imports Egress_Pool Credentials Proxy_Probe
begin

text \<open>
  The CONNECT relay of \<open>gateway/egress_relay.py\<close>: the request line of redsocks, the tunnel through
  a candidate (HTTP, SOCKS5 and SOCKS4), the disposable DNS probe, and the loop of a connection
  over the candidates of the pool. A tunnel runs on the streams of \<open>Py_Stream\<close>; what the network,
  the credential file, the clock and the other connections do during an attempt is an argument
  of the attempt.
\<close>

definition MAX_HEADERS :: nat where "MAX_HEADERS = 16384"

section \<open>The request of the client\<close>

definition connect_error :: exn where
  "connect_error = ValueError ''only CONNECT host:port is accepted''"

definition first_line :: "string \<Rightarrow> string" where
  "first_line s = (case split_at CRLF s of None \<Rightarrow> s | Some (line, _) \<Rightarrow> line)"

definition target_of_authority :: "string \<Rightarrow> (string \<times> nat) option" where
  "target_of_authority s =
     (case rsplit1 CHR '':'' s of
        None \<Rightarrow> None
      | Some (host, port) \<Rightarrow>
          (let host = (if starts_with ''['' host \<and> ends_with '']'' host then butlast (tl host) else host) in
           case py_int port of
             None \<Rightarrow> None
           | Some p \<Rightarrow> if host = [] \<or> \<not> (1 \<le> p \<and> p \<le> 65535) then None else Some (host, nat p)))"

definition target_from_connect :: "string \<Rightarrow> (string \<times> nat) res" where
  "target_from_connect header =
     (let line = first_line header in
      of_option connect_error
        (if \<not> list_all is_ascii line then None
         else case split_on CHR '' '' line of
             [method, hostport, version] \<Rightarrow>
               if method \<noteq> ''CONNECT'' \<or> \<not> starts_with ''HTTP/'' version then None
               else target_of_authority hostport
           | _ \<Rightarrow> None))"

section \<open>The tunnel through a candidate\<close>

type_synonym target = "string \<times> nat"

definition relay_authority :: "target \<Rightarrow> string" where
  "relay_authority target = fst target @ '':'' @ dec (snd target)"

definition relay_connect_bytes :: "target \<Rightarrow> auth \<Rightarrow> string" where
  "relay_connect_bytes target auth =
     utf8 (''CONNECT '' @ relay_authority target @ '' HTTP/1.1'' @ CRLF
       @ ''Host: '' @ relay_authority target @ CRLF
       @ basic_proxy_authorization auth
       @ ''Proxy-Connection: keep-alive'' @ CRLF @ CRLF)"

definition relay_http :: "target \<Rightarrow> auth \<Rightarrow> unit io" where
  "relay_http target auth =
     io_bind (io_write (relay_connect_bytes target auth)) (\<lambda>_.
     io_bind (readuntil STREAM_LIMIT (CRLF @ CRLF)) (\<lambda>reply.
     io_ensure (starts_with ''HTTP/'' reply \<and> contains '' 2'' (first_line reply))
       (OSError ''upstream CONNECT rejected'')))"

definition relay_socks5_login :: "string \<Rightarrow> string \<Rightarrow> unit io" where
  "relay_socks5_login raw_user raw_pass =
     io_bind (io_ensure (length raw_user \<le> 255 \<and> length raw_pass \<le> 255)
       (ValueError ''SOCKS5 credential is too long'')) (\<lambda>_.
     io_bind (io_write (byte 1 @ byte (length raw_user) @ raw_user @ byte (length raw_pass) @ raw_pass)) (\<lambda>_.
     io_bind (readexactly 2) (\<lambda>r.
     io_ensure (r = byte 1 @ byte 0) (OSError ''SOCKS5 authentication rejected''))))"

text \<open>The C functions behind \<open>inet_pton\<close> and \<open>inet_aton\<close> take no text with a zero byte.\<close>

definition null_checked :: "string \<Rightarrow> unit res" where
  "null_checked host = ensure (chr 0 \<notin> set host) (ValueError ''embedded null character'')"

definition relay_socks5_address :: "pyrt \<Rightarrow> string \<Rightarrow> string res" where
  "relay_socks5_address rt host =
     rbind (null_checked host) (\<lambda>_.
     case inet_pton4 host of
       Some packed \<Rightarrow> Inr (byte 1 @ packed)
     | None \<Rightarrow>
         rbind (idna_encode rt host) (\<lambda>raw_host.
         rbind (ensure (length raw_host \<le> 255) (ValueError ''target hostname is too long'')) (\<lambda>_.
         Inr (byte 3 @ byte (length raw_host) @ raw_host))))"

definition relay_greeting :: "auth \<Rightarrow> string" where
  "relay_greeting auth =
     (let methods = (case auth of Some _ \<Rightarrow> byte 0 @ byte 2 | None \<Rightarrow> byte 0) in
      byte 5 @ byte (length methods) @ methods)"

definition relay_socks5 :: "pyrt \<Rightarrow> target \<Rightarrow> auth \<Rightarrow> unit io" where
  "relay_socks5 rt target auth =
     io_bind (io_write (relay_greeting auth)) (\<lambda>_.
     io_bind (readexactly 2) (\<lambda>response.
     io_bind (io_ensure (response = byte 5 @ (case auth of Some _ \<Rightarrow> byte 2 | None \<Rightarrow> byte 0))
       (OSError ''SOCKS5 authentication negotiation failed'')) (\<lambda>_.
     io_bind (case auth of
                Some (username, password) \<Rightarrow> relay_socks5_login (utf8 username) (utf8 password)
              | None \<Rightarrow> io_return ()) (\<lambda>_.
     io_bind (io_lift (relay_socks5_address rt (fst target))) (\<lambda>address.
     io_bind (io_write (byte 5 @ byte 1 @ byte 0 @ address @ be16 (snd target))) (\<lambda>_.
     io_bind (readexactly 4) (\<lambda>r.
     io_bind (io_ensure (take 2 r = byte 5 @ byte 0) (OSError ''SOCKS5 CONNECT rejected'')) (\<lambda>_.
     socks5_bind_address (code (r ! 3))))))))))"

definition relay_socks4 :: "pyrt \<Rightarrow> target \<Rightarrow> auth \<Rightarrow> unit io" where
  "relay_socks4 rt target auth =
     (let username = (case auth of Some (u, _) \<Rightarrow> utf8 u | None \<Rightarrow> []) in
      io_bind (io_ensure (length username \<le> 255) (ValueError ''SOCKS4 username is too long'')) (\<lambda>_.
      io_bind (io_lift (rbind (null_checked (fst target)) (\<lambda>_.
          case inet_aton (fst target) of
            Some a \<Rightarrow> Inr (a, [])
          | None \<Rightarrow> rbind (idna_encode rt (fst target)) (\<lambda>h.
              Inr (byte 0 @ byte 0 @ byte 0 @ byte 1, h @ byte 0))))) (\<lambda>(address, suffix).
      io_bind (io_write (byte 4 @ byte 1 @ be16 (snd target) @ address @ username @ byte 0 @ suffix)) (\<lambda>_.
      io_bind (readexactly 8) (\<lambda>response.
      io_ensure (code (response ! 1) = 90) (OSError ''SOCKS4 CONNECT rejected''))))))"

definition relay_tunnel :: "pyrt \<Rightarrow> string \<Rightarrow> target \<Rightarrow> auth \<Rightarrow> unit io" where
  "relay_tunnel rt protocol target auth =
     (if protocol = ''http'' \<or> protocol = ''https'' then relay_http target auth
      else if protocol = ''socks5'' then relay_socks5 rt target auth
      else if protocol = ''socks4'' then relay_socks4 rt target auth
      else io_raise (ValueError ''unsupported upstream protocol''))"

section \<open>Connecting to a candidate\<close>

text \<open>The protocol of a candidate and the address to dial; the port is still a JSON value.\<close>

definition upstream_address :: "pyrt \<Rightarrow> dict \<Rightarrow> (string \<times> string \<times> json) res" where
  "upstream_address rt candidate =
     rbind (item candidate ''endpoint'') (\<lambda>v. let endpoint = py_str rt v in
     rbind (item candidate ''protocol'') (\<lambda>v. let protocol = py_str rt v;
         host = py_str rt (or_else (get candidate ''host'') (JStr []));
         port_value = get candidate ''port'' in
     if host = [] \<or> port_value = JNull then
       rbind (of_option (ValueError ''not enough values to unpack'') (rsplit1 CHR '':'' endpoint)) (\<lambda>(host, port_text).
       rbind (of_option (ValueError ''invalid literal for int()'') (py_int port_text)) (\<lambda>p.
       Inr (protocol, strip_by (\<lambda>c. c = CHR ''['' \<or> c = CHR '']'') host, JInt p)))
     else Inr (protocol, host, port_value)))"

text \<open>
  \<open>credentials.get(candidate.get("credential_ref"))\<close> on any JSON value: only a string can be a key
  of the credential file, and a list or an object cannot even be looked up.
\<close>

fun ref_of :: "json \<Rightarrow> string option" where
  "ref_of (JStr r) = Some r"
| "ref_of _ = None"

definition relay_credential ::
  "cred_env \<Rightarrow> rat \<Rightarrow> string res \<Rightarrow> json \<Rightarrow> cred_store \<Rightarrow> cred_store \<times> auth res" where
  "relay_credential env now file ref st =
     (if ref = JNull \<or> ref_of ref \<noteq> None then cred_get env now file (ref_of ref) st
      else (case refresh env now file st of
              Inl e \<Rightarrow> (st, Inl e)
            | Inr st' \<Rightarrow> (st', Inl (case ref of JArr _ \<Rightarrow> TypeError | JObj _ \<Rightarrow> TypeError
                | _ \<Rightarrow> ValueError ''proxy credential reference is unavailable''))))"

text \<open>
  What one \<open>connect_upstream\<close> meets: the clock and the credential file at \<open>get\<close> and at
  \<open>tls_context\<close>, the network, and whether it ended within the timeout of its caller.
\<close>

record upstream_net =
  un_now :: rat
  un_file :: "string res"
  un_tls_now :: rat
  un_tls_file :: "string res"
  un_dial :: dial
  un_in_time :: bool

definition open_tunnel ::
  "pyrt \<Rightarrow> dial \<Rightarrow> string \<Rightarrow> string \<Rightarrow> json \<Rightarrow> target \<Rightarrow> auth \<Rightarrow> conn res" where
  "open_tunnel rt dial protocol host port_value target auth =
     rbind (json_int port_value) (\<lambda>port.
     rbind (dial host port (protocol = ''https'')) (\<lambda>c.
     case relay_tunnel rt protocol target auth c of (r, c') \<Rightarrow> rbind r (\<lambda>_. Inr c')))"

definition connect_upstream ::
  "pyrt \<Rightarrow> cred_env \<Rightarrow> upstream_net \<Rightarrow> dict \<Rightarrow> target \<Rightarrow> cred_store \<Rightarrow> cred_store \<times> conn res" where
  "connect_upstream rt env net candidate target st =
     (case upstream_address rt candidate of
        Inl e \<Rightarrow> (st, Inl e)
      | Inr (protocol, host, port_value) \<Rightarrow>
          (case relay_credential env (un_now net) (un_file net) (get candidate ''credential_ref'') st of
             (st, Inl e) \<Rightarrow> (st, Inl e)
           | (st, Inr auth) \<Rightarrow>
               (case (if protocol = ''https''
                      then tls_context env (un_tls_now net) (un_tls_file net) (ref_of (get candidate ''credential_ref'')) st
                      else (st, Inr [])) of
                  (st, Inl e) \<Rightarrow> (st, Inl e)
                | (st, Inr _) \<Rightarrow> (st, open_tunnel rt (un_dial net) protocol host port_value target auth))))"

section \<open>The DNS probe\<close>

text \<open>
  One disposable probe: \<open>os.urandom(2)\<close>, \<open>float(DNS_TCP_PROBE_TIMEOUT_SECONDS)\<close>, whether the two
  reads end in time, and what \<open>wait_closed\<close> gives.
\<close>

record probe_call =
  pc_query_id :: string
  pc_timeout :: "rat res"
  pc_length_in_time :: bool
  pc_response_in_time :: bool
  pc_closed :: "unit res"

definition dns_query :: "string \<Rightarrow> string" where
  "dns_query query_id =
     query_id @ byte 1 @ byte 0 @ byte 0 @ byte 1 @ replicate 6 (chr 0)
     @ byte 7 @ ''example'' @ byte 3 @ ''com'' @ byte 0 @ byte 0 @ byte 1 @ byte 0 @ byte 1"

definition dns_exchange :: "probe_call \<Rightarrow> unit io" where
  "dns_exchange call =
     (let query = dns_query (pc_query_id call) in
      io_bind (io_lift (pc_timeout call)) (\<lambda>_.
      io_bind (io_write (be16 (length query) @ query)) (\<lambda>_.
      io_bind (timed (pc_length_in_time call) (readexactly 2)) (\<lambda>n.
      io_bind (timed (pc_response_in_time call) (readexactly (int (of_be16 n)))) (\<lambda>response.
      io_ensure (12 \<le> length response \<and> take 2 response = pc_query_id call)
        (OSError ''upstream DNS-over-TCP probe failed''))))))"

definition probe_dns_tcp ::
  "pyrt \<Rightarrow> cred_env \<Rightarrow> upstream_net \<Rightarrow> probe_call \<Rightarrow> dict \<Rightarrow> target \<Rightarrow> cred_store \<Rightarrow> cred_store \<times> unit res" where
  "probe_dns_tcp rt env net call candidate target st =
     (case connect_upstream rt env net candidate target st of
        (st, Inl e) \<Rightarrow> (st, Inl e)
      | (st, Inr c) \<Rightarrow> (st, rbind (pc_closed call) (\<lambda>_. fst (dns_exchange call c))))"

section \<open>The attempts of one connection\<close>

text \<open>
  \<open>at_others\<close> is what the other connections do to the shared pool and credential store while this
  attempt waits for the network.
\<close>

record attempt =
  at_choose :: choose_call
  at_probe :: upstream_net
  at_probe_call :: probe_call
  at_connect :: upstream_net
  at_others :: "pool \<times> cred_store \<Rightarrow> pool \<times> cred_store"
  at_recorded :: rat
  at_cooldown :: "rat res"

definition attempt_connect ::
  "pyrt \<Rightarrow> cred_env \<Rightarrow> attempt \<Rightarrow> dict \<Rightarrow> target \<Rightarrow> cred_store \<Rightarrow> cred_store \<times> conn res" where
  "attempt_connect rt env a candidate target st =
     (case (if snd target = 53
            then (case probe_dns_tcp rt env (at_probe a) (at_probe_call a) candidate target st of
                    (st, r) \<Rightarrow> (st, wait_for (un_in_time (at_probe a)) r))
            else (st, Inr ())) of
        (st, Inl e) \<Rightarrow> (st, Inl e)
      | (st, Inr _) \<Rightarrow>
          (case connect_upstream rt env (at_connect a) candidate target st of
             (st, r) \<Rightarrow> (st, wait_for (un_in_time (at_connect a)) r)))"

text \<open>\<open>except (asyncio.TimeoutError, OSError, ValueError)\<close>.\<close>

definition attempt_catches :: "exn \<Rightarrow> bool" where
  "attempt_catches e \<longleftrightarrow> e = TimeoutError \<or> is_OSError e \<or> is_ValueError e"

text \<open>
  The \<open>for\<close> loop. The result is the pool, the store, the keys tried (in order, which the set of
  the code forgets), and the connection, if any candidate gave one.
\<close>

fun relay_attempts ::
  "pyrt \<Rightarrow> cred_env \<Rightarrow> target \<Rightarrow> attempt list \<Rightarrow> string list \<Rightarrow> pool \<Rightarrow> cred_store \<Rightarrow>
   pool \<times> cred_store \<times> string list \<times> conn option res" where
  "relay_attempts rt env target [] tried pool st = (pool, st, tried, Inr None)"
| "relay_attempts rt env target (a # as) tried pool st =
     (case pool_choose rt (at_choose a) (snd target) tried pool of
        (pool, None) \<Rightarrow> (pool, st, tried, Inr None)
      | (pool, Some candidate) \<Rightarrow>
          (let tried = tried @ [pool_key rt candidate] in
           case attempt_connect rt env a candidate target st of (st, r) \<Rightarrow>
           case at_others a (pool, st) of (pool, st) \<Rightarrow>
           case r of
             Inl e \<Rightarrow>
               if attempt_catches e then
                 (case record_result rt (at_recorded a) (at_cooldown a) candidate (snd target) False pool of
                    (pool, Inl e') \<Rightarrow> (pool, st, tried, Inl e')
                  | (pool, Inr _) \<Rightarrow> relay_attempts rt env target as tried pool st)
               else (pool, st, tried, Inl e)
           | Inr c \<Rightarrow>
               (case record_result rt (at_recorded a) (at_cooldown a) candidate (snd target) True pool of
                  (pool, Inl e') \<Rightarrow> (pool, st, tried, Inl e')
                | (pool, Inr _) \<Rightarrow> (pool, st, tried, Inr (Some c)))))"

section \<open>Piping\<close>

text \<open>
  The successive results of \<open>read\<close>, an empty one at the end of the stream, and what \<open>drain\<close> gives
  when so much has been written.
\<close>

fun pipe :: "string res list \<Rightarrow> (string \<Rightarrow> unit res) \<Rightarrow> string \<Rightarrow> string \<times> unit res" where
  "pipe [] drain sent = (sent, Inr ())"
| "pipe (Inl e # reads) drain sent = (sent, Inl e)"
| "pipe (Inr data # reads) drain sent =
     (if data = [] then (sent, Inr ())
      else (case drain (sent @ data) of
              Inl e \<Rightarrow> (sent @ data, Inl e)
            | Inr _ \<Rightarrow> pipe reads drain (sent @ data)))"

text \<open>
  The two pipes of a tunnel. \<open>pr_up_first\<close> is \<open>Some n\<close> when the pipe to the upstream fails while the
  pipe to the client still runs and has made \<open>n\<close> reads; \<open>gather\<close> then raises at once.
\<close>

record pipe_run =
  pr_up :: "string res list"
  pr_up_drain :: "string \<Rightarrow> unit res"
  pr_down :: "string res list"
  pr_down_drain :: "string \<Rightarrow> unit res"
  pr_up_first :: "nat option"

text \<open>What the client got, how \<open>gather\<close> ended, and whether the writer of the client is closed.\<close>

definition gather_pipes :: "pipe_run \<Rightarrow> string \<times> unit res \<times> bool" where
  "gather_pipes p =
     (let up = snd (pipe (pr_up p) (pr_up_drain p) []) in
      case (up, pr_up_first p) of
        (Inl e, Some n) \<Rightarrow> (fst (pipe (take n (pr_down p)) (pr_down_drain p) []), Inl e, False)
      | _ \<Rightarrow> (case pipe (pr_down p) (pr_down_drain p) [] of
               (sent, down) \<Rightarrow> (sent, rbind down (\<lambda>_. up), True)))"

section \<open>One connection\<close>

definition established :: string where
  "established = ''HTTP/1.1 200 Connection established'' @ CRLF @ CRLF"

definition bad_gateway :: string where
  "bad_gateway = ''HTTP/1.1 502 Bad Gateway'' @ CRLF @ ''Connection: close'' @ CRLF @ CRLF"

text \<open>
  \<open>Tunnelled\<close>: a tunnel was handed to the client (with the exception that ended the pipes, if
  any); \<open>BadGateway\<close>: the \<open>except\<close> clause answered; \<open>Escaped\<close>: the handler died.
\<close>

datatype relay_end = Tunnelled conn "exn option" | BadGateway exn | Escaped exn

definition handle_catches :: "exn \<Rightarrow> bool" where
  "handle_catches e \<longleftrightarrow> e = TimeoutError \<or> e = IncompleteReadError \<or> is_OSError e \<or> is_ValueError e"

record handle_call =
  hc_in_time :: bool
  hc_attempts :: "int res"
  hc_attempt :: "nat \<Rightarrow> attempt"
  hc_pipes :: pipe_run

definition read_request :: "bool \<Rightarrow> target io" where
  "read_request in_time =
     io_bind (timed in_time (readuntil MAX_HEADERS (CRLF @ CRLF))) (\<lambda>request.
     io_bind (io_ensure (length request \<le> MAX_HEADERS) (ValueError ''CONNECT headers are too large'')) (\<lambda>_.
     io_lift (target_from_connect request)))"

definition find_upstream ::
  "pyrt \<Rightarrow> cred_env \<Rightarrow> handle_call \<Rightarrow> target \<Rightarrow> pool \<Rightarrow> cred_store \<Rightarrow> pool \<times> cred_store \<times> conn res" where
  "find_upstream rt env call target pool st =
     (case hc_attempts call of
        Inl e \<Rightarrow> (pool, st, Inl e)
      | Inr n \<Rightarrow>
          (case relay_attempts rt env target (map (hc_attempt call) [0..<nat n]) [] pool st of
             (pool, st, tried, r) \<Rightarrow> (pool, st, rbind r (\<lambda>c.
               of_option (OSError ''no upstream accepted the requested target'') c))))"

definition answer_error :: "exn \<Rightarrow> conn \<Rightarrow> conn \<times> relay_end" where
  "answer_error e client =
     (if handle_catches e then (snd (io_write bad_gateway client), BadGateway e) else (client, Escaped e))"

definition run_tunnel :: "pipe_run \<Rightarrow> conn \<Rightarrow> conn \<Rightarrow> conn \<times> relay_end" where
  "run_tunnel pipes upstream client =
     (case gather_pipes pipes of (sent, r, shut) \<Rightarrow>
      let client = snd (io_write (established @ sent) client) in
      case r of
        Inr _ \<Rightarrow> (client, Tunnelled upstream None)
      | Inl e \<Rightarrow> (if handle_catches e \<and> \<not> shut then snd (io_write bad_gateway client) else client,
                  Tunnelled upstream (Some e)))"

definition handle ::
  "pyrt \<Rightarrow> cred_env \<Rightarrow> handle_call \<Rightarrow> conn \<Rightarrow> pool \<Rightarrow> cred_store \<Rightarrow> pool \<times> cred_store \<times> conn \<times> relay_end" where
  "handle rt env call client pool st =
     (case read_request (hc_in_time call) client of
        (Inl e, client) \<Rightarrow> (pool, st, answer_error e client)
      | (Inr target, client) \<Rightarrow>
          (case find_upstream rt env call target pool st of
             (pool, st, Inl e) \<Rightarrow> (pool, st, answer_error e client)
           | (pool, st, Inr c) \<Rightarrow> (pool, st, run_tunnel (hc_pipes call) c client)))"

section \<open>Lemmas\<close>

subsection \<open>The attempts\<close>

text \<open>A candidate that was tried and accepted the tunnel for the target, in one attempt.\<close>

definition accepted_by ::
  "pyrt \<Rightarrow> cred_env \<Rightarrow> target \<Rightarrow> attempt \<Rightarrow> dict \<Rightarrow> conn \<Rightarrow> bool" where
  "accepted_by rt env target a candidate c \<longleftrightarrow>
     un_in_time (at_connect a)
     \<and> (\<exists>st st'. connect_upstream rt env (at_connect a) candidate target st = (st', Inr c))
     \<and> (if snd target = 53 then un_in_time (at_probe a)
          \<and> (\<exists>st st'. probe_dns_tcp rt env (at_probe a) (at_probe_call a) candidate target st = (st', Inr ()))
        else True)"

lemma wait_for_Inr [res_simps]: "wait_for b r = Inr x \<longleftrightarrow> b \<and> r = Inr x"
  by (simp add: wait_for_def)

lemma attempt_connect_Inr:
  "attempt_connect rt env a candidate target st = (st', Inr c) \<Longrightarrow> accepted_by rt env target a candidate c"
  by (auto simp: attempt_connect_def accepted_by_def wait_for_def split: prod.splits sum.splits if_splits)

lemma record_success [simp]: "snd (record_result rt now cooldown c port True p) = Inr ()"
  by (simp add: record_result_def Let_def)

text \<open>One attempt, by cases.\<close>

lemma relay_attempts_nobody:
  "pool_choose rt (at_choose a) (snd target) tried pool = (p, None)
   \<Longrightarrow> relay_attempts rt env target (a # as) tried pool st = (p, st, tried, Inr None)"
  by simp

lemma relay_attempts_escape:
  assumes "pool_choose rt (at_choose a) (snd target) tried pool = (p, Some candidate)"
    and "attempt_connect rt env a candidate target st = (st1, Inl x)"
    and "at_others a (p, st1) = (p2, st2)" and "\<not> attempt_catches x"
  shows "relay_attempts rt env target (a # as) tried pool st
    = (p2, st2, tried @ [pool_key rt candidate], Inl x)"
  using assms by simp

lemma relay_attempts_failure:
  assumes "pool_choose rt (at_choose a) (snd target) tried pool = (p, Some candidate)"
    and "attempt_connect rt env a candidate target st = (st1, Inl x)"
    and "at_others a (p, st1) = (p2, st2)" and "attempt_catches x"
  shows "relay_attempts rt env target (a # as) tried pool st =
    (case record_result rt (at_recorded a) (at_cooldown a) candidate (snd target) False p2 of
       (p3, Inl e) \<Rightarrow> (p3, st2, tried @ [pool_key rt candidate], Inl e)
     | (p3, Inr _) \<Rightarrow> relay_attempts rt env target as (tried @ [pool_key rt candidate]) p3 st2)"
  using assms by (simp add: Let_def)

lemma relay_attempts_connected:
  assumes "pool_choose rt (at_choose a) (snd target) tried pool = (p, Some candidate)"
    and "attempt_connect rt env a candidate target st = (st1, Inr c)"
    and "at_others a (p, st1) = (p2, st2)"
  shows "relay_attempts rt env target (a # as) tried pool st =
    (fst (record_result rt (at_recorded a) (at_cooldown a) candidate (snd target) True p2), st2,
     tried @ [pool_key rt candidate], Inr (Some c))"
  using assms by (simp add: record_result_def Let_def)

lemma relay_attempts_Cons_cases:
  assumes "relay_attempts rt env target (a # as) tried pool st = (pool', st', tried', r)"
  obtains (nobody) p where "pool_choose rt (at_choose a) (snd target) tried pool = (p, None)"
      "pool' = p" "tried' = tried" "r = Inr None"
  | (stopped) p candidate st1 x p2 e where
      "pool_choose rt (at_choose a) (snd target) tried pool = (p, Some candidate)"
      "attempt_connect rt env a candidate target st = (st1, Inl x)"
      "at_others a (p, st1) = (p2, st')"
      "tried' = tried @ [pool_key rt candidate]" "r = Inl e"
      "pool' = p2" "if attempt_catches x then at_cooldown a = Inl e else x = e"
  | (again) p candidate st1 x p2 st2 p3 where
      "pool_choose rt (at_choose a) (snd target) tried pool = (p, Some candidate)"
      "attempt_connect rt env a candidate target st = (st1, Inl x)" "attempt_catches x"
      "at_others a (p, st1) = (p2, st2)"
      "record_result rt (at_recorded a) (at_cooldown a) candidate (snd target) False p2 = (p3, Inr ())"
      "relay_attempts rt env target as (tried @ [pool_key rt candidate]) p3 st2 = (pool', st', tried', r)"
  | (connected) p candidate st1 c p2 where
      "pool_choose rt (at_choose a) (snd target) tried pool = (p, Some candidate)"
      "attempt_connect rt env a candidate target st = (st1, Inr c)"
      "at_others a (p, st1) = (p2, st')"
      "pool' = fst (record_result rt (at_recorded a) (at_cooldown a) candidate (snd target) True p2)"
      "tried' = tried @ [pool_key rt candidate]" "r = Inr (Some c)"
proof -
  obtain p ch where ch: "pool_choose rt (at_choose a) (snd target) tried pool = (p, ch)" by fastforce
  show thesis
  proof (cases ch)
    case None
    from relay_attempts_nobody [OF ch [unfolded None], of env as st] assms
    show thesis by (intro nobody [OF ch [unfolded None]]) (metis prod.inject)+
  next
    case (Some candidate)
    note ch = ch [unfolded Some]
    obtain st1 x where x: "attempt_connect rt env a candidate target st = (st1, x)" by fastforce
    obtain p2 st2 where o: "at_others a (p, st1) = (p2, st2)" by fastforce
    show thesis
    proof (cases x)
      case (Inr c)
      note eq = relay_attempts_connected [OF ch x [unfolded Inr] o, of as, unfolded assms]
      from eq o have "at_others a (p, st1) = (p2, st')" by (simp only: prod.inject)
      then show thesis by (rule connected [OF ch x [unfolded Inr]]) (use eq in \<open>simp_all only: prod.inject\<close>)
    next
      case (Inl e)
      show thesis
      proof (cases "attempt_catches e")
        case False
        note eq = relay_attempts_escape [OF ch x [unfolded Inl] o False, of as, unfolded assms]
        from eq o have "at_others a (p, st1) = (p2, st')" by (simp only: prod.inject)
        then show thesis
          by (rule stopped [OF ch x [unfolded Inl]]) (use eq False in \<open>simp_all only: prod.inject if_False\<close>)
      next
        case True
        note eq = relay_attempts_failure [OF ch x [unfolded Inl] o True, of as, unfolded assms]
        show thesis
        proof (cases "at_cooldown a")
          case (Inl y)
          then have "record_result rt (at_recorded a) (at_cooldown a) candidate (snd target) False p2 = (p2, Inl y)"
            by (simp add: record_result_def)
          note eq = eq [unfolded this prod.case sum.case]
          from eq o have "at_others a (p, st1) = (p2, st')" by (simp only: prod.inject)
          then show thesis
            by (rule stopped [OF ch x [unfolded \<open>x = Inl e\<close>]])
              (use eq True Inl in \<open>simp_all only: prod.inject if_True\<close>)
        next
          case (Inr sec)
          then obtain p3 where p3:
            "record_result rt (at_recorded a) (at_cooldown a) candidate (snd target) False p2 = (p3, Inr ())"
            by (simp add: record_result_def)
          note eq = eq [unfolded p3 prod.case sum.case]
          show thesis by (rule again [OF ch x [unfolded \<open>x = Inl e\<close>] True o p3 eq [symmetric]])
        qed
      qed
    qed
  qed
qed

declare relay_attempts.simps(2) [simp del]

text \<open>What an attempt leaves: at most one key more, and not one that was tried.\<close>

lemma relay_attempts_tried:
  assumes "relay_attempts rt env target as tried pool st = (pool', st', tried', r)"
  shows "\<exists>new. tried' = tried @ new \<and> length new \<le> length as \<and> distinct new \<and> set new \<inter> set tried = {}"
  using assms
proof (induction as arbitrary: tried pool st)
  case (Cons a as)
  have fresh: "pool_key rt candidate \<notin> set tried"
    if "pool_choose rt (at_choose a) (snd target) tried pool = (p, Some candidate)" for p candidate
    using choose_Some(1) [OF that] by (simp add: set_eligible)
  from Cons.prems show ?case
  proof (cases rule: relay_attempts_Cons_cases)
    case (stopped p candidate st1 x p2 e)
    with fresh [OF stopped(1)] show ?thesis by (intro exI [of _ "[pool_key rt candidate]"]) simp
  next
    case (again p candidate st1 x p2 st2 p3)
    from Cons.IH [OF again(6)] obtain new where new: "tried' = (tried @ [pool_key rt candidate]) @ new"
      "length new \<le> length as" "distinct new" "set new \<inter> set (tried @ [pool_key rt candidate]) = {}" by blast
    with fresh [OF again(1)] show ?thesis by (intro exI [of _ "pool_key rt candidate # new"]) auto
  next
    case (connected p candidate st1 c p2)
    with fresh [OF connected(1)] show ?thesis by (intro exI [of _ "[pool_key rt candidate]"]) simp
  qed simp
qed simp

lemma relay_attempts_accepted:
  assumes "relay_attempts rt env target as tried pool st = (pool', st', tried', Inr (Some c))"
  shows "\<exists>a \<in> set as. \<exists>candidate. accepted_by rt env target a candidate c \<and> tried' \<noteq> []
    \<and> last tried' = pool_key rt candidate"
  using assms
proof (induction as arbitrary: tried pool st)
  case (Cons a as)
  from Cons.prems show ?case
  proof (cases rule: relay_attempts_Cons_cases)
    case (again p candidate st1 x p2 st2 p3)
    from Cons.IH [OF again(6)] show ?thesis by auto
  next
    case (connected p candidate st1 c' p2)
    with attempt_connect_Inr [OF connected(2)] show ?thesis
      by (intro bexI [of _ a] exI [of _ candidate]) simp_all
  qed simp_all
qed simp

text \<open>
  Without interference of other connections, what the loop has recorded when it ends without an
  escaping exception: a failure of every candidate that did not give the connection, and none of
  the one that did.
\<close>

definition recorded :: "pool \<Rightarrow> nat \<Rightarrow> string list \<Rightarrow> bool" where
  "recorded pool port ks \<longleftrightarrow> list_all (\<lambda>k. pl_failures pool (k, port) \<noteq> None) ks"

lemma record_result_failures:
  "pl_failures (fst (record_result rt now cooldown c port success p)) =
     (if success then (pl_failures p)((pool_key rt c, port) := None)
      else (case cooldown of Inl _ \<Rightarrow> pl_failures p
            | Inr s \<Rightarrow> (pl_failures p)((pool_key rt c, port) \<mapsto> fadd now s)))"
  by (simp add: record_result_def Let_def split: sum.split)

lemma relay_attempts_recorded:
  assumes "relay_attempts rt env target as tried pool st = (pool', st', tried', Inr found)"
    and "list_all (\<lambda>a. at_others a = id) as" and "recorded pool (snd target) tried"
  shows "case found of
      None \<Rightarrow> recorded pool' (snd target) tried'
    | Some _ \<Rightarrow> recorded pool' (snd target) (butlast tried') \<and> pl_failures pool' (last tried', snd target) = None"
  using assms
proof (induction as arbitrary: tried pool st)
  case (Cons a as)
  let ?port = "snd target"
  from Cons.prems(1) show ?case
  proof (cases rule: relay_attempts_Cons_cases)
    case (nobody p)
    have "recorded pool' ?port tried"
      using choose_failures [OF nobody(1)] Cons.prems(3) nobody(2) by (simp add: recorded_def)
    with nobody(3,4) show ?thesis by simp
  next
    case (again p candidate st1 x p2 st2 p3)
    have "p2 = p" using again(4) Cons.prems(2) by simp
    moreover obtain sec where "at_cooldown a = Inr sec"
      using again(5) by (cases "at_cooldown a") (simp_all add: record_result_def)
    ultimately have f: "pl_failures p3 = (pl_failures pool)((pool_key rt candidate, ?port) \<mapsto> fadd (at_recorded a) sec)"
      using record_result_failures [of rt "at_recorded a" "at_cooldown a" candidate ?port False p2] again(5)
        choose_failures [OF again(1)] by simp
    have "recorded p3 ?port (tried @ [pool_key rt candidate])"
      using Cons.prems(3) by (auto simp: recorded_def f list_all_iff)
    from Cons.IH [OF again(6) _ this] Cons.prems(2) show ?thesis by simp
  next
    case (connected p candidate st1 c p2)
    have "p2 = p" using connected(3) Cons.prems(2) by simp
    then have f: "pl_failures pool' = (pl_failures pool)((pool_key rt candidate, ?port) := None)"
      using connected(4) choose_failures [OF connected(1)] by (simp add: record_result_failures)
    have "pool_key rt candidate \<notin> set tried"
      using choose_Some(1) [OF connected(1)] by (simp add: set_eligible)
    with Cons.prems(3) have "recorded pool' ?port tried"
      by (auto simp: recorded_def f list_all_iff)
    moreover have "pl_failures pool' (pool_key rt candidate, ?port) = None"
      by (simp add: f)
    moreover have "found = Some c" using connected(6) by simp
    ultimately show ?thesis unfolding connected(5) by simp
  qed simp_all
qed simp

subsection \<open>The tunnels\<close>

definition relay_login_bytes :: "auth \<Rightarrow> string" where
  "relay_login_bytes auth =
     (case auth of
        None \<Rightarrow> []
      | Some (u, p) \<Rightarrow> byte 1 @ byte (length (utf8 u)) @ utf8 u @ byte (length (utf8 p)) @ utf8 p)"

text \<open>Everything a client has to send for a tunnel to the target, by protocol.\<close>

definition tunnel_request :: "pyrt \<Rightarrow> string \<Rightarrow> target \<Rightarrow> auth \<Rightarrow> string res" where
  "tunnel_request rt protocol target auth =
     (if protocol \<in> {''http'', ''https''} then Inr (relay_connect_bytes target auth)
      else if protocol = ''socks5'' then
        rbind (relay_socks5_address rt (fst target)) (\<lambda>a.
        Inr (relay_greeting auth @ relay_login_bytes auth
          @ byte 5 @ byte 1 @ byte 0 @ a @ be16 (snd target)))
      else if protocol = ''socks4'' then
        (let username = (case auth of Some (u, _) \<Rightarrow> utf8 u | None \<Rightarrow> []);
             ask = (\<lambda>a suffix. byte 4 @ byte 1 @ be16 (snd target) @ a @ username @ byte 0 @ suffix) in
         case inet_aton (fst target) of
           Some a \<Rightarrow> Inr (ask a [])
         | None \<Rightarrow> rbind (idna_encode rt (fst target)) (\<lambda>h.
             Inr (ask (byte 0 @ byte 0 @ byte 0 @ byte 1) (h @ byte 0))))
      else Inl (ValueError ''unsupported upstream protocol''))"

lemma relay_login_Inr:
  assumes "relay_socks5_login u p c = (Inr (), c')" and "\<not> cn_secure c"
  shows "cn_out c' = cn_out c @ byte 1 @ byte (length u) @ u @ byte (length p) @ p \<and> \<not> cn_secure c'"
proof -
  from assms(1) obtain c1 s where w: "io_write (byte 1 @ byte (length u) @ u @ byte (length p) @ p) c = (Inr (), c1)"
    and r: "readexactly 2 c1 = (Inr s, c')"
    by (auto simp: relay_socks5_login_def io_simps io_ensure_Inr)
  have "silent (readexactly 2)" by simp
  from silentD [OF this r] io_write_Inr [OF w assms(2)] assms(2) show ?thesis by simp
qed

lemma relay_http_success:
  assumes "\<not> cn_secure c" and "relay_http target auth c = (Inr (), c')"
  shows "cn_out c' = cn_out c @ relay_connect_bytes target auth"
proof -
  from assms(2) obtain c1 reply where w: "io_write (relay_connect_bytes target auth) c = (Inr (), c1)"
    and r: "readuntil STREAM_LIMIT (CRLF @ CRLF) c1 = (Inr reply, c')"
    by (auto simp: relay_http_def io_simps io_ensure_Inr)
  have "silent (readuntil STREAM_LIMIT (CRLF @ CRLF))" by simp
  from silentD(1) [OF this r] io_write_Inr [OF w assms(1)] show ?thesis by simp
qed

lemma relay_socks5_success:
  assumes "\<not> cn_secure c" and "relay_socks5 rt target auth c = (Inr (), c')"
  shows "\<exists>a. relay_socks5_address rt (fst target) = Inr a
    \<and> cn_out c' = cn_out c @ relay_greeting auth @ relay_login_bytes auth
        @ byte 5 @ byte 1 @ byte 0 @ a @ be16 (snd target)"
proof -
  let ?login = "case auth of Some (u, p) \<Rightarrow> relay_socks5_login (utf8 u) (utf8 p) | None \<Rightarrow> io_return ()"
  from assms(2) obtain c1 s1 c2 c3 a c4 s4 c5 where
    w: "io_write (relay_greeting auth) c = (Inr (), c1)" and r: "readexactly 2 c1 = (Inr s1, c2)"
    and l: "?login c2 = (Inr (), c3)" and a: "relay_socks5_address rt (fst target) = Inr a"
    and w2: "io_write (byte 5 @ byte 1 @ byte 0 @ a @ be16 (snd target)) c3 = (Inr (), c4)"
    and r2: "readexactly 4 c4 = (Inr s4, c5)" and b: "socks5_bind_address (code (s4 ! 3)) c5 = (Inr (), c')"
    unfolding relay_socks5_def Let_def io_bind_eq_Inr io_lift_eq io_ensure_Inr by auto
  have sl: "silent (readexactly n)" for n by simp
  note c1 = io_write_Inr [OF w assms(1)]
  have o2: "cn_out c2 = cn_out c @ relay_greeting auth" "\<not> cn_secure c2"
    using silentD [OF sl r] assms(1) by (simp_all add: c1)
  have o3: "cn_out c3 = cn_out c2 @ relay_login_bytes auth \<and> \<not> cn_secure c3"
  proof (cases auth)
    case None
    with l o2 show ?thesis by (simp add: io_return_def relay_login_bytes_def)
  next
    case (Some up)
    obtain u p where up: "up = (u, p)" by fastforce
    with l Some have "relay_socks5_login (utf8 u) (utf8 p) c2 = (Inr (), c3)" by simp
    from relay_login_Inr [OF this o2(2)] show ?thesis using Some up by (simp add: relay_login_bytes_def)
  qed
  from io_write_Inr [OF w2] o3
  have c4: "c4 = c3\<lparr>cn_out := cn_out c3 @ byte 5 @ byte 1 @ byte 0 @ a @ be16 (snd target)\<rparr>" by blast
  have "cn_out c' = cn_out c4"
    using silentD(1) [OF socks5_bind_silent b] silentD(1) [OF sl r2] by simp
  then show ?thesis using a o2 o3 c4 by simp
qed

lemma relay_socks4_success:
  assumes "\<not> cn_secure c" and "relay_socks4 rt target auth c = (Inr (), c')"
  shows "\<exists>request. tunnel_request rt ''socks4'' target auth = Inr request \<and> cn_out c' = cn_out c @ request"
proof -
  let ?user = "case auth of Some (u, _) \<Rightarrow> utf8 u | None \<Rightarrow> []"
  from assms(2) obtain a suffix c1 s where
    a: "(case inet_aton (fst target) of
            Some a \<Rightarrow> Inr (a, [])
          | None \<Rightarrow> rbind (idna_encode rt (fst target)) (\<lambda>h.
              Inr (byte 0 @ byte 0 @ byte 0 @ byte 1, h @ byte 0))) = Inr (a, suffix)"
    and w: "io_write (byte 4 @ byte 1 @ be16 (snd target) @ a @ ?user @ byte 0 @ suffix) c = (Inr (), c1)"
    and r: "readexactly 8 c1 = (Inr s, c')"
    unfolding relay_socks4_def Let_def io_bind_eq_Inr io_lift_eq io_ensure_Inr rbind_eq_Inr
    by (auto simp: io_bind_eq_Inr io_ensure_Inr)
  have sl: "silent (readexactly 8)" by simp
  have "tunnel_request rt ''socks4'' target auth
      = Inr (byte 4 @ byte 1 @ be16 (snd target) @ a @ ?user @ byte 0 @ suffix)"
  proof (cases "inet_aton (fst target)")
    case None
    with a show ?thesis by (auto simp: tunnel_request_def Let_def rbind_eq_Inr)
  next
    case (Some b)
    with a show ?thesis by (simp add: tunnel_request_def Let_def)
  qed
  with silentD(1) [OF sl r] io_write_Inr [OF w assms(1)] show ?thesis by simp
qed

subsection \<open>The request line\<close>

lemma split_at_CRLF: "CR \<notin> set a \<Longrightarrow> split_at CRLF (a @ CRLF @ b) = Some (a, b)"
  by (induction a) (auto simp: CRLF_eq)

lemma first_line_CRLF: "CR \<notin> set a \<Longrightarrow> first_line (a @ CRLF @ b) = a"
  by (simp add: first_line_def split_at_CRLF)

lemma target_of_authority_Some:
  assumes "target_of_authority s = Some (h, p)"
  shows "h \<noteq> [] \<and> 1 \<le> p \<and> p \<le> 65535 \<and> set h \<subseteq> set s"
proof -
  have inner: "set (butlast (tl a)) \<subseteq> set a" for a :: string
    by (cases a) (auto dest: in_set_butlastD)
  show ?thesis
    using assms inner
    by (fastforce simp: target_of_authority_def rsplit1_Some Let_def split: option.splits if_splits)
qed

lemma split_on_subset: "p \<in> set (split_on c s) \<Longrightarrow> set p \<subseteq> set s"
proof (induction s arbitrary: p)
  case (Cons d s)
  obtain q qs where q: "split_on c s = q # qs" by (cases "split_on c s") simp_all
  from Cons.IH q have "set r \<subseteq> set s" if "r \<in> set (q # qs)" for r using that by metis
  then have "set q \<subseteq> set s" "\<And>r. r \<in> set qs \<Longrightarrow> set r \<subseteq> set s" by simp_all
  with Cons.prems q show ?case by (fastforce split: if_splits)
qed simp

lemma target_from_connect_Inr:
  assumes "target_from_connect header = Inr (h, p)"
  shows "h \<noteq> [] \<and> 1 \<le> p \<and> p \<le> 65535 \<and> list_all is_ascii h \<and> CHR '' '' \<notin> set h"
proof -
  let ?line = "first_line header"
  have ascii: "list_all is_ascii ?line"
    using assms by (simp add: target_from_connect_def Let_def of_option_eq_Inr split: if_splits)
  with assms obtain hostport where s: "hostport \<in> set (split_on CHR '' '' ?line)"
    and t: "target_of_authority hostport = Some (h, p)"
    by (auto simp: target_from_connect_def Let_def of_option_eq_Inr split: list.splits if_splits)
  have "set hostport \<subseteq> set ?line"
    using s by (rule split_on_subset)
  with ascii target_of_authority_Some [OF t] split_on_parts [OF s] show ?thesis
    by (auto simp: list_all_iff)
qed

text \<open>A character that may stand in the authority of a request line.\<close>

definition line_char :: "char \<Rightarrow> bool" where
  "line_char c \<longleftrightarrow> is_ascii c \<and> c \<noteq> CHR '' '' \<and> c \<noteq> CR"

lemma line_char_brackets [simp]: "line_char CHR ''[''" "line_char CHR '']''" "line_char CHR '':''"
  by (simp_all add: line_char_def is_ascii_def CR_def)

lemma hexchar_line_char: "is_hexchar c \<Longrightarrow> line_char c \<and> c \<noteq> CHR '':''"
  by (auto simp: is_hexchar_def line_char_def is_ascii_def CR_def)

lemma dec_line_char: "list_all line_char (dec n) \<and> CHR '':'' \<notin> set (dec n)"
  using dec_chars hexchar_line_char unfolding list_all_iff by blast

lemma line_chars:
  assumes "list_all line_char s"
  shows "list_all is_ascii s" and "CHR '' '' \<notin> set s" and "CR \<notin> set s"
  using assms by (auto simp: list_all_iff line_char_def)

text \<open>The CONNECT line of a text and a port, which the relay reads without its brackets.\<close>

lemma connect_line_target:
  assumes ok: "list_all line_char written" and port: "1 \<le> port" "port \<le> 65535" and host: "host \<noteq> []"
    and unbracket: "(if starts_with ''['' written \<and> ends_with '']'' written then butlast (tl written) else written) = host"
  shows "target_from_connect (''CONNECT '' @ written @ '':'' @ dec port @ '' HTTP/1.1'' @ CRLF @ rest) = Inr (host, port)"
proof -
  let ?authority = "written @ '':'' @ dec port"
  let ?line = "''CONNECT '' @ ?authority @ '' HTTP/1.1''"
  have ok: "list_all line_char ?authority"
    using ok dec_line_char by simp
  have "CR \<notin> set ?line" using line_chars(3) [OF ok] by (simp add: CR_def)
  from first_line_CRLF [OF this, of rest]
  have line: "first_line (''CONNECT '' @ written @ '':'' @ dec port @ '' HTTP/1.1'' @ CRLF @ rest) = ?line"
    by (simp only: append_assoc)
  have ascii: "list_all is_ascii ?line"
    using line_chars(1) [OF ok] by (simp add: is_ascii_def)
  note hp = split_on_append [OF line_chars(2) [OF ok], of "''HTTP/1.1''"]
  have parts: "split_on CHR '' '' ?line = [''CONNECT'', ?authority, ''HTTP/1.1'']"
    using split_on_append [of "CHR '' ''" "''CONNECT''" "?authority @ '' HTTP/1.1''"] hp
    by simp
  have "rsplit1 CHR '':'' (written @ '':'' @ dec port) = Some (written, dec port)"
    using rsplit1_append [of "CHR '':''" "dec port" "written"] dec_line_char by simp
  with unbracket host port have "target_of_authority (written @ '':'' @ dec port) = Some (host, port)"
    by (simp add: target_of_authority_def Let_def del: Int.nat_le_eq_zle)
  then show ?thesis unfolding target_from_connect_def Let_def line parts using ascii by simp
qed

section \<open>Properties\<close>

text \<open>
  C9. The relay reads what redsocks writes: the CONNECT line for a host and a port (an IPv6
  literal in brackets) gives back that host and that port, whatever headers follow.
\<close>

theorem target_from_connect_roundtrip:
  assumes "host \<noteq> []" and "list_all line_char host"
    and "\<not> (starts_with ''['' host \<and> ends_with '']'' host)" and "1 \<le> port" and "port \<le> 65535"
  shows "target_from_connect (''CONNECT '' @ bracket_host host @ '':'' @ dec port @ '' HTTP/1.1'' @ CRLF @ rest)
    = Inr (host, port)"
  using assms by (intro connect_line_target) (auto simp: bracket_host_def ends_with_def)

lemma target_from_connect_roundtrip_witness:
  "target_from_connect (''CONNECT [::1]:443 HTTP/1.1'' @ CRLF @ CRLF) = Inr (''::1'', 443)"
  using target_from_connect_roundtrip [of "''::1''" 443 "CRLF"]
  by (simp add: line_char_def is_ascii_def CR_def bracket_host_def ends_with_def digits.simps hexdigit_def)

text \<open>
  C6. A tunnel is complete: when the handshake with a candidate succeeds, the bytes sent are
  exactly the request of its protocol for the target (for SOCKS5: greeting, login and CONNECT in
  this order); and a SOCKS5 proxy that does not select the required method has seen only the
  greeting, never the user name or the password.
\<close>

theorem relay_tunnel_request:
  assumes "\<not> cn_secure c" and "relay_tunnel rt protocol target auth c = (r, c')"
  shows "(r = Inr () \<longrightarrow> (\<exists>request. tunnel_request rt protocol target auth = Inr request
           \<and> cn_out c' = cn_out c @ request))
    \<and> (protocol = ''socks5'' \<longrightarrow> take 2 (cn_in c) \<noteq> byte 5 @ (case auth of Some _ \<Rightarrow> byte 2 | None \<Rightarrow> byte 0)
         \<longrightarrow> cn_out c' = cn_out c @ relay_greeting auth)"
proof -
  have "\<exists>request. tunnel_request rt protocol target auth = Inr request \<and> cn_out c' = cn_out c @ request"
    if "r = Inr ()"
  proof -
    have run: "relay_tunnel rt protocol target auth c = (Inr (), c')" using assms(2) that by simp
    consider "protocol \<in> {''http'', ''https''}" | "protocol = ''socks5''" | "protocol = ''socks4''"
      using run by (auto simp: relay_tunnel_def io_raise_eq split: if_splits)
    then show ?thesis
    proof cases
      case 1
      with run relay_http_success [OF assms(1)] show ?thesis
        by (auto simp: relay_tunnel_def tunnel_request_def)
    next
      case 2
      with run relay_socks5_success [OF assms(1)] show ?thesis
        by (fastforce simp: relay_tunnel_def tunnel_request_def)
    next
      case 3
      with run relay_socks4_success [OF assms(1)] show ?thesis
        by (simp add: relay_tunnel_def)
    qed
  qed
  moreover have "cn_out c' = cn_out c @ relay_greeting auth"
    if "protocol = ''socks5''" "take 2 (cn_in c) \<noteq> byte 5 @ (case auth of Some _ \<Rightarrow> byte 2 | None \<Rightarrow> byte 0)"
  proof -
    have "relay_socks5 rt target auth c = (r, c')" using assms(2) that(1) by (simp add: relay_tunnel_def)
    from negotiation_guard [OF assms(1) this [unfolded relay_socks5_def]] that(2) show ?thesis by blast
  qed
  ultimately show ?thesis by blast
qed

lemma relay_tunnel_request_witness:
  "cn_out (snd (relay_tunnel plain_rt ''socks5'' (''host'', 443) (Some (''user'', ''secret'')) (sample_conn (byte 5 @ byte 255))))
   = byte 5 @ byte 2 @ byte 0 @ byte 2"
proof -
  let ?c = "sample_conn (byte 5 @ byte 255)"
  obtain r c' where rc: "relay_tunnel plain_rt ''socks5'' (''host'', 443) (Some (''user'', ''secret'')) ?c = (r, c')"
    by fastforce
  have "\<not> cn_secure ?c" by (simp add: sample_conn_def)
  from relay_tunnel_request [OF this rc] rc show ?thesis
    by (simp add: sample_conn_def byte_def relay_greeting_def)
qed

text \<open>
  C2. The attempts of a connection are bounded and never repeat a candidate, whatever the other
  connections do to the pool in the meantime; a connection that is found was accepted by the last
  candidate tried, after its DNS probe when the port is 53; and without interference every
  candidate that failed is left with a recorded failure, the one that succeeded with none.
\<close>

theorem relay_attempts_sound:
  assumes "relay_attempts rt env target as [] pool st = (pool', st', tried, Inr found)"
  shows "distinct tried \<and> length tried \<le> length as
    \<and> (case found of
         None \<Rightarrow> True
       | Some c \<Rightarrow> \<exists>a \<in> set as. \<exists>candidate. accepted_by rt env target a candidate c
           \<and> tried \<noteq> [] \<and> last tried = pool_key rt candidate)
    \<and> (list_all (\<lambda>a. at_others a = id) as \<longrightarrow>
         (case found of
            None \<Rightarrow> recorded pool' (snd target) tried
          | Some _ \<Rightarrow> recorded pool' (snd target) (butlast tried)
              \<and> pl_failures pool' (last tried, snd target) = None))"
proof -
  have "case found of
         None \<Rightarrow> True
       | Some c \<Rightarrow> \<exists>a \<in> set as. \<exists>candidate. accepted_by rt env target a candidate c
           \<and> tried \<noteq> [] \<and> last tried = pool_key rt candidate"
    using relay_attempts_accepted assms by (cases found) simp_all
  moreover have "case found of
            None \<Rightarrow> recorded pool' (snd target) tried
          | Some _ \<Rightarrow> recorded pool' (snd target) (butlast tried)
              \<and> pl_failures pool' (last tried, snd target) = None"
    if "list_all (\<lambda>a. at_others a = id) as"
    by (rule relay_attempts_recorded [OF assms that]) (simp add: recorded_def)
  ultimately show ?thesis using relay_attempts_tried [OF assms] by auto
qed

lemma silent_read_request: "silent (read_request b)"
  unfolding read_request_def by (intro silent_bind silent_timed) simp_all

lemma read_request_Inr:
  assumes "read_request b c = (Inr target, c')"
  shows "fst target \<noteq> [] \<and> 1 \<le> snd target \<and> snd target \<le> 65535"
proof -
  from assms obtain request where "target_from_connect request = Inr target"
    unfolding read_request_def io_bind_eq_Inr io_lift_eq by blast
  then show ?thesis using target_from_connect_Inr [of request "fst target" "snd target"] by simp
qed

lemma find_upstream_accepted:
  assumes "find_upstream rt env call target pool st = (pool', st', Inr c)"
  shows "\<exists>i candidate. accepted_by rt env target (hc_attempt call i) candidate c"
proof -
  from assms obtain n where n: "hc_attempts call = Inr n"
    by (cases "hc_attempts call") (simp_all add: find_upstream_def)
  obtain p s tried r where r: "relay_attempts rt env target (map (hc_attempt call) [0..<nat n]) [] pool st = (p, s, tried, r)"
    by (metis prod_cases4)
  with assms n have "r = Inr (Some c)"
    by (auto simp: find_upstream_def rbind_eq_Inr of_option_eq_Inr)
  with r relay_attempts_accepted [of rt env target "map (hc_attempt call) [0..<nat n]" "[]" pool st p s tried c]
  show ?thesis by auto
qed

text \<open>
  C1. The answer of the relay: the client gets the 200 line only after some candidate accepted a
  tunnel for exactly the target that it asked for, in time; otherwise it gets the 502 answer and
  nothing else, or, when the handler dies from an exception it does not handle, nothing at all.
\<close>

theorem relay_answers:
  assumes "handle rt env call client pool st = (pool', st', client', result)" and "\<not> cn_secure client"
  shows "case result of
      Tunnelled c e \<Rightarrow> \<exists>target i candidate sent. fst (read_request (hc_in_time call) client) = Inr target
        \<and> 1 \<le> snd target \<and> snd target \<le> 65535
        \<and> accepted_by rt env target (hc_attempt call i) candidate c
        \<and> cn_out client' = cn_out client @ established @ sent
    | BadGateway e \<Rightarrow> handle_catches e \<and> cn_out client' = cn_out client @ bad_gateway
    | Escaped e \<Rightarrow> \<not> handle_catches e \<and> cn_out client' = cn_out client"
proof -
  obtain q c1 where q: "read_request (hc_in_time call) client = (q, c1)" by fastforce
  note quiet = silentD [OF silent_read_request q]
  have error: "case result of BadGateway e \<Rightarrow> handle_catches e \<and> cn_out client' = cn_out client @ bad_gateway
      | Escaped e \<Rightarrow> \<not> handle_catches e \<and> cn_out client' = cn_out client | _ \<Rightarrow> False"
    if "answer_error e c1 = (client', result)" for e
    using that quiet assms(2) by (auto simp: answer_error_def io_write_def split: if_splits)
  show ?thesis
  proof (cases q)
    case (Inl e)
    with assms(1) q have "answer_error e c1 = (client', result)" by (simp add: handle_def)
    from error [OF this] show ?thesis by (cases result) simp_all
  next
    case (Inr target)
    obtain p s f where f: "find_upstream rt env call target pool st = (p, s, f)" by (metis prod_cases3)
    show ?thesis
    proof (cases f)
      case (Inl e)
      with assms(1) q Inr f have "answer_error e c1 = (client', result)" by (simp add: handle_def)
      from error [OF this] show ?thesis by (cases result) simp_all
    next
      case (Inr c)
      with assms(1) q \<open>q = Inr target\<close> f have run: "run_tunnel (hc_pipes call) c c1 = (client', result)"
        by (simp add: handle_def)
      then have "(\<exists>e. result = Tunnelled c e) \<and> (\<exists>sent. cn_out client' = cn_out c1 @ established @ sent)"
        using quiet(3) assms(2)
        by (auto simp: run_tunnel_def Let_def io_write_def split: prod.splits sum.splits if_splits)
      with q \<open>q = Inr target\<close> quiet(1) read_request_Inr [of "hc_in_time call" client target c1]
        find_upstream_accepted [of rt env call target pool st p s c] f Inr
      show ?thesis by fastforce
    qed
  qed
qed

text \<open>
  An upstream that closes its connection during the handshake is not one of the errors that the
  loop handles: the connection ends with \<open>IncompleteReadError\<close> after this one candidate, and no
  failure of it is recorded.
\<close>

lemma incomplete_read_ends_relay:
  assumes "pool_choose rt (at_choose a) (snd target) [] pool = (p, Some candidate)"
    and "attempt_connect rt env a candidate target st = (st1, Inl IncompleteReadError)"
    and "at_others a = id"
  shows "relay_attempts rt env target (a # as) [] pool st
      = (p, st1, [pool_key rt candidate], Inl IncompleteReadError)
    \<and> pl_failures p = pl_failures pool"
proof -
  have "at_others a (p, st1) = (p, st1)" using assms(3) by simp
  moreover have "\<not> attempt_catches IncompleteReadError" by (simp add: attempt_catches_def)
  ultimately show ?thesis
    using relay_attempts_escape [OF assms(1,2)] choose_failures [OF assms(1)] by simp
qed

lemma closed_upstream_incomplete:
  assumes "cn_in c = []" and "cn_exc c = None" and "\<not> cn_secure c"
  shows "fst (relay_tunnel rt ''http'' target auth c) = Inl IncompleteReadError
    \<and> fst (relay_tunnel rt ''socks5'' target auth c) = Inl IncompleteReadError"
  using assms by (simp add: relay_tunnel_def relay_http_def relay_socks5_def io_bind_def io_write_def
      readuntil_def readexactly_def short_read_def CRLF_def STREAM_LIMIT_def)

text \<open>
  When the pipe to the upstream fails first, the answer for an error is written into the tunnel.
\<close>

lemma bad_gateway_inside_tunnel:
  "cn_out (fst (run_tunnel \<lparr>pr_up = [Inl (OSError ''reset'')], pr_up_drain = \<lambda>_. Inr (),
      pr_down = [Inr ''data''], pr_down_drain = \<lambda>_. Inr (), pr_up_first = Some 1\<rparr> upstream
      (sample_conn []))) = established @ ''data'' @ bad_gateway"
  by (simp add: run_tunnel_def gather_pipes_def io_write_def sample_conn_def handle_catches_def)

text \<open>Whatever a pipe has sent is a beginning of what it read, and all of it when it ended well.\<close>

fun read_data :: "string res list \<Rightarrow> string" where
  "read_data (Inr data # reads) = (if data = [] then [] else data @ read_data reads)"
| "read_data _ = []"

lemma pipe_sent:
  "pipe reads drain sent = (sent', r) \<Longrightarrow>
    \<exists>rest. sent @ read_data reads = sent' @ rest \<and> (r = Inr () \<longrightarrow> rest = [])"
  by (induction reads drain sent rule: pipe.induct) (auto split: if_splits sum.splits)

section \<open>A concrete connection\<close>

definition relay_candidate :: dict where
  "relay_candidate = [(''address'', JStr ''http://a:1''), (''endpoint'', JStr ''a:1''), (''protocol'', JStr ''http''),
     (''host'', JStr ''a''), (''port'', JInt 1)]"

definition relay_pool :: pool where
  "relay_pool = (pool_init 150)\<lparr>pl_entries := [JObj relay_candidate]\<rparr>"

definition ok_reply :: string where
  "ok_reply = ''HTTP/1.1 200 OK'' @ CRLF @ CRLF"

definition ok_net :: upstream_net where
  "ok_net = \<lparr>un_now = 0, un_file = Inr [], un_tls_now = 0, un_tls_file = Inr [],
     un_dial = (\<lambda>_ _ _. Inr (sample_conn ok_reply)), un_in_time = True\<rparr>"

definition ok_attempt :: attempt where
  "ok_attempt = \<lparr>at_choose = call_at 1, at_probe = ok_net,
     at_probe_call = \<lparr>pc_query_id = ''id'', pc_timeout = Inr 8, pc_length_in_time = True,
       pc_response_in_time = True, pc_closed = Inr ()\<rparr>,
     at_connect = ok_net, at_others = id, at_recorded = 1, at_cooldown = Inr 300\<rparr>"

definition ok_call :: handle_call where
  "ok_call = \<lparr>hc_in_time = True, hc_attempts = Inr 8, hc_attempt = (\<lambda>_. ok_attempt),
     hc_pipes = \<lparr>pr_up = [], pr_up_drain = (\<lambda>_. Inr ()), pr_down = [Inr ''data''],
       pr_down_drain = (\<lambda>_. Inr ()), pr_up_first = None\<rparr>\<rparr>"

definition client_request :: string where
  "client_request = ''CONNECT '' @ bracket_host ''b'' @ '':'' @ dec 443 @ '' HTTP/1.1'' @ CRLF @ CRLF"

lemma ok_choose:
  "pool_choose plain_rt (at_choose ok_attempt) 443 [] relay_pool
   = (relay_pool\<lparr>pl_index := 1\<rparr>, Some relay_candidate)"
proof -
  have "eligible_candidates plain_rt relay_pool 443 [] 1 = [relay_candidate]"
    by (simp add: eligible_candidates_def cooled_down_def relay_pool_def pool_init_def)
  then have "quiet plain_rt relay_pool 443 [] [relay_candidate] (call_at 1)"
    using fl_of_int [of 1] by (simp add: quiet_def relay_pool_def pool_init_def call_at_def fadd_def)
  from quiet_choose [OF this] show ?thesis
    by (simp add: ok_attempt_def relay_pool_def pool_init_def)
qed

lemma ok_tunnel:
  "relay_http (''b'', 443) None (sample_conn ok_reply) =
    (Inr (), (sample_conn ok_reply)\<lparr>cn_in := [], cn_out := relay_connect_bytes (''b'', 443) None\<rparr>)"
  by (simp add: relay_http_def io_bind_def io_write_def sample_conn_def ok_reply_def readuntil_def CRLF_def
      STREAM_LIMIT_def take_in_def io_ensure_def io_return_def first_line_def)

lemma ok_connect:
  "attempt_connect plain_rt demo_env ok_attempt relay_candidate (''b'', 443) demo_store
   = (demo_store, Inr ((sample_conn ok_reply)\<lparr>cn_in := [], cn_out := relay_connect_bytes (''b'', 443) None\<rparr>))"
  by (simp add: attempt_connect_def connect_upstream_def upstream_address_def item_def relay_candidate_def
      get_def get_default_def or_else_def relay_credential_def cred_get_def ok_attempt_def ok_net_def wait_for_def
      open_tunnel_def relay_tunnel_def ok_tunnel)

lemma ok_attempts:
  "relay_attempts plain_rt demo_env (''b'', 443) (ok_attempt # as) [] relay_pool demo_store =
    (fst (record_result plain_rt 1 (Inr 300) relay_candidate 443 True (relay_pool\<lparr>pl_index := 1\<rparr>)),
     demo_store, [pool_key plain_rt relay_candidate],
     Inr (Some ((sample_conn ok_reply)\<lparr>cn_in := [], cn_out := relay_connect_bytes (''b'', 443) None\<rparr>)))"
  by (subst relay_attempts_connected [OF _ ok_connect])
    (use ok_choose in \<open>simp_all add: ok_attempt_def\<close>)

lemma relay_attempts_sound_witness:
  "\<exists>pool' st' tried c. relay_attempts plain_rt demo_env (''b'', 443) [ok_attempt] [] relay_pool demo_store
      = (pool', st', tried, Inr (Some c)) \<and> distinct tried \<and> length tried \<le> 1
    \<and> pl_failures pool' (last tried, 443) = None"
proof -
  have "list_all (\<lambda>a. at_others a = id) [ok_attempt]" by (simp add: ok_attempt_def)
  with relay_attempts_sound [OF ok_attempts [of "[]"]] show ?thesis
    unfolding ok_attempts by simp
qed

lemma ok_request:
  "read_request True (sample_conn client_request) = (Inr (''b'', 443), (sample_conn client_request)\<lparr>cn_in := []\<rparr>)"
proof -
  have r: "readuntil MAX_HEADERS (CRLF @ CRLF) (sample_conn client_request)
    = (Inr client_request, (sample_conn client_request)\<lparr>cn_in := []\<rparr>)"
    by (simp add: client_request_def sample_conn_def readuntil_def CRLF_def MAX_HEADERS_def take_in_def
      bracket_host_def digits.simps hexdigit_def)
  have "target_from_connect client_request = Inr (''b'', 443)"
    unfolding client_request_def
    by (rule target_from_connect_roundtrip) (simp_all add: line_char_def is_ascii_def CR_def)
  moreover have "length client_request \<le> MAX_HEADERS"
    by (simp add: client_request_def MAX_HEADERS_def CRLF_def bracket_host_def digits.simps)
  ultimately show ?thesis
    using r by (simp add: read_request_def timed_def io_bind_def io_ensure_def io_return_def io_lift_def)
qed

lemma relay_answers_witness:
  "\<exists>pool' st' client' c e. handle plain_rt demo_env ok_call (sample_conn client_request) relay_pool demo_store
      = (pool', st', client', Tunnelled c e) \<and> (\<exists>sent. cn_out client' = established @ sent)"
proof -
  have up: "map (hc_attempt ok_call) [0..<8] = ok_attempt # map (hc_attempt ok_call) [1..<8]"
    by (simp add: ok_call_def upt_conv_Cons)
  obtain pool' st' client' c e where h:
    "handle plain_rt demo_env ok_call (sample_conn client_request) relay_pool demo_store
      = (pool', st', client', Tunnelled c e)"
  proof -
    assume *: thesis if "handle plain_rt demo_env ok_call (sample_conn client_request) relay_pool demo_store
      = (pool', st', client', Tunnelled c e)" for pool' st' client' c e
    have n: "hc_in_time ok_call = True" "hc_attempts ok_call = Inr 8" by (simp_all add: ok_call_def)
    obtain p s k where "find_upstream plain_rt demo_env ok_call (''b'', 443) relay_pool demo_store = (p, s, Inr k)"
      using up ok_attempts [of "map (hc_attempt ok_call) [1..<8]"] n
      by (simp add: find_upstream_def)
    then have "handle plain_rt demo_env ok_call (sample_conn client_request) relay_pool demo_store
      = (p, s, run_tunnel (hc_pipes ok_call) k ((sample_conn client_request)\<lparr>cn_in := []\<rparr>))"
      by (simp add: handle_def n ok_request)
    with * show thesis
      by (simp add: run_tunnel_def gather_pipes_def ok_call_def Let_def)
  qed
  have "\<not> cn_secure (sample_conn client_request)" by (simp add: sample_conn_def)
  from relay_answers [OF h this] h show ?thesis by (auto simp: sample_conn_def)
qed

end
