(* ===== verification/Dns_Relays.thy ===== *)
theory Dns_Relays
  imports Py_Stream "HOL-Library.Multiset"
begin

text \<open>
  The two DNS relays of \<open>gateway/\<close>: \<open>udp2tcp_dns.py\<close>, which answers intercepted UDP queries over
  TCP from the server the client asked, and \<open>doh_dns.py\<close>, which forwards them over HTTPS. Both
  serve datagrams in tasks under a semaphore; \<open>relay_step\<close> is that life of a relay, for any way
  of admitting a packet and serving a job. The socket calls, the TLS library and \<open>http.client\<close>
  are arguments.
\<close>

section \<open>The original destination of a packet\<close>

definition IP_ORIGDSTADDR :: int where "IP_ORIGDSTADDR = 20"
definition IP_PKTINFO :: int where "IP_PKTINFO = 8"
definition SOL_IP :: int where "SOL_IP = 0"
definition AF_INET :: nat where "AF_INET = 2"

type_synonym cmsg = "int \<times> int \<times> string"

definition of_be32 :: "string \<Rightarrow> nat" where
  "of_be32 s = of_be16 (take 2 s) * 65536 + of_be16 (drop 2 s)"

text \<open>\<open>struct.unpack("=H", s)\<close> in the byte order of the machine.\<close>

definition native16 :: "bool \<Rightarrow> string \<Rightarrow> nat" where
  "native16 little s = of_be16 (if little then rev s else s)"

fun orig_dst :: "bool \<Rightarrow> cmsg list \<Rightarrow> (string \<times> nat) option" where
  "orig_dst little [] = None"
| "orig_dst little ((level, kind, data) # ancillary) =
     (if level = SOL_IP \<and> kind = IP_ORIGDSTADDR \<and> 8 \<le> length data
         \<and> native16 little (take 2 data) = AF_INET
      then Some (ipv4_str (of_be32 (take 4 (drop 4 data))), of_be16 (take 2 (drop 2 data)))
      else orig_dst little ancillary)"

fun pkt_info :: "cmsg list \<Rightarrow> (string \<times> nat) option" where
  "pkt_info [] = None"
| "pkt_info ((level, kind, data) # ancillary) =
     (if level = SOL_IP \<and> kind = IP_PKTINFO \<and> 12 \<le> length data
      then Some (ipv4_str (of_be32 (take 4 (drop 8 data))), 53)
      else pkt_info ancillary)"

definition original_destination :: "bool \<Rightarrow> cmsg list \<Rightarrow> (string \<times> nat) res" where
  "original_destination little ancillary =
     (case orig_dst little ancillary of
        Some d \<Rightarrow> Inr d
      | None \<Rightarrow> of_option (ValueError ''TPROXY packet is missing original destination metadata'')
          (pkt_info ancillary))"

section \<open>DNS over TCP\<close>

text \<open>What one exchange meets, and whether each \<open>wait_for\<close> ends in time.\<close>

record exchange_net =
  xn_connect :: "conn res"
  xn_connected_in_time :: bool
  xn_written_in_time :: bool
  xn_length_in_time :: bool
  xn_response_in_time :: bool
  xn_closed :: "unit res"

definition frame :: "string \<Rightarrow> string" where
  "frame payload = be16 (length payload) @ payload"

definition framed_exchange :: "exchange_net \<Rightarrow> string \<Rightarrow> string io" where
  "framed_exchange net payload =
     io_bind (io_write (frame payload)) (\<lambda>_.
     io_bind (timed (xn_written_in_time net) (io_return ())) (\<lambda>_.
     io_bind (timed (xn_length_in_time net) (readexactly 2)) (\<lambda>n.
     timed (xn_response_in_time net) (readexactly (int (of_be16 n))))))"

definition tcp_exchange :: "exchange_net \<Rightarrow> string \<Rightarrow> string res" where
  "tcp_exchange net payload =
     rbind (ensure (length payload \<le> 65535) (ValueError ''DNS payload exceeds TCP framing limit'')) (\<lambda>_.
     rbind (if xn_connected_in_time net then xn_connect net else Inl TimeoutError) (\<lambda>c.
     rbind (xn_closed net) (\<lambda>_. fst (framed_exchange net payload c))))"

text \<open>
  A datagram: its payload, the client it goes to, and the source address it is sent from, which
  \<open>reply\<close> binds. \<open>bound\<close> and \<open>sent\<close> are what the socket calls give.
\<close>

type_synonym addr = "string \<times> nat"
type_synonym datagram = "string \<times> addr \<times> addr"

definition reply :: "unit res \<Rightarrow> unit res \<Rightarrow> string \<Rightarrow> addr \<Rightarrow> addr \<Rightarrow> datagram res" where
  "reply bound sent payload client source =
     rbind bound (\<lambda>_. rbind sent (\<lambda>_. Inr (payload, client, source)))"

section \<open>A relay under its semaphore\<close>

record ('j, 'r) relay =
  rl_permits :: nat
  rl_admitted :: "'j list"
  rl_waiting :: "'j list"
  rl_running :: "'j list"
  rl_sent :: "'r list"

definition relay_init :: "nat \<Rightarrow> ('j, 'r) relay" where
  "relay_init limit = \<lparr>rl_permits = limit, rl_admitted = [], rl_waiting = [], rl_running = [], rl_sent = []\<rparr>"

definition admitted :: "'j \<Rightarrow> ('j, 'r) relay \<Rightarrow> ('j, 'r) relay" where
  "admitted j s = s\<lparr>rl_admitted := rl_admitted s @ [j], rl_waiting := rl_waiting s @ [j]\<rparr>"

definition started :: "('j, 'r) relay \<Rightarrow> ('j, 'r) relay" where
  "started s = s\<lparr>rl_permits := rl_permits s - 1, rl_waiting := tl (rl_waiting s),
     rl_running := rl_running s @ [hd (rl_waiting s)]\<rparr>"

definition finished :: "nat \<Rightarrow> 'r option \<Rightarrow> ('j, 'r) relay \<Rightarrow> ('j, 'r) relay" where
  "finished i r s = s\<lparr>rl_permits := rl_permits s + 1,
     rl_running := take i (rl_running s) @ drop (Suc i) (rl_running s),
     rl_sent := rl_sent s @ (case r of None \<Rightarrow> [] | Some x \<Rightarrow> [x])\<rparr>"

text \<open>
  \<open>admit\<close> makes the job of a packet, or drops it; \<open>serve j r\<close> holds when serving the job can end
  with the datagram \<open>r\<close>, or with none.
\<close>

inductive relay_step ::
  "('p \<Rightarrow> 'j option) \<Rightarrow> ('j \<Rightarrow> 'r option \<Rightarrow> bool) \<Rightarrow> ('j, 'r) relay \<Rightarrow> ('j, 'r) relay \<Rightarrow> bool"
  for admit serve where
  receive: "admit p = Some j \<Longrightarrow> relay_step admit serve s (admitted j s)"
| malformed: "admit p = None \<Longrightarrow> relay_step admit serve s s"
| acquire: "rl_permits s \<noteq> 0 \<Longrightarrow> rl_waiting s \<noteq> [] \<Longrightarrow> relay_step admit serve s (started s)"
| release: "i < length (rl_running s) \<Longrightarrow> serve (rl_running s ! i) r
    \<Longrightarrow> relay_step admit serve s (finished i r s)"

inductive_cases relay_stepE: "relay_step admit serve s s'"

section \<open>The TCP relay\<close>

type_synonym udp_job = "string \<times> addr \<times> addr"

definition udp_admit :: "bool \<Rightarrow> string \<times> cmsg list \<times> addr \<Rightarrow> udp_job option" where
  "udp_admit little = (\<lambda>(data, ancillary, client).
     case original_destination little ancillary of
       Inl _ \<Rightarrow> None
     | Inr destination \<Rightarrow> Some (data, client, destination))"

text \<open>The task of one packet: every exception ends it without a reply.\<close>

definition udp_handle :: "exchange_net \<Rightarrow> unit res \<Rightarrow> unit res \<Rightarrow> udp_job \<Rightarrow> datagram option" where
  "udp_handle net bound sent = (\<lambda>(data, client, destination).
     case rbind (tcp_exchange net data) (\<lambda>response. reply bound sent response client destination) of
       Inl _ \<Rightarrow> None
     | Inr d \<Rightarrow> Some d)"

text \<open>\<open>servers a\<close> are the exchanges that the server at \<open>a\<close> and the way to it allow.\<close>

definition udp_serve :: "(addr \<Rightarrow> exchange_net set) \<Rightarrow> udp_job \<Rightarrow> datagram option \<Rightarrow> bool" where
  "udp_serve servers job r \<longleftrightarrow>
     (\<exists>net \<in> servers (snd (snd job)). \<exists>bound sent. udp_handle net bound sent job = r)"

section \<open>The DoH relay\<close>

text \<open>
  The results of \<open>connect\<close>, of \<open>wrap_socket\<close>, of \<open>sendall\<close> and of \<open>http.client\<close> reading the
  response: its status and its whole body.
\<close>

record doh_net =
  dh_connect :: "unit res"
  dh_tls :: "unit res"
  dh_send :: "unit res"
  dh_response :: "(int \<times> string) res"

definition doh_bytes :: "string \<Rightarrow> string \<Rightarrow> string" where
  "doh_bytes server_name message =
     utf8 (''POST /dns-query HTTP/1.1'' @ CRLF @ ''Host: '' @ server_name @ CRLF
       @ ''Content-Type: application/dns-message'' @ CRLF @ ''Accept: application/dns-message'' @ CRLF
       @ ''Content-Length: '' @ dec (length message) @ CRLF @ ''Connection: close'' @ CRLF @ CRLF)
     @ message"

definition doh_request :: "doh_net \<Rightarrow> string res" where
  "doh_request net =
     rbind (dh_connect net) (\<lambda>_. rbind (dh_tls net) (\<lambda>_. rbind (dh_send net) (\<lambda>_.
     rbind (dh_response net) (\<lambda>(status, body).
     if status \<noteq> 200 \<or> body = [] then Inl (OSError (''DoH HTTP status '' @ str_of_int status)) else Inr body))))"

text \<open>\<open>forward\<close>: the exception of the task when it is not an \<open>OSError\<close>.\<close>

definition doh_forward :: "doh_net \<Rightarrow> unit res \<Rightarrow> addr \<Rightarrow> (string \<times> addr) option res" where
  "doh_forward net sent client =
     (case rbind (doh_request net) (\<lambda>answer. rbind sent (\<lambda>_. Inr (answer, client))) of
        Inr d \<Rightarrow> Inr (Some d)
      | Inl e \<Rightarrow> if is_OSError e then Inr None else Inl e)"

text \<open>\<open>service message\<close> are the connections to the DoH server that a query can meet.\<close>

definition doh_serve :: "(string \<Rightarrow> doh_net set) \<Rightarrow> string \<times> addr \<Rightarrow> (string \<times> addr) option \<Rightarrow> bool" where
  "doh_serve service job r \<longleftrightarrow> (\<exists>net \<in> service (fst job). \<exists>sent. r = (case doh_forward net sent (snd job) of Inr d \<Rightarrow> d | Inl _ \<Rightarrow> None))"

section \<open>The invariant of a relay\<close>

text \<open>
  The permits and the running tasks make up the limit, and the sent datagrams answer different
  admitted jobs, none of which still waits or runs.
\<close>

definition relay_inv :: "('p \<Rightarrow> 'j option) \<Rightarrow> ('j \<Rightarrow> 'r option \<Rightarrow> bool) \<Rightarrow> nat \<Rightarrow> ('j, 'r) relay \<Rightarrow> bool" where
  "relay_inv admit serve limit s \<longleftrightarrow>
     length (rl_running s) + rl_permits s = limit
     \<and> (\<forall>j \<in> set (rl_admitted s). \<exists>p. admit p = Some j)
     \<and> (\<exists>js. list_all2 (\<lambda>j r. serve j (Some r)) js (rl_sent s)
          \<and> mset js + mset (rl_running s) + mset (rl_waiting s) \<subseteq># mset (rl_admitted s))"

lemma relay_inv_init: "relay_inv admit serve limit (relay_init limit)"
  by (simp add: relay_inv_def relay_init_def)

lemma mset_remove_nth:
  "i < length xs \<Longrightarrow> mset xs = add_mset (xs ! i) (mset (take i xs @ drop (Suc i) xs))"
  by (metis id_take_nth_drop mset_append mset.simps(2) union_mset_add_mset_right)

lemma relay_inv_step:
  assumes "relay_step admit serve s s'" and "relay_inv admit serve limit s"
  shows "relay_inv admit serve limit s'"
proof -
  from assms(2) obtain js where n: "length (rl_running s) + rl_permits s = limit"
    and a: "\<forall>j \<in> set (rl_admitted s). \<exists>p. admit p = Some j"
    and js: "list_all2 (\<lambda>j r. serve j (Some r)) js (rl_sent s)"
    and m: "mset js + mset (rl_running s) + mset (rl_waiting s) \<subseteq># mset (rl_admitted s)"
    unfolding relay_inv_def by blast
  from assms(1) show ?thesis
  proof cases
    case (receive p j)
    have "mset js + mset (rl_running s) + mset (rl_waiting s @ [j]) \<subseteq># mset (rl_admitted s @ [j])"
      using m by (simp add: add.assoc)
    with n a js receive show ?thesis by (auto simp: relay_inv_def admitted_def)
  next
    case malformed
    with assms(2) show ?thesis by simp
  next
    case acquire
    then obtain w ws where w: "rl_waiting s = w # ws" by (cases "rl_waiting s") auto
    with m have "mset js + mset (rl_running s @ [w]) + mset ws \<subseteq># mset (rl_admitted s)" by simp
    with n a js acquire w show ?thesis by (auto simp: relay_inv_def started_def)
  next
    case (release i r)
    let ?j = "rl_running s ! i" and ?rest = "take i (rl_running s) @ drop (Suc i) (rl_running s)"
    note split = mset_remove_nth [OF release(2)]
    have len: "length ?rest + (rl_permits s + 1) = limit" using n release(2) by simp
    show ?thesis
    proof (cases r)
      case None
      have "mset js + mset ?rest + mset (rl_waiting s) \<subseteq># mset (rl_admitted s)"
        using m unfolding split by (rule subset_mset.trans [rotated]) simp
      with len a js release None show ?thesis by (auto simp: relay_inv_def finished_def)
    next
      case (Some x)
      have "mset (js @ [?j]) + mset ?rest + mset (rl_waiting s) \<subseteq># mset (rl_admitted s)"
        using m unfolding split by simp
      moreover have "list_all2 (\<lambda>j r. serve j (Some r)) (js @ [?j]) (rl_sent s @ [x])"
        using js release(3) Some by (simp add: list_all2_appendI)
      ultimately show ?thesis
        using len a release Some by (auto simp: relay_inv_def finished_def intro!: exI [of _ "js @ [?j]"])
    qed
  qed
qed

lemma relay_inv_reachable:
  assumes "(relay_step admit serve)\<^sup>*\<^sup>* (relay_init limit) s"
  shows "relay_inv admit serve limit s"
  using assms by (induction rule: rtranclp_induct) (auto intro: relay_inv_init relay_inv_step)

section \<open>Properties\<close>

lemma timed_True [simp]: "timed True m = m"
  by (rule ext) (simp add: timed_def)

lemma be16_parts [simp]: "length (be16 n) = 2" "take 2 (be16 n @ s) = be16 n" "drop 2 (be16 n @ s) = s"
  by (simp_all add: be16_def numeral_2_eq_2)

lemma code_less_256: "code c < 256"
  using range_nat_of_char by auto

lemma of_be16_less: "of_be16 s < 65536"
proof -
  have "code (s ! 0) < 256" "code (s ! 1) < 256" by (rule code_less_256)+
  then show ?thesis unfolding of_be16_def by linarith
qed

lemma be16_of_be16: "length s = 2 \<Longrightarrow> be16 (of_be16 s) = s"
proof -
  assume "length s = 2"
  then obtain a b where s: "s = [a, b]" by (auto simp: numeral_2_eq_2 length_Suc_conv)
  have "code b < 256" by (rule code_less_256)
  then show ?thesis by (simp add: s be16_def of_be16_def)
qed

lemma udp_handle_Some:
  "udp_handle net bound sent (data, client, destination) = Some d \<longleftrightarrow>
    rbind (tcp_exchange net data) (\<lambda>response. reply bound sent response client destination) = Inr d"
  by (simp add: udp_handle_def split: sum.split)

text \<open>
  C12. The relay of intercepted queries answers each of them at most once and only as the server
  that the client asked: however the tasks interleave, at most the configured number of exchanges
  run at once, and the datagrams sent are, one for one, for different received packets: sent to
  the client of the packet, from the packet's original destination, and with a payload that the
  TCP exchange for that packet's query returned.
\<close>

theorem dns_relay_replies:
  assumes "(relay_step (udp_admit little) (udp_serve servers))\<^sup>*\<^sup>* (relay_init limit) s"
  shows "length (rl_running s) \<le> limit
    \<and> (\<exists>js. mset js \<subseteq># mset (rl_admitted s)
         \<and> list_all2 (\<lambda>(data, client, destination) (payload, to, from).
             to = client \<and> from = destination
             \<and> (\<exists>ancillary. original_destination little ancillary = Inr destination)
             \<and> (\<exists>net \<in> servers destination. tcp_exchange net data = Inr payload)) js (rl_sent s))"
proof -
  from relay_inv_reachable [OF assms] obtain js where n: "length (rl_running s) + rl_permits s = limit"
    and a: "\<forall>j \<in> set (rl_admitted s). \<exists>p. udp_admit little p = Some j"
    and js: "list_all2 (\<lambda>j r. udp_serve servers j (Some r)) js (rl_sent s)"
    and m: "mset js + mset (rl_running s) + mset (rl_waiting s) \<subseteq># mset (rl_admitted s)"
    unfolding relay_inv_def by blast
  have m': "mset js \<subseteq># mset (rl_admitted s)"
    using m by (meson mset_subset_eq_add_left subset_mset.order_trans)
  have "\<exists>ancillary. original_destination little ancillary = Inr (snd (snd j))" if "j \<in> set js" for j
  proof -
    from that m' have "j \<in> set (rl_admitted s)" by (metis mset_subset_eqD set_mset_mset)
    with a obtain p where "udp_admit little p = Some j" by blast
    then show ?thesis by (auto simp: udp_admit_def split: prod.splits sum.splits)
  qed
  moreover have "fst (snd r) = fst (snd j) \<and> snd (snd r) = snd (snd j) \<and> (\<exists>net \<in> servers (snd (snd j)). tcp_exchange net (fst j) = Inr (fst r))"
    if "udp_serve servers j (Some r)" for j r
  proof -
    obtain data client dest where j: "j = (data, client, dest)" by (cases j)
    from that obtain net bound sent where net: "net \<in> servers dest" and
      "rbind (tcp_exchange net data) (\<lambda>response. reply bound sent response client dest) = Inr r"
      unfolding udp_serve_def j udp_handle_Some snd_conv by blast
    then show ?thesis using net by (auto simp: reply_def rbind_eq_Inr j)
  qed
  ultimately have "list_all2 (\<lambda>(data, client, destination) (payload, to, from).
             to = client \<and> from = destination
             \<and> (\<exists>ancillary. original_destination little ancillary = Inr destination)
             \<and> (\<exists>net \<in> servers destination. tcp_exchange net data = Inr payload)) js (rl_sent s)"
    using js by (auto elim!: list.rel_mono_strong)
  with n m' show ?thesis by auto
qed

text \<open>
  DNS over TCP is framed exactly: an exchange sends the query behind its 16-bit length, and
  returns a response if and only if the server's bytes begin with that response behind its length
  (and everything came in time); what follows in the stream is not touched.
\<close>

theorem framed_exchange_exact:
  assumes "\<not> cn_secure c"
  shows "framed_exchange net payload c = (Inr response, c') \<longleftrightarrow>
    xn_written_in_time net \<and> xn_length_in_time net \<and> xn_response_in_time net
    \<and> length response \<le> 65535
    \<and> (\<exists>rest. cn_in c = frame response @ rest
         \<and> c' = c\<lparr>cn_in := rest, cn_out := cn_out c @ frame payload\<rparr>)"
proof (cases "xn_written_in_time net \<and> xn_length_in_time net \<and> xn_response_in_time net")
  case False
  then show ?thesis
    by (auto simp: framed_exchange_def io_bind_eq_Inr timed_def split: if_splits)
next
  case True
  let ?c1 = "c\<lparr>cn_out := cn_out c @ frame payload\<rparr>"
  have eq: "framed_exchange net payload c
    = io_bind (readexactly 2) (\<lambda>n. readexactly (int (of_be16 n))) ?c1"
    using True assms by (simp add: framed_exchange_def timed_def io_write_def io_bind_def io_return_def)
  show ?thesis
  proof
    assume "framed_exchange net payload c = (Inr response, c')"
    then obtain n c2 where n: "readexactly 2 ?c1 = (Inr n, c2)"
      and r: "readexactly (int (of_be16 n)) c2 = (Inr response, c')"
      unfolding eq io_bind_eq_Inr by blast
    note n = readexactly_Inr [OF n] and r = readexactly_Inr [OF r]
    have "length response = of_be16 n" using r(2) by simp
    moreover have "be16 (of_be16 n) = n" using n(2) by (intro be16_of_be16) simp
    ultimately have f: "frame response = n @ response" by (simp add: frame_def)
    have "length response \<le> 65535" using r(2) of_be16_less [of n] by simp
    moreover have "cn_in c = frame response @ cn_in c'" using f n(3) r(3) by simp
    moreover have "c' = c\<lparr>cn_in := cn_in c', cn_out := cn_out c @ frame payload\<rparr>"
      by (subst r(4), subst n(4)) simp
    ultimately show "xn_written_in_time net \<and> xn_length_in_time net \<and> xn_response_in_time net
      \<and> length response \<le> 65535 \<and> (\<exists>rest. cn_in c = frame response @ rest
         \<and> c' = c\<lparr>cn_in := rest, cn_out := cn_out c @ frame payload\<rparr>)"
      using True by blast
  next
    assume "xn_written_in_time net \<and> xn_length_in_time net \<and> xn_response_in_time net
      \<and> length response \<le> 65535 \<and> (\<exists>rest. cn_in c = frame response @ rest
         \<and> c' = c\<lparr>cn_in := rest, cn_out := cn_out c @ frame payload\<rparr>)"
    then obtain rest where l: "length response \<le> 65535" and i: "cn_in c = frame response @ rest"
      and c': "c' = c\<lparr>cn_in := rest, cn_out := cn_out c @ frame payload\<rparr>" by blast
    have "readexactly 2 ?c1 = (Inr (be16 (length response)), ?c1\<lparr>cn_in := response @ rest\<rparr>)"
      by (rule readexactly_ok) (simp_all add: i frame_def)
    moreover have "readexactly (int (length response)) (?c1\<lparr>cn_in := response @ rest\<rparr>)
      = (Inr response, ?c1\<lparr>cn_in := rest\<rparr>)"
      using readexactly_ok [of "?c1\<lparr>cn_in := response @ rest\<rparr>" response rest "int (length response)"] by simp
    moreover have "of_be16 (be16 (length response)) = length response"
      using l by (intro of_be16_be16) simp
    ultimately show "framed_exchange net payload c = (Inr response, c')"
      unfolding eq c' by (simp add: io_bind_def)
  qed
qed

lemma orig_dst_append: "orig_dst little earlier = None \<Longrightarrow> orig_dst little (earlier @ msgs) = orig_dst little msgs"
  by (induction little earlier rule: orig_dst.induct) (auto split: if_splits)

lemma of_be32_be32: "n < 4294967296 \<Longrightarrow> of_be32 (be32 n) = n"
  by (simp add: of_be32_def be32_def of_be16_be16 less_mult_imp_div_less)

text \<open>A packet with its original destination: the address and the port of the \<open>sockaddr_in\<close>.\<close>

definition sockaddr :: "bool \<Rightarrow> nat \<Rightarrow> nat \<Rightarrow> string" where
  "sockaddr little ip port = (if little then rev (be16 AF_INET) else be16 AF_INET) @ be16 port @ be32 ip @ replicate 8 (chr 0)"

lemma original_destination_sockaddr:
  assumes "orig_dst little earlier = None" and "ip < 4294967296" and "port < 65536"
  shows "original_destination little (earlier @ (SOL_IP, IP_ORIGDSTADDR, sockaddr little ip port) # msgs)
    = Inr (ipv4_str ip, port)"
proof -
  let ?data = "sockaddr little ip port"
  have l: "length (be32 ip) = 4" by (simp add: be32_def)
  have p: "take 2 (drop 2 ?data) = be16 port" "take 4 (drop 4 ?data) = be32 ip" "8 \<le> length ?data"
    "native16 little (take 2 ?data) = AF_INET"
    using l by (simp_all add: sockaddr_def native16_def of_be16_be16 AF_INET_def)
  then show ?thesis
    using assms by (simp add: original_destination_def orig_dst_append of_be16_be16 of_be32_be32)
qed

section \<open>A concrete packet\<close>

definition sample_packet :: "string \<times> cmsg list \<times> addr" where
  "sample_packet = (''query'', [(SOL_IP, IP_ORIGDSTADDR, sockaddr True 16909060 53)], (''10.0.0.2'', 4000))"

definition answering_net :: exchange_net where
  "answering_net = \<lparr>xn_connect = Inr \<lparr>cn_in = frame ''answer'', cn_arrived = 8, cn_exc = None, cn_out = [],
       cn_secure = False, cn_secret_out = [], cn_tls_in = Inr []\<rparr>,
     xn_connected_in_time = True, xn_written_in_time = True, xn_length_in_time = True,
     xn_response_in_time = True, xn_closed = Inr ()\<rparr>"

lemma framed_exchange_exact_witness:
  "fst (framed_exchange answering_net ''query'' (projr (xn_connect answering_net))) = Inr ''answer''"
proof -
  let ?c = "projr (xn_connect answering_net)"
  have "\<not> cn_secure ?c" by (simp add: answering_net_def)
  from framed_exchange_exact [OF this, of answering_net "''query''" "''answer''"
      "?c\<lparr>cn_in := [], cn_out := cn_out ?c @ frame ''query''\<rparr>"]
  show ?thesis by (simp add: answering_net_def)
qed

lemma sample_exchange: "tcp_exchange answering_net ''query'' = Inr ''answer''"
  using framed_exchange_exact_witness by (simp add: tcp_exchange_def answering_net_def)

lemma dns_relay_replies_witness:
  "\<exists>s. (relay_step (udp_admit True) (udp_serve (\<lambda>_. {answering_net})))\<^sup>*\<^sup>* (relay_init 1) s \<and> length (rl_running s) \<le> 1
     \<and> rl_sent s = [(''answer'', (''10.0.0.2'', 4000), (ipv4_str 16909060, 53))]"
proof -
  let ?dest = "(ipv4_str 16909060, 53 :: nat)" and ?client = "(''10.0.0.2'', 4000 :: nat)"
  let ?job = "(''query'', ?client, ?dest)" and ?answer = "(''answer'', ?client, ?dest)"
  have admit: "udp_admit True sample_packet = Some ?job"
    using original_destination_sockaddr [of True "[]" 16909060 53 "[]"]
    by (simp add: udp_admit_def sample_packet_def)
  have "udp_handle answering_net (Inr ()) (Inr ()) ?job = Some ?answer"
    by (simp add: udp_handle_Some sample_exchange reply_def)
  then have serve: "udp_serve (\<lambda>_. {answering_net}) ?job (Some ?answer)" unfolding udp_serve_def by blast
  let ?s1 = "admitted ?job (relay_init 1)"
  let ?s2 = "started ?s1" and ?s3 = "finished 0 (Some ?answer) (started ?s1)"
  let ?step = "relay_step (udp_admit True) (udp_serve (\<lambda>_. {answering_net}))"
  have "?step (relay_init 1) ?s1" by (rule receive) (rule admit)
  moreover have "?step ?s1 ?s2" by (rule acquire) (simp_all add: admitted_def relay_init_def)
  moreover have "?step ?s2 ?s3"
    by (rule release) (simp_all add: admitted_def relay_init_def started_def serve)
  ultimately have run: "?step\<^sup>*\<^sup>* (relay_init 1) ?s3"
    by (meson converse_rtranclp_into_rtranclp rtranclp.rtrancl_refl)
  have sent: "rl_sent ?s3 = [?answer]"
    by (simp add: admitted_def relay_init_def started_def finished_def)
  from dns_relay_replies [OF run] run sent show ?thesis by (intro exI [of _ ?s3]) simp
qed

text \<open>
  The DoH relay sends at most one datagram for each query, to its client, and only a body that
  came with status 200 and is not empty.
\<close>

lemma doh_relay_replies:
  assumes "(relay_step Some (doh_serve service))\<^sup>*\<^sup>* (relay_init limit) s"
  shows "length (rl_running s) \<le> limit
    \<and> (\<exists>js. mset js \<subseteq># mset (rl_admitted s)
         \<and> list_all2 (\<lambda>(data, client) (answer, to). to = client \<and> answer \<noteq> []
             \<and> (\<exists>net \<in> service data. dh_response net = Inr (200, answer))) js (rl_sent s))"
proof -
  from relay_inv_reachable [OF assms] obtain js where n: "length (rl_running s) + rl_permits s = limit"
    and js: "list_all2 (\<lambda>j r. doh_serve service j (Some r)) js (rl_sent s)"
    and m: "mset js + mset (rl_running s) + mset (rl_waiting s) \<subseteq># mset (rl_admitted s)"
    unfolding relay_inv_def by blast
  have m': "mset js \<subseteq># mset (rl_admitted s)"
    using m by (meson mset_subset_eq_add_left subset_mset.order_trans)
  have each: "snd r = snd j \<and> fst r \<noteq> [] \<and> (\<exists>net \<in> service (fst j). dh_response net = Inr (200, fst r))"
    if "doh_serve service j (Some r)" for j r
  proof -
    from that obtain net sent where net: "net \<in> service (fst j)" and "Some r = (case doh_forward net sent (snd j) of Inr d \<Rightarrow> d | Inl _ \<Rightarrow> None)"
      unfolding doh_serve_def by blast
    then have "doh_forward net sent (snd j) = Inr (Some r)"
      by (cases "doh_forward net sent (snd j)") simp_all
    then have "rbind (doh_request net) (\<lambda>answer. rbind sent (\<lambda>_. Inr (answer, snd j))) = Inr r"
      by (auto simp: doh_forward_def split: sum.splits if_splits)
    then obtain answer where "doh_request net = Inr answer" and "r = (answer, snd j)"
      by (auto simp: rbind_eq_Inr)
    then show ?thesis
      using net by (auto simp: doh_request_def rbind_eq_Inr split: prod.splits if_splits)
  qed
  have "list_all2 (\<lambda>(data, client) (answer, to). to = client \<and> answer \<noteq> []
             \<and> (\<exists>net \<in> service data. dh_response net = Inr (200, answer))) js (rl_sent s)"
    using js
  proof (rule list.rel_mono_strong)
    fix j r
    assume "doh_serve service j (Some r)"
    from each [OF this] show "(\<lambda>(data, client) (answer, to). to = client \<and> answer \<noteq> []
      \<and> (\<exists>net \<in> service data. dh_response net = Inr (200, answer))) j r"
      by (cases j, cases r) simp
  qed
  with n m' show ?thesis by auto
qed

text \<open>A malformed HTTP response is not an \<open>OSError\<close>: the exception leaves \<open>forward\<close>.\<close>

lemma doh_http_exception_escapes:
  "dh_connect net = Inr () \<Longrightarrow> dh_tls net = Inr () \<Longrightarrow> dh_send net = Inr ()
   \<Longrightarrow> dh_response net = Inl (HTTPException ''BadStatusLine'')
   \<Longrightarrow> doh_forward net sent client = Inl (HTTPException ''BadStatusLine'')"
  by (simp add: doh_forward_def doh_request_def)

end
