(* ===== verification/Ranking.thy ===== *)
theory Ranking
  imports Py_Json Py_Ip Py_Float "HOL-Library.Product_Lexorder" "HOL-Library.Sublist" "HOL-Library.Multiset"
begin

text \<open>
  Scoring and diversity-aware ranking of \<open>validator/ranking.py\<close>, on IEEE doubles. The lemmas give
  the range of the scores, show that ranking returns the right number of entries, each one an
  eligible input entry and none twice, that the first one is a best one, and that the active pool
  is a bounded subsequence of the ranking that respects the cap on unverified networks.
\<close>

section \<open>Scores and keys\<close>

definition base_score :: "dict \<Rightarrow> rat res" where
  "base_score entry =
     rbind (json_int (get_default entry ''latency_ms'' (JInt 1))) (\<lambda>l.
     rbind (json_int (get_default entry ''success_streak'' (JInt 1))) (\<lambda>s.
     let latency_ms = max 1 l; success_streak = max 1 s;
         latency_component = fdiv 1000 (fadd 1 (fint latency_ms));
         stability_component = fmul (fint (min success_streak 10)) 2 in
     Inr (fadd latency_component stability_component)))"

definition strip_brackets :: "string \<Rightarrow> string" where
  "strip_brackets s = strip_by (\<lambda>c. c = CHR ''['' \<or> c = CHR '']'') s"

definition subnet_key :: "pyrt \<Rightarrow> dict \<Rightarrow> string option" where
  "subnet_key rt entry =
     (let host = py_str rt (or_else (or_else (get entry ''exit_ip'') (get entry ''host'')) (JStr []));
          host = (if host \<noteq> [] then host
                  else (let endpoint = py_str rt (get_default entry ''endpoint'' (JStr [])) in
                        strip_brackets (case rsplit1 CHR '':'' endpoint of None \<Rightarrow> endpoint | Some (h, _) \<Rightarrow> h))) in
      case ip_address host of
        None \<Rightarrow> None
      | Some address \<Rightarrow> network_str address (if ip_version address = 4 then 24 else 48))"

definition asn_key :: "pyrt \<Rightarrow> dict \<Rightarrow> string option" where
  "asn_key rt entry =
     (case get entry ''network'' of
        JObj network \<Rightarrow>
          if get network ''asn_status'' \<noteq> JStr ''verified'' then None
          else (let v = upper (strip (py_str rt (get_default network ''asn'' (JStr [])))) in
                if v = [] then None else Some v)
      | _ \<Rightarrow> None)"

type_synonym counter = "string \<Rightarrow> int"

definition count :: "string option \<Rightarrow> counter \<Rightarrow> counter" where
  "count k c = (case k of None \<Rightarrow> c | Some s \<Rightarrow> if s = [] then c else c(s := c s + 1))"

definition seen :: "string option \<Rightarrow> counter \<Rightarrow> rat" where
  "seen k c = (case k of None \<Rightarrow> 0 | Some s \<Rightarrow> if s = [] then 0 else fint (c s))"

section \<open>The greedy ranking\<close>

type_synonym score = "rat \<times> rat \<times> string"

definition diversity_penalty :: "pyrt \<Rightarrow> rat \<Rightarrow> counter \<Rightarrow> counter \<Rightarrow> dict \<Rightarrow> rat" where
  "diversity_penalty rt unknown_asn_penalty asns subnets entry =
     (let p0 = (if asn_key rt entry = None then fmul 1 unknown_asn_penalty else 1);
          p1 = (case asn_key rt entry of None \<Rightarrow> p0 | Some a \<Rightarrow> if a = [] then p0 else fadd p0 (fint (asns a))) in
      case subnet_key rt entry of None \<Rightarrow> p1 | Some n \<Rightarrow> if n = [] then p1 else fadd p1 (fint (subnets n)))"

definition adjusted_score :: "pyrt \<Rightarrow> rat \<Rightarrow> counter \<Rightarrow> counter \<Rightarrow> dict \<Rightarrow> score res" where
  "adjusted_score rt unknown_asn_penalty asns subnets entry =
     rbind (base_score entry) (\<lambda>raw_score.
     Inr (fdiv raw_score (diversity_penalty rt unknown_asn_penalty asns subnets entry), raw_score,
       py_str rt (get_default entry ''address'' (JStr []))))"

text \<open>The position of the first maximum, as \<open>max\<close> finds it.\<close>

fun argmax :: "nat \<Rightarrow> nat \<Rightarrow> score \<Rightarrow> score list \<Rightarrow> nat" where
  "argmax i best k [] = best"
| "argmax i best k (k' # ks) = (if k < k' then argmax (Suc i) i k' ks else argmax (Suc i) best k ks)"

fun max_index :: "score list \<Rightarrow> nat" where
  "max_index [] = 0"
| "max_index (k # ks) = argmax 1 0 k ks"

text \<open>
  \<open>remaining.remove(selected)\<close> takes out the first entry that is equal to the selected one, or is
  that object; \<open>i\<close> is the position of the selected object.
\<close>

fun remove_index :: "dict list \<Rightarrow> nat \<Rightarrow> dict \<Rightarrow> nat" where
  "remove_index [] i x = 0"
| "remove_index (y # ys) 0 x = 0"
| "remove_index (y # ys) (Suc i) x = (if py_eq (JObj y) (JObj x) then 0 else Suc (remove_index ys i x))"

definition delete_at :: "nat \<Rightarrow> 'a list \<Rightarrow> 'a list" where
  "delete_at i xs = take i xs @ drop (Suc i) xs"

definition with_scores :: "rat \<Rightarrow> rat \<Rightarrow> dict \<Rightarrow> dict" where
  "with_scores raw_score final_score entry =
     set_item ''score'' (JFloat (fround6 final_score)) (set_item ''base_score'' (JFloat (fround6 raw_score)) entry)"

text \<open>
  One round: the selected dict is written to in place, so when \<open>remove\<close> took out an equal dict
  before it, it stays in \<open>remaining\<close> with its scores.
\<close>

definition rank_step ::
  "pyrt \<Rightarrow> rat \<Rightarrow> counter \<Rightarrow> counter \<Rightarrow> dict list \<Rightarrow> (dict \<times> dict list \<times> counter \<times> counter) res" where
  "rank_step rt unknown_asn_penalty asns subnets remaining =
     rbind (rmap (adjusted_score rt unknown_asn_penalty asns subnets) remaining) (\<lambda>ks.
     let i = max_index ks; selected = remaining ! i;
         (final_score, raw_score, _) = ks ! i;
         scored = with_scores raw_score final_score selected;
         rest = delete_at (remove_index remaining i selected) (remaining[i := scored]) in
     Inr (scored, rest, count (asn_key rt scored) asns, count (subnet_key rt scored) subnets))"

fun rank_loop :: "pyrt \<Rightarrow> rat \<Rightarrow> nat \<Rightarrow> counter \<Rightarrow> counter \<Rightarrow> dict list \<Rightarrow> dict list res" where
  "rank_loop rt pen 0 asns subnets remaining = Inr []"
| "rank_loop rt pen (Suc slots) asns subnets remaining =
     (if remaining = [] then Inr []
      else rbind (rank_step rt pen asns subnets remaining) (\<lambda>(selected, rest, asns', subnets').
           rbind (rank_loop rt pen slots asns' subnets' rest) (\<lambda>ranked. Inr (selected # ranked))))"

fun eligible :: "rat \<Rightarrow> dict list \<Rightarrow> dict list res" where
  "eligible min_score [] = Inr []"
| "eligible min_score (entry # es) =
     rbind (base_score entry) (\<lambda>s.
     rbind (eligible min_score es) (\<lambda>rest. Inr (if min_score \<le> s then entry # rest else rest)))"

definition rank_entries :: "pyrt \<Rightarrow> dict list \<Rightarrow> int \<Rightarrow> rat \<Rightarrow> rat \<Rightarrow> dict list res" where
  "rank_entries rt entries reserve_size min_score unknown_asn_penalty =
     rbind (ensure (1 \<le> reserve_size) (ValueError ''RESERVE_SIZE must be positive'')) (\<lambda>_.
     rbind (ensure (1 \<le> unknown_asn_penalty) (ValueError ''UNKNOWN_ASN_PENALTY must be at least 1'')) (\<lambda>_.
     rbind (eligible min_score entries) (\<lambda>remaining.
     rank_loop rt unknown_asn_penalty (nat reserve_size) (\<lambda>_. 0) (\<lambda>_. 0) remaining)))"

section \<open>The active pool\<close>

fun select_loop :: "pyrt \<Rightarrow> int \<Rightarrow> int \<Rightarrow> int \<Rightarrow> int \<Rightarrow> dict list \<Rightarrow> dict list" where
  "select_loop rt pool_size unknown_limit chosen unknown_count [] = []"
| "select_loop rt pool_size unknown_limit chosen unknown_count (entry # es) =
     (if pool_size \<le> chosen then []
      else if asn_key rt entry = None then
        (if unknown_limit \<le> unknown_count then select_loop rt pool_size unknown_limit chosen unknown_count es
         else entry # select_loop rt pool_size unknown_limit (chosen + 1) (unknown_count + 1) es)
      else entry # select_loop rt pool_size unknown_limit (chosen + 1) unknown_count es)"

definition unknown_limit :: "int \<Rightarrow> rat \<Rightarrow> int" where
  "unknown_limit pool_size ratio = \<lfloor>fmul (fint pool_size) ratio\<rfloor>"

definition select_active_entries :: "pyrt \<Rightarrow> dict list \<Rightarrow> int \<Rightarrow> rat \<Rightarrow> dict list res" where
  "select_active_entries rt ranked pool_size max_unknown_asn_ratio =
     rbind (ensure (1 \<le> pool_size) (ValueError ''POOL_SIZE must be positive'')) (\<lambda>_.
     rbind (ensure (0 \<le> max_unknown_asn_ratio \<and> max_unknown_asn_ratio \<le> 1)
       (ValueError ''MAX_UNKNOWN_ASN_RATIO must be between 0 and 1'')) (\<lambda>_.
     Inr (select_loop rt pool_size (unknown_limit pool_size max_unknown_asn_ratio) 0 0 ranked)))"

section \<open>The range of the score\<close>

definition score_of :: "int \<Rightarrow> int \<Rightarrow> rat" where
  "score_of latency_ms success_streak =
     fadd (fdiv 1000 (fadd 1 (fint latency_ms))) (fmul (fint (min success_streak 10)) 2)"

lemma base_score_Inr:
  "base_score entry = Inr s \<longleftrightarrow>
     (\<exists>l k. json_int (get_default entry ''latency_ms'' (JInt 1)) = Inr l
        \<and> json_int (get_default entry ''success_streak'' (JInt 1)) = Inr k
        \<and> s = score_of (max 1 l) (max 1 k))"
  by (auto simp: base_score_def score_of_def res_simps Let_def)

lemma fl_small: "\<bar>n\<bar> \<le> 2 ^ 53 \<Longrightarrow> q = of_int n \<Longrightarrow> fl q = q"
  by (simp add: fl_of_int)

lemma denominator_ge2: "1 \<le> l \<Longrightarrow> 2 \<le> fadd 1 (fint l)"
proof -
  assume "1 \<le> l"
  then have "fint 1 \<le> fint l" by (rule fint_mono)
  moreover have "fint 1 = 1" by (simp add: fint_small)
  ultimately have "fl (of_int 2) \<le> fl (1 + fint l)" by (intro fl_mono) simp
  moreover have "fl (of_int 2) = of_int 2" by (rule fl_of_int) simp
  ultimately show ?thesis unfolding fadd_def by simp
qed

lemma denominator_mono: "a \<le> b \<Longrightarrow> fadd 1 (fint a) \<le> fadd 1 (fint b)"
  unfolding fadd_def by (intro fl_mono add_left_mono fint_mono)

lemma latency_component_range: "1 \<le> l \<Longrightarrow> 0 \<le> fdiv 1000 (fadd 1 (fint l)) \<and> fdiv 1000 (fadd 1 (fint l)) \<le> 500"
proof -
  assume "1 \<le> l"
  note d = denominator_ge2 [OF this]
  have "1000 / fadd 1 (fint l) \<le> of_int 500" "of_int 0 \<le> 1000 / fadd 1 (fint l)"
    using d by (simp_all add: divide_le_eq)
  from this [THEN fl_mono] show ?thesis
    using fl_of_int [of 500] by (simp add: fdiv_def)
qed

lemma stability_component: "1 \<le> k \<Longrightarrow> fmul (fint (min k 10)) 2 = of_int (2 * min k 10)"
proof -
  assume k: "1 \<le> k"
  then have m: "\<bar>min k 10\<bar> \<le> 2 ^ 53" "\<bar>2 * min k 10\<bar> \<le> 2 ^ 53" by (simp_all add: min_def)
  have "fint (min k 10) * 2 = of_int (2 * min k 10)" by (simp add: fint_small [OF m(1)])
  then show ?thesis by (simp only: fmul_def fl_of_int [OF m(2)])
qed

lemma score_range:
  assumes "1 \<le> l" and "1 \<le> k"
  shows "2 \<le> score_of l k" and "score_of l k \<le> 520"
proof -
  note r = latency_component_range [OF assms(1)] and s = stability_component [OF assms(2)]
  let ?x = "fdiv 1000 (fadd 1 (fint l))"
  define y :: rat where "y = of_int (2 * min k 10)"
  have "of_int 2 \<le> y" "y \<le> of_int 20"
    using assms(2) unfolding y_def of_int_le_iff by (simp_all add: min_def)
  then have b: "of_int 2 \<le> ?x + y" "?x + y \<le> of_int 520" using r by simp_all
  have "score_of l k = fl (?x + y)" by (simp only: score_of_def s fadd_def [of ?x] y_def)
  then show "2 \<le> score_of l k" "score_of l k \<le> 520"
    using b [THEN fl_mono] fl_of_int [of 2] fl_of_int [of 520] by simp_all
qed

lemma score_mono:
  assumes "1 \<le> l" and "l \<le> l'" and "k' \<le> k"
  shows "score_of l' k' \<le> score_of l k"
proof -
  have "1000 / fadd 1 (fint l') \<le> 1000 / fadd 1 (fint l)"
    using denominator_mono [OF assms(2)] denominator_ge2 [OF assms(1)] by (intro divide_left_mono) auto
  then have "fdiv 1000 (fadd 1 (fint l')) \<le> fdiv 1000 (fadd 1 (fint l))"
    unfolding fdiv_def by (rule fl_mono)
  moreover have "fmul (fint (min k' 10)) 2 \<le> fmul (fint (min k 10)) 2"
    unfolding fmul_def using assms(3) by (intro fl_mono mult_right_mono fint_mono) (auto simp: min_def)
  ultimately show ?thesis unfolding score_of_def fadd_def by (intro fl_mono add_mono)
qed

section \<open>The greedy specification\<close>

text \<open>
  What a diversity-aware ranking is, without lists or positions: as long as slots and entries are
  left, take an entry whose adjusted score is maximal among the entries left, count its network,
  and go on without it.
\<close>

inductive greedy ::
  "pyrt \<Rightarrow> rat \<Rightarrow> nat \<Rightarrow> counter \<Rightarrow> counter \<Rightarrow> dict multiset \<Rightarrow> dict list \<Rightarrow> bool" for rt pen where
  no_slot: "greedy rt pen 0 asns subnets R []"
| no_entry: "greedy rt pen slots asns subnets {#} []"
| pick: "e \<in># R \<Longrightarrow> adjusted_score rt pen asns subnets e = Inr (final, raw, a) \<Longrightarrow>
    \<forall>e' \<in># R. \<exists>k. adjusted_score rt pen asns subnets e' = Inr k \<and> k \<le> (final, raw, a) \<Longrightarrow>
    greedy rt pen slots (count (asn_key rt e) asns) (count (subnet_key rt e) subnets) (R - {#e#}) ranked \<Longrightarrow>
    greedy rt pen (Suc slots) asns subnets R (with_scores raw final e # ranked)"

inductive_cases greedy_ConsE: "greedy rt pen slots asns subnets R (x # ranked)"

lemma greedy_length: "greedy rt pen slots asns subnets R ranked \<Longrightarrow> length ranked = min slots (size R)"
proof (induction rule: greedy.induct)
  case (pick e R asns subnets final raw a slots ranked)
  then have "size R = Suc (size (R - {#e#}))" by (metis insert_DiffM size_add_mset)
  with pick show ?case by simp
qed simp_all

text \<open>Each ranked entry is an entry of its own, with its two scores added.\<close>

definition scored_from :: "pyrt \<Rightarrow> dict \<Rightarrow> dict \<Rightarrow> bool" where
  "scored_from rt x e \<longleftrightarrow> (\<exists>raw final. base_score e = Inr raw \<and> x = with_scores raw final e)"

lemma greedy_origin:
  "greedy rt pen slots asns subnets R ranked \<Longrightarrow>
     \<exists>es. mset es \<subseteq># R \<and> list_all2 (scored_from rt) ranked es"
proof (induction rule: greedy.induct)
  case (pick e R asns subnets final raw a slots ranked)
  then obtain es where es: "mset es \<subseteq># R - {#e#}" "list_all2 (scored_from rt) ranked es" by blast
  have "scored_from rt (with_scores raw final e) e"
    using pick(2) by (auto simp: scored_from_def adjusted_score_def res_simps)
  moreover have "mset (e # es) \<subseteq># R"
    using es(1) pick(1) by (simp add: insert_subset_eq_iff)
  ultimately show ?case using es(2) by (intro exI [of _ "e # es"]) simp
qed auto

section \<open>The ranking is greedy\<close>

lemma get_default_update: "get_default (AList.update k' v m) k d = (if k = k' then v else get_default m k d)"
  by (simp add: get_default_def update_conv)

lemma with_scores_get:
  "k \<noteq> ''score'' \<Longrightarrow> k \<noteq> ''base_score'' \<Longrightarrow> get_default (with_scores raw final e) k d = get_default e k d"
  by (simp add: with_scores_def get_default_update)

lemma with_scores_base [simp]: "base_score (with_scores raw final e) = base_score e"
  by (simp add: base_score_def with_scores_get)

lemma with_scores_asn [simp]: "asn_key rt (with_scores raw final e) = asn_key rt e"
  by (simp add: asn_key_def get_def with_scores_get)

lemma with_scores_subnet [simp]: "subnet_key rt (with_scores raw final e) = subnet_key rt e"
  by (simp add: subnet_key_def get_def with_scores_get Let_def)

lemma argmax_max:
  assumes "i + length ks = n" and "length all = n" and "drop i all = ks" and "best < i" and "k = all ! best"
    and "\<forall>j < i. all ! j \<le> k"
  shows "argmax i best k ks < n \<and> (\<forall>j < n. all ! j \<le> all ! argmax i best k ks)"
  using assms
proof (induction i best k ks rule: argmax.induct)
  case (2 i best k k' ks)
  have k': "all ! i = k'" using "2.prems"(2,3) by (metis nth_via_drop)
  have d: "drop (Suc i) all = ks" using "2.prems"(3) by (metis drop_Suc list.sel(3) tl_drop)
  have i: "Suc i + length ks = n" using "2.prems"(1) by simp
  show ?case
  proof (cases "k < k'")
    case True
    have "\<forall>j < Suc i. all ! j \<le> k'" using "2.prems"(6) True k' by (auto simp: less_Suc_eq intro: order.trans)
    with 2(1) [OF True i "2.prems"(2) d] k' True show ?thesis by simp
  next
    case False
    have "\<forall>j < Suc i. all ! j \<le> k" using "2.prems"(6) False k' by (auto simp: less_Suc_eq not_less)
    with 2(2) [OF False i "2.prems"(2) d] "2.prems"(4,5) False show ?thesis by simp
  qed
qed simp

lemma max_index_max:
  assumes "ks \<noteq> []"
  shows "max_index ks < length ks" and "k \<in> set ks \<Longrightarrow> k \<le> ks ! max_index ks"
proof -
  obtain k0 r where ks: "ks = k0 # r" using assms by (cases ks) auto
  have *: "argmax 1 0 k0 r < length ks \<and> (\<forall>j < length ks. ks ! j \<le> ks ! argmax 1 0 k0 r)"
    by (rule argmax_max) (simp_all add: ks)
  then show "max_index ks < length ks" by (simp add: ks)
  show "k \<in> set ks \<Longrightarrow> k \<le> ks ! max_index ks" using * by (auto simp: ks in_set_conv_nth)
qed

text \<open>Entries with different text addresses are never equal, so \<open>remove\<close> takes the selected one.\<close>

definition addressed :: "dict \<Rightarrow> bool" where
  "addressed e \<longleftrightarrow> is_JStr (get e ''address'')"

definition distinct_addresses :: "dict list \<Rightarrow> bool" where
  "distinct_addresses es \<longleftrightarrow> list_all addressed es \<and> distinct (map (\<lambda>e. get e ''address'') es)"

lemma py_eq_address:
  assumes "addressed y" and "py_eq (JObj y) (JObj x)"
  shows "get y ''address'' = get x ''address''"
proof -
  from assms(1) obtain s where s: "map_of y ''address'' = Some (JStr s)"
    by (auto simp: addressed_def get_def get_default_def elim: is_JStr.elims split: option.splits)
  then have "(''address'', JStr s) \<in> set y" by (rule map_of_SomeD)
  with assms(2) have "case map_of x ''address'' of None \<Rightarrow> False | Some v \<Rightarrow> py_eq (JStr s) v"
    by (auto simp: list_all_iff)
  with s show ?thesis by (auto simp: get_def get_default_def split: option.splits)
qed

lemma remove_index_self:
  assumes "distinct_addresses es" and "i < length es"
  shows "remove_index es i (es ! i) = i"
  using assms
proof (induction es arbitrary: i)
  case (Cons e es)
  show ?case
  proof (cases i)
    case (Suc j)
    with Cons.prems(2) have j: "j < length es" by simp
    have "get e ''address'' \<noteq> get (es ! j) ''address''"
      using Cons.prems(1) j by (auto simp: distinct_addresses_def)
    moreover have "addressed e" using Cons.prems(1) by (simp add: distinct_addresses_def)
    ultimately have "\<not> py_eq (JObj e) (JObj (es ! j))" using py_eq_address by blast
    moreover have "distinct_addresses es" using Cons.prems(1) by (simp add: distinct_addresses_def)
    ultimately show ?thesis using Cons.IH [OF _ j] Suc by simp
  qed simp
qed simp

lemma delete_at_update: "i < length xs \<Longrightarrow> delete_at i (xs[i := y]) = delete_at i xs"
  by (simp add: delete_at_def)

lemma mset_delete_at: "i < length xs \<Longrightarrow> mset (delete_at i xs) = mset xs - {#xs ! i#}"
  unfolding delete_at_def by (subst (2) id_take_nth_drop [of i xs]) simp_all

lemma set_delete_at: "set (delete_at i xs) \<subseteq> set xs"
  by (auto simp: delete_at_def dest: in_set_takeD in_set_dropD)

lemma distinct_addresses_delete:
  assumes "distinct_addresses es"
  shows "distinct_addresses (delete_at i es)"
proof (cases "i < length es")
  case True
  let ?g = "\<lambda>e. get e ''address''"
  have "distinct (map ?g (take i es @ es ! i # drop (Suc i) es))"
    using assms True by (simp only: distinct_addresses_def id_take_nth_drop [symmetric])
  then have "distinct (map ?g (delete_at i es))" by (auto simp: delete_at_def)
  then show ?thesis
    using assms set_delete_at [of i es] by (auto simp: distinct_addresses_def list_all_iff)
qed (use assms in \<open>simp add: delete_at_def\<close>)

definition scorable :: "dict \<Rightarrow> bool" where
  "scorable e \<longleftrightarrow> ok (base_score e)"

lemma scorable_adjusted: "scorable e \<Longrightarrow> \<exists>final raw a. adjusted_score rt pen asns subnets e = Inr (final, raw, a)"
  by (auto simp: scorable_def ok_iff adjusted_score_def)

lemma adjusted_rmap:
  "list_all scorable es \<Longrightarrow> \<exists>ks. rmap (adjusted_score rt pen asns subnets) es = Inr ks"
proof (induction es)
  case (Cons e es)
  then show ?case using scorable_adjusted [of e rt pen asns subnets] by fastforce
qed simp

lemma rank_step_pick:
  assumes "es \<noteq> []" and "list_all scorable es" and "distinct_addresses es"
  obtains i final raw a where "i < length es"
    and "adjusted_score rt pen asns subnets (es ! i) = Inr (final, raw, a)"
    and "\<forall>e' \<in> set es. \<exists>k. adjusted_score rt pen asns subnets e' = Inr k \<and> k \<le> (final, raw, a)"
    and "rank_step rt pen asns subnets es = Inr (with_scores raw final (es ! i), delete_at i es,
      count (asn_key rt (es ! i)) asns, count (subnet_key rt (es ! i)) subnets)"
proof -
  from adjusted_rmap [OF assms(2)] obtain ks where ks: "rmap (adjusted_score rt pen asns subnets) es = Inr ks"
    by blast
  note all2 = rmap_Inr_D [OF ks]
  then have len: "length ks = length es" and nth: "\<And>j. j < length es \<Longrightarrow> adjusted_score rt pen asns subnets (es ! j) = Inr (ks ! j)"
    by (simp_all add: list_all2_conv_all_nth)
  let ?i = "max_index ks"
  have "ks \<noteq> []" using len assms(1) by auto
  note mx = max_index_max [OF this]
  obtain final raw a where k: "ks ! ?i = (final, raw, a)" by (cases "ks ! ?i") auto
  have i: "?i < length es" using mx(1) len by simp
  have "\<exists>k. adjusted_score rt pen asns subnets e' = Inr k \<and> k \<le> (final, raw, a)" if "e' \<in> set es" for e'
  proof -
    from that obtain j where j: "j < length es" "e' = es ! j" by (auto simp: in_set_conv_nth)
    with nth [OF j(1)] mx(2) [of "ks ! j"] len k show ?thesis by simp
  qed
  moreover have "rank_step rt pen asns subnets es = Inr (with_scores raw final (es ! ?i), delete_at ?i es,
      count (asn_key rt (es ! ?i)) asns, count (subnet_key rt (es ! ?i)) subnets)"
    using ks k remove_index_self [OF assms(3) i] i
    by (simp add: rank_step_def Let_def delete_at_update)
  ultimately show thesis using that [OF i] nth [OF i] k by metis
qed

lemma rank_loop_greedy:
  assumes "list_all scorable es" and "distinct_addresses es"
  shows "\<exists>ranked. rank_loop rt pen slots asns subnets es = Inr ranked
    \<and> greedy rt pen slots asns subnets (mset es) ranked"
  using assms
proof (induction slots arbitrary: asns subnets es)
  case 0
  then show ?case by (auto intro: greedy.no_slot)
next
  case (Suc slots)
  show ?case
  proof (cases "es = []")
    case True
    then show ?thesis by (auto intro: greedy.no_entry)
  next
    case False
    from False Suc.prems obtain i final raw a where i: "i < length es"
      and a: "adjusted_score rt pen asns subnets (es ! i) = Inr (final, raw, a)"
      and mx: "\<forall>e' \<in> set es. \<exists>k. adjusted_score rt pen asns subnets e' = Inr k \<and> k \<le> (final, raw, a)"
      and st: "rank_step rt pen asns subnets es = Inr (with_scores raw final (es ! i), delete_at i es,
        count (asn_key rt (es ! i)) asns, count (subnet_key rt (es ! i)) subnets)"
      by (rule rank_step_pick)
    have "list_all scorable (delete_at i es)"
      using Suc.prems(1) set_delete_at [of i es] by (auto simp: list_all_iff)
    with Suc.IH [OF this distinct_addresses_delete [OF Suc.prems(2)]] obtain ranked where
      r: "rank_loop rt pen slots (count (asn_key rt (es ! i)) asns) (count (subnet_key rt (es ! i)) subnets)
          (delete_at i es) = Inr ranked"
      and g: "greedy rt pen slots (count (asn_key rt (es ! i)) asns) (count (subnet_key rt (es ! i)) subnets)
          (mset (delete_at i es)) ranked"
      by blast
    have "greedy rt pen (Suc slots) asns subnets (mset es) (with_scores raw final (es ! i) # ranked)"
      using i a mx g by (intro greedy.pick) (simp_all add: mset_delete_at)
    with False st r show ?thesis by simp
  qed
qed

lemma eligible_Inr:
  "eligible min_score es = Inr rs \<Longrightarrow> rs = filter (\<lambda>e. \<exists>s. base_score e = Inr s \<and> min_score \<le> s) es
     \<and> list_all scorable es"
  by (induction es arbitrary: rs) (auto simp: res_simps scorable_def)

lemma distinct_addresses_filter: "distinct_addresses es \<Longrightarrow> distinct_addresses (filter P es)"
  by (auto simp: distinct_addresses_def list_all_iff distinct_map intro: inj_on_subset)

lemma rank_entries_greedy:
  assumes "rank_entries rt entries reserve_size min_score pen = Inr ranked" and "distinct_addresses entries"
  shows "greedy rt pen (nat reserve_size) (\<lambda>_. 0) (\<lambda>_. 0)
    (mset (filter (\<lambda>e. \<exists>s. base_score e = Inr s \<and> min_score \<le> s) entries)) ranked"
proof -
  let ?es = "filter (\<lambda>e. \<exists>s. base_score e = Inr s \<and> min_score \<le> s) entries"
  from assms(1) obtain rem where "eligible min_score entries = Inr rem"
    and l: "rank_loop rt pen (nat reserve_size) (\<lambda>_. 0) (\<lambda>_. 0) rem = Inr ranked"
    by (auto simp: rank_entries_def res_simps)
  from eligible_Inr [OF this(1)] have rem: "rem = ?es" "list_all scorable entries" by blast+
  then have "list_all scorable rem" by (auto simp: list_all_iff)
  moreover have "distinct_addresses rem" using assms(2) rem(1) by (simp add: distinct_addresses_filter)
  ultimately show ?thesis
    using rank_loop_greedy [of rem rt pen "nat reserve_size" "\<lambda>_. 0" "\<lambda>_. 0"] l rem(1) by auto
qed

section \<open>The selection\<close>

lemma select_loop_subseq: "subseq (select_loop rt n u c k es) es"
  by (induction rt n u c k es rule: select_loop.induct) auto

lemma select_loop_length: "c \<le> n \<Longrightarrow> c + int (length (select_loop rt n u c k es)) \<le> n"
  by (induction rt n u c k es rule: select_loop.induct) auto

lemma select_loop_unknown:
  "k \<le> u \<Longrightarrow> k + int (length (filter (\<lambda>e. asn_key rt e = None) (select_loop rt n u c k es))) \<le> u"
  by (induction rt n u c k es rule: select_loop.induct) auto

lemma select_loop_known:
  "c + int (length (select_loop rt n u c k es)) < n \<Longrightarrow>
     filter (\<lambda>e. asn_key rt e \<noteq> None) (select_loop rt n u c k es) = filter (\<lambda>e. asn_key rt e \<noteq> None) es"
  by (induction rt n u c k es rule: select_loop.induct) (auto split: if_splits)

lemma select_active_Inr:
  "select_active_entries rt ranked n ratio = Inr active \<longleftrightarrow>
     1 \<le> n \<and> 0 \<le> ratio \<and> ratio \<le> 1 \<and> active = select_loop rt n (unknown_limit n ratio) 0 0 ranked"
  by (auto simp: select_active_entries_def res_simps)

lemma unknown_limit_nonneg: "1 \<le> n \<Longrightarrow> 0 \<le> ratio \<Longrightarrow> 0 \<le> unknown_limit n ratio"
proof -
  assume "1 \<le> n" "0 \<le> ratio"
  moreover have "0 \<le> fint n" using fint_mono [of 0 n] \<open>1 \<le> n\<close> by (simp add: fint_def)
  ultimately have "fl 0 \<le> fl (fint n * ratio)" by (intro fl_mono) simp
  then show ?thesis by (simp add: unknown_limit_def fmul_def)
qed

section \<open>Properties\<close>

text \<open>
  The base score is total on the entries that the validator publishes and lies between 2 and
  520 in double arithmetic; it never falls when the latency falls or the success streak grows.
\<close>

theorem base_score_range_mono:
  assumes "base_score e = Inr s" and "base_score e' = Inr s'"
    and "json_int (get_default e ''latency_ms'' (JInt 1)) = Inr l"
    and "json_int (get_default e' ''latency_ms'' (JInt 1)) = Inr l'"
    and "json_int (get_default e ''success_streak'' (JInt 1)) = Inr k"
    and "json_int (get_default e' ''success_streak'' (JInt 1)) = Inr k'"
  shows "2 \<le> s \<and> s \<le> 520 \<and> (l \<le> l' \<and> k' \<le> k \<longrightarrow> s' \<le> s)"
proof -
  have s: "s = score_of (max 1 l) (max 1 k)" "s' = score_of (max 1 l') (max 1 k')"
    using assms by (auto simp: base_score_Inr)
  have "s' \<le> s" if "l \<le> l'" "k' \<le> k"
    unfolding s using that by (intro score_mono) (auto simp: max_def)
  then show ?thesis using score_range [of "max 1 l" "max 1 k"] by (simp add: s(1))
qed

lemma base_score_range_mono_witness:
  "\<exists>s s'. base_score [(''latency_ms'', JInt 120), (''success_streak'', JInt 4)] = Inr s
     \<and> base_score [(''latency_ms'', JInt 900), (''success_streak'', JInt 2)] = Inr s'
     \<and> 2 \<le> s \<and> s \<le> 520 \<and> s' \<le> s"
proof -
  let ?e = "[(''latency_ms'', JInt 120), (''success_streak'', JInt 4)]"
  let ?e' = "[(''latency_ms'', JInt 900), (''success_streak'', JInt 2)]"
  obtain s s' where "base_score ?e = Inr s" "base_score ?e' = Inr s'"
    by (simp add: base_score_def Let_def)
  from base_score_range_mono [OF this, of 120 900 4 2] this show ?thesis by simp
qed

text \<open>
  C17. The ranking refines its specification: for entries with distinct addresses \<open>rank_entries\<close>
  returns a greedy diversity-aware ranking of the entries whose base score reaches the threshold,
  that is, each position holds an entry whose adjusted score is maximal among those not yet
  ranked, given the networks ranked before it.
\<close>

theorem rank_entries_refines_greedy:
  assumes "rank_entries rt entries reserve_size min_score pen = Inr ranked" and "distinct_addresses entries"
  shows "greedy rt pen (nat reserve_size) (\<lambda>_. 0) (\<lambda>_. 0)
    (mset (filter (\<lambda>e. \<exists>s. base_score e = Inr s \<and> min_score \<le> s) entries)) ranked"
  using assms by (rule rank_entries_greedy)

definition sample_rt :: pyrt where
  "sample_rt = \<lparr>rt_repr = (\<lambda>_. []), rt_idna = (\<lambda>_. None)\<rparr>"

definition sample_entries :: "dict list" where
  "sample_entries = [[(''address'', JStr ''http://a:1''), (''latency_ms'', JInt 999)],
     [(''address'', JStr ''http://b:1''), (''latency_ms'', JInt 1)]]"

lemma sample_distinct: "distinct_addresses sample_entries"
  by (simp add: distinct_addresses_def sample_entries_def addressed_def)

lemma base_score_nonneg: "base_score e = Inr s \<Longrightarrow> 0 \<le> s"
proof -
  assume "base_score e = Inr s"
  then obtain l k where "s = score_of (max 1 l) (max 1 k)" by (auto simp: base_score_Inr)
  with score_range(1) [of "max 1 l" "max 1 k"] show ?thesis by simp
qed

lemma rank_entries_total:
  assumes "list_all scorable es" and "distinct_addresses es" and "1 \<le> n" and "1 \<le> pen"
  shows "\<exists>ranked. rank_entries rt es n 0 pen = Inr ranked \<and> length ranked = min (nat n) (length es)"
proof -
  have all: "eligible 0 es = Inr es" if "list_all scorable es" for es
    using that by (induction es) (auto simp: scorable_def ok_iff base_score_nonneg)
  from rank_loop_greedy [OF assms(1,2), of rt pen "nat n" "\<lambda>_. 0" "\<lambda>_. 0"] all [OF assms(1)] assms(3,4)
  obtain ranked where r: "rank_entries rt es n 0 pen = Inr ranked"
    by (auto simp: rank_entries_def)
  have "filter (\<lambda>e. \<exists>s. base_score e = Inr s \<and> 0 \<le> s) es = es"
    using assms(1) base_score_nonneg by (auto simp: filter_id_conv list_all_iff scorable_def ok_iff)
  with greedy_length [OF rank_entries_greedy [OF r assms(2)]] r show ?thesis by simp
qed

lemma sample_scorable: "list_all scorable sample_entries"
  by (simp add: sample_entries_def scorable_def ok_def base_score_def Let_def)

lemma sample_ranked: "\<exists>ranked. rank_entries sample_rt sample_entries 5 0 2 = Inr ranked"
  using rank_entries_total [OF sample_scorable sample_distinct, of 5 2 sample_rt] by auto

lemma rank_entries_refines_greedy_witness:
  "\<exists>ranked. rank_entries sample_rt sample_entries 5 0 2 = Inr ranked
    \<and> greedy sample_rt 2 (nat 5) (\<lambda>_. 0) (\<lambda>_. 0)
        (mset (filter (\<lambda>e. \<exists>s. base_score e = Inr s \<and> 0 \<le> s) sample_entries)) ranked"
  using sample_ranked rank_entries_refines_greedy [OF _ sample_distinct] by blast

text \<open>
  Nothing is invented, repeated or lost: the ranking has exactly as many entries as fit
  (\<open>RESERVE_SIZE\<close> or all the eligible ones), and its entries are, one for one, different eligible
  input entries with their base score and final score added.
\<close>

theorem rank_entries_origin:
  assumes "rank_entries rt entries reserve_size min_score pen = Inr ranked" and "distinct_addresses entries"
  shows "length ranked = min (nat reserve_size)
      (length (filter (\<lambda>e. \<exists>s. base_score e = Inr s \<and> min_score \<le> s) entries))
    \<and> (\<exists>es. mset es \<subseteq># mset (filter (\<lambda>e. \<exists>s. base_score e = Inr s \<and> min_score \<le> s) entries)
         \<and> list_all2 (scored_from rt) ranked es)"
  using greedy_length [OF rank_entries_greedy [OF assms]] greedy_origin [OF rank_entries_greedy [OF assms]]
  unfolding size_mset by (rule conjI)

lemma rank_entries_origin_witness:
  "\<exists>ranked. rank_entries sample_rt sample_entries 5 0 2 = Inr ranked
    \<and> length ranked = min (nat 5) (length (filter (\<lambda>e. \<exists>s. base_score e = Inr s \<and> 0 \<le> s) sample_entries))"
  using sample_ranked rank_entries_origin [OF _ sample_distinct] by blast

text \<open>
  The active pool is a bounded selection: a subsequence of the ranking, of at most \<open>POOL_SIZE\<close>
  entries, with at most \<open>int(POOL_SIZE * MAX_UNKNOWN_ASN_RATIO)\<close> entries without a verified ASN; and
  when places remain, every verified entry of the ranking has been selected.
\<close>

theorem select_active_bounded:
  assumes "select_active_entries rt ranked pool_size ratio = Inr active"
  shows "subseq active ranked \<and> int (length active) \<le> pool_size
    \<and> int (length (filter (\<lambda>e. asn_key rt e = None) active)) \<le> unknown_limit pool_size ratio
    \<and> (int (length active) < pool_size \<longrightarrow>
         filter (\<lambda>e. asn_key rt e \<noteq> None) active = filter (\<lambda>e. asn_key rt e \<noteq> None) ranked)"
proof -
  from assms have *: "1 \<le> pool_size" "0 \<le> ratio"
    and active: "active = select_loop rt pool_size (unknown_limit pool_size ratio) 0 0 ranked"
    by (simp_all add: select_active_Inr)
  note u = unknown_limit_nonneg [OF *]
  show ?thesis
    unfolding active
    using select_loop_subseq select_loop_length [of 0 pool_size] *(1) select_loop_unknown [OF u]
      select_loop_known [of 0 rt pool_size]
    by simp
qed

lemma select_active_bounded_witness:
  "\<exists>active. select_active_entries sample_rt sample_entries 1 (1/2) = Inr active \<and> length active \<le> 1"
proof -
  obtain active where a: "select_active_entries sample_rt sample_entries 1 (1/2) = Inr active"
    by (simp add: select_active_entries_def)
  from select_active_bounded [OF a] a show ?thesis by auto
qed

end
