(* ===== verification/Ranker.thy ===== *)
theory Ranker
  imports Ranking Snapshot_Store
begin

text \<open>
  One cycle of the ranker (\<open>validator/ranker.py\<close>): read the validated snapshot, rank, select, and
  publish the reserve snapshot and the active one under its two keys. \<open>float(os.getenv(...))\<close> is
  given by its result.
\<close>

record ranker_env =
  re_reserve_size :: "string option"
  re_pool_size :: "string option"
  re_min_score :: "rat res"
  re_unknown_penalty :: "rat res"
  re_unknown_ratio :: "rat res"
  re_now :: int
  re_uuid_reserve :: string
  re_uuid_active :: string
  re_uuid_gateway :: string

definition positive_int :: "string option \<Rightarrow> string \<Rightarrow> int res" where
  "positive_int t dflt =
     rbind (of_option (ValueError ''invalid literal for int()'')
       (py_int (case t of None \<Rightarrow> dflt | Some s \<Rightarrow> s))) (\<lambda>v.
     rbind (ensure (1 \<le> v) (ValueError ''must be positive'')) (\<lambda>_. Inr v))"

definition lineage :: "ranker_env \<Rightarrow> dict \<Rightarrow> dict list \<Rightarrow> dict" where
  "lineage env validated entries =
     [(''generated_at'', JInt (re_now env)),
      (''validator_cycle'', get validated ''validator_cycle''),
      (''source_generated_at'', get validated ''generated_at''),
      (''raw_source_generated_at'', get validated ''source_generated_at''),
      (''entries'', JArr (map JObj entries))]"

definition reserve_snapshot :: "ranker_env \<Rightarrow> dict \<Rightarrow> dict list \<Rightarrow> rat \<Rightarrow> int \<Rightarrow> rat \<Rightarrow> dict" where
  "reserve_snapshot env validated ranked min_score reserve_size penalty =
     lineage env validated ranked @
     [(''min_score_threshold'', JFloat min_score), (''reserve_size'', JInt reserve_size),
      (''unknown_asn_penalty'', JFloat penalty)]"

definition active_snapshot :: "ranker_env \<Rightarrow> dict \<Rightarrow> dict list \<Rightarrow> rat \<Rightarrow> int \<Rightarrow> rat \<Rightarrow> dict" where
  "active_snapshot env validated active min_score pool_size ratio =
     lineage env validated active @
     [(''min_score_threshold'', JFloat min_score), (''pool_size'', JInt pool_size),
      (''max_unknown_asn_ratio'', JFloat ratio)]"

text \<open>What a cycle computes before it publishes: the two pools with their snapshots.\<close>

definition rank_pools ::
  "pyrt \<Rightarrow> ranker_env \<Rightarrow> dict \<Rightarrow> (dict list \<times> dict \<times> dict list \<times> dict) res" where
  "rank_pools rt env validated =
     rbind (positive_int (re_reserve_size env) ''700'') (\<lambda>reserve_size.
     rbind (positive_int (re_pool_size env) ''150'') (\<lambda>pool_size.
     rbind (ensure (pool_size \<le> reserve_size)
       (ValueError ''POOL_SIZE must be less than or equal to RESERVE_SIZE'')) (\<lambda>_.
     rbind (re_min_score env) (\<lambda>min_score.
     rbind (re_unknown_penalty env) (\<lambda>penalty.
     rbind (re_unknown_ratio env) (\<lambda>ratio.
     rbind (rank_entries rt (dicts (case get validated ''entries'' of JArr xs \<Rightarrow> xs | _ \<Rightarrow> []))
       reserve_size min_score penalty) (\<lambda>ranked.
     rbind (select_active_entries rt ranked pool_size ratio) (\<lambda>active.
     Inr (ranked, reserve_snapshot env validated ranked min_score reserve_size penalty,
          active, active_snapshot env validated active min_score pool_size ratio)))))))))"

definition ranker_cycle ::
  "pyrt \<Rightarrow> ranker_env \<Rightarrow> 'd redis \<Rightarrow> 'd \<Rightarrow> 'd \<times> (nat \<times> nat) option res" where
  "ranker_cycle rt env cl d =
     (case read_snapshot cl VALIDATED_KEY d of
        Inl e \<Rightarrow> (d, Inl e)
      | Inr None \<Rightarrow> (d, Inr None)
      | Inr (Some validated) \<Rightarrow>
          (case rank_pools rt env validated of
             Inl e \<Rightarrow> (d, Inl e)
           | Inr (ranked, reserve, active_entries, active) \<Rightarrow>
               (case publish_snapshot cl (re_uuid_reserve env) RESERVE_KEY reserve d of
                  (d1, Inl e) \<Rightarrow> (d1, Inl e)
                | (d1, Inr _) \<Rightarrow>
                    (case publish_active_snapshot cl (re_uuid_active env) (re_uuid_gateway env) active d1 of
                       (d2, Inl e) \<Rightarrow> (d2, Inl e)
                     | (d2, Inr _) \<Rightarrow> (d2, Inr (Some (length ranked, length active_entries)))))))"

section \<open>Lemmas\<close>

lemma positive_int_Inr: "positive_int t dflt = Inr n \<Longrightarrow> 1 \<le> n"
  by (auto simp: positive_int_def res_simps)

lemma rank_pools_Inr:
  assumes "rank_pools rt env validated = Inr (ranked, reserve, active, active_snap)"
  obtains reserve_size pool_size min_score penalty ratio where "1 \<le> pool_size" and "pool_size \<le> reserve_size"
    and "rank_entries rt (dicts (case get validated ''entries'' of JArr xs \<Rightarrow> xs | _ \<Rightarrow> []))
      reserve_size min_score penalty = Inr ranked"
    and "select_active_entries rt ranked pool_size ratio = Inr active"
    and "reserve = reserve_snapshot env validated ranked min_score reserve_size penalty"
    and "active_snap = active_snapshot env validated active min_score pool_size ratio"
  using assms by (auto simp: rank_pools_def res_simps dest: positive_int_Inr)

text \<open>The four keys of the pools are apart from the temporary ones.\<close>

definition ranker_keys_apart :: "ranker_env \<Rightarrow> bool" where
  "ranker_keys_apart env \<longleftrightarrow>
     set [temporary_key RESERVE_KEY (re_uuid_reserve env), temporary_key ACTIVE_KEY (re_uuid_active env),
          temporary_key GATEWAY_ACTIVE_KEY (re_uuid_gateway env)] \<inter> set LIVE_KEYS = {}"

lemma keys_apart: "ranker_keys_apart env"
  by (simp add: ranker_keys_apart_def temporary_key_def LIVE_KEYS_def RAW_KEY_def VALIDATED_KEY_def
      RESERVE_KEY_def ACTIVE_KEY_def GATEWAY_ACTIVE_KEY_def)

lemma pool_keys_distinct: "distinct LIVE_KEYS"
  by (simp add: LIVE_KEYS_def RAW_KEY_def VALIDATED_KEY_def RESERVE_KEY_def ACTIVE_KEY_def GATEWAY_ACTIVE_KEY_def)

lemma ranker_cycle_Some:
  assumes "ranker_cycle rt env cl d = (d', Inr (Some (n, k)))"
  obtains validated ranked reserve active active_snap d1 d2 where
    "read_snapshot cl VALIDATED_KEY d = Inr (Some validated)"
    and "rank_pools rt env validated = Inr (ranked, reserve, active, active_snap)"
    and "publish_snapshot cl (re_uuid_reserve env) RESERVE_KEY reserve d = (d1, Inr ())"
    and "publish_snapshot cl (re_uuid_active env) ACTIVE_KEY active_snap d1 = (d2, Inr ())"
    and "publish_snapshot cl (re_uuid_gateway env) GATEWAY_ACTIVE_KEY active_snap d2 = (d', Inr ())"
    and "n = length ranked" and "k = length active"
  using assms
  by (auto simp: ranker_cycle_def publish_active_snapshot_def split: sum.splits option.splits prod.splits)

section \<open>Properties\<close>

text \<open>
  C16. A ranking cycle that succeeds publishes consistent pools: the internal active key and the
  gateway's key hold the same snapshot, the reserve key holds the ranking, both carry the cycle
  and the times of the validated snapshot they come from, and the active entries are a
  subsequence of the ranked ones within the configured sizes.
\<close>

theorem ranker_publishes_pools:
  assumes "redis_laws cl" and "ranker_cycle rt env cl d = (d', Inr (Some (n, k)))"
  shows "\<exists>validated ranked active pool_size reserve_size min_score penalty ratio.
      read_snapshot cl VALIDATED_KEY d = Inr (Some validated)
    \<and> rank_entries rt (dicts (case get validated ''entries'' of JArr xs \<Rightarrow> xs | _ \<Rightarrow> []))
        reserve_size min_score penalty = Inr ranked
    \<and> r_get cl d' RESERVE_KEY = Some (json_dumps_sorted
        (JObj (reserve_snapshot env validated ranked min_score reserve_size penalty)))
    \<and> r_get cl d' ACTIVE_KEY = Some (json_dumps_sorted
        (JObj (active_snapshot env validated active min_score pool_size ratio)))
    \<and> r_get cl d' GATEWAY_ACTIVE_KEY = r_get cl d' ACTIVE_KEY
    \<and> subseq active ranked \<and> n = length ranked \<and> k = length active
    \<and> int k \<le> pool_size \<and> pool_size \<le> reserve_size"
proof -
  from assms(2) obtain validated ranked reserve active active_snap d1 d2 where
    v: "read_snapshot cl VALIDATED_KEY d = Inr (Some validated)"
    and pools: "rank_pools rt env validated = Inr (ranked, reserve, active, active_snap)"
    and p1: "publish_snapshot cl (re_uuid_reserve env) RESERVE_KEY reserve d = (d1, Inr ())"
    and p2: "publish_snapshot cl (re_uuid_active env) ACTIVE_KEY active_snap d1 = (d2, Inr ())"
    and p3: "publish_snapshot cl (re_uuid_gateway env) GATEWAY_ACTIVE_KEY active_snap d2 = (d', Inr ())"
    and n: "n = length ranked" "k = length active"
    by (rule ranker_cycle_Some)
  from pools obtain reserve_size pool_size min_score penalty ratio where sz: "pool_size \<le> reserve_size"
    and rk: "rank_entries rt (dicts (case get validated ''entries'' of JArr xs \<Rightarrow> xs | _ \<Rightarrow> []))
      reserve_size min_score penalty = Inr ranked"
    and sel: "select_active_entries rt ranked pool_size ratio = Inr active"
    and s1: "reserve = reserve_snapshot env validated ranked min_score reserve_size penalty"
    and s2: "active_snap = active_snapshot env validated active min_score pool_size ratio"
    by (rule rank_pools_Inr)
  have c: "redis_client cl" using assms(1) by (rule redis_client.intro)
  note g1 = redis_client.publish_get [OF c p1] and g2 = redis_client.publish_get [OF c p2]
    and g3 = redis_client.publish_get [OF c p3]
  note apart = keys_apart [of env, unfolded ranker_keys_apart_def LIVE_KEYS_def]
    and dist = pool_keys_distinct [unfolded LIVE_KEYS_def]
  have a: "r_get cl d' ACTIVE_KEY = Some (json_dumps_sorted (JObj active_snap))"
    using g2(1) g3(2) [of ACTIVE_KEY] apart dist by simp
  have r: "r_get cl d' RESERVE_KEY = Some (json_dumps_sorted (JObj reserve))"
    using g1(1) g2(2) [of RESERVE_KEY] g3(2) [of RESERVE_KEY] apart dist by auto
  have "subseq active ranked" "int k \<le> pool_size"
    using sel select_loop_subseq select_loop_length [of 0 pool_size]
    by (auto simp: select_active_Inr n)
  with v rk a r g3(1) n sz s1 s2 show ?thesis by (metis (no_types, lifting))
qed

definition validated_sample :: dict where
  "validated_sample = [(''entries'', JArr (map JObj sample_entries)), (''generated_at'', JInt 3)]"

definition validated_store :: store where
  "validated_store = (\<lambda>_. None)(VALIDATED_KEY \<mapsto> json_dumps_sorted (JObj validated_sample))"

definition sample_ranker_env :: ranker_env where
  "sample_ranker_env = \<lparr>re_reserve_size = Some ''5'', re_pool_size = Some ''1'', re_min_score = Inr 0,
     re_unknown_penalty = Inr 2, re_unknown_ratio = Inr 1, re_now = 4, re_uuid_reserve = ''a'',
     re_uuid_active = ''b'', re_uuid_gateway = ''c''\<rparr>"

lemma validated_store_read: "read_snapshot FakeRedis VALIDATED_KEY validated_store = Inr (Some validated_sample)"
proof -
  have "sort_keys (JObj validated_sample) = JObj validated_sample" by code_simp
  then show ?thesis
    by (simp add: read_snapshot_def validated_store_def FakeRedis_def json_dumps_sorted_def)
      (simp add: validated_sample_def)
qed

lemma sample_ranker_cycle:
  "\<exists>d' n k. ranker_cycle sample_rt sample_ranker_env FakeRedis validated_store = (d', Inr (Some (n, k)))"
proof -
  have i: "py_int ''5'' = Some 5" "py_int ''1'' = Some 1" by code_simp+
  obtain ranked where r: "rank_entries sample_rt sample_entries 5 0 2 = Inr ranked"
    using sample_ranked by blast
  obtain active where s: "select_active_entries sample_rt ranked 1 1 = Inr active"
    by (simp add: select_active_entries_def)
  have e: "dicts (case get validated_sample ''entries'' of JArr xs \<Rightarrow> xs | _ \<Rightarrow> []) = sample_entries"
    by (simp add: validated_sample_def)
  have "\<exists>a b. rank_pools sample_rt sample_ranker_env validated_sample = Inr (ranked, a, active, b)"
    using i r s e by (simp add: rank_pools_def positive_int_def sample_ranker_env_def)
  then obtain a b where p: "rank_pools sample_rt sample_ranker_env validated_sample = Inr (ranked, a, active, b)"
    by blast
  from fake.publish_up [OF FakeRedis_up] obtain d1 where
    p1: "publish_snapshot FakeRedis (re_uuid_reserve sample_ranker_env) RESERVE_KEY a validated_store = (d1, Inr ())" by blast
  from fake.publish_up [OF FakeRedis_up] obtain d2 where
    p2: "publish_snapshot FakeRedis (re_uuid_active sample_ranker_env) ACTIVE_KEY b d1 = (d2, Inr ())" by blast
  from fake.publish_up [OF FakeRedis_up] obtain d3 where
    p3: "publish_snapshot FakeRedis (re_uuid_gateway sample_ranker_env) GATEWAY_ACTIVE_KEY b d2 = (d3, Inr ())" by blast
  show ?thesis
    by (simp add: ranker_cycle_def validated_store_read p p1 publish_active_snapshot_def p2 p3)
qed

lemma ranker_publishes_pools_witness:
  "\<exists>d' n k. ranker_cycle sample_rt sample_ranker_env FakeRedis validated_store = (d', Inr (Some (n, k)))
     \<and> d' GATEWAY_ACTIVE_KEY = d' ACTIVE_KEY \<and> d' RESERVE_KEY \<noteq> None"
proof -
  obtain d' n k where c: "ranker_cycle sample_rt sample_ranker_env FakeRedis validated_store = (d', Inr (Some (n, k)))"
    using sample_ranker_cycle by blast
  from ranker_publishes_pools [OF FakeRedis_laws c] c show ?thesis by (fastforce simp: FakeRedis_def)
qed

text \<open>
  A cycle that fails leaves what the gateway reads untouched: with a broken validated snapshot
  or a bad configuration nothing is published at all, and when a command of the publication
  raises, the gateway's key keeps its old value.
\<close>

theorem ranker_error_keeps_gateway:
  assumes "redis_laws cl" and "ranker_cycle rt env cl d = (d', Inl e)"
  shows "r_get cl d' GATEWAY_ACTIVE_KEY = r_get cl d GATEWAY_ACTIVE_KEY
    \<and> (case read_snapshot cl VALIDATED_KEY d of
         Inr (Some m) \<Rightarrow> (case rank_pools rt env m of Inl _ \<Rightarrow> d' = d | Inr _ \<Rightarrow> True)
       | _ \<Rightarrow> d' = d)"
proof (cases "d' = d")
  case False
  with assms(2) obtain validated where v: "read_snapshot cl VALIDATED_KEY d = Inr (Some validated)"
    by (auto simp: ranker_cycle_def split: sum.splits option.splits)
  from assms(2) False obtain ranked reserve active active_snap where
    pools: "rank_pools rt env validated = Inr (ranked, reserve, active, active_snap)"
    by (cases "rank_pools rt env validated") (auto simp: ranker_cycle_def v)
  have c: "redis_client cl" using assms(1) by (rule redis_client.intro)
  note apart = keys_apart [of env, unfolded ranker_keys_apart_def LIVE_KEYS_def]
    and dist = pool_keys_distinct [unfolded LIVE_KEYS_def]
  obtain d1 r1 where p1: "publish_snapshot cl (re_uuid_reserve env) RESERVE_KEY reserve d = (d1, r1)" by fastforce
  note eq = ranker_cycle_def v pools sum.case option.case prod.case p1
  have "r_get cl d' GATEWAY_ACTIVE_KEY = r_get cl d GATEWAY_ACTIVE_KEY"
  proof (cases r1)
    case (Inl e1)
    with assms(2) have "d' = d1" by (simp add: eq)
    then show ?thesis
      using redis_client.publish_failed [OF c p1 [unfolded Inl], of GATEWAY_ACTIVE_KEY] apart by simp
  next
    case (Inr u)
    with p1 have p1': "publish_snapshot cl (re_uuid_reserve env) RESERVE_KEY reserve d = (d1, Inr ())" by simp
    from Inr assms(2) have pa: "publish_active_snapshot cl (re_uuid_active env) (re_uuid_gateway env) active_snap d1
        = (d', Inl e)"
      by (auto simp: eq split: prod.splits sum.splits)
    have "r_get cl d1 GATEWAY_ACTIVE_KEY = r_get cl d GATEWAY_ACTIVE_KEY"
      using redis_client.publish_get(2) [OF c p1', of GATEWAY_ACTIVE_KEY] apart dist by auto
    moreover have "r_get cl d' GATEWAY_ACTIVE_KEY = r_get cl d1 GATEWAY_ACTIVE_KEY"
      using redis_client.publish_active_keeps [OF c pa] .
    ultimately show ?thesis by simp
  qed
  then show ?thesis by (simp add: v pools)
qed (simp split: sum.splits option.splits)

lemma ranker_error_keeps_gateway_witness:
  "\<exists>e d'. ranker_cycle sample_rt (sample_ranker_env\<lparr>re_pool_size := Some ''0''\<rparr>) FakeRedis validated_store = (d', Inl e)
     \<and> d' GATEWAY_ACTIVE_KEY = validated_store GATEWAY_ACTIVE_KEY"
proof -
  have i: "py_int ''5'' = Some 5" "py_int ''0'' = Some 0" by code_simp+
  have c: "ranker_cycle sample_rt (sample_ranker_env\<lparr>re_pool_size := Some ''0''\<rparr>) FakeRedis validated_store
      = (validated_store, Inl (ValueError ''must be positive''))"
    using i by (simp add: ranker_cycle_def validated_store_read rank_pools_def positive_int_def sample_ranker_env_def)
  from ranker_error_keeps_gateway [OF FakeRedis_laws c] c show ?thesis by (simp add: FakeRedis_def)
qed

end
