(* ===== verification/Pool_Health.thy ===== *)
theory Pool_Health
  imports Ranker
begin

text \<open>
  The readiness of the proxy pools: \<open>assess\<close> of \<open>deploy/pool_health.py\<close> and the local gate
  \<open>check\<close> of \<open>deploy/readiness.py\<close>. The values are what \<open>json.loads\<close> made of the keys in Redis,
  with every exception that the untyped accesses can raise. The lemmas say what an accepted
  pipeline satisfies, and that the pools which the ranker computes from a fresh validated
  snapshot are accepted.
\<close>

section \<open>Untyped comparisons\<close>

text \<open>A number in an arithmetic or an order comparison; anything else raises \<open>TypeError\<close>.\<close>

definition num :: "json \<Rightarrow> rat res" where
  "num v = of_option TypeError (num_of v)"

definition below :: "json \<Rightarrow> rat \<Rightarrow> bool res" where
  "below v b = rbind (num v) (\<lambda>q. Inr (q < b))"

text \<open>\<open>-5 <= now - t <= limit\<close>: an integer \<open>t\<close> is converted to a float first.\<close>

definition fresh :: "rat \<Rightarrow> json \<Rightarrow> int \<Rightarrow> bool res" where
  "fresh now t limit =
     rbind (num t) (\<lambda>q. let age = fadd now (- fl q) in Inr (- 5 \<le> age \<and> age \<le> of_int limit))"

text \<open>\<open>a or b\<close> and \<open>if c: raise e\<close>.\<close>

definition por :: "bool res \<Rightarrow> bool res \<Rightarrow> bool res" where
  "por a b = rbind a (\<lambda>x. if x then Inr True else b)"

definition pnot :: "bool res \<Rightarrow> bool res" where
  "pnot a = rbind a (\<lambda>x. Inr (\<not> x))"

definition refuse :: "bool res \<Rightarrow> exn \<Rightarrow> unit res" where
  "refuse c e = rbind c (\<lambda>x. ensure (\<not> x) e)"

text \<open>The attribute \<open>.get\<close> and the subscript of a value that must be a dict.\<close>

definition dict_of :: "exn \<Rightarrow> json \<Rightarrow> dict res" where
  "dict_of e v = of_option e (as_dict v)"

section \<open>Pool health\<close>

type_synonym snapshots = "string \<Rightarrow> dict"

definition check_generated :: "snapshots \<Rightarrow> rat \<Rightarrow> (string \<Rightarrow> int) \<Rightarrow> string \<Rightarrow> unit res" where
  "check_generated snapshots now limits name =
     (let snapshot = snapshots name in
      refuse (por (Inr (\<not> truthy (get snapshot ''entries'')))
          (rbind (item snapshot ''generated_at'') (\<lambda>t. pnot (fresh now t (limits name)))))
        (ValueError (''empty or stale pool: '' @ name)))"

definition check_last_success :: "json \<Rightarrow> rat \<Rightarrow> (string \<Rightarrow> int) \<Rightarrow> unit res" where
  "check_last_success last_success now limits =
     refuse (por (Inr (\<not> truthy last_success))
        (por (rbind (dict_of AttributeError last_success) (\<lambda>m. below (get_default m ''healthy'' (JInt 0)) 1))
          (rbind (dict_of TypeError last_success) (\<lambda>m. rbind (item m ''completed_at'') (\<lambda>t.
             pnot (fresh now t (limits ''validated'')))))))
      (ValueError ''last successful validator cycle missing or stale'')"

definition check_cycle :: "json \<Rightarrow> rat \<Rightarrow> (string \<Rightarrow> int) \<Rightarrow> string \<Rightarrow> unit res" where
  "check_cycle cycle now limits name =
     refuse (por (Inr (\<not> truthy cycle))
        (rbind (dict_of AttributeError cycle) (\<lambda>m.
           por (Inr (\<not> truthy (get m ''id'')))
          (por (below (get_default m ''healthy'' (JInt 0)) 1)
               (rbind (item m ''completed_at'') (\<lambda>t. pnot (fresh now t (limits ''validated''))))))))
      (ValueError (''validator cycle missing or stale: '' @ name))"

definition check_lineage :: "snapshots \<Rightarrow> rat \<Rightarrow> (string \<Rightarrow> int) \<Rightarrow> string \<Rightarrow> unit res" where
  "check_lineage snapshots now limits name =
     (let snapshot = snapshots name in
      rbind (check_cycle (get snapshot ''validator_cycle'') now limits name) (\<lambda>_.
      rbind (if name = ''validated'' then item snapshot ''source_generated_at''
             else Inr (get snapshot ''raw_source_generated_at'')) (\<lambda>raw_time.
      rbind (refuse (por (Inr (raw_time = JNull))
            (pnot (fresh now raw_time (limits ''raw'' + limits ''validated''))))
          (ValueError (''raw lineage stale: '' @ name))) (\<lambda>_.
      if name = ''validated'' then Inr ()
      else refuse (por (Inr (get snapshot ''source_generated_at'' = JNull))
            (pnot (fresh now (get snapshot ''source_generated_at'') (limits ''validated''))))
          (ValueError (''validated lineage stale: '' @ name))))))"

text \<open>
  The identities of a pool: a set of tuples, whose members must be hashable and are compared
  with \<open>==\<close>.
\<close>

type_synonym identity = "json \<times> json \<times> json"

definition entry_identity :: "json \<Rightarrow> identity res" where
  "entry_identity v =
     rbind (dict_of TypeError v) (\<lambda>e.
     rbind (item e ''address'') (\<lambda>address.
     let ref = get e ''credential_ref''; exit_ip = get e ''exit_ip'' in
     rbind (ensure (hashable address \<and> hashable ref \<and> hashable exit_ip) TypeError) (\<lambda>_.
     Inr (address, ref, exit_ip))))"

text \<open>\<open>snapshots[name]["entries"]\<close>, over which nothing but a list can be iterated without an error.\<close>

definition pool_entries :: "snapshots \<Rightarrow> string \<Rightarrow> json list res" where
  "pool_entries snapshots name =
     rbind (item (snapshots name) ''entries'') (\<lambda>v. of_option TypeError (as_list v))"

definition identities :: "snapshots \<Rightarrow> string \<Rightarrow> identity list res" where
  "identities snapshots name = rbind (pool_entries snapshots name) (rmap entry_identity)"

fun same_identity :: "identity \<Rightarrow> identity \<Rightarrow> bool" where
  "same_identity (a, r, x) (a', r', x') = (py_eq a a' \<and> py_eq r r' \<and> py_eq x x')"

definition covered :: "identity list \<Rightarrow> identity list \<Rightarrow> bool" where
  "covered xs ys = list_all (\<lambda>x. list_ex (same_identity x) ys) xs"

text \<open>\<open>ipaddress.ip_address(v)\<close> accepts a text or a number.\<close>

fun valid_address :: "json \<Rightarrow> bool" where
  "valid_address (JStr s) = (ip_address s \<noteq> None)"
| "valid_address (JInt i) = (0 \<le> i \<and> i < 2 ^ 128)"
| "valid_address (JBool _) = True"
| "valid_address _ = False"

definition check_entry :: "json \<Rightarrow> unit res" where
  "check_entry v =
     rbind (dict_of TypeError v) (\<lambda>entry.
     rbind (item entry ''exit_ip'') (\<lambda>x.
     rbind (ensure (valid_address x) (ValueError ''does not appear to be an IPv4 or IPv6 address'')) (\<lambda>_.
     refuse (por (Inr (get entry ''protocol'' \<notin> set (map JStr [''http'', ''https'', ''socks4'', ''socks5''])))
          (below (get_default entry ''success_streak'' (JInt 0)) 1))
       (ValueError ''active upstream is not validated usable''))))"

fun check_each :: "('a \<Rightarrow> unit res) \<Rightarrow> 'a list \<Rightarrow> unit res" where
  "check_each f [] = Inr ()"
| "check_each f (x # xs) = rbind (f x) (\<lambda>_. check_each f xs)"

definition age_of :: "rat \<Rightarrow> json \<Rightarrow> int res" where
  "age_of now t = rbind (num t) (\<lambda>q. Inr (round_even (fadd now (- fl q))))"

definition check_identities :: "snapshots \<Rightarrow> unit res" where
  "check_identities snapshots =
     rbind (identities snapshots ''active'') (\<lambda>active.
     rbind (identities snapshots ''reserve'') (\<lambda>reserve.
     if \<not> covered active reserve then Inl (ValueError ''active upstream not present in validated/reserve pools'')
     else rbind (identities snapshots ''validated'') (\<lambda>validated.
       ensure (covered active validated) (ValueError ''active upstream not present in validated/reserve pools''))))"

text \<open>The ages that \<open>assess\<close> returns.\<close>

definition assess :: "snapshots \<Rightarrow> json \<Rightarrow> rat \<Rightarrow> (string \<Rightarrow> int) \<Rightarrow> (int \<times> int) res" where
  "assess snapshots last_success now limits =
     rbind (check_each (check_generated snapshots now limits) [''raw'', ''validated'', ''reserve'', ''active'']) (\<lambda>_.
     rbind (check_last_success last_success now limits) (\<lambda>_.
     rbind (check_each (check_lineage snapshots now limits) [''validated'', ''reserve'', ''active'']) (\<lambda>_.
     rbind (check_identities snapshots) (\<lambda>_.
     rbind (pool_entries snapshots ''active'') (\<lambda>es.
     rbind (check_each check_entry es) (\<lambda>_.
     rbind (dict_of TypeError last_success) (\<lambda>m. rbind (item m ''completed_at'') (\<lambda>success.
     rbind (item (snapshots ''active'') ''validator_cycle'') (\<lambda>v. rbind (dict_of TypeError v) (\<lambda>cycle.
     rbind (item cycle ''completed_at'') (\<lambda>completed.
     rbind (age_of now success) (\<lambda>a. rbind (age_of now completed) (\<lambda>b.
     Inr (a, b))))))))))))))"

section \<open>Lemmas\<close>

lemma por_False [res_simps]: "por a b = Inr False \<longleftrightarrow> a = Inr False \<and> b = Inr False"
  by (cases a) (auto simp: por_def)

lemma por_eval [simp]: "por (Inr True) b = Inr True" "por (Inr False) b = b"
  by (simp_all add: por_def)

lemma pnot_Inr [res_simps]: "pnot a = Inr b \<longleftrightarrow> a = Inr (\<not> b)"
  by (cases a) (auto simp: pnot_def)

lemma refuse_Inr [res_simps]: "refuse c e = Inr u \<longleftrightarrow> c = Inr False"
  by (cases c) (auto simp: refuse_def ensure_def)

lemma dict_of_Inr [res_simps]: "dict_of e v = Inr m \<longleftrightarrow> v = JObj m"
  by (cases v) (auto simp: dict_of_def)

lemma check_each_Inr: "check_each f xs = Inr () \<longleftrightarrow> (\<forall>x \<in> set xs. f x = Inr ())"
  by (induction xs) (auto simp: res_simps)

text \<open>A time in seconds that a freshness test accepts.\<close>

definition recent :: "rat \<Rightarrow> int \<Rightarrow> int \<Rightarrow> bool" where
  "recent now t limit \<longleftrightarrow> - 5 \<le> fadd now (- fint t) \<and> fadd now (- fint t) \<le> of_int limit"

lemma fresh_JInt [simp]: "fresh now (JInt t) limit = Inr (recent now t limit)"
  by (simp add: fresh_def num_def recent_def fint_def Let_def)

text \<open>The entries that the validator publishes: the members that the readiness reads.\<close>

definition healthy_entry :: "dict \<Rightarrow> bool" where
  "healthy_entry e \<longleftrightarrow>
     (\<exists>a x k. map_of e ''address'' = Some (JStr a) \<and> map_of e ''exit_ip'' = Some (JStr x)
        \<and> ip_address x \<noteq> None \<and> (get e ''credential_ref'' = JNull \<or> is_JStr (get e ''credential_ref''))
        \<and> get e ''protocol'' \<in> set (map JStr [''http'', ''https'', ''socks4'', ''socks5''])
        \<and> get e ''success_streak'' = JInt k \<and> 1 \<le> k)"

definition identity_of :: "dict \<Rightarrow> identity" where
  "identity_of e = (get e ''address'', get e ''credential_ref'', get e ''exit_ip'')"

lemma get_default_present: "get m k \<noteq> JNull \<Longrightarrow> get_default m k d = get m k"
  by (auto simp: get_def get_default_def split: option.splits)

lemma healthy_identity:
  assumes "healthy_entry e"
  shows "entry_identity (JObj e) = Inr (identity_of e)" and "same_identity (identity_of e) (identity_of e)"
proof -
  from assms obtain a x where m: "map_of e ''address'' = Some (JStr a)" "map_of e ''exit_ip'' = Some (JStr x)"
    and ref: "get e ''credential_ref'' = JNull \<or> is_JStr (get e ''credential_ref'')"
    unfolding healthy_entry_def by blast
  from ref have "hashable (get e ''credential_ref'') \<and> py_eq (get e ''credential_ref'') (get e ''credential_ref'')"
    by (cases "get e ''credential_ref''") simp_all
  then show "entry_identity (JObj e) = Inr (identity_of e)" "same_identity (identity_of e) (identity_of e)"
    using m by (simp_all add: entry_identity_def identity_of_def dict_of_def item_def get_def get_default_def Let_def)
qed

lemma healthy_check:
  assumes "healthy_entry e"
  shows "check_entry (JObj e) = Inr ()"
proof -
  from assms obtain x k where x: "map_of e ''exit_ip'' = Some (JStr x)" "ip_address x \<noteq> None"
    and p: "get e ''protocol'' \<in> set (map JStr [''http'', ''https'', ''socks4'', ''socks5''])"
    and k: "get e ''success_streak'' = JInt k" "1 \<le> k"
    unfolding healthy_entry_def by blast
  have "below (get_default e ''success_streak'' (JInt 0)) 1 = Inr False"
    using k get_default_present [of e "''success_streak''" "JInt 0"] by (simp add: below_def num_def)
  with x p show ?thesis
    by (simp add: check_entry_def dict_of_def item_def refuse_def por_def ensure_def)
qed

lemma healthy_scored:
  assumes "healthy_entry e" and "scored_from rt x e"
  shows "healthy_entry x \<and> identity_of x = identity_of e"
proof -
  from assms(2) obtain raw final where x: "x = with_scores raw final e" by (auto simp: scored_from_def)
  have g: "get x k = get e k" and m: "map_of x k = map_of e k" if "k \<noteq> ''score''" "k \<noteq> ''base_score''" for k
    using with_scores_get [OF that, of raw final e JNull] that
    by (simp_all add: x get_def with_scores_def update_conv')
  from assms(1) g m show ?thesis by (simp add: healthy_entry_def identity_of_def)
qed

lemma rmap_identities:
  "list_all healthy_entry es \<Longrightarrow> rmap entry_identity (map JObj es) = Inr (map identity_of es)"
  by (induction es) (simp_all add: healthy_identity(1))

lemma covered_subset:
  assumes "list_all healthy_entry xs" and "identity_of ` set xs \<subseteq> identity_of ` set ys"
  shows "covered (map identity_of xs) (map identity_of ys)"
proof -
  have "list_ex (same_identity (identity_of x)) (map identity_of ys)" if x: "x \<in> set xs" for x
  proof -
    have "healthy_entry x" using assms(1) x unfolding list_all_iff by blast
    then have "same_identity (identity_of x) (identity_of x)" by (rule healthy_identity(2))
    moreover have "identity_of x \<in> set (map identity_of ys)" using x assms(2) unfolding set_map by blast
    ultimately show ?thesis unfolding list_ex_iff by blast
  qed
  then show ?thesis unfolding covered_def list_all_iff set_map by blast
qed

text \<open>Where the ranked and the active entries come from.\<close>

lemma ranked_healthy:
  assumes "rank_entries rt es n min_score pen = Inr ranked" and "distinct_addresses es"
    and "list_all healthy_entry es"
  shows "list_all healthy_entry ranked \<and> identity_of ` set ranked \<subseteq> identity_of ` set es"
proof -
  obtain os where os: "mset os \<subseteq># mset (filter (\<lambda>e. \<exists>s. base_score e = Inr s \<and> min_score \<le> s) es)"
    and each: "list_all2 (scored_from rt) ranked os"
    using greedy_origin [OF rank_entries_greedy [OF assms(1,2)]] by blast
  have "set os \<subseteq> set es"
  proof
    fix e assume "e \<in> set os"
    then have "e \<in># mset (filter (\<lambda>e. \<exists>s. base_score e = Inr s \<and> min_score \<le> s) es)"
      by (intro mset_subset_eqD [OF os]) simp
    then show "e \<in> set es" by simp
  qed
  have "healthy_entry x \<and> identity_of x \<in> identity_of ` set es" if x: "x \<in> set ranked" for x
  proof -
    from x obtain i where i: "i < length ranked" "x = ranked ! i" by (auto simp: in_set_conv_nth)
    with each have "os ! i \<in> set os" "scored_from rt x (os ! i)"
      by (simp_all add: list_all2_conv_all_nth)
    then obtain e where e: "e \<in> set os" "scored_from rt x e" by blast
    with \<open>set os \<subseteq> set es\<close> have "e \<in> set es" by blast
    with assms(3) healthy_scored [OF _ e(2)] show ?thesis by (auto simp: list_all_iff)
  qed
  then show ?thesis by (auto simp: list_all_iff)
qed

lemma subseq_subset: "subseq xs ys \<Longrightarrow> set xs \<subseteq> set ys"
  by (auto elim: list_emb_set)

text \<open>The members of the pools that the ranker computes.\<close>

lemma active_members:
  "get (active_snapshot env validated es a b c) ''generated_at'' = JInt (re_now env)"
  "get (active_snapshot env validated es a b c) ''entries'' = JArr (map JObj es)"
  "get (active_snapshot env validated es a b c) ''validator_cycle'' = get validated ''validator_cycle''"
  "get (active_snapshot env validated es a b c) ''source_generated_at'' = get validated ''generated_at''"
  "get (active_snapshot env validated es a b c) ''raw_source_generated_at'' = get validated ''source_generated_at''"
  by (simp_all add: active_snapshot_def lineage_def get_def get_default_def)

lemma reserve_members:
  "get (reserve_snapshot env validated es a b c) ''generated_at'' = JInt (re_now env)"
  "get (reserve_snapshot env validated es a b c) ''entries'' = JArr (map JObj es)"
  "get (reserve_snapshot env validated es a b c) ''validator_cycle'' = get validated ''validator_cycle''"
  "get (reserve_snapshot env validated es a b c) ''source_generated_at'' = get validated ''generated_at''"
  "get (reserve_snapshot env validated es a b c) ''raw_source_generated_at'' = get validated ''source_generated_at''"
  by (simp_all add: reserve_snapshot_def lineage_def get_def get_default_def)

lemma item_get: "get m k = v \<Longrightarrow> v \<noteq> JNull \<Longrightarrow> item m k = Inr v"
  by (auto simp: get_def get_default_def item_def split: option.splits)

section \<open>Properties\<close>

text \<open>
  C10. A rerank does not refresh a pool: when the readiness accepts an active pool that the ranker
  computed, whenever it ran, the validated snapshot behind it has a validator cycle completed
  within the limit of the validated pool, was itself generated within that limit, and rests on a
  raw snapshot within the sum of the limits.
\<close>

theorem rerank_does_not_refresh:
  assumes "rank_pools rt env validated = Inr (ranked, reserve, active, snapshots ''active'')"
    and "assess snapshots last_success now limits = Inr ages"
  shows "\<exists>cycle t. get validated ''validator_cycle'' = JObj cycle \<and> item cycle ''completed_at'' = Inr t
    \<and> fresh now t (limits ''validated'') = Inr True
    \<and> fresh now (get validated ''generated_at'') (limits ''validated'') = Inr True
    \<and> fresh now (get validated ''source_generated_at'') (limits ''raw'' + limits ''validated'') = Inr True"
proof -
  from assms(1) obtain pool_size min_score ratio where
    act: "snapshots ''active'' = active_snapshot env validated active min_score pool_size ratio"
    by (rule rank_pools_Inr) blast
  from assms(2) obtain u where "check_each (check_lineage snapshots now limits) [''validated'', ''reserve'', ''active''] = Inr u"
    unfolding assess_def rbind_eq_Inr by blast
  then have l: "check_lineage snapshots now limits ''active'' = Inr ()"
    by (simp add: check_each_Inr del: check_each.simps)
  then have c: "check_cycle (get validated ''validator_cycle'') now limits ''active'' = Inr ()"
    and raw: "fresh now (get validated ''source_generated_at'') (limits ''raw'' + limits ''validated'') = Inr True"
    and gen: "fresh now (get validated ''generated_at'') (limits ''validated'') = Inr True"
    by (simp_all add: check_lineage_def Let_def act active_members res_simps)
  from c obtain cycle t where "get validated ''validator_cycle'' = JObj cycle" "item cycle ''completed_at'' = Inr t"
    "fresh now t (limits ''validated'') = Inr True"
    by (auto simp: check_cycle_def res_simps)
  with raw gen show ?thesis by blast
qed

text \<open>
  A pipeline with a well-formed validated pool of a cycle that found a healthy candidate, and
  with recent times.
\<close>

definition healthy_pipeline :: "snapshots \<Rightarrow> dict list \<Rightarrow> dict \<Rightarrow> rat \<Rightarrow> (string \<Rightarrow> int) \<Rightarrow> bool" where
  "healthy_pipeline snapshots es cycle now limits \<longleftrightarrow>
     (let raw = snapshots ''raw''; validated = snapshots ''validated'';
          recently = (\<lambda>v limit. case v of JInt t \<Rightarrow> recent now t limit | _ \<Rightarrow> False) in
      truthy (get raw ''entries'') \<and> recently (get raw ''generated_at'') (limits ''raw'')
      \<and> get validated ''entries'' = JArr (map JObj es) \<and> list_all healthy_entry es \<and> distinct_addresses es
      \<and> recently (get validated ''generated_at'') (limits ''validated'')
      \<and> recently (get validated ''source_generated_at'') (limits ''raw'' + limits ''validated'')
      \<and> get validated ''validator_cycle'' = JObj cycle
      \<and> is_JStr (get cycle ''id'') \<and> truthy (get cycle ''id'')
      \<and> (case get cycle ''healthy'' of JInt n \<Rightarrow> 1 \<le> n | _ \<Rightarrow> False)
      \<and> recently (get cycle ''completed_at'') (limits ''validated''))"

lemma pipeline_accepted:
  assumes "rank_pools rt env (snapshots ''validated'') = Inr (ranked, snapshots ''reserve'', active, snapshots ''active'')"
    and "active \<noteq> []" and "healthy_pipeline snapshots es cycle now limits"
    and "recent now (re_now env) (limits ''reserve'')" and "recent now (re_now env) (limits ''active'')"
  shows "\<exists>ages. assess snapshots (JObj cycle) now limits = Inr ages"
proof -
  let ?v = "snapshots ''validated''"
  have raw: "truthy (get (snapshots ''raw'') ''entries'')"
    and es: "get ?v ''entries'' = JArr (map JObj es)" "list_all healthy_entry es" "distinct_addresses es"
    and cyc_of: "get ?v ''validator_cycle'' = JObj cycle" "truthy (get cycle ''id'')"
    using assms(3) by (simp_all add: healthy_pipeline_def Let_def)
  have times: "\<exists>t. get (snapshots ''raw'') ''generated_at'' = JInt t \<and> recent now t (limits ''raw'')"
    "\<exists>t. get ?v ''generated_at'' = JInt t \<and> recent now t (limits ''validated'')"
    "\<exists>t. get ?v ''source_generated_at'' = JInt t \<and> recent now t (limits ''raw'' + limits ''validated'')"
    "\<exists>t. get cycle ''completed_at'' = JInt t \<and> recent now t (limits ''validated'')"
    "\<exists>n. get cycle ''healthy'' = JInt n \<and> 1 \<le> n"
    using assms(3) by (auto simp: healthy_pipeline_def Let_def split: json.splits)
  then obtain t_raw t_gen t_src t_done n where
    t: "get (snapshots ''raw'') ''generated_at'' = JInt t_raw" "recent now t_raw (limits ''raw'')"
    "get ?v ''generated_at'' = JInt t_gen" "recent now t_gen (limits ''validated'')"
    "get ?v ''source_generated_at'' = JInt t_src" "recent now t_src (limits ''raw'' + limits ''validated'')"
    "get cycle ''completed_at'' = JInt t_done" "recent now t_done (limits ''validated'')"
    "get cycle ''healthy'' = JInt n" "1 \<le> n" by blast
  from assms(1) obtain r_size p_size min_score penalty ratio where
    rank: "rank_entries rt es r_size min_score penalty = Inr ranked"
    and sel: "select_active_entries rt ranked p_size ratio = Inr active"
    and res: "snapshots ''reserve'' = reserve_snapshot env ?v ranked min_score r_size penalty"
    and act: "snapshots ''active'' = active_snapshot env ?v active min_score p_size ratio"
    using es(1) by (elim rank_pools_Inr) simp
  have sub: "set active \<subseteq> set ranked"
    using sel select_loop_subseq by (intro subseq_subset) (auto simp: select_active_Inr)
  note ranked = ranked_healthy [OF rank es(3,2)]
  have healthy: "list_all healthy_entry active" using ranked sub unfolding list_all_iff by blast
  have nonempty: "ranked \<noteq> []" "es \<noteq> []" using sub ranked assms(2) by auto
  have cycle_values: "cycle \<noteq> []" using cyc_of(2) by (auto simp: get_def get_default_def)
  have items: "item cycle ''completed_at'' = Inr (JInt t_done)" "get_default cycle ''healthy'' (JInt 0) = JInt n"
    using t(7,9) item_get [of cycle "''completed_at''"] get_default_present [of cycle "''healthy''"] by simp_all
  have generated: "check_each (check_generated snapshots now limits) [''raw'', ''validated'', ''reserve'', ''active''] = Inr ()"
    using es(1) assms(2,4,5) raw t(1-4) nonempty
    by (simp add: check_generated_def Let_def res act active_members reserve_members item_get refuse_def pnot_def ensure_def)
  have success: "check_last_success (JObj cycle) now limits = Inr ()"
    using cycle_values items t(8,10)
    by (simp add: check_last_success_def dict_of_def below_def num_def refuse_def pnot_def ensure_def)
  have cyc: "check_cycle (JObj cycle) now limits name = Inr ()" for name
    using cycle_values items cyc_of(2) t(8,10)
    by (simp add: check_cycle_def dict_of_def below_def num_def refuse_def pnot_def ensure_def)
  have lineages: "check_each (check_lineage snapshots now limits) [''validated'', ''reserve'', ''active''] = Inr ()"
    using t(3-6) cyc_of(1) cyc
    by (simp add: check_lineage_def Let_def res act active_members reserve_members item_get refuse_def pnot_def ensure_def)
  have ids: "identities snapshots ''active'' = Inr (map identity_of active)"
    "identities snapshots ''reserve'' = Inr (map identity_of ranked)"
    "identities snapshots ''validated'' = Inr (map identity_of es)"
    using rmap_identities healthy ranked es(1,2)
    by (simp_all add: identities_def pool_entries_def res act item_get active_members reserve_members)
  have "identity_of ` set active \<subseteq> identity_of ` set es" using sub ranked by blast
  then have identities: "check_identities snapshots = Inr ()"
    using covered_subset [OF healthy, of ranked] covered_subset [OF healthy, of es] sub ranked
    by (simp add: check_identities_def ids ensure_def image_mono subset_trans)
  have entries: "pool_entries snapshots ''active'' = Inr (map JObj active)"
    by (simp add: pool_entries_def act item_get active_members)
  have "check_each check_entry (map JObj active) = Inr ()"
    using healthy healthy_check by (auto simp: check_each_Inr list_all_iff)
  moreover have "item (snapshots ''active'') ''validator_cycle'' = Inr (JObj cycle)"
    using cyc_of(1) by (simp add: act item_get active_members)
  ultimately show ?thesis
    using generated success lineages identities entries items
    by (simp add: assess_def dict_of_def age_of_def num_def)
qed

text \<open>
  C23. A healthy pipeline is ready: when the validated snapshot holds well-formed entries with
  distinct addresses, its cycle found a healthy candidate, all times are recent, and the ranker
  selected at least one entry of it, then \<open>assess\<close> accepts the four pools.
\<close>

theorem healthy_pipeline_is_ready:
  assumes "rank_pools rt env (snapshots ''validated'') = Inr (ranked, snapshots ''reserve'', active, snapshots ''active'')"
    and "active \<noteq> []" and "healthy_pipeline snapshots es cycle now limits"
    and "recent now (re_now env) (limits ''reserve'')" and "recent now (re_now env) (limits ''active'')"
  shows "ok (assess snapshots (JObj cycle) now limits)"
  using pipeline_accepted [where es = es, OF assms] unfolding ok_iff .

section \<open>A concrete pipeline\<close>

definition ready_entry :: dict where
  "ready_entry = [(''address'', JStr ''http://a:1''), (''latency_ms'', JInt 1), (''exit_ip'', JStr (ip_str (V4 1))),
     (''protocol'', JStr ''http''), (''success_streak'', JInt 1)]"

definition ready_cycle :: dict where
  "ready_cycle = [(''id'', JStr ''c''), (''healthy'', JInt 1), (''completed_at'', JInt 4)]"

definition ready_validated :: dict where
  "ready_validated = [(''entries'', JArr (map JObj [ready_entry])), (''generated_at'', JInt 4),
     (''source_generated_at'', JInt 4), (''validator_cycle'', JObj ready_cycle)]"

definition ready_raw :: dict where
  "ready_raw = [(''entries'', JArr [JNull]), (''generated_at'', JInt 4)]"

definition ready_snapshots :: "dict \<Rightarrow> dict \<Rightarrow> snapshots" where
  "ready_snapshots reserve active name =
     (if name = ''raw'' then ready_raw else if name = ''validated'' then ready_validated
      else if name = ''reserve'' then reserve else active)"

lemma ready_entry_healthy: "list_all healthy_entry [ready_entry]" "distinct_addresses [ready_entry]"
proof -
  have "ip_address (ip_str (V4 1)) \<noteq> None"
    using ip_address_ip_str [of "V4 1"] by simp
  then show "list_all healthy_entry [ready_entry]"
    by (simp add: healthy_entry_def ready_entry_def get_def get_default_def del: ip_str.simps)
  show "distinct_addresses [ready_entry]"
    by (simp add: distinct_addresses_def addressed_def ready_entry_def get_def get_default_def)
qed

lemma ready_pools:
  "\<exists>ranked reserve active act. active \<noteq> []
     \<and> rank_pools sample_rt sample_ranker_env ready_validated = Inr (ranked, reserve, active, act)"
proof -
  have i: "py_int ''5'' = Some 5" "py_int ''1'' = Some 1" by code_simp+
  have "list_all scorable [ready_entry]"
    by (simp add: ready_entry_def scorable_def ok_def base_score_def Let_def)
  from rank_entries_total [OF this ready_entry_healthy(2), of 5 2 sample_rt]
  obtain ranked where r: "rank_entries sample_rt [ready_entry] 5 0 2 = Inr ranked" "length ranked = 1" by auto
  then obtain x where x: "ranked = [x]" by (auto simp: length_Suc_conv)
  have "unknown_limit 1 1 = 1"
    using fl_of_int [of 1] by (simp add: unknown_limit_def fint_def fmul_def)
  then have s: "select_active_entries sample_rt ranked 1 1 = Inr [x]"
    by (simp add: select_active_entries_def x)
  have e: "dicts (case get ready_validated ''entries'' of JArr xs \<Rightarrow> xs | _ \<Rightarrow> []) = [ready_entry]"
    by (simp add: ready_validated_def get_def get_default_def)
  have "\<exists>a b. rank_pools sample_rt sample_ranker_env ready_validated = Inr (ranked, a, [x], b)"
    using i r(1) s e by (simp add: rank_pools_def positive_int_def sample_ranker_env_def)
  then show ?thesis by blast
qed

lemma recent_now: "recent 4 4 60" and recent_sum: "recent 4 4 120"
  using fl_of_int [of 4] by (simp_all add: recent_def fint_def fadd_def)

lemma ready_healthy: "healthy_pipeline (ready_snapshots reserve act) [ready_entry] ready_cycle 4 (\<lambda>_. 60)"
  using recent_now recent_sum ready_entry_healthy
  by (simp add: healthy_pipeline_def ready_snapshots_def ready_validated_def ready_raw_def ready_cycle_def)

lemma healthy_pipeline_is_ready_witness:
  "\<exists>reserve active. ok (assess (ready_snapshots reserve active) (JObj ready_cycle) 4 (\<lambda>_. 60))"
proof -
  obtain ranked reserve active act where a: "active \<noteq> []"
    and p: "rank_pools sample_rt sample_ranker_env ready_validated = Inr (ranked, reserve, active, act)"
    using ready_pools by blast
  have "ok (assess (ready_snapshots reserve act) (JObj ready_cycle) 4 (\<lambda>_. 60))"
    by (rule healthy_pipeline_is_ready [OF _ a ready_healthy, where rt = sample_rt and env = sample_ranker_env and ranked = ranked])
      (use p recent_now in \<open>simp_all add: ready_snapshots_def sample_ranker_env_def\<close>)
  then show ?thesis by blast
qed

lemma rerank_does_not_refresh_witness:
  "\<exists>cycle t. get ready_validated ''validator_cycle'' = JObj cycle \<and> item cycle ''completed_at'' = Inr t
    \<and> fresh 4 t 60 = Inr True"
proof -
  obtain ranked reserve active act where a: "active \<noteq> []"
    and p: "rank_pools sample_rt sample_ranker_env ready_validated = Inr (ranked, reserve, active, act)"
    using ready_pools by blast
  let ?s = "ready_snapshots reserve act"
  have p': "rank_pools sample_rt sample_ranker_env ready_validated = Inr (ranked, reserve, active, ?s ''active'')"
    using p by (simp add: ready_snapshots_def)
  have "\<exists>ages. assess ?s (JObj ready_cycle) 4 (\<lambda>_. 60) = Inr ages"
    by (rule pipeline_accepted [OF _ a ready_healthy, where rt = sample_rt and env = sample_ranker_env and ranked = ranked])
      (use p recent_now in \<open>simp_all add: ready_snapshots_def sample_ranker_env_def\<close>)
  then obtain ages where "assess ?s (JObj ready_cycle) 4 (\<lambda>_. 60) = Inr ages" by blast
  from rerank_does_not_refresh [where snapshots = ?s, OF p' this] show ?thesis by blast
qed

end
