(* ===== verification/Readiness.thy ===== *)
theory Readiness
  imports Pool_Health Egress_Relay Py_Url
begin

text \<open>
  The local readiness gate of \<open>deploy/readiness.py\<close>: \<open>check\<close> reads the state of the services and
  the pools, and sends one request through the relay (\<open>relay_echo\<close>). The output of each command, the
  clock at each reading and the peers are arguments. \<open>relay_echo\<close> uses blocking sockets: a time-out
  or a reset is the error that ends the stream of the connection. The response is read by
  \<open>http.client\<close>, of which the code uses the status and the first bytes of the body. The buffered
  file around the socket holds nothing beyond the headers when it is closed: the relay's peer does
  not speak before the request.
\<close>

section \<open>The request through the relay\<close>

record echo_net =
  en_connect :: "conn res"
  en_response :: "conn \<Rightarrow> (nat \<times> string) res"
  en_marker :: string
  en_json :: "string \<Rightarrow> jtext"

text \<open>\<open>readline(n)\<close> of a binary file.\<close>

definition file_readline :: "nat \<Rightarrow> string io" where
  "file_readline n c =
     (case split_at [LF] (take n (cn_in c)) of
        Some (a, _) \<Rightarrow> take_in (length a + 1) c
      | None \<Rightarrow>
          if n \<le> length (cn_in c) then take_in n c
          else (case cn_exc c of None \<Rightarrow> take_in n c | Some e \<Rightarrow> (Inl e, c\<lparr>cn_in := []\<rparr>)))"

lemma split_at_length: "split_at [x] s = Some (a, b) \<Longrightarrow> length s = length a + 1 + length b"
  by (auto dest: split_at_parts)

lemma file_readline_shrinks:
  assumes "file_readline n c = (Inr line, c')" "line \<noteq> []"
  shows "length (cn_in c') < length (cn_in c)"
  using assms by (auto simp: file_readline_def take_in_def split: option.splits if_splits dest!: split_at_length)

text \<open>The header lines after the status line, at most 16384 bytes with their end.\<close>

function connect_headers :: "nat \<Rightarrow> unit io" where
  "connect_headers got c =
     (case file_readline 4096 c of
        (Inl e, c') \<Rightarrow> (Inl e, c')
      | (Inr line, c') \<Rightarrow>
          if line = [] \<or> 16384 < got + length line then (Inl (RuntimeError ''invalid CONNECT headers''), c')
          else if line = CRLF then (Inr (), c')
          else connect_headers (got + length line) c')"
  by pat_completeness auto

termination connect_headers
  by (relation "measure (\<lambda>(got, c). length (cn_in c))") (auto intro: file_readline_shrinks [OF sym])

declare connect_headers.simps [simp del]

definition host_text :: "url \<Rightarrow> string" where
  "host_text target = (if u_hostname target = [] then ''None'' else u_hostname target)"

definition target_port :: "url \<Rightarrow> nat res" where
  "target_port target =
     rbind (u_port target) (\<lambda>p. Inr (case p of
        Some n \<Rightarrow> if n \<noteq> 0 then n else if u_scheme target = ''https'' then 443 else 80
      | None \<Rightarrow> if u_scheme target = ''https'' then 443 else 80))"

definition connect_text :: "string \<Rightarrow> nat \<Rightarrow> string" where
  "connect_text host port =
     ''CONNECT '' @ host @ '':'' @ dec port @ '' HTTP/1.1'' @ CRLF @ ''Host: '' @ host @ '':'' @ dec port @ CRLF @ CRLF"

definition get_text :: "string \<Rightarrow> nat \<Rightarrow> string \<Rightarrow> string \<Rightarrow> string" where
  "get_text host port path marker =
     ''GET '' @ (if path = [] then ''/'' else path) @ '' HTTP/1.1'' @ CRLF @ ''Host: '' @ host @ '':'' @ dec port @ CRLF
     @ ''User-Agent: TG-Readiness/1.0'' @ CRLF @ ''X-Request-ID: '' @ marker @ CRLF
     @ ''Connection: close'' @ CRLF @ CRLF"

definition relay_connect :: "string \<Rightarrow> nat \<Rightarrow> unit io" where
  "relay_connect host port =
     io_bind (io_write (utf8 (connect_text host port))) (\<lambda>_.
     io_bind (file_readline 4096) (\<lambda>line.
     io_bind (io_ensure (contains '' 200 '' line) (RuntimeError ''relay CONNECT failed'')) (\<lambda>_.
     connect_headers 0)))"

definition lower_headers :: "dict \<Rightarrow> (string \<times> string) list res" where
  "lower_headers hs =
     rbind (rmap (\<lambda>(k, v). case v of JStr s \<Rightarrow> Inr (lower k, strip s) | _ \<Rightarrow> Inl AttributeError) hs) (\<lambda>ps.
     Inr (fold (\<lambda>(k, v). AList.update k v) ps []))"

definition forbidden_headers :: "string list" where
  "forbidden_headers = [''authorization'', ''proxy-authorization'', ''cookie'']"

text \<open>The checks of the answer.\<close>

definition accept_echo :: "echo_net \<Rightarrow> string \<Rightarrow> dict res" where
  "accept_echo net raw =
     rbind (ensure (length raw \<le> 65536) (RuntimeError ''oversize echo'')) (\<lambda>_.
     rbind (json_loads (en_json net raw)) (\<lambda>v.
     rbind (dict_of TypeError v) (\<lambda>echo.
     rbind (item echo ''headers'') (\<lambda>h.
     rbind (dict_of AttributeError h) (\<lambda>hs.
     rbind (lower_headers hs) (\<lambda>headers.
     rbind (ensure (map_of headers ''x-request-id'' = Some (en_marker net)) (RuntimeError ''echo correlation failed'')) (\<lambda>_.
     rbind (ensure (\<not> list_ex (\<lambda>k. k \<in> set (map fst headers)) forbidden_headers)
       (RuntimeError ''unexpected credential headers'')) (\<lambda>_.
     Inr echo))))))))"

definition echo_request :: "echo_net \<Rightarrow> url \<Rightarrow> nat \<Rightarrow> dict io" where
  "echo_request net target port =
     io_bind (relay_connect (host_text target) port) (\<lambda>_.
     io_bind (if u_scheme target = ''https'' then start_tls else io_return ()) (\<lambda>_.
     io_bind (io_write (utf8 (get_text (host_text target) port (u_path target) (en_marker net)))) (\<lambda>_.
     io_bind (\<lambda>c. (en_response net c, c)) (\<lambda>(status, raw).
     io_bind (io_ensure (status = 200) (RuntimeError ''echo HTTP status rejected'')) (\<lambda>_.
     io_lift (accept_echo net (take 65537 raw)))))))"

definition relay_echo :: "echo_net \<Rightarrow> string \<Rightarrow> dict res" where
  "relay_echo net url =
     rbind (urlsplit url) (\<lambda>target.
     rbind (target_port target) (\<lambda>port.
     rbind (en_connect net) (\<lambda>c. fst (echo_request net target port c))))"

section \<open>The gate\<close>

definition SERVICES :: "string list" where
  "SERVICES = [''redis'', ''fetcher'', ''validator'', ''ranker'', ''asn-updater'', ''gateway'']"

record gate =
  g_run :: "string list \<Rightarrow> string res"
  g_json :: "string \<Rightarrow> jtext"
  g_now :: "nat \<Rightarrow> rat"
  g_echo :: echo_net
  g_local_echo :: echo_net

record readiness =
  rd_services :: nat
  rd_ages :: "(string \<times> int) list"
  rd_counts :: "(string \<times> nat) list"
  rd_pipeline :: "int \<times> int"
  rd_exits :: "json list"

definition run_json :: "gate \<Rightarrow> string list \<Rightarrow> json res" where
  "run_json g command = rbind (g_run g command) (\<lambda>out. json_loads (g_json g out))"

definition redis_get :: "string list \<Rightarrow> string \<Rightarrow> string list" where
  "redis_get compose key = compose @ [''exec'', ''-T'', ''redis'', ''redis-cli'', ''--raw'', ''GET'', key]"

text \<open>The rows of \<open>docker compose ps\<close>: one object in each line, or one line with a list.\<close>

definition service_rows :: "gate \<Rightarrow> string list \<Rightarrow> json list res" where
  "service_rows g compose =
     rbind (g_run g (compose @ [''ps'', ''--all'', ''--format'', ''json''])) (\<lambda>out.
     rbind (rmap (\<lambda>line. json_loads (g_json g line)) (filter (\<lambda>line. line \<noteq> []) (splitlines out))) (\<lambda>rows.
     Inr (case rows of [JArr inner] \<Rightarrow> inner | _ \<Rightarrow> rows)))"

definition service_of :: "json \<Rightarrow> json res" where
  "service_of row =
     rbind (dict_of TypeError row) (\<lambda>m. rbind (item m ''Service'') (\<lambda>v.
     rbind (ensure (hashable v) TypeError) (\<lambda>_. Inr v)))"

definition check_service :: "json \<Rightarrow> unit res" where
  "check_service row =
     rbind (dict_of TypeError row) (\<lambda>m.
     rbind (item m ''State'') (\<lambda>state.
     rbind (item m ''Service'') (\<lambda>name.
     ensure (state = JStr ''running'' \<and> get_default m ''Health'' (JStr []) \<in> {JStr [], JStr ''healthy''})
       (RuntimeError (''service not running/healthy: '' @ (case name of JStr s \<Rightarrow> s | _ \<Rightarrow> []))))))"

definition check_services :: "json list \<Rightarrow> unit res" where
  "check_services rows =
     rbind (rmap service_of rows) (\<lambda>names.
     rbind (ensure (set names = set (map JStr SERVICES)) (RuntimeError ''not all six services exist'')) (\<lambda>_.
     check_each check_service rows))"

definition interval_limit :: "dict \<Rightarrow> string \<Rightarrow> int res" where
  "interval_limit values name = rbind (item values name) (\<lambda>v. rbind (json_int v) (\<lambda>n. Inr (max 60 (3 * n))))"

definition gate_limits :: "dict \<Rightarrow> (string \<times> int) list res" where
  "gate_limits values =
     rbind (interval_limit values ''FETCH_INTERVAL_SECONDS'') (\<lambda>raw.
     rbind (interval_limit values ''VALIDATION_INTERVAL_SECONDS'') (\<lambda>validated.
     rbind (interval_limit values ''RANK_INTERVAL_SECONDS'') (\<lambda>reserve.
     rbind (interval_limit values ''RANK_INTERVAL_SECONDS'') (\<lambda>act.
     Inr [(''raw'', raw), (''validated'', validated), (''reserve'', reserve), (''active'', act)]))))"

definition pool_key_of :: "string \<Rightarrow> string" where
  "pool_key_of kind = ''proxy_pool:'' @ kind @ '':v1''"

text \<open>A snapshot that must not be older than the replacement.\<close>

definition check_since :: "string \<Rightarrow> dict \<Rightarrow> json \<Rightarrow> rat \<Rightarrow> unit res" where
  "check_since kind data generated since =
     rbind (refuse (below generated since) (RuntimeError (kind @ '' snapshot predates replacement''))) (\<lambda>_.
     if kind = ''raw'' then Inr ()
     else refuse
       (rbind (dict_of AttributeError (get_default data ''validator_cycle'' (JObj []))) (\<lambda>m.
        below (get_default m ''completed_at'' (JInt 0)) since))
       (RuntimeError (kind @ '' validator cycle predates replacement'')))"

definition read_pool :: "gate \<Rightarrow> string list \<Rightarrow> rat option \<Rightarrow> rat \<Rightarrow> string \<times> int \<Rightarrow> (string \<times> int \<times> nat \<times> dict) res" where
  "read_pool g compose since now = (\<lambda>(kind, limit).
     rbind (run_json g (redis_get compose (pool_key_of kind))) (\<lambda>v.
     rbind (of_option (RuntimeError (kind @ '' pool empty or invalid'')) (as_dict v)) (\<lambda>data.
     rbind (of_option (RuntimeError (kind @ '' pool empty or invalid'')) (as_list (get data ''entries''))) (\<lambda>entries.
     rbind (ensure (entries \<noteq> []) (RuntimeError (kind @ '' pool empty or invalid''))) (\<lambda>_.
     rbind (item data ''generated_at'') (\<lambda>generated.
     rbind (fresh now generated limit) (\<lambda>recent.
     rbind (ensure recent (RuntimeError (kind @ '' snapshot stale''))) (\<lambda>_.
     rbind (case since of None \<Rightarrow> Inr () | Some t \<Rightarrow> check_since kind data generated t) (\<lambda>_.
     rbind (age_of now generated) (\<lambda>age.
     Inr (kind, age, length entries, data)))))))))))"

fun read_pools :: "gate \<Rightarrow> string list \<Rightarrow> rat option \<Rightarrow> nat \<Rightarrow> (string \<times> int) list \<Rightarrow> (string \<times> int \<times> nat \<times> dict) list res" where
  "read_pools g compose since i [] = Inr []"
| "read_pools g compose since i (l # ls) =
     rbind (read_pool g compose since (g_now g i) l) (\<lambda>p.
     rbind (read_pools g compose since (Suc i) ls) (\<lambda>ps. Inr (p # ps)))"

definition snapshots_of :: "(string \<times> int \<times> nat \<times> dict) list \<Rightarrow> snapshots" where
  "snapshots_of pools kind = (case map_of pools kind of Some (_, _, data) \<Rightarrow> data | None \<Rightarrow> [])"

definition addresses :: "json \<Rightarrow> json list res" where
  "addresses v = rbind (of_option TypeError (as_list v)) (rmap (\<lambda>e.
     rbind (dict_of TypeError e) (\<lambda>m. item m ''address'')))"

definition exit_of :: "json \<Rightarrow> json res" where
  "exit_of v =
     rbind (dict_of AttributeError v) (\<lambda>m. rbind (ensure (hashable (get m ''exit_ip'')) TypeError) (\<lambda>_. Inr (get m ''exit_ip'')))"

definition in_exits :: "json list \<Rightarrow> json \<Rightarrow> bool res" where
  "in_exits exits v = rbind (ensure (hashable v) TypeError) (\<lambda>_. Inr (list_ex (py_eq v) exits))"

text \<open>The distinct members in the order of \<open>sorted\<close>: texts, or numbers, but not both.\<close>

fun distinct_json :: "json list \<Rightarrow> json list" where
  "distinct_json [] = []"
| "distinct_json (v # vs) = v # filter (\<lambda>w. \<not> py_eq v w) (distinct_json vs)"

definition sorted_exits :: "json list \<Rightarrow> json list res" where
  "sorted_exits vs =
     (let ds = distinct_json vs in
      if length ds \<le> 1 then Inr ds
      else if list_all is_JStr ds then Inr (sort_key (\<lambda>v. case v of JStr s \<Rightarrow> s | _ \<Rightarrow> []) ds)
      else if list_all (\<lambda>v. num_of v \<noteq> None) ds then Inr (sort_key (\<lambda>v. case num_of v of Some q \<Rightarrow> q | None \<Rightarrow> 0) ds)
      else Inl TypeError)"

definition check_echoes :: "gate \<Rightarrow> dict \<Rightarrow> json list \<Rightarrow> unit res" where
  "check_echoes g values exits =
     rbind (item values ''ANONYMITY_CHECK_URL'') (\<lambda>url. rbind (of_option AttributeError (case url of JStr s \<Rightarrow> Some s | _ \<Rightarrow> None)) (\<lambda>url.
     rbind (relay_echo (g_echo g) url) (\<lambda>echo.
     rbind (in_exits exits (get echo ''backend_peer'')) (\<lambda>known.
     rbind (ensure known (RuntimeError ''relay echo does not match validated active exit'')) (\<lambda>_.
     if get values ''LAB_LOCAL_ECHO_ENABLED'' \<noteq> JStr ''1'' then Inr ()
     else rbind (relay_echo (g_local_echo g) ''http://172.30.40.10:8000/'') (\<lambda>own.
       ensure (get own ''backend_peer'' = JStr ''172.30.40.11'' \<and> list_ex (py_eq (JStr ''172.30.40.11'')) exits)
         (RuntimeError ''local fixture exit not active'')))))))"

definition check :: "gate \<Rightarrow> string list \<Rightarrow> dict \<Rightarrow> rat option \<Rightarrow> readiness res" where
  "check g compose values since =
     rbind (service_rows g compose) (\<lambda>rows.
     rbind (check_services rows) (\<lambda>_.
     rbind (gate_limits values) (\<lambda>limits.
     rbind (read_pools g compose since 0 limits) (\<lambda>pools.
     let snapshots = snapshots_of pools;
         limit = (\<lambda>kind. case map_of limits kind of Some n \<Rightarrow> n | None \<Rightarrow> 0) in
     rbind (g_run g (redis_get compose ''validator:last_success:v1'')) (\<lambda>out.
     rbind (if out = [] then Inr JNull else json_loads (g_json g out)) (\<lambda>last_success.
     rbind (assess snapshots last_success (g_now g 4) limit) (\<lambda>pipeline.
     rbind (item (snapshots ''validated'') ''source_generated_at'') (\<lambda>source.
     rbind (fresh (g_now g 5) source (limit ''raw'' + limit ''validated'')) (\<lambda>recent.
     rbind (ensure recent (RuntimeError ''validated source snapshot stale'')) (\<lambda>_.
     rbind (run_json g (redis_get compose ''transparent-gateway:validated:v1'')) (\<lambda>v.
     rbind (dict_of TypeError v) (\<lambda>compatibility.
     rbind (rbind (item compatibility ''entries'') addresses) (\<lambda>gateway.
     rbind (rbind (item (snapshots ''active'') ''entries'') addresses) (\<lambda>own.
     rbind (ensure (py_eq (JArr gateway) (JArr own)) (RuntimeError ''gateway active membership differs'')) (\<lambda>_.
     rbind (rbind (pool_entries snapshots ''active'') (rmap exit_of)) (\<lambda>exits.
     rbind (check_echoes g values exits) (\<lambda>_.
     rbind (sorted_exits exits) (\<lambda>active_exits.
     Inr \<lparr>rd_services = length rows, rd_ages = map (\<lambda>(k, age, _, _). (k, age)) pools,
       rd_counts = map (\<lambda>(k, _, n, _). (k, n)) pools, rd_pipeline = pipeline, rd_exits = active_exits\<rparr>))))))))))))))))))"

section \<open>Lemmas\<close>

lemma of_option_Inr: "of_option e x = Inr y \<longleftrightarrow> x = Some y"
  by (cases x) simp_all

lemma as_dict_Some: "as_dict v = Some m \<longleftrightarrow> v = JObj m"
  by (cases v) simp_all

lemma as_list_Some: "as_list v = Some xs \<longleftrightarrow> v = JArr xs"
  by (cases v) simp_all

text \<open>What an accepted pool satisfies.\<close>

definition accepted_pool :: "gate \<Rightarrow> string list \<Rightarrow> rat option \<Rightarrow> rat \<Rightarrow> string \<times> int \<Rightarrow> dict \<Rightarrow> bool" where
  "accepted_pool g compose since now = (\<lambda>(kind, limit) data.
     run_json g (redis_get compose (pool_key_of kind)) = Inr (JObj data) \<and>
     (\<exists>entries. get data ''entries'' = JArr entries \<and> entries \<noteq> []) \<and>
     (\<exists>generated. item data ''generated_at'' = Inr generated \<and> fresh now generated limit = Inr True \<and>
        (\<forall>t. since = Some t \<longrightarrow> below generated t = Inr False)) \<and>
     (\<forall>t. since = Some t \<and> kind \<noteq> ''raw'' \<longrightarrow> (\<exists>cycle.
        get_default data ''validator_cycle'' (JObj []) = JObj cycle \<and>
        below (get_default cycle ''completed_at'' (JInt 0)) t = Inr False)))"

lemma check_since_Inr:
  "check_since kind data generated t = Inr () \<Longrightarrow>
   below generated t = Inr False \<and> (kind \<noteq> ''raw'' \<longrightarrow> (\<exists>cycle.
     get_default data ''validator_cycle'' (JObj []) = JObj cycle \<and>
     below (get_default cycle ''completed_at'' (JInt 0)) t = Inr False))"
  by (auto simp: check_since_def res_simps split: if_splits)

lemma read_pool_Inr:
  assumes "read_pool g compose since now (kind, limit) = Inr p"
  shows "\<exists>age n data. p = (kind, age, n, data) \<and> accepted_pool g compose since now (kind, limit) data"
proof -
  obtain data entries generated age where
    "run_json g (redis_get compose (pool_key_of kind)) = Inr (JObj data)"
    "get data ''entries'' = JArr entries" "entries \<noteq> []"
    "item data ''generated_at'' = Inr generated" "fresh now generated limit = Inr True"
    and since: "(case since of None \<Rightarrow> Inr () | Some t \<Rightarrow> check_since kind data generated t) = Inr ()"
    and p: "p = (kind, age, length entries, data)"
    using assms unfolding read_pool_def by (auto simp: res_simps of_option_Inr as_dict_Some as_list_Some)
  then show ?thesis
    using check_since_Inr unfolding accepted_pool_def by (auto split: option.splits)
qed

definition running_row :: "json \<Rightarrow> bool" where
  "running_row row \<longleftrightarrow> (\<exists>m. row = JObj m \<and> get m ''Service'' \<in> set (map JStr SERVICES) \<and>
     get m ''State'' = JStr ''running'' \<and> get_default m ''Health'' (JStr []) \<in> {JStr [], JStr ''healthy''})"

lemma item_Inr: "item m k = Inr v \<longleftrightarrow> map_of m k = Some v"
  by (simp add: item_def of_option_Inr)

lemma service_of_Inr: "service_of row = Inr v \<longleftrightarrow> (\<exists>m. row = JObj m \<and> map_of m ''Service'' = Some v \<and> hashable v)"
  by (auto simp: service_of_def res_simps dict_of_Inr item_Inr)

lemma list_all2_member:
  "list_all2 P xs ys \<Longrightarrow> x \<in> set xs \<Longrightarrow> \<exists>y \<in> set ys. P x y"
  "list_all2 P xs ys \<Longrightarrow> y \<in> set ys \<Longrightarrow> \<exists>x \<in> set xs. P x y"
  by (induction rule: list_all2_induct) auto

lemma check_service_Inr:
  assumes "check_service row = Inr ()"
  shows "\<exists>m. row = JObj m \<and> get m ''State'' = JStr ''running'' \<and>
    get_default m ''Health'' (JStr []) \<in> {JStr [], JStr ''healthy''}"
proof -
  obtain m v name where m: "dict_of TypeError row = Inr m" and state: "item m ''State'' = Inr v"
    and "ensure (v = JStr ''running'' \<and> get_default m ''Health'' (JStr []) \<in> {JStr [], JStr ''healthy''})
      (RuntimeError (''service not running/healthy: '' @ (case name of JStr s \<Rightarrow> s | _ \<Rightarrow> []))) = Inr ()"
    using assms unfolding check_service_def rbind_eq_Inr by (elim exE conjE) (rule that)
  then have "v = JStr ''running'' \<and> get_default m ''Health'' (JStr []) \<in> {JStr [], JStr ''healthy''}"
    by (simp only: ensure_eq_Inr)
  then show ?thesis
    using m state by (simp add: dict_of_Inr item_Inr get_def get_default_def)
qed

lemma check_services_Inr:
  assumes "check_services rows = Inr ()"
  shows "list_all running_row rows" and "\<And>name. name \<in> set SERVICES \<Longrightarrow> \<exists>m. JObj m \<in> set rows \<and> get m ''Service'' = JStr name"
proof -
  obtain names where names: "rmap service_of rows = Inr names" "set names = set (map JStr SERVICES)"
    and each: "check_each check_service rows = Inr ()"
    using assms unfolding check_services_def rbind_eq_Inr ensure_eq_Inr by (elim exE conjE) (rule that)
  have all: "list_all2 (\<lambda>row v. service_of row = Inr v) rows names" using rmap_Inr_D[OF names(1)] .
  have "running_row row" if row: "row \<in> set rows" for row
  proof -
    obtain v where v: "service_of row = Inr v" "v \<in> set names"
      using list_all2_member(1)[OF all row] by blast
    have "check_service row = Inr ()" using each row unfolding check_each_Inr by blast
    then obtain m where "row = JObj m" "get m ''State'' = JStr ''running''"
      "get_default m ''Health'' (JStr []) \<in> {JStr [], JStr ''healthy''}"
      using check_service_Inr by blast
    moreover have "get m ''Service'' = v"
      using v(1) \<open>row = JObj m\<close> by (auto simp: service_of_Inr get_def get_default_def)
    ultimately show ?thesis
      using v(2) names(2) unfolding running_row_def by blast
  qed
  then show "list_all running_row rows" by (simp add: list_all_iff)
  show "\<exists>m. JObj m \<in> set rows \<and> get m ''Service'' = JStr name" if "name \<in> set SERVICES" for name
  proof -
    have "JStr name \<in> set names" unfolding names(2) set_map using that by (rule imageI)
    then obtain row where "row \<in> set rows" "service_of row = Inr (JStr name)"
      using list_all2_member(2)[OF all] by blast
    then show ?thesis by (auto simp: service_of_Inr get_def get_default_def)
  qed
qed

definition gate_limit :: "dict \<Rightarrow> string \<Rightarrow> int res" where
  "gate_limit values kind =
     interval_limit values (if kind = ''raw'' then ''FETCH_INTERVAL_SECONDS''
       else if kind = ''validated'' then ''VALIDATION_INTERVAL_SECONDS'' else ''RANK_INTERVAL_SECONDS'')"

lemma read_pools_four:
  assumes "read_pools g compose since 0 [(''raw'', a), (''validated'', b), (''reserve'', c), (''active'', d)] = Inr pools"
  shows "accepted_pool g compose since (g_now g 0) (''raw'', a) (snapshots_of pools ''raw'')"
    and "accepted_pool g compose since (g_now g 1) (''validated'', b) (snapshots_of pools ''validated'')"
    and "accepted_pool g compose since (g_now g 2) (''reserve'', c) (snapshots_of pools ''reserve'')"
    and "accepted_pool g compose since (g_now g 3) (''active'', d) (snapshots_of pools ''active'')"
proof -
  obtain p0 p1 p2 p3 where pools: "pools = [p0, p1, p2, p3]"
    and "read_pool g compose since (g_now g 0) (''raw'', a) = Inr p0"
    "read_pool g compose since (g_now g 1) (''validated'', b) = Inr p1"
    "read_pool g compose since (g_now g 2) (''reserve'', c) = Inr p2"
    "read_pool g compose since (g_now g 3) (''active'', d) = Inr p3"
    using assms by (auto simp: res_simps numeral_2_eq_2 numeral_3_eq_3)
  then show "accepted_pool g compose since (g_now g 0) (''raw'', a) (snapshots_of pools ''raw'')"
    "accepted_pool g compose since (g_now g 1) (''validated'', b) (snapshots_of pools ''validated'')"
    "accepted_pool g compose since (g_now g 2) (''reserve'', c) (snapshots_of pools ''reserve'')"
    "accepted_pool g compose since (g_now g 3) (''active'', d) (snapshots_of pools ''active'')"
    by (auto dest!: read_pool_Inr simp: snapshots_of_def)
qed

lemma unit_res: "r = Inr (u :: unit) \<Longrightarrow> r = Inr ()"
  by simp

lemma check_Inr:
  assumes "check g compose values since = Inr result"
  shows "\<exists>rows limits pools last_success exits. service_rows g compose = Inr rows \<and> check_services rows = Inr () \<and>
    gate_limits values = Inr limits \<and> read_pools g compose since 0 limits = Inr pools \<and>
    assess (snapshots_of pools) last_success (g_now g 4) (\<lambda>kind. case map_of limits kind of Some n \<Rightarrow> n | None \<Rightarrow> 0)
      = Inr (rd_pipeline result) \<and>
    rbind (pool_entries (snapshots_of pools) ''active'') (rmap exit_of) = Inr exits \<and> check_echoes g values exits = Inr ()"
  using assms unfolding check_def Let_def rbind_eq_Inr
  apply (elim exE conjE)
  apply (drule Inr_inject, hypsubst)
  apply (intro exI conjI; (assumption | (rule unit_res, assumption) | simp only: readiness.simps))
  done

section \<open>The request and its answer\<close>

lemma silent_file_readline [intro, simp]: "silent (file_readline n)"
  by (auto simp: silent_def file_readline_def take_in_def split: option.splits)

lemma connect_headers_out:
  "cn_out (snd (connect_headers got c)) = cn_out c \<and> cn_secret_out (snd (connect_headers got c)) = cn_secret_out c
   \<and> cn_secure (snd (connect_headers got c)) = cn_secure c"
proof (induction got c rule: connect_headers.induct)
  case (1 got c)
  obtain r c1 where rc: "file_readline 4096 c = (r, c1)" by fastforce
  have out: "cn_out c1 = cn_out c" "cn_secret_out c1 = cn_secret_out c" "cn_secure c1 = cn_secure c"
    using silentD [OF silent_file_readline rc] by auto
  show ?case
    using 1 rc out by (subst (1 2 3) connect_headers.simps) (auto split: sum.splits)
qed

lemma silent_connect_headers: "silent (connect_headers got)"
  using connect_headers_out by (simp add: silent_def)

lemma echo_request_Inr:
  assumes "echo_request net target port c = (Inr echo, c')" "\<not> cn_secure c"
  shows "\<exists>raw. accept_echo net raw = Inr echo \<and>
    cn_out c' = cn_out c @ utf8 (connect_text (host_text target) port)
      @ (if u_scheme target = ''https'' then [] else utf8 (get_text (host_text target) port (u_path target) (en_marker net))) \<and>
    cn_secret_out c' = cn_secret_out c
      @ (if u_scheme target = ''https'' then utf8 (get_text (host_text target) port (u_path target) (en_marker net)) else [])"
proof -
  let ?connect = "utf8 (connect_text (host_text target) port)"
  let ?get = "utf8 (get_text (host_text target) port (u_path target) (en_marker net))"
  obtain c1 c2 c3 raw where c1: "io_write ?connect c = (Inr (), c1)"
    and c2: "io_bind (file_readline 4096) (\<lambda>line. io_bind (io_ensure (contains '' 200 '' line) (RuntimeError ''relay CONNECT failed''))
        (\<lambda>_. connect_headers 0)) c1 = (Inr (), c2)"
    and c3: "(if u_scheme target = ''https'' then start_tls else io_return ()) c2 = (Inr (), c3)"
    and get: "io_write ?get c3 = (Inr (), c')" and accept: "accept_echo net raw = Inr echo"
    using assms(1) unfolding echo_request_def relay_connect_def
    by (auto simp: io_simps io_lift_eq split: prod.splits)
  have "silent (io_bind (file_readline 4096) (\<lambda>line. io_bind (io_ensure (contains '' 200 '' line)
      (RuntimeError ''relay CONNECT failed'')) (\<lambda>_. connect_headers 0)))"
    by (intro silent_bind silent_file_readline silent_basic silent_connect_headers)
  note out = silentD [OF this c2]
  have c1': "cn_out c1 = cn_out c @ ?connect" "cn_secret_out c1 = cn_secret_out c" "\<not> cn_secure c1"
    using c1 assms(2) by (auto simp: io_write_def)
  have "cn_out c3 = cn_out c2" "cn_secret_out c3 = cn_secret_out c2" "cn_secure c3 \<longleftrightarrow> u_scheme target = ''https''"
    using c3 out c1' by (auto simp: start_tls_def io_return_def split: if_splits sum.splits)
  then have "cn_out c' = cn_out c @ ?connect @ (if u_scheme target = ''https'' then [] else ?get)"
    "cn_secret_out c' = cn_secret_out c @ (if u_scheme target = ''https'' then ?get else [])"
    using get out c1' by (auto simp: io_write_def split: if_splits)
  then show ?thesis using accept by blast
qed

lemma split_at_blank_line:
  assumes "CR \<notin> set a" "CR \<notin> set b" "b \<noteq> []"
  shows "split_at (CRLF @ CRLF) (a @ CRLF @ b @ CRLF @ CRLF @ r) = Some (a @ CRLF @ b, r)"
proof -
  have tail: "split_at (CRLF @ CRLF) (b @ CRLF @ CRLF @ r) = Some (b, r)"
    using assms(2) by (induction b) (auto simp: CRLF_def CR_def)
  have "split_at (CRLF @ CRLF) (CRLF @ b @ CRLF @ CRLF @ r) = Some (CRLF @ b, r)"
    using assms(2,3) tail by (cases b) (auto simp: CRLF_def CR_def)
  then show ?thesis
    using assms(1) by (induction a) (auto simp: CRLF_def CR_def)
qed

lemma accept_echo_Inr:
  assumes "accept_echo net raw = Inr echo"
  shows "\<exists>headers. rbind (item echo ''headers'') (\<lambda>h. rbind (dict_of AttributeError h) lower_headers) = Inr headers \<and>
    map_of headers ''x-request-id'' = Some (en_marker net) \<and> set (map fst headers) \<inter> set forbidden_headers = {}"
proof -
  obtain h hs headers where "item echo ''headers'' = Inr h" "dict_of AttributeError h = Inr hs" "lower_headers hs = Inr headers"
    "map_of headers ''x-request-id'' = Some (en_marker net)" "\<not> list_ex (\<lambda>k. k \<in> set (map fst headers)) forbidden_headers"
    using assms unfolding accept_echo_def rbind_eq_Inr ensure_eq_Inr
    by (elim exE conjE) (rule that; (assumption | simp only: sum.inject))
  then show ?thesis by (auto simp: list_ex_iff)
qed

lemma check_echoes_Inr:
  assumes "check_echoes g values exits = Inr ()"
  shows "\<exists>url echo. relay_echo (g_echo g) url = Inr echo \<and> list_ex (py_eq (get echo ''backend_peer'')) exits"
  using assms unfolding check_echoes_def rbind_eq_Inr ensure_eq_Inr in_exits_def
  by (elim exE conjE) (intro exI conjI, assumption, simp)

section \<open>Properties\<close>

text \<open>
  C11. What an accepted installation is: all six services exist and each row is running and not
  unhealthy; each of the four pools is a nonempty snapshot generated within its limit, and, when a
  replacement time is given, generated after it by a validator cycle completed after it; the
  pipeline is healthy; and a request through the relay came out at an address that the active pool
  names as an exit.
\<close>

theorem readiness_accepts:
  assumes "check g compose values since = Inr result"
  shows "\<exists>rows limit pools last_success exits url echo.
    service_rows g compose = Inr rows \<and> list_all running_row rows \<and>
    (\<forall>name \<in> set SERVICES. \<exists>m. JObj m \<in> set rows \<and> get m ''Service'' = JStr name) \<and>
    (\<forall>(i, kind) \<in> set [(0, ''raw''), (1, ''validated''), (2, ''reserve''), (3, ''active'')].
       gate_limit values kind = Inr (limit kind) \<and>
       accepted_pool g compose since (g_now g i) (kind, limit kind) (snapshots_of pools kind)) \<and>
    assess (snapshots_of pools) last_success (g_now g 4) limit = Inr (rd_pipeline result) \<and>
    rbind (pool_entries (snapshots_of pools) ''active'') (rmap exit_of) = Inr exits \<and>
    relay_echo (g_echo g) url = Inr echo \<and> list_ex (py_eq (get echo ''backend_peer'')) exits"
proof -
  obtain rows limits pools last_success exits where rows: "service_rows g compose = Inr rows"
    and services: "check_services rows = Inr ()" and limits: "gate_limits values = Inr limits"
    and pools: "read_pools g compose since 0 limits = Inr pools"
    and pipeline: "assess (snapshots_of pools) last_success (g_now g 4)
      (\<lambda>kind. case map_of limits kind of Some n \<Rightarrow> n | None \<Rightarrow> 0) = Inr (rd_pipeline result)"
    and exits: "rbind (pool_entries (snapshots_of pools) ''active'') (rmap exit_of) = Inr exits"
    and echoes: "check_echoes g values exits = Inr ()"
    using check_Inr[OF assms] by blast
  obtain a b c d where each: "gate_limit values ''raw'' = Inr a" "gate_limit values ''validated'' = Inr b"
    "gate_limit values ''reserve'' = Inr c" "gate_limit values ''active'' = Inr d"
    and four: "limits = [(''raw'', a), (''validated'', b), (''reserve'', c), (''active'', d)]"
    using limits unfolding gate_limits_def gate_limit_def by (auto simp: res_simps)
  obtain url echo where "relay_echo (g_echo g) url = Inr echo" "list_ex (py_eq (get echo ''backend_peer'')) exits"
    using check_echoes_Inr[OF echoes] by blast
  moreover have "gate_limit values kind = Inr ((\<lambda>kind. case map_of limits kind of Some n \<Rightarrow> n | None \<Rightarrow> 0) kind) \<and>
       accepted_pool g compose since (g_now g i) (kind, (\<lambda>kind. case map_of limits kind of Some n \<Rightarrow> n | None \<Rightarrow> 0) kind)
         (snapshots_of pools kind)"
    if "(i, kind) \<in> set [(0, ''raw''), (1, ''validated''), (2, ''reserve''), (3, ''active'')]" for i kind
    using that each read_pools_four[OF pools[unfolded four]] by (auto simp: four)
  ultimately show ?thesis
    using rows check_services_Inr[OF services] pipeline exits
    by (intro exI[of _ rows] exI[of _ "\<lambda>kind. case map_of limits kind of Some n \<Rightarrow> n | None \<Rightarrow> 0"]
          exI[of _ pools] exI[of _ last_success] exI[of _ exits] exI[of _ url] exI[of _ echo]) blast
qed

text \<open>
  The request of the gate: what \<open>relay_echo\<close> returns is the answer to exactly one CONNECT and one
  GET with its own marker (the GET inside TLS for an HTTPS check), and the headers that the
  endpoint saw have that marker and no credentials.
\<close>

theorem relay_echo_correlated:
  assumes "relay_echo net url = Inr echo" and "\<And>c. en_connect net = Inr c \<Longrightarrow> \<not> cn_secure c"
  shows "\<exists>target port c c' headers. urlsplit url = Inr target \<and> target_port target = Inr port \<and> en_connect net = Inr c \<and>
    echo_request net target port c = (Inr echo, c') \<and>
    cn_out c' = cn_out c @ utf8 (connect_text (host_text target) port)
      @ (if u_scheme target = ''https'' then [] else utf8 (get_text (host_text target) port (u_path target) (en_marker net))) \<and>
    cn_secret_out c' = cn_secret_out c
      @ (if u_scheme target = ''https'' then utf8 (get_text (host_text target) port (u_path target) (en_marker net)) else []) \<and>
    rbind (item echo ''headers'') (\<lambda>h. rbind (dict_of AttributeError h) lower_headers) = Inr headers \<and>
    map_of headers ''x-request-id'' = Some (en_marker net) \<and> set (map fst headers) \<inter> set forbidden_headers = {}"
proof -
  obtain target port c c' where target: "urlsplit url = Inr target" "target_port target = Inr port" "en_connect net = Inr c"
    and run: "echo_request net target port c = (Inr echo, c')"
    using assms(1) unfolding relay_echo_def rbind_eq_Inr by (metis prod.collapse)
  obtain raw where raw: "accept_echo net raw = Inr echo"
    and out: "cn_out c' = cn_out c @ utf8 (connect_text (host_text target) port)
      @ (if u_scheme target = ''https'' then [] else utf8 (get_text (host_text target) port (u_path target) (en_marker net)))"
    "cn_secret_out c' = cn_secret_out c
      @ (if u_scheme target = ''https'' then utf8 (get_text (host_text target) port (u_path target) (en_marker net)) else [])"
    using echo_request_Inr[OF run assms(2)[OF target(3)]] by blast
  obtain headers where "rbind (item echo ''headers'') (\<lambda>h. rbind (dict_of AttributeError h) lower_headers) = Inr headers"
    "map_of headers ''x-request-id'' = Some (en_marker net)" "set (map fst headers) \<inter> set forbidden_headers = {}"
    using accept_echo_Inr[OF raw] by blast
  then show ?thesis using target run out by blast
qed

text \<open>
  C34. The relay reads the request of the gate: from the bytes that \<open>relay_echo\<close> sends, \<open>handle\<close> of the
  egress relay reads the host and the port of the check URL.
\<close>

theorem relay_reads_gate_request:
  assumes "list_all line_char host" "host \<noteq> []" "\<not> starts_with ''['' host" "length host \<le> 255" "1 \<le> port" "port \<le> 65535"
  shows "fst (read_request True (c\<lparr>cn_in := utf8 (connect_text host port) @ later\<rparr>)) = Inr (host, port)"
proof -
  have ascii: "list_all is_ascii (connect_text host port)"
    using line_chars(1)[OF assms(1)] dec_line_char[of port]
    by (auto simp: connect_text_def CRLF_def is_ascii_def list_all_iff line_char_def)
  then have utf8: "utf8 (connect_text host port) = connect_text host port"
    by (intro utf8_ascii) (simp add: list_all_iff)
  let ?a = "''CONNECT '' @ host @ '':'' @ dec port @ '' HTTP/1.1''"
  let ?b = "''Host: '' @ host @ '':'' @ dec port"
  have "CR \<notin> set ?a" "CR \<notin> set ?b"
    using line_chars(3)[OF assms(1)] line_chars(3) dec_line_char[of port] by (auto simp: CR_def)
  then have split: "split_at (CRLF @ CRLF) (connect_text host port @ later) = Some (?a @ CRLF @ ?b, later)"
    using split_at_blank_line[of ?a ?b later] by (simp add: connect_text_def)
  have "length (dec port) \<le> 5" using assms(6) length_dec by simp
  then have short: "length (?a @ CRLF @ ?b) + 4 \<le> MAX_HEADERS"
    using assms(4) by (simp add: MAX_HEADERS_def CRLF_def)
  have "target_from_connect ((?a @ CRLF @ ?b) @ CRLF @ CRLF) = Inr (host, port)"
    using connect_line_target[of host port host "?b @ CRLF @ CRLF"] assms by simp
  then show ?thesis
    using split short by (simp add: read_request_def io_bind_def utf8 readuntil_ok timed_def io_ensure_def io_return_def io_lift_def CRLF_def)
qed

section \<open>Examples\<close>

definition gate_conn :: conn where
  "gate_conn = \<lparr>cn_in = ''HTTP/1.1 200 OK'' @ CRLF @ CRLF, cn_arrived = 0, cn_exc = None, cn_out = [], cn_secure = False,
     cn_secret_out = [], cn_tls_in = Inr []\<rparr>"

definition gate_net :: echo_net where
  "gate_net = \<lparr>en_connect = Inr gate_conn, en_response = (\<lambda>c. Inr (200, ''{}'')), en_marker = ''m'',
     en_json = (\<lambda>s. JText (JObj [(''backend_peer'', JInt 1), (''headers'', JObj [(''X-Request-ID'', JStr ''m'')])]))\<rparr>"

definition gate_entry :: json where
  "gate_entry = JObj [(''address'', JStr ''http://a:1''), (''exit_ip'', JInt 1), (''protocol'', JStr ''http''),
     (''success_streak'', JInt 1)]"

definition gate_snapshot :: json where
  "gate_snapshot = JObj [(''entries'', JArr [gate_entry]), (''generated_at'', JInt 4), (''source_generated_at'', JInt 4),
     (''raw_source_generated_at'', JInt 4),
     (''validator_cycle'', JObj [(''id'', JStr ''c''), (''healthy'', JInt 1), (''completed_at'', JInt 4)])]"

definition sample_gate :: gate where
  "sample_gate = \<lparr>g_run = (\<lambda>command. Inr (if last command = ''json'' then join [LF] SERVICES else last command)),
     g_json = (\<lambda>s. if s \<in> set SERVICES then JText (JObj [(''Service'', JStr s), (''State'', JStr ''running'')])
       else if s = ''validator:last_success:v1'' then JText (JObj [(''healthy'', JInt 1), (''completed_at'', JInt 4)])
       else JText gate_snapshot),
     g_now = (\<lambda>i. 5), g_echo = gate_net, g_local_echo = gate_net\<rparr>"

definition sample_values :: dict where
  "sample_values = [(''FETCH_INTERVAL_SECONDS'', JStr ''20''), (''VALIDATION_INTERVAL_SECONDS'', JStr ''20''),
     (''RANK_INTERVAL_SECONDS'', JStr ''20''), (''ANONYMITY_CHECK_URL'', JStr ''http://e/'')]"

lemma sample_url: "urlsplit ''http://e/'' = Inr \<lparr>u_scheme = ''http'', u_netloc = ''e'', u_path = ''/'', u_query = [], u_fragment = []\<rparr>"
  by code_simp

lemma sample_host: "host_text \<lparr>u_scheme = ''http'', u_netloc = ''e'', u_path = ''/'', u_query = [], u_fragment = []\<rparr> = ''e''"
  by code_simp

lemma sample_port: "target_port \<lparr>u_scheme = ''http'', u_netloc = ''e'', u_path = ''/'', u_query = [], u_fragment = []\<rparr> = Inr 80"
  by code_simp

lemma file_readline_line:
  assumes "cn_in c = a @ LF # b" "LF \<notin> set a" "length a < n"
  shows "file_readline n c = (Inr (a @ [LF]), c\<lparr>cn_in := b\<rparr>)"
proof -
  obtain k where "n = length a + Suc k" using assms(3) less_imp_add_positive by (metis Suc_pred)
  then have "take n (cn_in c) = a @ LF # take k b" using assms(1) by simp
  then show ?thesis using assms(1) split_at_LF[OF assms(2)] by (simp add: file_readline_def take_in_def)
qed

lemma sample_connect: "relay_connect ''e'' 80 gate_conn = (Inr (), gate_conn\<lparr>cn_in := [], cn_out := utf8 (connect_text ''e'' 80)\<rparr>)"
proof -
  let ?c = "gate_conn\<lparr>cn_out := utf8 (connect_text ''e'' 80)\<rparr>"
  have "file_readline 4096 ?c = (Inr (''HTTP/1.1 200 OK'' @ [CR] @ [LF]), ?c\<lparr>cn_in := CRLF\<rparr>)"
    by (subst file_readline_line[where a = "''HTTP/1.1 200 OK'' @ [CR]" and b = CRLF]) (simp_all add: gate_conn_def CRLF_def CR_def LF_def)
  moreover have "file_readline 4096 (?c\<lparr>cn_in := CRLF\<rparr>) = (Inr CRLF, ?c\<lparr>cn_in := []\<rparr>)"
    by (subst file_readline_line[where a = "[CR]" and b = "[]"]) (simp_all add: CRLF_def CR_def LF_def)
  ultimately show ?thesis
    by (simp add: relay_connect_def io_bind_def io_write_def io_ensure_def io_return_def connect_headers.simps)
      (simp add: gate_conn_def CRLF_def CR_def LF_def io_bind_def io_return_def connect_headers.simps)
qed

definition echo_of_gate :: dict where
  "echo_of_gate = [(''backend_peer'', JInt 1), (''headers'', JObj [(''X-Request-ID'', JStr ''m'')])]"

lemma sample_headers: "lower_headers [(''X-Request-ID'', JStr ''m'')] = Inr [(''x-request-id'', ''m'')]"
  by code_simp

lemma sample_accept: "accept_echo gate_net ''{}'' = Inr echo_of_gate"
  by (simp add: accept_echo_def gate_net_def echo_of_gate_def item_def dict_of_def sample_headers forbidden_headers_def)

lemma sample_echo_request: "relay_echo gate_net ''http://e/'' = Inr echo_of_gate"
proof -
  have "take 65537 ''{}'' = ''{}''" by simp
  then have "fst (echo_request gate_net \<lparr>u_scheme = ''http'', u_netloc = ''e'', u_path = ''/'', u_query = [], u_fragment = []\<rparr> 80 gate_conn)
      = Inr echo_of_gate"
    using sample_connect sample_accept
    by (simp add: echo_request_def sample_host io_bind_def io_return_def io_write_def io_ensure_def io_lift_def gate_net_def)
  then show ?thesis by (simp add: relay_echo_def sample_url sample_port) (simp add: gate_net_def)
qed

lemma sample_services: "check_services (map (\<lambda>s. JObj [(''Service'', JStr s), (''State'', JStr ''running'')]) SERVICES) = Inr ()"
  by code_simp

lemma sample_rows:
  "service_rows sample_gate compose = Inr (map (\<lambda>s. JObj [(''Service'', JStr s), (''State'', JStr ''running'')]) SERVICES)"
proof -
  have "g_run sample_gate (compose @ [''ps'', ''--all'', ''--format'', ''json'']) = Inr (join [LF] SERVICES)"
    by (simp add: sample_gate_def)
  moreover have "rmap (\<lambda>line. json_loads (g_json sample_gate line)) (filter (\<lambda>line. line \<noteq> []) (splitlines (join [LF] SERVICES)))
      = Inr (map (\<lambda>s. JObj [(''Service'', JStr s), (''State'', JStr ''running'')]) SERVICES)"
    by code_simp
  ultimately show ?thesis by (simp add: service_rows_def SERVICES_def)
qed

lemma sample_limits: "gate_limits sample_values = Inr [(''raw'', 60), (''validated'', 60), (''reserve'', 60), (''active'', 60)]"
  by code_simp

lemma gate_recent: "recent 5 4 n \<longleftrightarrow> 1 \<le> n" and gate_age: "age_of 5 (JInt 4) = Inr 1"
proof -
  have "fl 4 = 4" "fl 1 = 1" using fl_of_int[of 4] fl_of_int[of 1] by simp_all
  then show "recent 5 4 n \<longleftrightarrow> 1 \<le> n" "age_of 5 (JInt 4) = Inr 1"
    by (simp_all add: recent_def fint_def age_of_def num_def fadd_def round_even_def)
qed

definition gate_data :: dict where
  "gate_data = the (as_dict gate_snapshot)"

lemma gate_data_items:
  "gate_snapshot = JObj gate_data" "get gate_data ''entries'' = JArr [gate_entry]" "item gate_data ''entries'' = Inr (JArr [gate_entry])"
  "item gate_data ''generated_at'' = Inr (JInt 4)" "item gate_data ''source_generated_at'' = Inr (JInt 4)"
  "get gate_data ''source_generated_at'' = JInt 4" "get gate_data ''raw_source_generated_at'' = JInt 4"
  "get_default gate_data ''validator_cycle'' d = JObj [(''id'', JStr ''c''), (''healthy'', JInt 1), (''completed_at'', JInt 4)]"
  "get gate_data ''validator_cycle'' = JObj [(''id'', JStr ''c''), (''healthy'', JInt 1), (''completed_at'', JInt 4)]"
  "item gate_data ''validator_cycle'' = Inr (JObj [(''id'', JStr ''c''), (''healthy'', JInt 1), (''completed_at'', JInt 4)])"
  by (simp_all add: gate_data_def gate_snapshot_def get_def get_default_def item_def)

lemma gate_below: "below (JInt 4) 3 = Inr False" "below (JInt 1) 1 = Inr False"
  by (simp_all add: below_def num_def)

lemma sample_read_json:
  "kind \<in> {''raw'', ''validated'', ''reserve'', ''active''} \<Longrightarrow>
   run_json sample_gate (redis_get compose (pool_key_of kind)) = Inr (JObj gate_data)"
  "run_json sample_gate (redis_get compose ''transparent-gateway:validated:v1'') = Inr (JObj gate_data)"
  by (auto simp: run_json_def redis_get_def pool_key_of_def sample_gate_def SERVICES_def gate_data_items)

lemma sample_read_pool:
  assumes "kind \<in> {''raw'', ''validated'', ''reserve'', ''active''}" "since \<in> {None, Some 3}"
  shows "read_pool sample_gate compose since 5 (kind, 60) = Inr (kind, 1, 1, gate_data)"
  using sample_read_json(1)[OF assms(1)] assms(2)
  by (auto simp: read_pool_def gate_data_items gate_recent gate_age check_since_def refuse_def gate_below dict_of_def)

lemma sample_pools:
  assumes "since \<in> {None, Some 3}"
  shows "read_pools sample_gate compose since 0 [(''raw'', 60), (''validated'', 60), (''reserve'', 60), (''active'', 60)]
    = Inr [(''raw'', 1, 1, gate_data), (''validated'', 1, 1, gate_data), (''reserve'', 1, 1, gate_data), (''active'', 1, 1, gate_data)]"
proof -
  have "g_now sample_gate i = 5" for i by (simp add: sample_gate_def)
  then show ?thesis using assms by (simp add: sample_read_pool)
qed

lemma sample_snapshots:
  "snapshots_of [(''raw'', 1, 1, gate_data), (''validated'', 1, 1, gate_data), (''reserve'', 1, 1, gate_data), (''active'', 1, 1, gate_data)]
    = (\<lambda>kind. if kind \<in> {''raw'', ''validated'', ''reserve'', ''active''} then gate_data else [])"
  by (rule ext) (simp add: snapshots_of_def)

lemma item_Cons: "item ((k, v) # m) k' = (if k = k' then Inr v else item m k')"
  by (simp add: item_def)

lemma sample_assess:
  assumes "\<And>kind. kind \<in> {''raw'', ''validated'', ''reserve'', ''active''} \<Longrightarrow> snapshots kind = gate_data \<and> limits kind = 60"
  shows "assess snapshots (JObj [(''healthy'', JInt 1), (''completed_at'', JInt 4)]) 5 limits = Inr (1, 1)"
proof -
  have entry: "entry_identity gate_entry = Inr (JStr ''http://a:1'', JNull, JInt 1)" "check_entry gate_entry = Inr ()"
    by (simp_all add: entry_identity_def check_entry_def gate_entry_def dict_of_def item_def refuse_def gate_below)
  have "identities snapshots kind = Inr [(JStr ''http://a:1'', JNull, JInt 1)]" if "kind \<in> {''raw'', ''validated'', ''reserve'', ''active''}" for kind
    using assms[OF that] entry by (simp add: identities_def pool_entries_def gate_data_items)
  then have "check_identities snapshots = Inr ()"
    by (simp add: check_identities_def covered_def)
  then show ?thesis
    using assms entry
    by (simp add: assess_def check_generated_def check_last_success_def check_lineage_def check_cycle_def pool_entries_def
        gate_data_items gate_recent gate_age gate_below dict_of_def refuse_def pnot_def item_Cons)
qed

lemma sample_gate_ready:
  assumes limits: "gate_limits vals = Inr [(''raw'', 60), (''validated'', 60), (''reserve'', 60), (''active'', 60)]"
    and url: "item vals ''ANONYMITY_CHECK_URL'' = Inr (JStr ''http://e/'')" "get vals ''LAB_LOCAL_ECHO_ENABLED'' \<noteq> JStr ''1''"
    and since: "since \<in> {None, Some 3}"
  shows "\<exists>result. check sample_gate compose vals since = Inr result"
proof -
  have last: "g_run sample_gate (redis_get compose ''validator:last_success:v1'') = Inr ''validator:last_success:v1''"
    "g_json sample_gate ''validator:last_success:v1'' = JText (JObj [(''healthy'', JInt 1), (''completed_at'', JInt 4)])"
    "g_now sample_gate i = 5" "g_echo sample_gate = gate_net" for compose i
    by (simp_all add: sample_gate_def redis_get_def SERVICES_def)
  have addresses: "addresses (JArr [gate_entry]) = Inr [JStr ''http://a:1'']" and exit: "exit_of gate_entry = Inr (JInt 1)"
    by (simp_all add: addresses_def exit_of_def gate_entry_def dict_of_def item_def)
  have echoes: "check_echoes sample_gate vals [JInt 1] = Inr ()"
    using url by (simp add: check_echoes_def last sample_echo_request)
      (simp add: echo_of_gate_def item_def in_exits_def sample_echo_request last)
  have pipeline: "assess (\<lambda>kind. if kind \<in> {''raw'', ''validated'', ''reserve'', ''active''} then gate_data else [])
      (JObj [(''healthy'', JInt 1), (''completed_at'', JInt 4)]) 5
      (\<lambda>kind. case map_of [(''raw'', 60), (''validated'', 60), (''reserve'', 60), (''active'', 60)] kind of Some n \<Rightarrow> n | None \<Rightarrow> 0)
    = Inr (1, 1)"
    by (rule sample_assess) auto
  show ?thesis
    unfolding check_def Let_def sample_rows sample_services limits sample_pools[OF since] sample_snapshots rbind_simps last
    by (simp add: pipeline [simplified] gate_data_items gate_recent sample_read_json dict_of_def addresses exit echoes pool_entries_def
        sorted_exits_def)
qed

lemma readiness_accepts_witness:
  "\<exists>limit data url echo. accepted_pool sample_gate [''docker'', ''compose''] (Some 3) (g_now sample_gate 3) (''active'', limit) data \<and>
    relay_echo (g_echo sample_gate) url = Inr echo"
proof -
  obtain result where "check sample_gate [''docker'', ''compose''] sample_values (Some 3) = Inr result"
    using sample_gate_ready[OF sample_limits] by (auto simp: sample_values_def item_def get_def)
  from readiness_accepts[OF this] obtain limit pools url echo where
    "\<forall>(i, kind) \<in> set [(0, ''raw''), (1, ''validated''), (2, ''reserve''), (3, ''active'')].
       gate_limit sample_values kind = Inr (limit kind) \<and>
       accepted_pool sample_gate [''docker'', ''compose''] (Some 3) (g_now sample_gate i) (kind, limit kind) (snapshots_of pools kind)"
    "relay_echo (g_echo sample_gate) url = Inr echo"
    by blast
  then show ?thesis by auto
qed

lemma relay_echo_correlated_witness:
  "\<exists>c' :: conn. cn_out c' = utf8 (connect_text ''e'' 80) @ utf8 (get_text ''e'' 80 ''/'' ''m'')"
proof -
  have secure: "\<And>c. en_connect gate_net = Inr c \<Longrightarrow> \<not> cn_secure c"
    by (auto simp: gate_net_def gate_conn_def)
  have "en_connect gate_net = Inr gate_conn" "cn_out gate_conn = []" "en_marker gate_net = ''m''"
    by (simp_all add: gate_net_def gate_conn_def)
  then show ?thesis
    using relay_echo_correlated[OF sample_echo_request secure] by (auto simp: sample_url sample_port sample_host)
qed

lemma relay_reads_gate_request_witness:
  "fst (read_request True (gate_conn\<lparr>cn_in := utf8 (connect_text ''e'' 80) @ []\<rparr>)) = Inr (''e'', 80)"
  by (rule relay_reads_gate_request) (simp_all add: line_char_def is_ascii_def CR_def)

end
