(* ===== verification/Cmd_Log.thy ===== *)
theory Cmd_Log
  imports Gw_Prelude "HOL-Library.Sublist"
begin

text \<open>
  Programs that drive their host: the state is the log of what was done so far, and whatever the
  host answers may depend on the whole log. \<open>emits P m\<close> says that \<open>m\<close> only appends to the log, and
  only events that satisfy \<open>P\<close>; its rules follow the structure of the program.
\<close>

definition observe :: "('e list \<Rightarrow> 'a res) \<Rightarrow> ('e list, 'a) act" where
  "observe f past = (f past, past)"

text \<open>A loop over a list, in order, that stops at the first exception.\<close>

fun for_each :: "('a \<Rightarrow> ('s, 'b) act) \<Rightarrow> 'a list \<Rightarrow> ('s, 'b list) act" where
  "for_each f [] = io_return []"
| "for_each f (x # xs) = io_bind (f x) (\<lambda>y. io_bind (for_each f xs) (\<lambda>ys. io_return (y # ys)))"

section \<open>What a step adds to the log\<close>

definition emits :: "('e \<Rightarrow> bool) \<Rightarrow> ('e list, 'a) act \<Rightarrow> bool" where
  "emits P m \<longleftrightarrow> (\<forall>past r past'. m past = (r, past') \<longrightarrow> (\<exists>new. past' = past @ new \<and> list_all P new))"

named_theorems emits_intros "introduction rules for emits"

lemma emitsI: "(\<And>past r past'. m past = (r, past') \<Longrightarrow> \<exists>new. past' = past @ new \<and> list_all P new) \<Longrightarrow> emits P m"
  by (simp add: emits_def)

lemma emitsE:
  assumes "emits P m" "m past = (r, past')"
  obtains new where "past' = past @ new" "list_all P new"
  using assms unfolding emits_def by blast

lemma emits_list_all: "emits P m \<Longrightarrow> m past = (r, past') \<Longrightarrow> list_all P past \<Longrightarrow> list_all P past'"
  by (erule emitsE, assumption) simp

lemma emits_mono: "emits P m \<Longrightarrow> (\<And>e. P e \<Longrightarrow> Q e) \<Longrightarrow> emits Q m"
  unfolding emits_def by (metis list.pred_mono_strong)

lemma emits_bind [emits_intros]:
  assumes m: "emits P m" and f: "\<And>x. emits P (f x)"
  shows "emits P (io_bind m f)"
proof (rule emitsI)
  fix past r past' assume run: "io_bind m f past = (r, past')"
  obtain q mid where first: "m past = (q, mid)" by fastforce
  obtain new where new: "mid = past @ new" "list_all P new" using m first by (rule emitsE)
  show "\<exists>new. past' = past @ new \<and> list_all P new"
  proof (cases q)
    case (Inl e)
    then show ?thesis using run first new by auto
  next
    case (Inr x)
    then have "f x mid = (r, past')" using run first by simp
    then obtain rest where "past' = mid @ rest" "list_all P rest" using f emitsE by blast
    then show ?thesis using new by auto
  qed
qed

lemma emits_pure [emits_intros]:
  "emits P (io_return x)" "emits P (io_raise e)" "emits P (io_lift r)" "emits P (io_ensure b e)" "emits P (observe f)"
  by (auto simp: emits_def io_return_def io_raise_def io_lift_def io_ensure_def observe_def)

lemma emits_if [emits_intros]: "(b \<Longrightarrow> emits P m) \<Longrightarrow> (\<not> b \<Longrightarrow> emits P n) \<Longrightarrow> emits P (if b then m else n)"
  by simp

lemma emits_option [emits_intros]:
  "(x = None \<Longrightarrow> emits P m) \<Longrightarrow> (\<And>y. x = Some y \<Longrightarrow> emits P (f y)) \<Longrightarrow>
   emits P (case x of None \<Rightarrow> m | Some y \<Rightarrow> f y)"
  by (simp split: option.splits)

lemma emits_prod [emits_intros]: "(\<And>a b. x = (a, b) \<Longrightarrow> emits P (f a b)) \<Longrightarrow> emits P (case x of (a, b) \<Rightarrow> f a b)"
  by (simp split: prod.splits)

lemma emits_let [emits_intros]: "emits P (f x) \<Longrightarrow> emits P (let y = x in f y)"
  by simp

lemma emits_for_each [emits_intros]: "(\<And>x. emits P (f x)) \<Longrightarrow> emits P (for_each f xs)"
  by (induction xs) (auto intro!: emits_intros)

lemma emits_for_each_in: "(\<And>x. x \<in> set xs \<Longrightarrow> emits P (f x)) \<Longrightarrow> emits P (for_each f xs)"
  by (induction xs) (auto intro!: emits_intros)

lemma emits_observed: "(\<And>past x. f past = Inr x \<Longrightarrow> emits P (g x)) \<Longrightarrow> emits P (io_bind (observe f) g)"
  unfolding emits_def io_bind_def observe_def by (auto split: sum.splits)

lemma emits_at: "(\<And>x. emits P (m x)) \<Longrightarrow> emits P (\<lambda>past. m (f past) past)"
  unfolding emits_def by blast

text \<open>An event of the second part of a log comes after the whole first part.\<close>

lemma event_after:
  assumes "xs @ ys = early @ e # late" "list_all (\<lambda>e. \<not> P e) xs" "P e"
  shows "\<exists>zs. early = xs @ zs"
  using assms by (auto simp: append_eq_append_conv2 append_eq_Cons_conv Cons_eq_append_conv)

section \<open>Single steps\<close>

lemma io_bindE:
  assumes "io_bind m f c = (Inr y, c')"
  obtains x c1 where "m c = (Inr x, c1)" "f x c1 = (Inr y, c')"
  using assms by (auto simp: io_bind_eq_Inr)

lemma io_bind_ensure: "io_bind (io_ensure b e) f = (if b then f () else io_raise e)"
  by (rule ext) (simp add: io_ensure_def io_return_def io_raise_def io_bind_def)

lemma emits_prefix: "emits P m \<Longrightarrow> m past = (r, past') \<Longrightarrow> prefix past past'"
  by (metis emitsE prefixI)

lemma for_each_results:
  assumes "for_each f xs past = (Inr ys, past')" "\<And>x. emits (\<lambda>_. True) (f x)" "y \<in> set ys"
  shows "\<exists>x p p'. f x p = (Inr y, p') \<and> prefix p' past'"
  using assms(1,3)
proof (induction xs arbitrary: past ys)
  case (Cons x xs)
  obtain z c zs where *: "f x past = (Inr z, c)" "for_each f xs c = (Inr zs, past')" "ys = z # zs"
    using Cons.prems(1) by (auto elim!: io_bindE simp: io_return_eq)
  have "prefix c past'" using emits_prefix[OF emits_for_each *(2)] assms(2) by blast
  with * Cons.IH Cons.prems(2) show ?case by auto
qed (simp add: io_return_eq)

section \<open>What comes before an event\<close>

lemma before_event:
  assumes run: "io_bind m f past = (r, past')" and m: "emits (\<lambda>e. \<not> P e) m" and f: "\<And>x. emits (\<lambda>_. True) (f x)"
    and event: "past' = past @ early @ e # late" "P e"
  obtains x c early' where "m past = (Inr x, c)" "f x c = (r, past')" "past' = c @ early' @ e # late" "past @ early = c @ early'"
  using run
proof (rule io_bind_cases)
  fix err assume "m past = (Inl err, past')"
  then obtain new where new: "past' = past @ new" "list_all (\<lambda>e. \<not> P e) new" by (rule emitsE[OF m])
  then have "new = early @ e # late" using event(1) by simp
  then show thesis using new(2) event(2) by simp
next
  fix x c assume first: "m past = (Inr x, c)" and rest: "f x c = (r, past')"
  obtain new where new: "c = past @ new" "list_all (\<lambda>e. \<not> P e) new" by (rule emitsE[OF m first])
  obtain more_events where more_events: "past' = c @ more_events" by (rule emitsE[OF f rest])
  have "new @ more_events = early @ e # late" using new(1) more_events event(1) by simp
  then obtain zs where "early = new @ zs" using event_after[of new more_events early e late P] new(2) event(2) by blast
  then show thesis using that[OF first rest, of zs] new(1) more_events event(1) by simp
qed

text \<open>Whatever \<open>m\<close> does, \<open>G\<close> holds of the log just before each event with \<open>P\<close>.\<close>

definition guarded :: "('e \<Rightarrow> bool) \<Rightarrow> ('e list \<Rightarrow> bool) \<Rightarrow> ('e list, 'a) act \<Rightarrow> bool" where
  "guarded P G m \<longleftrightarrow> (\<forall>past r past' early e late. m past = (r, past') \<longrightarrow> past' = past @ early @ e # late \<longrightarrow> P e \<longrightarrow> G (past @ early))"

lemma guardedD: "guarded P G m \<Longrightarrow> m past = (r, past') \<Longrightarrow> past' = past @ early @ e # late \<Longrightarrow> P e \<Longrightarrow> G (past @ early)"
  unfolding guarded_def by blast

lemma guarded_quiet: "emits (\<lambda>e. \<not> P e) m \<Longrightarrow> guarded P G m"
  unfolding guarded_def emits_def by fastforce

lemma guarded_after:
  assumes m: "emits (\<lambda>e. \<not> P e) m" and f: "\<And>x. emits (\<lambda>_. True) (f x)"
    and step: "\<And>past x c. m past = (Inr x, c) \<Longrightarrow> guarded P G (f x) \<or> (\<forall>rest. G (c @ rest))"
  shows "guarded P G (io_bind m f)"
  unfolding guarded_def
proof (intro allI impI)
  fix past r past' early e late
  assume run: "io_bind m f past = (r, past')" and event: "past' = past @ early @ e # late" "P e"
  obtain x c early' where *: "m past = (Inr x, c)" "f x c = (r, past')" "past' = c @ early' @ e # late" "past @ early = c @ early'"
    by (rule before_event[OF run m f event])
  then show "G (past @ early)" using step[OF *(1)] guardedD[of P G "f x", OF _ *(2,3) event(2)] by auto
qed

lemma guarded_bind:
  assumes "emits (\<lambda>e. \<not> P e) m" "\<And>x. emits (\<lambda>_. True) (f x)" "\<And>x. guarded P G (f x)"
  shows "guarded P G (io_bind m f)"
  using assms by (intro guarded_after) auto

lemma guarded_lift: "(\<And>x. r = Inr x \<Longrightarrow> guarded P G (f x)) \<Longrightarrow> guarded P G (io_bind (io_lift r) f)"
  by (cases r) (simp_all add: guarded_def io_bind_def io_lift_def)

lemma guarded_at: "(\<And>x. guarded P G (m x)) \<Longrightarrow> guarded P G (\<lambda>past. m (f past) past)"
  unfolding guarded_def by blast

end
