(* ===== verification/Station.thy ===== *)
theory Station
  imports Py_Json Cmd_Log
begin

text \<open>
  A host that is administered by a script. The state is the log of what was asked, printed, run and
  done to files; the host answers by functions of this log, so it may change between two steps in
  any way. A text that holds JSON is read by \<open>st_json\<close> and written by \<open>st_dumps\<close> (with
  \<open>indent=2\<close>) and \<open>st_compact\<close> (with the compact separators). Every reading of the clock is
  an event of its own.
\<close>

datatype ctl_action =
    Run "string list"
  | FileOp string string string
  | Print string
  | Ask string
  | Clock
  | Sleep rat
  | Gate

type_synonym ctl_event = "ctl_action \<times> bool"
type_synonym ctl_log = "ctl_event list"
type_synonym 'a ctl = "(ctl_log, 'a) act"

record file_info =
  fi_regular :: bool
  fi_uid :: int
  fi_gid :: int
  fi_mode :: nat

record station =
  st_root :: string
  st_euid :: int
  st_run :: "ctl_log \<Rightarrow> string list \<Rightarrow> (int \<times> string) res"
  st_exists :: "ctl_log \<Rightarrow> string \<Rightarrow> bool"
  st_read :: "ctl_log \<Rightarrow> string \<Rightarrow> string res"
  st_lstat :: "ctl_log \<Rightarrow> string \<Rightarrow> file_info res"
  st_file :: "ctl_log \<Rightarrow> ctl_action \<Rightarrow> unit res"
  st_input :: "ctl_log \<Rightarrow> string \<Rightarrow> string res"
  st_clock :: "ctl_log \<Rightarrow> rat"
  st_str :: "exn \<Rightarrow> string"
  st_json :: "string \<Rightarrow> jtext"
  st_dumps :: "json \<Rightarrow> string"
  st_compact :: "json \<Rightarrow> string"
  st_sha256 :: "string \<Rightarrow> string"

definition at_root :: "station \<Rightarrow> string \<Rightarrow> string" where
  "at_root s name = st_root s @ ''/'' @ name"

definition print :: "station \<Rightarrow> string \<Rightarrow> unit ctl" where
  "print s line past = (case st_file s past (Print line) of
     Inl e \<Rightarrow> (Inl e, past @ [(Print line, False)]) | Inr _ \<Rightarrow> (Inr (), past @ [(Print line, True)]))"

definition file_op :: "station \<Rightarrow> string \<Rightarrow> string \<Rightarrow> string \<Rightarrow> unit ctl" where
  "file_op s op path content past = (case st_file s past (FileOp op path content) of
     Inl e \<Rightarrow> (Inl e, past @ [(FileOp op path content, False)])
   | Inr _ \<Rightarrow> (Inr (), past @ [(FileOp op path content, True)]))"

definition ask :: "station \<Rightarrow> string \<Rightarrow> string ctl" where
  "ask s question past = (case st_input s past question of
     Inl e \<Rightarrow> (Inl e, past @ [(Ask question, False)]) | Inr answer \<Rightarrow> (Inr answer, past @ [(Ask question, True)]))"

definition spawn :: "station \<Rightarrow> string list \<Rightarrow> (int \<times> string) ctl" where
  "spawn s command past = (case st_run s past command of
     Inl e \<Rightarrow> (Inl e, past @ [(Run command, False)])
   | Inr r \<Rightarrow> (Inr r, past @ [(Run command, fst r = 0)]))"

definition read_text :: "station \<Rightarrow> string \<Rightarrow> string ctl" where
  "read_text s path = observe (\<lambda>past. st_read s past path)"

definition exists_file :: "station \<Rightarrow> string \<Rightarrow> bool ctl" where
  "exists_file s path = observe (\<lambda>past. Inr (st_exists s past path))"

definition parent_of :: "string \<Rightarrow> string" where
  "parent_of path = (case rsplit1 CHR ''/'' path of None \<Rightarrow> ''.'' | Some (a, _) \<Rightarrow> if a = [] then ''/'' else a)"

definition name_of :: "string \<Rightarrow> string" where
  "name_of path = (case rsplit1 CHR ''/'' path of None \<Rightarrow> path | Some (_, b) \<Rightarrow> b)"

definition mkdir_parent :: "station \<Rightarrow> string \<Rightarrow> unit ctl" where
  "mkdir_parent s path = file_op s ''mkdir'' (parent_of path) []"

definition FileNotFoundError :: exn where
  "FileNotFoundError = OSError ''No such file or directory''"

definition tick :: "station \<Rightarrow> ctl_log \<Rightarrow> rat \<times> ctl_log" where
  "tick s past = (st_clock s past, past @ [(Clock, True)])"

text \<open>\<open>time.monotonic\<close> never goes back, and \<open>time.sleep(d)\<close> takes at least \<open>d\<close> seconds.\<close>

definition clock_law :: "station \<Rightarrow> bool" where
  "clock_law s \<longleftrightarrow> (\<forall>past new. st_clock s past \<le> st_clock s (past @ new))
     \<and> (\<forall>past d. st_clock s past + d \<le> st_clock s (past @ [(Sleep d, True)]))"

text \<open>\<open>try: m finally: cleanup\<close>; an exception of the cleanup replaces the result.\<close>

definition try_finally :: "unit ctl \<Rightarrow> 'a ctl \<Rightarrow> 'a ctl" where
  "try_finally cleanup m past =
     (case m past of (r, c) \<Rightarrow> (case cleanup c of (Inl e, c1) \<Rightarrow> (Inl e, c1) | (Inr _, c1) \<Rightarrow> (r, c1)))"

section \<open>Programs that may run forever\<close>

type_synonym 'a may = "ctl_log \<Rightarrow> ('a res \<times> ctl_log) option"

definition returns :: "'a ctl \<Rightarrow> 'a may" where
  "returns m past = Some (m past)"

definition may_bind :: "'a may \<Rightarrow> ('a \<Rightarrow> 'b may) \<Rightarrow> 'b may" where
  "may_bind m f past = Option.bind (m past) (\<lambda>(r, c). case r of Inl e \<Rightarrow> Some (Inl e, c) | Inr x \<Rightarrow> f x c)"

section \<open>What the steps leave in the log\<close>

lemma silent: "emits (\<lambda>_. False) m \<Longrightarrow> m past = (r, past') \<Longrightarrow> past' = past"
  by (erule emitsE, assumption) (case_tac new, auto)

lemma emits_print [emits_intros]: "P (Print line, True) \<Longrightarrow> P (Print line, False) \<Longrightarrow> emits P (print s line)"
  by (rule emitsI) (auto simp: print_def split: sum.splits)

lemma spawn_event: "spawn s command past = (r, c) \<Longrightarrow> \<exists>b. c = past @ [(Run command, b)]"
  by (auto simp: spawn_def split: sum.splits)

lemma file_op_Inr: "file_op s act path content past = (Inr u, c) \<Longrightarrow> c = past @ [(FileOp act path content, True)]"
  by (auto simp: file_op_def split: sum.splits)

lemma print_Inr: "print s line past = (Inr u, c) \<Longrightarrow> \<exists>b. c = past @ [(Print line, b)] \<and> b"
  by (auto simp: print_def split: sum.splits)

lemma spawn_Inr: "spawn s ws past = (Inr (n, out), c) \<Longrightarrow> c = past @ [(Run ws, n = 0)]"
  by (auto simp: spawn_def split: sum.splits)

lemma file_op_cases:
  "file_op s act path content past = (r, c) \<Longrightarrow> \<exists>b. c = past @ [(FileOp act path content, b)] \<and> (r = Inr () \<longleftrightarrow> b)"
  by (auto simp: file_op_def split: sum.splits)

lemma file_op_bind_cases:
  assumes "io_bind (file_op s act path content) f past = (r, c)"
  obtains e where "c = past @ [(FileOp act path content, False)]" "r = Inl e"
    | "f () (past @ [(FileOp act path content, True)]) = (r, c)"
proof (rule io_bind_cases[OF assms])
  fix e assume run: "file_op s act path content past = (Inl e, c)" "r = Inl e"
  then show thesis using that(1) file_op_cases by fastforce
next
  fix u c1 assume run: "file_op s act path content past = (Inr u, c1)" "f u c1 = (r, c)"
  then have "c1 = past @ [(FileOp act path content, True)]" by (intro file_op_Inr)
  then show thesis using that(2) run(2) by simp
qed

text \<open>A beginning of the events \<open>all\<close>, of which only the last may have failed.\<close>

fun partial_log :: "ctl_log \<Rightarrow> ctl_log \<Rightarrow> bool" where
  "partial_log (x # all) [y] = (fst y = fst x)"
| "partial_log (x # all) (y # new) = (y = x \<and> partial_log all new)"
| "partial_log all new = False"

lemma may_bind_Some:
  assumes "may_bind m f past = Some (Inr y, c)"
  obtains x c1 where "m past = Some (Inr x, c1)" "f x c1 = Some (Inr y, c)"
  using assms by (auto simp: may_bind_def split: bind_splits sum.splits)

lemma emits_file_op [emits_intros]:
  "P (FileOp act path content, True) \<Longrightarrow> P (FileOp act path content, False) \<Longrightarrow> emits P (file_op s act path content)"
  by (rule emitsI) (auto simp: file_op_def split: sum.splits)

lemma emits_spawn [emits_intros]: "P (Run ws, True) \<Longrightarrow> P (Run ws, False) \<Longrightarrow> emits P (spawn s ws)"
proof (rule emitsI)
  fix past r past' assume P: "P (Run ws, True)" "P (Run ws, False)" and "spawn s ws past = (r, past')"
  then obtain b where "past' = past @ [(Run ws, b)]" using spawn_event by blast
  then show "\<exists>new. past' = past @ new \<and> list_all P new" using P by (cases b) auto
qed

lemma emits_tick [emits_intros]: "P (Clock, True) \<Longrightarrow> emits P (\<lambda>past. case tick s past of (t, c) \<Rightarrow> (Inr (f t), c))"
  by (rule emitsI) (auto simp: tick_def)

lemma try_finally_cases:
  assumes "try_finally cleanup m past = (r, c)"
  obtains q c1 u where "m past = (q, c1)" "cleanup c1 = (u, c)" "r = q \<or> (\<exists>e. r = Inl e \<and> u = Inl e)" "\<forall>x. r = Inr x \<longrightarrow> q = r"
  using assms unfolding try_finally_def by (auto split: prod.splits sum.splits)

lemma emits_try_finally [emits_intros]:
  assumes m: "emits P m" and cleanup: "emits P cleanup"
  shows "emits P (try_finally cleanup m)"
proof (rule emitsI)
  fix past r c assume "try_finally cleanup m past = (r, c)"
  then obtain q c1 u where run: "m past = (q, c1)" "cleanup c1 = (u, c)" by (rule try_finally_cases)
  obtain new where "c1 = past @ new" "list_all P new" using m run(1) by (rule emitsE)
  moreover obtain rest where "c = c1 @ rest" "list_all P rest" using cleanup run(2) by (rule emitsE)
  ultimately show "\<exists>new. c = past @ new \<and> list_all P new" by (intro exI[of _ "new @ rest"]) simp
qed

lemma before_cleanup:
  assumes run: "try_finally cleanup m past = (r, past')" and cleanup: "emits (\<lambda>e. \<not> P e) cleanup" and m: "emits (\<lambda>_. True) m"
    and event: "past' = past @ early @ e # late" "P e"
  obtains q c late' where "m past = (q, c)" "c = past @ early @ e # late'"
proof -
  obtain q c u where steps: "m past = (q, c)" "cleanup c = (u, past')" using run by (rule try_finally_cases)
  obtain new where new: "c = past @ new" by (rule emitsE[OF m steps(1)])
  obtain rest where rest: "past' = c @ rest" "list_all (\<lambda>e. \<not> P e) rest" by (rule emitsE[OF cleanup steps(2)])
  have split: "new @ rest = early @ e # late" using new rest(1) event(1) by simp
  obtain late' where "new = early @ e # late'"
  proof -
    have "\<not> (\<exists>us. early = new @ us)"
    proof
      assume "\<exists>us. early = new @ us"
      then obtain us where "rest = us @ e # late" using split by auto
      then show False using rest(2) event(2) by simp
    qed
    then show thesis using split that by (auto simp: append_eq_append_conv2 append_eq_Cons_conv Cons_eq_append_conv)
  qed
  then show thesis using that steps(1) new by simp
qed

lemma guarded_finally:
  assumes m: "guarded P G m" and total: "emits (\<lambda>_. True) m" and cleanup: "emits (\<lambda>e. \<not> P e) cleanup"
  shows "guarded P G (try_finally cleanup m)"
  unfolding guarded_def
proof (intro allI impI)
  fix past r past' early e late
  assume run: "try_finally cleanup m past = (r, past')" and event: "past' = past @ early @ e # late" "P e"
  obtain q c late' where inner: "m past = (q, c)" "c = past @ early @ e # late'"
    by (rule before_cleanup[OF run cleanup total event])
  show "G (past @ early)" by (rule guardedD[OF m inner event(2)])
qed

section \<open>Polling until a deadline\<close>

fun is_run :: "ctl_event \<Rightarrow> bool" where
  "is_run (Run _, _) = True"
| "is_run _ = False"

fun is_gate :: "ctl_event \<Rightarrow> bool" where
  "is_gate (Gate, _) = True"
| "is_gate _ = False"

text \<open>How many of the events are attempts of a loop.\<close>

definition attempts :: "(ctl_event \<Rightarrow> bool) \<Rightarrow> ctl_log \<Rightarrow> nat" where
  "attempts marks new = length (filter marks new)"

lemma attempts_simps [simp]:
  "attempts marks [] = 0" "attempts marks (e # new) = (if marks e then 1 else 0) + attempts marks new"
  "attempts marks (new @ new') = attempts marks new + attempts marks new'"
  by (simp_all add: attempts_def)

lemma attempts_none: "list_all (\<lambda>e. \<not> marks e) new \<Longrightarrow> attempts marks new = 0"
  by (simp add: attempts_def filter_empty_conv list_all_iff)

text \<open>
  A loop that makes at most one attempt in a round and then sleeps, for \<open>gap\<close> seconds or until the
  deadline; a round that begins after the deadline is the last one and makes at most \<open>late\<close> attempts.
  What the loop returns was accepted at some moment of it.
\<close>

definition settles :: "('a res \<times> ctl_log) option \<Rightarrow> ctl_log \<Rightarrow> (ctl_event \<Rightarrow> bool) \<Rightarrow> nat \<Rightarrow> (ctl_log \<Rightarrow> 'a \<Rightarrow> bool) \<Rightarrow> bool" where
  "settles outcome past marks n accepts \<longleftrightarrow> (\<exists>r new. outcome = Some (r, past @ new) \<and> attempts marks new \<le> n
     \<and> (\<forall>y. r = Inr y \<longrightarrow> (\<exists>p. prefix past p \<and> prefix p (past @ new) \<and> accepts p y)))"

lemma settlesI:
  assumes "outcome = Some (r, past @ new)" "attempts marks new \<le> n"
    and "\<And>y. r = Inr y \<Longrightarrow> \<exists>p. prefix past p \<and> prefix p (past @ new) \<and> accepts p y"
  shows "settles outcome past marks n accepts"
  using assms unfolding settles_def by blast

locale polling =
  fixes s :: station and deadline gap :: rat and late :: nat
    and loop :: "'x \<Rightarrow> ctl_log \<Rightarrow> ('a res \<times> ctl_log) option"
    and marks :: "ctl_event \<Rightarrow> bool" and accepts :: "ctl_log \<Rightarrow> 'a \<Rightarrow> bool"
  assumes gap: "0 < gap"
    and last_round: "clock_law s \<Longrightarrow> deadline \<le> st_clock s past \<Longrightarrow> settles (loop x past) past marks late accepts"
    and round: "st_clock s past < deadline \<Longrightarrow> settles (loop x past) past marks 1 accepts
      \<or> (\<exists>x' new d. loop x past = loop x' (past @ new @ [(Sleep d, True)]) \<and> attempts marks new \<le> 1
         \<and> (gap \<le> d \<or> (\<exists>q r. past @ new = q @ r \<and> deadline \<le> st_clock s q + d)))"
    and sleep_unmarked: "\<not> marks (Sleep d, b)"
begin

lemma next_round_later:
  assumes clock: "clock_law s" and slept: "gap \<le> d \<or> (\<exists>q r. past @ new = q @ r \<and> deadline \<le> st_clock s q + d)"
    and ahead: "deadline \<le> st_clock s past + gap * of_nat (Suc n)"
  shows "deadline \<le> st_clock s (past @ new @ [(Sleep d, True)]) + gap * of_nat n"
proof -
  have mono: "st_clock s p \<le> st_clock s (p @ q)" for p q using clock by (simp add: clock_law_def)
  have sleep: "st_clock s (past @ new) + d \<le> st_clock s (past @ new @ [(Sleep d, True)])"
    using clock unfolding clock_law_def by (metis append_assoc)
  have ahead': "deadline \<le> st_clock s past + (gap * of_nat n + gap)" using ahead by (simp add: algebra_simps)
  show ?thesis using slept
  proof
    assume "gap \<le> d"
    then show ?thesis using sleep mono[of past new] ahead' by linarith
  next
    assume "\<exists>q r. past @ new = q @ r \<and> deadline \<le> st_clock s q + d"
    then obtain q r where "past @ new = q @ r" "deadline \<le> st_clock s q + d" by blast
    then have "deadline \<le> st_clock s (past @ new) + d" using mono[of q r] by simp
    moreover have "0 \<le> gap * of_nat n" using gap by simp
    ultimately show ?thesis using sleep by linarith
  qed
qed

lemma settles_later:
  assumes "settles (loop x' (past @ new @ [(Sleep d, True)])) (past @ new @ [(Sleep d, True)]) marks n accepts"
    and "loop x past = loop x' (past @ new @ [(Sleep d, True)])" and "attempts marks new \<le> 1"
  shows "settles (loop x past) past marks (Suc n) accepts"
proof -
  let ?mid = "past @ new @ [(Sleep d, True)]"
  obtain r rest where rest: "loop x past = Some (r, ?mid @ rest)" "attempts marks rest \<le> n"
    "\<forall>y. r = Inr y \<longrightarrow> (\<exists>p. prefix ?mid p \<and> prefix p (?mid @ rest) \<and> accepts p y)"
    using assms(1,2) unfolding settles_def by auto
  have "attempts marks (new @ [(Sleep d, True)] @ rest) \<le> Suc n"
    using assms(3) rest(2) by (simp add: sleep_unmarked)
  moreover have "\<exists>p. prefix past p \<and> prefix p (past @ new @ [(Sleep d, True)] @ rest) \<and> accepts p y"
    if accepted: "r = Inr y" for y
  proof -
    obtain p where "prefix ?mid p" "prefix p (?mid @ rest)" "accepts p y" using rest(3) accepted by blast
    then show ?thesis using append_prefixD by (intro exI[of _ p]) auto
  qed
  ultimately show ?thesis
    unfolding settles_def using rest(1) by (intro exI[of _ r] exI[of _ "new @ [(Sleep d, True)] @ rest"]) simp
qed

lemma settles_mono: "settles outcome past marks m accepts \<Longrightarrow> m \<le> n \<Longrightarrow> settles outcome past marks n accepts"
  unfolding settles_def by (blast intro: le_trans)

lemma loop_settles:
  assumes clock: "clock_law s" and "deadline \<le> st_clock s past + gap * of_nat n"
  shows "settles (loop x past) past marks (n + late) accepts"
  using assms(2)
proof (induction n arbitrary: x past)
  case 0
  then show ?case using last_round[OF clock, of past x] by simp
next
  case (Suc n)
  show ?case
  proof (cases "st_clock s past < deadline")
    case False
    then show ?thesis using settles_mono[OF last_round[OF clock, of past x]] by simp
  next
    case True
    then consider "settles (loop x past) past marks 1 accepts"
      | x' new d where "loop x past = loop x' (past @ new @ [(Sleep d, True)])" "attempts marks new \<le> 1"
        "gap \<le> d \<or> (\<exists>q r. past @ new = q @ r \<and> deadline \<le> st_clock s q + d)"
      using round[of past x] by blast
    then show ?thesis
    proof cases
      case 1
      then show ?thesis by (rule settles_mono) simp
    next
      case 2
      show ?thesis
        using settles_later[OF Suc.IH[OF next_round_later[OF clock 2(3) Suc.prems]] 2(1,2)] by simp
    qed
  qed
qed

end

text \<open>The number of rounds that a timeout allows.\<close>

definition rounds :: "int \<Rightarrow> rat \<Rightarrow> nat" where
  "rounds T gap = nat \<lceil>of_int T / gap\<rceil>"

lemma rounds_enough:
  assumes "clock_law s" "0 < gap"
  shows "st_clock s past + of_int T \<le> st_clock s (past @ new) + gap * of_nat (rounds T gap)"
proof -
  have "of_int T / gap \<le> of_int \<lceil>of_int T / gap\<rceil>" by simp
  also have "\<dots> \<le> of_nat (rounds T gap)" by (simp add: rounds_def)
  finally have "of_int T \<le> gap * of_nat (rounds T gap)" using assms(2) by (simp add: field_simps)
  moreover have "st_clock s past \<le> st_clock s (past @ new)" using assms(1) by (simp add: clock_law_def)
  ultimately show ?thesis by linarith
qed

end
