(* ===== verification/Tgctl_Config.thy ===== *)
theory Tgctl_Config
  imports Connectors Credentials Station
begin

text \<open>
  The configuration of an instance in \<open>scripts/tgctl.py\<close>: the questions of \<open>configure\<close>, the four
  runtime files that it writes, and \<open>load_and_validate\<close>, which reads them back before every start.
\<close>

section \<open>Constants\<close>

definition RUNTIME_FILES :: "(string \<times> nat) list" where
  "RUNTIME_FILES = [(''.env'', 384), (''inventory/connectors.json'', 416), (''inventory/upstreams.jsonl'', 416),
     (''secrets/proxy-credentials.json'', 416)]"

definition PROTOCOLS :: "string list" where
  "PROTOCOLS = [''http'', ''https'', ''socks4'', ''socks5'']"

section \<open>The environment file\<close>

type_synonym env = "(string \<times> string) list"

datatype env_line = Comment nat | Value string

type_synonym env_text = "env \<times> env_line list \<times> string list"

definition env_comment :: "string \<Rightarrow> bool" where
  "env_comment line \<longleftrightarrow> line = [] \<or> starts_with ''#'' line"

fun example_lines :: "string list \<Rightarrow> env_text \<Rightarrow> env_text res" where
  "example_lines [] t = Inr t"
| "example_lines (line # ls) (vals, order, comments) =
     (if env_comment line then
        example_lines ls (vals, order @ [Comment (length comments)], comments @ [line])
      else case split1 CHR ''='' line of
        None \<Rightarrow> Inl (UserError ''invalid .env.example'')
      | Some (key, v) \<Rightarrow> example_lines ls (AList.update key v vals, order @ [Value key], comments))"

definition read_example_env :: "station \<Rightarrow> env_text ctl" where
  "read_example_env s =
     io_bind (read_text s (at_root s ''.env.example'')) (\<lambda>t. io_lift (example_lines (splitlines t) ([], [], [])))"

fun env_line_text :: "env \<Rightarrow> string list \<Rightarrow> env_line \<Rightarrow> string res" where
  "env_line_text vals comments (Comment i) = (if i < length comments then Inr (comments ! i) else Inl IndexError)"
| "env_line_text vals comments (Value k) =
     rbind (of_option KeyError (map_of vals k)) (\<lambda>v. Inr (k @ ''='' @ v))"

definition render_env :: "env_text \<Rightarrow> string res" where
  "render_env = (\<lambda>(vals, order, comments).
     rbind (rmap (env_line_text vals comments) order) (\<lambda>lines. Inr (join [LF] lines @ [LF])))"

definition env_key :: "string \<Rightarrow> bool" where
  "env_key k \<longleftrightarrow> k \<noteq> [] \<and> is_upper (hd k) \<and> list_all (\<lambda>c. is_upper c \<or> is_digit c \<or> c = CHR ''_'') (tl k)"

definition quote_chars :: "char list" where
  "quote_chars = [CHR ''$'', CHR 0x5C, CHR 0x22, CHR 0x27, CHR 0x60, CR]"

fun env_lines :: "nat \<Rightarrow> string list \<Rightarrow> env \<Rightarrow> env res" where
  "env_lines n [] vals = Inr vals"
| "env_lines n (line # ls) vals =
     (if env_comment line then env_lines (Suc n) ls vals
      else case split1 CHR ''='' line of
        None \<Rightarrow> Inl (UserError (''invalid .env line '' @ dec n))
      | Some (key, v) \<Rightarrow>
          if \<not> env_key key \<or> map_of vals key \<noteq> None then
            Inl (UserError (''invalid or duplicate .env key on line '' @ dec n))
          else if list_ex (\<lambda>c. c \<in> set quote_chars) v then
            Inl (UserError (''.env values must be literal and unquoted (line '' @ dec n @ '')''))
          else env_lines (Suc n) ls (AList.update key v vals))"

definition parse_env_text :: "string \<Rightarrow> env res" where
  "parse_env_text t = env_lines 1 (splitlines t) []"

definition parse_env :: "station \<Rightarrow> string \<Rightarrow> env ctl" where
  "parse_env s path = io_bind (read_text s path) (\<lambda>t. io_lift (parse_env_text t))"

section \<open>Networks and URLs\<close>

text \<open>\<open>IPv4Network(text, strict=True)\<close>: a prefix length, a netmask or a host mask.\<close>

definition prefix_of_mask :: "nat \<Rightarrow> nat option" where
  "prefix_of_mask n =
     (case find (\<lambda>p. n = 2 ^ 32 - 2 ^ (32 - p)) [0..<33] of
        Some p \<Rightarrow> Some p
      | None \<Rightarrow> find (\<lambda>p. n = 2 ^ (32 - p) - 1) [0..<33])"

definition prefix_of_text :: "string \<Rightarrow> nat option" where
  "prefix_of_text t =
     (if t \<noteq> [] \<and> list_all is_digit t then
        (if digits_val 10 t \<le> 32 then Some (digits_val 10 t) else None)
      else Option.bind (ipv4_of_string t) prefix_of_mask)"

definition ipv4_network :: "string \<Rightarrow> (nat \<times> nat) res" where
  "ipv4_network t =
     of_option (ValueError ''not an IPv4 network'')
       (case split_on CHR ''/'' t of
          [a] \<Rightarrow> map_option (\<lambda>n. (n, 32)) (ipv4_of_string a)
        | [a, m] \<Rightarrow>
            Option.bind (ipv4_of_string a) (\<lambda>n. Option.bind (prefix_of_text m) (\<lambda>p.
              if mask_low (32 - p) n = n then Some (n, p) else None))
        | _ \<Rightarrow> None)"

definition ipv4_network_str :: "nat \<times> nat \<Rightarrow> string" where
  "ipv4_network_str = (\<lambda>(n, p). ipv4_str n @ ''/'' @ dec p)"

definition validate_echo_url :: "string \<Rightarrow> unit res" where
  "validate_echo_url v =
     rbind (urlsplit v) (\<lambda>parsed.
     rbind (ensure (u_scheme parsed \<in> {''http'', ''https''} \<and> u_hostname parsed \<noteq> [])
       (UserError ''echo URL must use HTTP or HTTPS'')) (\<lambda>_.
     ensure (u_username parsed = [] \<and> u_password parsed = [] \<and> u_query parsed = [] \<and> u_fragment parsed = [])
       (UserError ''echo URL cannot contain credentials, query, or fragment'')))"

section \<open>Commands of Compose\<close>

text \<open>The words of a command, of which the project name may be any value of \<open>images.json\<close>.\<close>

definition compose_command :: "station \<Rightarrow> string list \<Rightarrow> json list ctl" where
  "compose_command s arguments =
     (let images = at_root s ''runtime/update/images.json'' in
      io_bind (exists_file s images) (\<lambda>pinned.
      if \<not> pinned then io_return (map JStr ([''docker'', ''compose''] @ arguments))
      else io_bind (read_text s images) (\<lambda>t.
        io_bind (io_lift (rbind (json_loads (st_json s t)) (\<lambda>v. subscript v ''name''))) (\<lambda>project.
        io_return (map JStr [''docker'', ''compose'', ''--project-name''] @ [project]
          @ map JStr ([''-f'', at_root s ''docker-compose.yml'', ''-f'', images] @ arguments))))))"

text \<open>\<open>run\<close> prints every word with \<open>str\<close>; a plain \<open>subprocess.run\<close> takes only texts.\<close>

definition run_compose :: "pyrt \<Rightarrow> station \<Rightarrow> string list \<Rightarrow> (int \<times> string) ctl" where
  "run_compose rt s arguments =
     io_bind (compose_command s arguments) (\<lambda>ws. spawn s (map (py_str rt) ws))"

definition spawn_compose :: "station \<Rightarrow> string list \<Rightarrow> (int \<times> string) ctl" where
  "spawn_compose s arguments =
     io_bind (compose_command s arguments) (\<lambda>ws. io_bind (io_lift (rmap text_of ws)) (spawn s))"

section \<open>The first configuration\<close>

definition require_root :: "station \<Rightarrow> unit ctl" where
  "require_root s = io_ensure (st_euid s = 0) (UserError ''run this command with sudo'')"

text \<open>The answer, or the default; \<open>None\<close> for an empty answer without a default.\<close>

definition prompt :: "station \<Rightarrow> string \<Rightarrow> string option \<Rightarrow> string option ctl" where
  "prompt s label def =
     io_bind (ask s (label @ (case def of None \<Rightarrow> [] | Some d \<Rightarrow> '' ['' @ d @ '']'') @ '': '')) (\<lambda>answer.
     io_return (if strip answer = [] then def else Some (strip answer)))"

definition yes_no :: "station \<Rightarrow> string \<Rightarrow> bool ctl" where
  "yes_no s label =
     io_bind (ask s (label @ '' [y/N]: '')) (\<lambda>answer.
     let v = lower (strip answer) in
     if v = [] then io_return False
     else io_bind (io_ensure (v \<in> {''y'', ''yes'', ''n'', ''no''}) (UserError ''answer yes or no'')) (\<lambda>_.
       io_return (v \<in> {''y'', ''yes''})))"

definition write_runtime :: "station \<Rightarrow> string \<Rightarrow> string \<Rightarrow> nat \<Rightarrow> unit ctl" where
  "write_runtime s name content mode =
     (let path = at_root s name in
      io_bind (mkdir_parent s path) (\<lambda>_.
      io_bind (file_op s ''write'' path content) (\<lambda>_.
      io_bind (file_op s ''chmod'' path (dec mode)) (\<lambda>_.
      file_op s ''chown'' path (if name = ''.env'' then ''0:0'' else ''0:65532'')))))"

definition default_network :: string where
  "default_network = ''192.168.91.0/24''"

definition ask_network :: "station \<Rightarrow> (nat \<times> nat) ctl" where
  "ask_network s =
     io_bind (prompt s ''Client IPv4 subnet routed through this gateway'' (Some default_network)) (\<lambda>cidr.
     io_bind (io_lift (catch (ipv4_network (the cidr)) is_ValueError
       (\<lambda>_. Inl (UserError ''client subnet must be an IPv4 network such as 192.168.91.0/24'')))) (\<lambda>network.
     io_bind (io_ensure (snd network \<noteq> 0) (UserError ''CLIENT_CIDR cannot be 0.0.0.0/0'')) (\<lambda>_.
     io_return network)))"

definition ask_proxy :: "station \<Rightarrow> (string \<times> string \<times> int) ctl" where
  "ask_proxy s =
     io_bind (prompt s ''Protocol specified by your proxy provider (http, https, socks4, socks5)'' (Some ''http'')) (\<lambda>answer.
     let protocol = lower (the answer) in
     io_bind (io_ensure (protocol \<in> set PROTOCOLS) (UserError ''unsupported proxy protocol'')) (\<lambda>_.
     io_bind (prompt s ''Authorised upstream proxy host or IP'' None) (\<lambda>host.
     io_bind (io_ensure (host \<noteq> None \<and> \<not> list_ex is_space (the host)) (UserError ''proxy host is empty or invalid'')) (\<lambda>_.
     io_bind (prompt s ''Proxy port'' (Some ''3128'')) (\<lambda>answer.
     io_bind (io_lift (of_option (UserError ''proxy port must be a number'') (py_int (the answer)))) (\<lambda>port.
     io_bind (io_ensure (1 \<le> port \<and> port \<le> 65535) (UserError ''proxy port must be between 1 and 65535'')) (\<lambda>_.
     io_return (protocol, the host, port))))))))"

definition ask_credentials :: "station \<Rightarrow> (string \<times> string) option ctl" where
  "ask_credentials s =
     io_bind (yes_no s ''Does the proxy require a username and password?'') (\<lambda>needed.
     if \<not> needed then io_return None
     else
       io_bind (prompt s ''Proxy username'' None) (\<lambda>username.
       io_bind (ask s ''Proxy password: '') (\<lambda>password.
       io_bind (io_ensure (username \<noteq> None \<and> password \<noteq> []) (UserError ''proxy username and password cannot be empty'')) (\<lambda>_.
       io_return (Some (the username, password))))))"

definition quickstart_candidate :: "string \<Rightarrow> string \<Rightarrow> int \<Rightarrow> bool \<Rightarrow> json" where
  "quickstart_candidate protocol host port authenticated =
     JObj ([(''host'', JStr host), (''port'', JInt port), (''protocol'', JStr protocol), (''source'', JStr ''quickstart'')]
       @ (if authenticated then [(''credential_ref'', JStr ''quickstart-proxy'')] else []))"

definition quickstart_credentials :: "(string \<times> string) option \<Rightarrow> json" where
  "quickstart_credentials login =
     JObj (case login of None \<Rightarrow> [] | Some (username, password) \<Rightarrow>
       [(''quickstart-proxy'', JObj [(''username'', JStr username), (''password'', JStr password)])])"

definition quickstart_connectors :: json where
  "quickstart_connectors =
     JObj [(''allowed_connector_types'', JArr [JStr ''jsonl_inventory'']),
       (''active_connectors'', JArr [JObj [(''type'', JStr ''jsonl_inventory''), (''name'', JStr ''quickstart''),
          (''path'', JStr ''/inventory/upstreams.jsonl'')]])]"

definition quickstart_values :: "nat \<times> nat \<Rightarrow> string \<Rightarrow> env" where
  "quickstart_values network echo_url =
     [(''CLIENT_CIDR'', ipv4_network_str network), (''POOL_SIZE'', ''1''), (''RESERVE_SIZE'', ''10''),
      (''VALIDATION_CONCURRENCY'', ''4''), (''VALIDATION_INTERVAL_SECONDS'', ''60''), (''ANONYMITY_CHECK_URL'', echo_url),
      (''FETCH_INTERVAL_SECONDS'', ''60''), (''RANK_INTERVAL_SECONDS'', ''15'')]"

text \<open>\<open>values.update(...)\<close>.\<close>

definition update_env :: "env \<Rightarrow> env \<Rightarrow> env" where
  "update_env vals new = fold (\<lambda>(k, v). AList.update k v) new vals"

definition configure :: "station \<Rightarrow> unit ctl" where
  "configure s =
     io_bind (require_root s) (\<lambda>_.
     io_bind (observe (\<lambda>past. Inr (list_ex (\<lambda>(name, _). st_exists s past (at_root s name)) RUNTIME_FILES))) (\<lambda>existing.
     io_bind (io_ensure (\<not> existing)
       (UserError ''runtime files already exist; remove them explicitly before reconfiguring'')) (\<lambda>_.
     io_bind (ask_network s) (\<lambda>network.
     io_bind (ask_proxy s) (\<lambda>(protocol, host, port).
     io_bind (ask_credentials s) (\<lambda>login.
     io_bind (prompt s ''Validation echo URL (press Enter to use the public first-run service)'' (Some ''https://echo.devdays.net.ua/'')) (\<lambda>echo_url.
     io_bind (io_lift (validate_echo_url (the echo_url))) (\<lambda>_.
     io_bind (read_example_env s) (\<lambda>(vals, order, comments).
     let vals = update_env vals (quickstart_values network (the echo_url)) in
     io_bind (io_lift (render_env (vals, order, comments))) (\<lambda>content.
     io_bind (write_runtime s ''.env'' content 384) (\<lambda>_.
     io_bind (write_runtime s ''inventory/connectors.json'' (st_dumps s quickstart_connectors @ [LF]) 416) (\<lambda>_.
     io_bind (write_runtime s ''inventory/upstreams.jsonl''
       (st_compact s (quickstart_candidate protocol host port (login \<noteq> None)) @ [LF]) 416) (\<lambda>_.
     io_bind (write_runtime s ''secrets/proxy-credentials.json'' (st_dumps s (quickstart_credentials login) @ [LF]) 416) (\<lambda>_.
     io_bind (file_op s ''mkdir'' (at_root s ''provider-secrets'') []) (\<lambda>_.
     io_bind (print s ''CONFIGURE PASS'') (\<lambda>_.
     print s ''Run: sudo python3 scripts/tgctl.py check''))))))))))))))))"

section \<open>Checking the configuration\<close>

definition octal :: "nat \<Rightarrow> string" where
  "octal m = dec (m div 64) @ dec (m div 8 mod 8) @ dec (m mod 8)"

definition check_permission :: "station \<Rightarrow> string \<times> nat \<Rightarrow> unit ctl" where
  "check_permission s = (\<lambda>(name, mode).
     io_bind (exists_file s (at_root s name)) (\<lambda>there.
     io_bind (io_ensure there
       (UserError (''missing runtime file: '' @ name @ ''; run sudo python3 scripts/tgctl.py configure''))) (\<lambda>_.
     io_bind (observe (\<lambda>past. st_lstat s past (at_root s name))) (\<lambda>info.
     io_bind (io_ensure (fi_regular info) (UserError (''runtime path is not a regular file: '' @ name))) (\<lambda>_.
     io_bind (io_ensure (fi_uid info = 0 \<and> fi_mode info = mode)
       (UserError (''unsafe owner or permissions for '' @ name @ ''; expected root and '' @ octal mode))) (\<lambda>_.
     io_ensure (mode \<noteq> 416 \<or> fi_gid info = 65532) (UserError (''wrong group for '' @ name @ ''; expected GID 65532''))))))))"

definition validate_permissions :: "station \<Rightarrow> unit ctl" where
  "validate_permissions s = io_bind (for_each (check_permission s) RUNTIME_FILES) (\<lambda>_. io_return ())"

definition REQUIRED :: "string list" where
  "REQUIRED = [''ANONYMITY_CHECK_URL'', ''CLIENT_CIDR'', ''DNS_DEFAULT_RESOLVER_IPS'', ''DNS_DOH_IP'',
     ''DNS_DOH_SERVER_NAME'', ''GATEWAY_REDIS_URL'', ''POOL_SIZE'', ''RESERVE_SIZE'', ''VALIDATOR_REDIS_URL'']"

definition env_value :: "env \<Rightarrow> string \<Rightarrow> string" where
  "env_value vals k = the (map_of vals k)"

definition check_sizes :: "env \<Rightarrow> unit res" where
  "check_sizes vals =
     (case (py_int (env_value vals ''POOL_SIZE''), py_int (env_value vals ''RESERVE_SIZE'')) of
        (Some pool, Some reserve) \<Rightarrow>
          ensure (1 \<le> pool \<and> pool \<le> reserve) (UserError ''POOL_SIZE and RESERVE_SIZE are invalid'')
      | _ \<Rightarrow> Inl (UserError ''POOL_SIZE and RESERVE_SIZE are invalid''))"

definition check_values :: "env \<Rightarrow> unit res" where
  "check_values vals =
     (let missing = filter (\<lambda>k. map_of vals k = None) REQUIRED in
      rbind (ensure (missing = []) (UserError (''missing .env values: '' @ join '', '' missing))) (\<lambda>_.
      rbind (catch (ipv4_network (env_value vals ''CLIENT_CIDR'')) is_ValueError
        (\<lambda>_. Inl (UserError ''CLIENT_CIDR must be a canonical IPv4 network''))) (\<lambda>client.
      rbind (ensure (snd client \<noteq> 0) (UserError ''CLIENT_CIDR cannot be 0.0.0.0/0'')) (\<lambda>_.
      rbind (validate_echo_url (env_value vals ''ANONYMITY_CHECK_URL'')) (\<lambda>_.
      rbind (ensure (env_value vals ''VALIDATOR_REDIS_URL'' = ''redis://redis:6379/0''
          \<and> env_value vals ''GATEWAY_REDIS_URL'' = ''redis://127.0.0.1:6379/0'')
        (UserError ''quickstart requires the included local Redis'')) (\<lambda>_.
      check_sizes vals))))))"

definition check_secret :: "string \<times> json \<Rightarrow> unit res" where
  "check_secret = (\<lambda>(reference, secret).
     (case secret of
        JObj m \<Rightarrow>
          rbind (ensure (reference \<noteq> [] \<and> is_JStr (get m ''username'') \<and> is_JStr (get m ''password''))
            (UserError ''credential store contains an invalid entry'')) (\<lambda>_.
          ensure (get m ''username'' \<noteq> JStr ''replace-me'' \<and> get m ''password'' \<noteq> JStr ''replace-me'')
            (UserError ''replace example proxy credentials before continuing''))
      | _ \<Rightarrow> Inl (UserError ''credential store contains an invalid entry'')))"

definition check_credentials :: "json \<Rightarrow> dict res" where
  "check_credentials v =
     rbind (of_option (UserError ''credential store must be a JSON object'') (as_dict v)) (\<lambda>credentials.
     rbind (rmap check_secret credentials) (\<lambda>_. Inr credentials))"

definition check_connectors :: "json \<Rightarrow> unit res" where
  "check_connectors connectors =
     rbind (attr_get connectors ''allowed_connector_types'') (\<lambda>allowed.
     rbind (attr_get connectors ''active_connectors'') (\<lambda>active.
     if \<not> py_eq allowed (JArr [JStr ''jsonl_inventory'']) then Inl (UserError ''quickstart requires one active jsonl_inventory connector'')
     else case active of
       JArr [connector] \<Rightarrow>
         rbind (attr_get connector ''type'') (\<lambda>kind. rbind (attr_get connector ''path'') (\<lambda>path.
         ensure (kind = JStr ''jsonl_inventory'' \<and> path = JStr ''/inventory/upstreams.jsonl'')
           (UserError ''inventory connector path or type is invalid'')))
     | _ \<Rightarrow> Inl (UserError ''quickstart requires one active jsonl_inventory connector'')))"

text \<open>\<open>x in v\<close> for a text \<open>x\<close>.\<close>

fun text_in :: "string \<Rightarrow> json \<Rightarrow> bool res" where
  "text_in x (JObj m) = Inr (map_of m x \<noteq> None)"
| "text_in x (JArr vs) = Inr (JStr x \<in> set vs)"
| "text_in x (JStr s) = Inr (contains x s)"
| "text_in x _ = Inl TypeError"

definition integer_of :: "json \<Rightarrow> int option" where
  "integer_of v = (case v of JInt i \<Rightarrow> Some i | JBool b \<Rightarrow> Some (if b then 1 else 0) | _ \<Rightarrow> None)"

definition check_candidate :: "nat \<Rightarrow> dict \<Rightarrow> json \<Rightarrow> dict res" where
  "check_candidate number credentials v =
     (let line = ''inventory line '' @ dec number in
      rbind (text_in ''endpoint'' v) (\<lambda>legacy.
      rbind (ensure (\<not> legacy) (UserError (line @ '' uses legacy endpoint; use separate host and port fields''))) (\<lambda>_.
      rbind (dict_attr v) (\<lambda>candidate.
      rbind (if \<not> truthy (get candidate ''host'') then Inr True
             else text_in ''.internal.example'' (get candidate ''host'')) (\<lambda>example.
      rbind (ensure (\<not> example) (UserError (line @ '' still contains an example proxy host''))) (\<lambda>_.
      rbind (ensure (case integer_of (get candidate ''port'') of Some p \<Rightarrow> 1 \<le> p \<and> p \<le> 65535 | None \<Rightarrow> False)
        (UserError (line @ '' has an invalid port''))) (\<lambda>_.
      rbind (ensure (hashable (get candidate ''protocol'')) TypeError) (\<lambda>_.
      rbind (ensure (get candidate ''protocol'' \<in> set (map JStr PROTOCOLS))
        (UserError (line @ '' has an unsupported protocol''))) (\<lambda>_.
      let reference = get candidate ''credential_ref'' in
      rbind (if \<not> truthy reference then Inr ()
             else rbind (ensure (hashable reference) TypeError) (\<lambda>_.
               ensure (case reference of JStr r \<Rightarrow> map_of credentials r \<noteq> None | _ \<Rightarrow> False)
                 (UserError (line @ '' refers to missing credentials'')))) (\<lambda>_.
      Inr candidate))))))))))"

fun check_inventory :: "station \<Rightarrow> dict \<Rightarrow> nat \<Rightarrow> string list \<Rightarrow> dict list res" where
  "check_inventory s credentials n [] = Inr []"
| "check_inventory s credentials n (line # ls) =
     (if env_comment line then check_inventory s credentials (Suc n) ls
      else rbind (json_loads (st_json s line)) (\<lambda>v.
        rbind (check_candidate n credentials v) (\<lambda>c.
        rbind (check_inventory s credentials (Suc n) ls) (\<lambda>cs. Inr (c # cs)))))"

definition load_and_validate :: "pyrt \<Rightarrow> station \<Rightarrow> (env \<times> dict list \<times> dict) ctl" where
  "load_and_validate rt s =
     io_bind (validate_permissions s) (\<lambda>_.
     io_bind (parse_env s (at_root s ''.env'')) (\<lambda>vals.
     io_bind (io_lift (check_values vals)) (\<lambda>_.
     io_bind (read_text s (at_root s ''secrets/proxy-credentials.json'')) (\<lambda>t.
     io_bind (io_lift (rbind (json_loads (st_json s t)) check_credentials)) (\<lambda>credentials.
     io_bind (read_text s (at_root s ''inventory/connectors.json'')) (\<lambda>t.
     io_bind (io_lift (rbind (json_loads (st_json s t)) check_connectors)) (\<lambda>_.
     io_bind (read_text s (at_root s ''inventory/upstreams.jsonl'')) (\<lambda>t.
     io_bind (io_lift (check_inventory s credentials 1 (splitlines t))) (\<lambda>candidates.
     io_bind (io_ensure (candidates \<noteq> []) (UserError ''proxy inventory is empty'')) (\<lambda>_.
     io_bind (run_compose rt s [''config'', ''--quiet'']) (\<lambda>(code, _).
     io_bind (io_ensure (code = 0) (UserError ''docker compose rejected the configuration'')) (\<lambda>_.
     io_return (vals, candidates, credentials)))))))))))))"

definition check :: "pyrt \<Rightarrow> station \<Rightarrow> unit ctl" where
  "check rt s =
     io_bind (require_root s) (\<lambda>_.
     io_bind (load_and_validate rt s) (\<lambda>(_, candidates, credentials).
     io_bind (print s ''CONFIG_CHECK PASS'') (\<lambda>_.
     io_bind (print s ''connectors=1'') (\<lambda>_.
     io_bind (print s (''candidates='' @ dec (length candidates))) (\<lambda>_.
     io_bind (print s (''credential_sets='' @ dec (length credentials))) (\<lambda>_.
     print s ''compose=valid''))))))"

section \<open>The environment file is read back\<close>

definition line_plain :: "string \<Rightarrow> bool" where
  "line_plain t \<longleftrightarrow> list_all (\<lambda>c. \<not> is_break c) t"

lemma splitlines_aux_plain: "line_plain t \<Longrightarrow> splitlines_aux cur (t @ LF # r) = (rev cur @ t) # splitlines_aux [] r"
proof (induction t arbitrary: cur)
  case Nil
  show ?case by (simp add: LF_def CR_def is_break_def)
next
  case (Cons c t)
  have "\<not> is_break c" "c \<noteq> CR" using Cons.prems by (auto simp: line_plain_def is_break_def CR_def)
  moreover have "line_plain t" using Cons.prems by (simp add: line_plain_def)
  ultimately show ?case using Cons.IH[of "c # cur"] by simp
qed

lemma splitlines_lines:
  assumes "ls \<noteq> []" "list_all line_plain ls"
  shows "splitlines (join [LF] ls @ [LF]) = ls"
  using assms
proof (induction "[LF]" ls rule: join.induct)
  case (2 x)
  then show ?case using splitlines_aux_plain[of x "[]" "[]"] by (simp add: splitlines_def)
next
  case (3 x y ys)
  then show ?case using splitlines_aux_plain[of x "[]" "join [LF] (y # ys) @ [LF]"] by (simp add: splitlines_def)
qed simp

text \<open>
  A text that \<open>parse_env\<close> accepts: comments are comments, the keys are distinct names, the values
  literal, and nothing contains a line break.
\<close>

definition env_entry_ok :: "env \<Rightarrow> string list \<Rightarrow> env_line \<Rightarrow> bool" where
  "env_entry_ok vals comments l =
     (case l of
        Comment i \<Rightarrow> i < length comments \<and> env_comment (comments ! i) \<and> line_plain (comments ! i)
      | Value k \<Rightarrow> env_key k \<and> (case map_of vals k of None \<Rightarrow> False
          | Some v \<Rightarrow> line_plain v \<and> \<not> list_ex (\<lambda>c. c \<in> set quote_chars) v))"

fun order_keys :: "env_line list \<Rightarrow> string list" where
  "order_keys [] = []"
| "order_keys (Comment i # ls) = order_keys ls"
| "order_keys (Value k # ls) = k # order_keys ls"

definition env_text_ok :: "env_text \<Rightarrow> bool" where
  "env_text_ok = (\<lambda>(vals, order, comments).
     list_all (env_entry_ok vals comments) order \<and> distinct (order_keys order))"

definition ordered_env :: "env \<Rightarrow> env_line list \<Rightarrow> env" where
  "ordered_env vals order = map (\<lambda>k. (k, env_value vals k)) (order_keys order)"

lemma env_key_chars:
  assumes "env_key k"
  shows "CHR ''='' \<notin> set k" "line_plain k" "\<not> env_comment (k @ t)"
proof -
  obtain c k' where k: "k = c # k'" "is_upper c" "list_all (\<lambda>c. is_upper c \<or> is_digit c \<or> c = CHR ''_'') k'"
    using assms by (cases k) (auto simp: env_key_def)
  have "d \<noteq> CHR ''='' \<and> \<not> is_break d" if "d \<in> set k" for d
    using that k by (auto simp: list_all_iff is_upper_def is_digit_def is_break_def Let_def)
  then show "CHR ''='' \<notin> set k" "line_plain k"
    by (auto simp: line_plain_def list_all_iff)
  show "\<not> env_comment (k @ t)" using k by (auto simp: env_comment_def is_upper_def)
qed

lemma env_line_text_ok:
  assumes "env_entry_ok vals comments l"
  shows "\<exists>t. env_line_text vals comments l = Inr t \<and> line_plain t"
  using assms env_key_chars(2)
  by (cases l) (auto simp: env_entry_ok_def line_plain_def is_break_def split: option.splits)

lemma env_lines_step:
  assumes "env_entry_ok vals comments l" "env_line_text vals comments l = Inr t"
    and "\<forall>k \<in> set (order_keys [l]). map_of parsed k = None"
  shows "env_lines n (t # ls) parsed = env_lines (Suc n) ls (parsed @ ordered_env vals [l])"
proof (cases l)
  case (Comment i)
  then show ?thesis using assms(1,2) by (simp add: env_entry_ok_def ordered_env_def)
next
  case (Value k)
  then obtain v where v: "map_of vals k = Some v" "\<not> list_ex (\<lambda>c. c \<in> set quote_chars) v" and key: "env_key k"
    using assms(1) by (auto simp: env_entry_ok_def split: option.splits)
  have t: "t = k @ CHR ''='' # v" using assms(2) Value v(1) by simp
  have new: "map_of parsed k = None" using assms(3) Value by simp
  then have "AList.update k v parsed = parsed @ [(k, v)]"
    by (induction parsed) (auto split: if_splits)
  then show ?thesis
    using Value v key new env_key_chars(3)[OF key] split1_append[OF env_key_chars(1)[OF key], of v]
    by (simp add: t ordered_env_def env_value_def)
qed

lemma env_lines_order:
  assumes "list_all (env_entry_ok vals comments) order" "distinct (order_keys order)"
    and "rmap (env_line_text vals comments) order = Inr ls"
    and "\<forall>k \<in> set (order_keys order). map_of parsed k = None"
  shows "env_lines n ls parsed = Inr (parsed @ ordered_env vals order)"
  using assms
proof (induction order arbitrary: ls n parsed)
  case Nil
  then show ?case by (simp add: ordered_env_def)
next
  case (Cons l order)
  obtain t ts where t: "env_line_text vals comments l = Inr t" and ts: "rmap (env_line_text vals comments) order = Inr ts"
    and ls: "ls = t # ts"
    using Cons.prems(3) by (auto simp: res_simps)
  have keys: "order_keys (l # order) = order_keys [l] @ order_keys order" by (cases l) simp_all
  have split: "ordered_env vals (l # order) = ordered_env vals [l] @ ordered_env vals order"
    by (simp add: ordered_env_def keys)
  have fresh: "\<forall>k \<in> set (order_keys order). map_of (parsed @ ordered_env vals [l]) k = None"
    using Cons.prems(2,4) by (cases l) (auto simp: ordered_env_def map_add_def)
  have "env_lines n ls parsed = env_lines (Suc n) ts (parsed @ ordered_env vals [l])"
    using env_lines_step[OF _ t] Cons.prems keys by (simp add: ls)
  then show ?case
    using Cons.IH[OF _ _ ts fresh] Cons.prems(1,2) keys split by simp
qed

lemma render_env_parsed:
  assumes "env_text_ok (vals, order, comments)"
  shows "\<exists>t. render_env (vals, order, comments) = Inr t \<and> parse_env_text t = Inr (ordered_env vals order)"
proof -
  have ok: "list_all (env_entry_ok vals comments) order" "distinct (order_keys order)"
    using assms by (simp_all add: env_text_ok_def)
  have "\<exists>ls. rmap (env_line_text vals comments) order = Inr ls \<and> list_all line_plain ls \<and> length ls = length order"
    using ok(1)
  proof (induction order)
    case (Cons l order)
    then show ?case using env_line_text_ok[of vals comments l] by auto
  qed simp
  then obtain ls where ls: "rmap (env_line_text vals comments) order = Inr ls" "list_all line_plain ls"
    "length ls = length order" by blast
  show ?thesis
  proof (cases "order = []")
    case True
    have "parse_env_text [LF] = Inr []" by code_simp
    then show ?thesis using True by (simp add: render_env_def ordered_env_def)
  next
    case False
    then have "ls \<noteq> []" using ls(3) by (cases ls) auto
    then have "splitlines (join [LF] ls @ [LF]) = ls" by (rule splitlines_lines) (rule ls(2))
    then show ?thesis
      using ls(1) env_lines_order[OF ok ls(1), of "[]" 1] by (simp add: render_env_def parse_env_text_def)
  qed
qed

section \<open>The checked inventory\<close>

text \<open>
  Both \<open>tgctl.py\<close> and the connector decode a line with \<open>json.loads\<close>; the connector strips it first.
  A JSON text is not blank, does not begin with \<open>#\<close>, and surrounding blanks do not change its value.
\<close>

definition json_strip :: "(string \<Rightarrow> jtext) \<Rightarrow> bool" where
  "json_strip js \<longleftrightarrow> (\<forall>l v. json_loads (js l) = Inr v \<longrightarrow>
     strip l \<noteq> [] \<and> \<not> starts_with ''#'' (strip l) \<and> json_loads (js (strip l)) = Inr v)"

text \<open>What the connector requires of an entry beyond \<open>check\<close>.\<close>

definition collectable :: "pyrt \<Rightarrow> string \<Rightarrow> dict \<Rightarrow> bool" where
  "collectable rt name c \<longleftrightarrow>
     (case get c ''host'' of JStr h \<Rightarrow> strip h \<noteq> [] \<and> (case normalise_host rt (strip h) of Inr _ \<Rightarrow> True | Inl _ \<Rightarrow> False)
      | _ \<Rightarrow> False)
     \<and> strip (py_str rt (or_else (get c ''source'') (JStr name))) \<noteq> []
     \<and> (case get c ''credential_ref'' of JNull \<Rightarrow> True | JStr r \<Rightarrow> strip r \<noteq> [] | _ \<Rightarrow> False)
     \<and> (case or_else (get c ''metadata'') (JObj []) of JObj m \<Rightarrow> str_map m \<noteq> None | _ \<Rightarrow> False)"

definition collected_from :: "pyrt \<Rightarrow> dict \<Rightarrow> candidate \<Rightarrow> bool" where
  "collected_from rt c d \<longleftrightarrow>
     (case get c ''host'' of JStr h \<Rightarrow> normalise_host rt (strip h) = Inr (c_host d) | _ \<Rightarrow> False)
     \<and> integer_of (get c ''port'') = Some (c_port d) \<and> get c ''protocol'' = JStr (c_protocol d)
     \<and> get c ''credential_ref'' = opt_str (c_credential_ref d)"

lemma check_candidate_Inr:
  assumes "check_candidate n credentials v = Inr c"
  shows "v = JObj c \<and> map_of c ''endpoint'' = None
    \<and> (\<exists>p. integer_of (get c ''port'') = Some p \<and> 1 \<le> p \<and> p \<le> 65535)
    \<and> (\<exists>k \<in> set PROTOCOLS. get c ''protocol'' = JStr k)"
  using assms unfolding check_candidate_def Let_def rbind_eq_Inr
  by (auto simp: res_simps dict_attr_def split: json.splits option.splits)

lemma candidate_collected:
  assumes "map_of c ''endpoint'' = None" "integer_of (get c ''port'') = Some p" "1 \<le> p" "p \<le> 65535"
    and "k \<in> set PROTOCOLS" "get c ''protocol'' = JStr k" and ok: "collectable rt name c"
  shows "\<exists>d. parse_candidate rt c name = Inr d \<and> collected_from rt c d"
proof -
  obtain h where h: "get c ''host'' = JStr h" "strip h \<noteq> []"
    using ok by (auto simp: collectable_def split: json.splits)
  obtain h' where h': "normalise_host rt (strip h) = Inr h'"
    using ok h by (auto simp: collectable_def split: sum.splits)
  have source: "strip (py_str rt (or_else (get c ''source'') (JStr name))) \<noteq> []"
    using ok by (simp add: collectable_def)
  obtain r where r: "get c ''credential_ref'' = opt_str r" "case r of None \<Rightarrow> True | Some t \<Rightarrow> strip t \<noteq> []"
  proof (cases "get c ''credential_ref''")
    case JNull
    then show thesis using that[of None] by (simp add: opt_str_def)
  next
    case (JStr t)
    then show thesis using that[of "Some t"] ok by (auto simp: opt_str_def collectable_def)
  qed (use ok in \<open>auto simp: collectable_def\<close>)
  obtain m m' where m: "or_else (get c ''metadata'') (JObj []) = JObj m" "str_map m = Some m'"
    using ok by (auto simp: collectable_def split: json.splits)
  have port: "get c ''port'' \<noteq> JNull" "int_port (get c ''port'') = Inr p"
    using assms(2) by (auto simp: integer_of_def int_port_def split: json.splits)
  have k: "k \<in> set ALLOWED_PROTOCOLS" "lower (strip k) = k" "k \<noteq> []"
    using assms(5) lower_protocol[of k] by (auto simp: PROTOCOLS_def ALLOWED_PROTOCOLS_def)
  have "get c ''endpoint'' = JNull" using assms(1) by (simp add: get_def get_default_def)
  moreover have "h \<noteq> []" using h(2) by auto
  ultimately have hp: "host_and_port rt c = Inr (strip h, p)"
    using h port by (simp add: host_and_port_def or_else_def)
  have cr: "opt_str r = JNull \<or> strip (py_str rt (opt_str r)) \<noteq> []"
      "(if truthy (opt_str r) then Some (py_str rt (opt_str r)) else None) = r"
    using r(2) by (auto simp: opt_str_def split: option.splits)
  have "parse_candidate rt c name = Inr \<lparr>c_host = h', c_port = p, c_protocol = k,
    c_source = strip (py_str rt (or_else (get c ''source'') (JStr name))), c_credential_ref = r, c_metadata = m'\<rparr>"
    unfolding parse_candidate_def hp rbind_simps prod.case Let_def assms(6) r(1) m(1)
    using source assms(3,4) k cr
    by (simp only: or_else_simps(1) truthy.simps py_str.simps ensure_simps h' rbind_simps json.case m(2) of_option_simps simp_thms)
  then show ?thesis using h(1) h' assms(2,6) r(1) by (simp add: collected_from_def)
qed

lemma strip_comment: "env_comment l \<Longrightarrow> strip l = [] \<or> starts_with ''#'' (strip l)"
  by (cases l) (auto simp: env_comment_def strip_def strip_by_def lstrip_by_def rstrip_by_def is_space_def dropWhile_append3)

lemma inventory_collected:
  assumes js: "json_strip (st_json s)" "w_json w = st_json s" and "check_inventory s credentials n ls = Inr cs"
  shows "jsonl_lines rt w name ls = Inr (concat (map (\<lambda>c. ok_list (parse_candidate rt c name)) cs))"
  using assms(3)
proof (induction ls arbitrary: n cs)
  case (Cons l ls)
  show ?case
  proof (cases "env_comment l")
    case True
    then have "strip l = [] \<or> starts_with ''#'' (strip l)" by (rule strip_comment)
    with True Cons show ?thesis by (simp add: Let_def)
  next
    case False
    then obtain v c cs' where v: "json_loads (st_json s l) = Inr v" "check_candidate n credentials v = Inr c"
      "check_inventory s credentials (Suc n) ls = Inr cs'" "cs = c # cs'"
      using Cons.prems by (auto simp: res_simps)
    then have "strip l \<noteq> []" "\<not> starts_with ''#'' (strip l)" "loads w (strip l) = Inr (JObj c)"
      using js check_candidate_Inr[OF v(2)] by (auto simp: json_strip_def loads_def)
    then have "line_candidates rt w name l = ok_list (parse_candidate rt c name)"
      by (simp add: line_candidates_def jsonl_line_def)
    then show ?thesis using Cons.IH[OF v(3)] by (simp add: jsonl_lines_total v(4))
  qed
qed simp

lemma py_eq_one_text: "py_eq v (JArr [JStr t]) \<longleftrightarrow> v = JArr [JStr t]"
proof -
  have elem: "py_eq x (JStr t) \<longleftrightarrow> x = JStr t" for x by (cases x) auto
  show ?thesis
  proof (cases v)
    case (JArr xs)
    then show ?thesis
    proof (cases xs)
      case (Cons x ys)
      then show ?thesis using JArr elem[of x] by (cases ys) simp_all
    qed simp
  qed simp_all
qed

lemma check_connectors_Inr:
  assumes "check_connectors v = Inr u"
  shows "\<exists>config entry. v = JObj config \<and> get config ''allowed_connector_types'' = JArr [JStr ''jsonl_inventory'']
    \<and> get config ''active_connectors'' = JArr [JObj entry]
    \<and> get entry ''type'' = JStr ''jsonl_inventory'' \<and> get entry ''path'' = JStr ''/inventory/upstreams.jsonl''"
proof (cases v)
  case (JObj config)
  let ?active = "get config ''active_connectors''"
  have run: "py_eq (get config ''allowed_connector_types'') (JArr [JStr ''jsonl_inventory''])"
    "(case ?active of JArr [connector] \<Rightarrow>
         rbind (attr_get connector ''type'') (\<lambda>kind. rbind (attr_get connector ''path'') (\<lambda>path.
         ensure (kind = JStr ''jsonl_inventory'' \<and> path = JStr ''/inventory/upstreams.jsonl'')
           (UserError ''inventory connector path or type is invalid'')))
     | _ \<Rightarrow> Inl (UserError ''quickstart requires one active jsonl_inventory connector'')) = Inr u"
    using assms unfolding check_connectors_def JObj attr_get_def json.case rbind_simps by (simp_all only: split: if_splits) simp_all
  obtain connector where active: "?active = JArr [connector]"
    using run(2) by (cases ?active rule: json.exhaust) (auto split: list.splits)
  obtain entry where "connector = JObj entry"
    using run(2) by (cases connector) (simp_all add: active attr_get_def)
  then show ?thesis
    using run JObj active by (simp add: attr_get_def py_eq_one_text ensure_eq_Inr)
qed (use assms in \<open>simp_all add: check_connectors_def attr_get_def\<close>)

definition INVENTORY :: string where
  "INVENTORY = ''/inventory/upstreams.jsonl''"

lemma checked_connectors_load:
  assumes "w_text w conf = Inr t" "loads w t = Inr v" "check_connectors v = Inr u"
    and "\<And>entry. attr_get v ''active_connectors'' = Inr (JArr [JObj entry]) \<Longrightarrow> truthy (get entry ''name'') \<and> py_str rt (get entry ''name'') = name"
    and "name \<noteq> []"
  shows "load_connectors rt w conf (CONNECTOR_REGISTRY rt) = Inr [JsonlInventoryConnector name INVENTORY]"
proof -
  obtain config entry where v: "v = JObj config" "get config ''allowed_connector_types'' = JArr [JStr ''jsonl_inventory'']"
    "get config ''active_connectors'' = JArr [JObj entry]" "get entry ''type'' = JStr ''jsonl_inventory''"
    "get entry ''path'' = JStr ''/inventory/upstreams.jsonl''"
    using check_connectors_Inr[OF assms(3)] by blast
  have n: "truthy (get entry ''name'')" "py_str rt (get entry ''name'') = name"
    using assms(4)[of entry] v by (auto simp: attr_get_def)
  have reg: "create (CONNECTOR_REGISTRY rt) ''jsonl_inventory'' entry = jsonl_from_config rt entry"
    "types (CONNECTOR_REGISTRY rt) = {''jsonl_inventory'', ''http_json_feed''}"
    by (auto simp: create_def types_def CONNECTOR_REGISTRY_def register_def)
  have "jsonl_from_config rt entry = Inr (JsonlInventoryConnector name INVENTORY)"
    using n assms(5) v by (simp add: jsonl_from_config_def jsonl_init_def or_else_def INVENTORY_def)
  then show ?thesis
    using assms(1,2,5) v n reg by (simp add: load_connectors_def or_else_def)
qed

lemma validate_permissions_silent: "emits (\<lambda>_. False) (validate_permissions s)"
  unfolding validate_permissions_def check_permission_def exists_file_def by (intro emits_intros)

lemma load_and_validate_Inr:
  assumes "load_and_validate rt s past = (Inr (vals, cs, creds), past')"
  obtains t1 t2 t3 t4 v1 v2 u out where
    "st_read s past (at_root s ''.env'') = Inr t1" "parse_env_text t1 = Inr vals" "check_values vals = Inr ()"
    "st_read s past (at_root s ''secrets/proxy-credentials.json'') = Inr t2" "json_loads (st_json s t2) = Inr v1"
    "check_credentials v1 = Inr creds"
    "st_read s past (at_root s ''inventory/connectors.json'') = Inr t3" "json_loads (st_json s t3) = Inr v2"
    "check_connectors v2 = Inr u"
    "st_read s past (at_root s ''inventory/upstreams.jsonl'') = Inr t4"
    "check_inventory s creds 1 (splitlines t4) = Inr cs" "cs \<noteq> []"
    "run_compose rt s [''config'', ''--quiet''] past = (Inr (0, out), past')"
proof -
  show thesis
    using assms unfolding load_and_validate_def
    apply (elim io_bindE)
    apply (drule silent[OF validate_permissions_silent])
    apply (clarsimp simp: parse_env_def read_text_def observe_def io_lift_eq io_simps res_simps split: prod.splits)
    apply (rule that)
    apply assumption+
    apply simp_all
    done
qed

lemma rmap_member: "rmap f xs = Inr ys \<Longrightarrow> x \<in> set xs \<Longrightarrow> \<exists>y \<in> set ys. f x = Inr y"
  by (induction xs arbitrary: ys) (auto simp: res_simps)

lemma check_credentials_lookup:
  assumes "check_credentials v = Inr creds" "map_of creds r = Some secret"
  shows "\<exists>p. lookup_credential creds r = Inr p"
proof -
  have "rmap check_secret creds = Inr (map (\<lambda>_. ()) creds) \<or> (\<exists>us. rmap check_secret creds = Inr us)"
    using assms(1) by (auto simp: check_credentials_def res_simps)
  then obtain us where "rmap check_secret creds = Inr us" by blast
  then obtain u where "check_secret (r, secret) = Inr u"
    using rmap_member[OF _ map_of_SomeD[OF assms(2)]] by blast
  then obtain m where m: "secret = JObj m" "is_JStr (get m ''username'')" "is_JStr (get m ''password'')"
    by (cases secret) (auto simp: check_secret_def res_simps)
  then obtain a b where "get m ''username'' = JStr a" "get m ''password'' = JStr b"
    by (auto elim!: is_JStr.elims)
  moreover have "get creds r = JObj m" using assms(2) m(1) by (simp add: get_def get_default_def)
  ultimately show ?thesis by (simp add: lookup_credential_def)
qed

lemma check_inventory_member:
  "check_inventory s creds n ls = Inr cs \<Longrightarrow> c \<in> set cs \<Longrightarrow> \<exists>n v. check_candidate n creds v = Inr c"
proof (induction ls arbitrary: n cs)
  case (Cons l ls)
  then show ?case
    by (cases "env_comment l") (auto simp: res_simps simp del: ex_simps, blast+)
qed simp

lemma check_candidate_reference:
  assumes "check_candidate n creds v = Inr c" "get c ''credential_ref'' = JStr r" "r \<noteq> []"
  shows "\<exists>secret. map_of creds r = Some secret"
proof -
  have "v = JObj c" using check_candidate_Inr[OF assms(1)] by simp
  moreover have "truthy (get c ''credential_ref'')" using assms(2,3) by simp
  ultimately have "map_of creds r \<noteq> None"
    using assms(1,2) unfolding check_candidate_def Let_def rbind_eq_Inr ensure_eq_Inr dict_attr_def json.case
    by (elim exE conjE) (simp only: if_False not_True_eq_False rbind_eq_Inr ensure_eq_Inr json.case sum.inject simp_thms)
  then show ?thesis by blast
qed

section \<open>Properties\<close>

text \<open>
  C33. What \<open>check\<close> accepts is what the fetcher and the validator use: after an accepted
  \<open>load_and_validate\<close> the loader of the connectors makes exactly the JSON Lines connector of the
  inventory, which yields those of the checked candidates, in order, that \<open>parse_candidate\<close> takes.
  It takes every one whose host, source, credential reference and metadata are well formed, with
  the host, port and protocol that were checked, and the credential store has an entry for it. The
  worker's decoder is the same \<open>json.loads\<close>; the connector is named in the configuration.
\<close>

theorem checked_configuration_collects:
  assumes run: "load_and_validate rt s past = (Inr (vals, cs, creds), past')"
    and js: "json_strip (st_json s)" "w_json w = st_json s"
    and mounted: "w_text w conf = st_read s past (at_root s ''inventory/connectors.json'')"
      "w_text w INVENTORY = st_read s past (at_root s ''inventory/upstreams.jsonl'')"
    and named: "\<forall>t v entry. w_text w conf = Inr t \<longrightarrow> loads w t = Inr v \<longrightarrow>
      attr_get v ''active_connectors'' = Inr (JArr [JObj entry]) \<longrightarrow>
      truthy (get entry ''name'') \<and> py_str rt (get entry ''name'') = name" "name \<noteq> []"
  shows "load_connectors rt w conf (CONNECTOR_REGISTRY rt) = Inr [JsonlInventoryConnector name INVENTORY]
    \<and> collect rt w (JsonlInventoryConnector name INVENTORY)
        = Inr (concat (map (\<lambda>c. ok_list (parse_candidate rt c name)) cs))
    \<and> cs \<noteq> []
    \<and> (\<forall>c \<in> set cs. collectable rt name c \<longrightarrow>
        (\<exists>d. parse_candidate rt c name = Inr d \<and> collected_from rt c d
           \<and> (\<forall>r. c_credential_ref d = Some r \<longrightarrow> (\<exists>login. lookup_credential creds r = Inr login))))"
proof -
  obtain t1 t2 t3 t4 v1 v2 u out where read:
    "json_loads (st_json s t2) = Inr v1" "check_credentials v1 = Inr creds"
    "st_read s past (at_root s ''inventory/connectors.json'') = Inr t3" "json_loads (st_json s t3) = Inr v2"
    "check_connectors v2 = Inr u"
    "st_read s past (at_root s ''inventory/upstreams.jsonl'') = Inr t4"
    "check_inventory s creds 1 (splitlines t4) = Inr cs" "cs \<noteq> []"
    using run by (rule load_and_validate_Inr) blast
  have loaded: "w_text w conf = Inr t3" "loads w t3 = Inr v2"
    using read(3,4) js(2) mounted(1) by (simp_all add: loads_def)
  have "load_connectors rt w conf (CONNECTOR_REGISTRY rt) = Inr [JsonlInventoryConnector name INVENTORY]"
    using loaded read(5) named by (intro checked_connectors_load) blast+
  moreover have "collect rt w (JsonlInventoryConnector name INVENTORY)
      = Inr (concat (map (\<lambda>c. ok_list (parse_candidate rt c name)) cs))"
    using inventory_collected[OF js read(7)] mounted(2) read(6) by (simp add: jsonl_collect_def)
  moreover have "\<exists>d. parse_candidate rt c name = Inr d \<and> collected_from rt c d
      \<and> (\<forall>r. c_credential_ref d = Some r \<longrightarrow> (\<exists>login. lookup_credential creds r = Inr login))"
    if c: "c \<in> set cs" "collectable rt name c" for c
  proof -
    obtain n v where checked: "check_candidate n creds v = Inr c" using check_inventory_member[OF read(7) c(1)] by blast
    then obtain d where d: "parse_candidate rt c name = Inr d" "collected_from rt c d"
      using candidate_collected[OF _ _ _ _ _ _ c(2)] check_candidate_Inr by blast
    have "\<exists>login. lookup_credential creds r = Inr login" if "c_credential_ref d = Some r" for r
    proof -
      have ref: "get c ''credential_ref'' = JStr r" using d(2) that by (simp add: collected_from_def opt_str_def)
      then have "r \<noteq> []" using c(2) by (auto simp: collectable_def)
      then show ?thesis using check_candidate_reference[OF checked ref] check_credentials_lookup[OF read(2)] by blast
    qed
    then show ?thesis using d by blast
  qed
  ultimately show ?thesis using read(8) by blast
qed

definition sample_env_text :: string where
  "sample_env_text = join [LF] [''# gateway'', ''CLIENT_CIDR=0.0.0.0/1'', ''VALIDATOR_REDIS_URL=redis://redis:6379/0'',
     ''GATEWAY_REDIS_URL=redis://127.0.0.1:6379/0'', ''POOL_SIZE=1'', ''RESERVE_SIZE=10'',
     ''ANONYMITY_CHECK_URL=https://echo.example/'', ''DNS_DEFAULT_RESOLVER_IPS=1.1.1.1'', ''DNS_DOH_IP=1.1.1.1'',
     ''DNS_DOH_SERVER_NAME=dns.example''] @ [LF]"

definition sample_values :: env where
  "sample_values = [(''CLIENT_CIDR'', ''0.0.0.0/1''), (''VALIDATOR_REDIS_URL'', ''redis://redis:6379/0''),
     (''GATEWAY_REDIS_URL'', ''redis://127.0.0.1:6379/0''), (''POOL_SIZE'', ''1''), (''RESERVE_SIZE'', ''10''),
     (''ANONYMITY_CHECK_URL'', ''https://echo.example/''), (''DNS_DEFAULT_RESOLVER_IPS'', ''1.1.1.1''),
     (''DNS_DOH_IP'', ''1.1.1.1''), (''DNS_DOH_SERVER_NAME'', ''dns.example'')]"

text \<open>A configured instance; a file is represented by its name, its entries by one token each.\<close>

definition sample_entry :: "json \<Rightarrow> dict" where
  "sample_entry reference = [(''host'', JStr ''proxy''), (''port'', JInt 3128), (''protocol'', JStr ''http''),
     (''credential_ref'', reference)]"

definition sample_logins :: dict where
  "sample_logins = [(''a'', JObj [(''username'', JStr ''u''), (''password'', JStr ''p'')])]"

definition sample_json :: "json \<Rightarrow> string \<Rightarrow> jtext" where
  "sample_json reference t =
     (if t = ''connectors'' then JText quickstart_connectors
      else if t = ''upstreams'' then JText (JObj (sample_entry reference))
      else if t = ''credentials'' then JText (JObj sample_logins)
      else if t = ''pool'' then JText (JObj [(''generated_at'', JInt 5), (''entries'', JArr [JObj []])]) else BadText)"

text \<open>A clock that only \<open>sleep\<close> moves.\<close>

definition sample_clock :: "ctl_log \<Rightarrow> rat" where
  "sample_clock past = sum_list (map (\<lambda>(a, _). case a of Sleep d \<Rightarrow> max 0 d | _ \<Rightarrow> 0) past)"

lemma clock_law_sample:
  assumes "st_clock s = sample_clock"
  shows "clock_law s"
proof -
  have "0 \<le> sample_clock new" for new
    by (induction new) (auto simp: sample_clock_def split: ctl_action.splits)
  then show ?thesis using assms by (simp add: clock_law_def sample_clock_def)
qed

definition sample_station :: "json \<Rightarrow> station" where
  "sample_station reference = \<lparr>st_root = ''r'', st_euid = 0, st_run = (\<lambda>_ ws. Inr (0, if ''exec'' \<in> set ws then ''pool'' else [])),
     st_exists = (\<lambda>_ path. path \<noteq> ''r/runtime/update/images.json''),
     st_read = (\<lambda>_ path. if path = ''r/.env'' then Inr sample_env_text
       else if path = ''r/inventory/connectors.json'' then Inr ''connectors''
       else if path = ''r/inventory/upstreams.jsonl'' then Inr ''upstreams''
       else if path = ''r/secrets/proxy-credentials.json'' then Inr ''credentials'' else Inl (OSError [])),
     st_lstat = (\<lambda>_ path. Inr \<lparr>fi_regular = True, fi_uid = 0, fi_gid = 65532, fi_mode = (if path = ''r/.env'' then 384 else 416)\<rparr>),
     st_file = (\<lambda>_ _. Inr ()), st_input = (\<lambda>_ _. Inr []), st_clock = sample_clock, st_str = (\<lambda>_. []), st_json = sample_json reference,
     st_dumps = (\<lambda>_. []), st_compact = (\<lambda>_. []), st_sha256 = (\<lambda>_. [])\<rparr>"

lemma sample_network: "ipv4_network ''0.0.0.0/1'' = Inr (0, 1)"
  by (simp add: ipv4_network_def ipv4_of_string_def parse_octet_def digits_val_def digit_val_def prefix_of_text_def
      mask_low_def is_digit_def)

lemma sample_values_checked: "check_values sample_values = Inr ()"
proof -
  have "filter (\<lambda>k. map_of sample_values k = None) REQUIRED = []" "check_sizes sample_values = Inr ()"
    "validate_echo_url (env_value sample_values ''ANONYMITY_CHECK_URL'') = Inr ()"
    "env_value sample_values ''CLIENT_CIDR'' = ''0.0.0.0/1''"
    "env_value sample_values ''VALIDATOR_REDIS_URL'' = ''redis://redis:6379/0''"
    "env_value sample_values ''GATEWAY_REDIS_URL'' = ''redis://127.0.0.1:6379/0''"
    by code_simp+
  then show ?thesis by (simp add: check_values_def sample_network)
qed

lemma sample_checked:
  assumes "check_candidate 1 sample_logins (JObj (sample_entry r)) = Inr (sample_entry r)"
  shows "load_and_validate plain_rt (sample_station r) [] =
    (Inr (sample_values, [sample_entry r], sample_logins), [(Run [''docker'', ''compose'', ''config'', ''--quiet''], True)])"
proof -
  have parts: "validate_permissions (sample_station r) [] = (Inr (), [])"
    "parse_env (sample_station r) (at_root (sample_station r) ''.env'') [] = (Inr sample_values, [])"
    "read_text (sample_station r) (at_root (sample_station r) ''secrets/proxy-credentials.json'') [] = (Inr ''credentials'', [])"
    "rbind (json_loads (st_json (sample_station r) ''credentials'')) check_credentials = Inr sample_logins"
    "read_text (sample_station r) (at_root (sample_station r) ''inventory/connectors.json'') [] = (Inr ''connectors'', [])"
    "rbind (json_loads (st_json (sample_station r) ''connectors'')) check_connectors = Inr ()"
    "read_text (sample_station r) (at_root (sample_station r) ''inventory/upstreams.jsonl'') [] = (Inr ''upstreams'', [])"
    "splitlines ''upstreams'' = [''upstreams'']" "\<not> env_comment ''upstreams''"
    "json_loads (st_json (sample_station r) ''upstreams'') = Inr (JObj (sample_entry r))"
    "run_compose plain_rt (sample_station r) [''config'', ''--quiet''] [] =
      (Inr (0, []), [(Run [''docker'', ''compose'', ''config'', ''--quiet''], True)])"
    by code_simp+
  have "check_inventory (sample_station r) sample_logins 1 (splitlines ''upstreams'') = Inr [sample_entry r]"
    using parts(8-10) assms by (simp only: check_inventory.simps if_False rbind_simps)
  then show ?thesis
    unfolding load_and_validate_def
    by (simp add: io_bind_def io_lift_def io_ensure_def io_return_def parts(1-7,11) sample_values_checked)
qed

definition sample_world :: "json \<Rightarrow> world" where
  "sample_world r = \<lparr>w_text = (\<lambda>path. if path = INVENTORY then Inr ''upstreams'' else Inr ''connectors''),
     w_json = sample_json r, w_http = (\<lambda>_ _. HttpFail TimeoutError)\<rparr>"

lemma sample_json_strip: "json_strip (sample_json r)"
proof -
  have "strip ''connectors'' = ''connectors''" "strip ''upstreams'' = ''upstreams''" "strip ''credentials'' = ''credentials''"
    "strip ''pool'' = ''pool''"
    by code_simp+
  then show ?thesis by (auto simp: json_strip_def sample_json_def)
qed

lemma checked_configuration_collects_witness:
  "collect plain_rt (sample_world (JStr ''a'')) (JsonlInventoryConnector ''quickstart'' INVENTORY)
     = Inr (concat (map (\<lambda>c. ok_list (parse_candidate plain_rt c ''quickstart'')) [sample_entry (JStr ''a'')]))
   \<and> (\<exists>d. parse_candidate plain_rt (sample_entry (JStr ''a'')) ''quickstart'' = Inr d
       \<and> collected_from plain_rt (sample_entry (JStr ''a'')) d)"
proof -
  let ?r = "JStr ''a''"
  have "check_candidate 1 sample_logins (JObj (sample_entry ?r)) = Inr (sample_entry ?r)" by code_simp
  note run = sample_checked[OF this]
  have files: "w_text (sample_world ?r) ''c'' = st_read (sample_station ?r) [] (at_root (sample_station ?r) ''inventory/connectors.json'')"
    "w_text (sample_world ?r) INVENTORY = st_read (sample_station ?r) [] (at_root (sample_station ?r) ''inventory/upstreams.jsonl'')"
    by code_simp+
  have same: "json_strip (st_json (sample_station ?r))" "w_json (sample_world ?r) = st_json (sample_station ?r)"
    using sample_json_strip by (simp_all add: sample_station_def sample_world_def)
  have read: "w_text (sample_world ?r) ''c'' = Inr ''connectors''"
    "loads (sample_world ?r) ''connectors'' = Inr quickstart_connectors"
    "attr_get quickstart_connectors ''active_connectors'' = Inr (JArr [JObj [(''type'', JStr ''jsonl_inventory''),
       (''name'', JStr ''quickstart''), (''path'', JStr ''/inventory/upstreams.jsonl'')]])"
    by code_simp+
  have named: "\<forall>t v entry. w_text (sample_world ?r) ''c'' = Inr t \<longrightarrow> loads (sample_world ?r) t = Inr v \<longrightarrow>
      attr_get v ''active_connectors'' = Inr (JArr [JObj entry]) \<longrightarrow>
      truthy (get entry ''name'') \<and> py_str plain_rt (get entry ''name'') = ''quickstart''"
    using read by (auto simp: get_def get_default_def)
  have good: "collectable plain_rt ''quickstart'' (sample_entry ?r)" by code_simp
  show ?thesis
    using checked_configuration_collects[OF run same files named] good by auto
qed

text \<open>A blank credential reference passes \<open>check\<close>, and the fetcher then drops the candidate.\<close>

lemma checked_candidate_dropped:
  "fst (load_and_validate plain_rt (sample_station (JStr [])) []) = Inr (sample_values, [sample_entry (JStr [])], sample_logins)"
  "collect plain_rt (sample_world (JStr [])) (JsonlInventoryConnector ''quickstart'' INVENTORY) = Inr []"
proof -
  have "check_candidate 1 sample_logins (JObj (sample_entry (JStr []))) = Inr (sample_entry (JStr []))" by code_simp
  from sample_checked[OF this]
  show "fst (load_and_validate plain_rt (sample_station (JStr [])) []) = Inr (sample_values, [sample_entry (JStr [])], sample_logins)"
    by simp
  show "collect plain_rt (sample_world (JStr [])) (JsonlInventoryConnector ''quickstart'' INVENTORY) = Inr []"
    by code_simp
qed

end
