(* ===== verification/Tgctl.thy ===== *)
theory Tgctl
  imports Tgctl_Config Readiness
begin

text \<open>
  The commands of \<open>scripts/tgctl.py\<close> that start, stop and observe an instance. They run on the log
  of \<open>Tgctl_Config\<close>; every reading of the clock is an event of its own. \<open>wait\<close> and \<open>ready\<close> repeat
  until a deadline, so they are partial: a host whose clock stands still never answers. \<open>ready\<close>
  evaluates the gate of \<open>Readiness\<close> on what the services answer at that moment. The output that the
  command line parser prints is not modelled.
\<close>

section \<open>Arguments\<close>

record ctl_args =
  a_timeout :: int
  a_no_build :: bool
  a_skip_service :: bool
  a_since :: "rat option"

section \<open>The active pool\<close>

definition active_key :: string where
  "active_key = ''proxy_pool:active:v1''"

definition active_command :: "string list" where
  "active_command = [''exec'', ''-T'', ''redis'', ''redis-cli'', ''--raw'', ''GET'', active_key]"

definition pool_of_output :: "station \<Rightarrow> int \<times> string \<Rightarrow> dict option res" where
  "pool_of_output s = (\<lambda>(code, out).
     if code \<noteq> 0 \<or> strip out = [] then Inr None
     else rbind (json_loads (st_json s out)) (\<lambda>v.
       Inr (case v of
          JObj data \<Rightarrow> (case get data ''entries'' of JArr _ \<Rightarrow> Some data | _ \<Rightarrow> None)
        | _ \<Rightarrow> None)))"

definition active_snapshot :: "pyrt \<Rightarrow> station \<Rightarrow> dict option ctl" where
  "active_snapshot rt s = io_bind (run_compose rt s active_command) (\<lambda>r. io_lift (pool_of_output s r))"

text \<open>The entries of a snapshot that counts as ready.\<close>

definition pool_ready :: "dict option \<Rightarrow> json list" where
  "pool_ready snap =
     (case snap of None \<Rightarrow> [] | Some data \<Rightarrow> (case get data ''entries'' of JArr es \<Rightarrow> es | _ \<Rightarrow> []))"

definition show_pool :: "pyrt \<Rightarrow> station \<Rightarrow> dict \<Rightarrow> unit ctl" where
  "show_pool rt s data =
     io_bind (print s (''ACTIVE_POOL ready='' @ dec (length (pool_ready (Some data))))) (\<lambda>_.
     io_bind (io_lift (item data ''generated_at'')) (\<lambda>generated.
     print s (''generated_at='' @ py_str rt generated)))"

text \<open>One round of \<open>wait\<close>: whether the pool was ready.\<close>

definition announce :: "pyrt \<Rightarrow> station \<Rightarrow> bool ctl" where
  "announce rt s =
     io_bind (active_snapshot rt s) (\<lambda>snap.
     if pool_ready snap = [] then io_return False
     else io_bind (show_pool rt s (the snap)) (\<lambda>_. io_return True))"

partial_function (option) wait_loop :: "pyrt \<Rightarrow> station \<Rightarrow> rat \<Rightarrow> ctl_log \<Rightarrow> (unit res \<times> ctl_log) option" where
  "wait_loop rt s deadline past =
     (let (t, c) = tick s past in
      if \<not> t < deadline then
        Some (Inl (UserError ''active proxy pool did not become ready before the timeout''), c)
      else case announce rt s c of
        (Inl e, c1) \<Rightarrow> Some (Inl e, c1)
      | (Inr found, c1) \<Rightarrow>
          if found then Some (Inr (), c1) else wait_loop rt s deadline (c1 @ [(Sleep 3, True)]))"

definition wait :: "pyrt \<Rightarrow> station \<Rightarrow> int \<Rightarrow> unit may" where
  "wait rt s timeout =
     may_bind (returns (require_root s)) (\<lambda>_ past.
     let (t, c) = tick s past in wait_loop rt s (t + of_int timeout) c)"

section \<open>The service unit\<close>

definition UNIT_NAME :: string where
  "UNIT_NAME = ''transparent-gateway.service''"

definition SYSTEMD_UNIT :: string where
  "SYSTEMD_UNIT = ''/etc/systemd/system/'' @ UNIT_NAME"

definition systemd_unit :: "station \<Rightarrow> int \<Rightarrow> string res" where
  "systemd_unit s timeout =
     (let base = st_root s; script = at_root s ''scripts/tgctl.py'' in
      rbind (ensure (\<not> list_ex (\<lambda>c. is_space c \<or> c = CHR ''%'') (base @ script))
        (UserError ''repository path cannot contain whitespace or percent signs'')) (\<lambda>_.
      Inr (join [LF] [''[Unit]'', ''Description=Transparent Gateway'', ''Wants=network-online.target'',
        ''Requires=docker.service'', ''After=network-online.target docker.service'', [],
        ''[Service]'', ''Type=oneshot'', ''RemainAfterExit=yes'', ''WorkingDirectory='' @ base,
        ''ExecStart=/usr/bin/python3 '' @ script @ '' up --timeout '' @ str_of_int timeout @ '' --no-build --skip-service'',
        ''ExecStop=/usr/bin/python3 '' @ script @ '' down --skip-service'',
        ''TimeoutStartSec='' @ str_of_int (timeout + 60), ''TimeoutStopSec=60'', [],
        ''[Install]'', ''WantedBy=multi-user.target''] @ [LF])))"

definition TEMPORARY_UNIT :: string where
  "TEMPORARY_UNIT = SYSTEMD_UNIT @ ''.tmp''"

text \<open>\<open>try: m finally: try: unlink except FileNotFoundError: pass\<close>.\<close>

definition finally_unlink :: "station \<Rightarrow> string \<Rightarrow> 'a ctl \<Rightarrow> 'a ctl" where
  "finally_unlink s path m past =
     (case m past of (r, c) \<Rightarrow>
      case file_op s ''unlink'' path [] c of
        (Inl e, c1) \<Rightarrow> (if e = FileNotFoundError then r else Inl e, c1)
      | (Inr _, c1) \<Rightarrow> (r, c1))"

definition write_systemd_unit :: "station \<Rightarrow> string \<Rightarrow> unit ctl" where
  "write_systemd_unit s content =
     finally_unlink s TEMPORARY_UNIT
       (io_bind (file_op s ''create'' TEMPORARY_UNIT []) (\<lambda>_.
        io_bind (file_op s ''write'' TEMPORARY_UNIT content) (\<lambda>_.
        io_bind (file_op s ''fsync'' TEMPORARY_UNIT []) (\<lambda>_.
        io_bind (file_op s ''chown'' TEMPORARY_UNIT ''0:0'') (\<lambda>_.
        file_op s ''replace'' TEMPORARY_UNIT SYSTEMD_UNIT)))))"

definition systemd_command :: "station \<Rightarrow> string list \<Rightarrow> unit ctl" where
  "systemd_command s command =
     io_bind (spawn s command) (\<lambda>(code, _).
     io_ensure (code = 0) (UserError (''systemd command failed: '' @ join '' '' (take 2 command))))"

definition prepare_commands :: "string list list" where
  "prepare_commands = [[''systemd-analyze'', ''verify'', SYSTEMD_UNIT], [''systemctl'', ''daemon-reload''],
     [''systemctl'', ''enable'', UNIT_NAME]]"

definition install_commands :: "string list list" where
  "install_commands = [[''systemctl'', ''restart'', UNIT_NAME], [''systemctl'', ''is-active'', UNIT_NAME],
     [''systemctl'', ''is-enabled'', UNIT_NAME]]"

definition prepare_service :: "station \<Rightarrow> int \<Rightarrow> unit ctl" where
  "prepare_service s timeout =
     io_bind (io_lift (systemd_unit s timeout)) (\<lambda>content.
     io_bind (write_systemd_unit s content) (\<lambda>_.
     io_bind (for_each (systemd_command s) prepare_commands) (\<lambda>_. io_return ())))"

definition install_service :: "station \<Rightarrow> int \<Rightarrow> unit ctl" where
  "install_service s timeout =
     io_bind (prepare_service s timeout) (\<lambda>_.
     io_bind (for_each (systemd_command s) install_commands) (\<lambda>_.
     print s ''SYSTEMD_SERVICE enabled=1 active=1''))"

section \<open>Starting and stopping\<close>

definition start_services :: "pyrt \<Rightarrow> station \<Rightarrow> ctl_args \<Rightarrow> unit ctl" where
  "start_services rt s args =
     io_bind (require_root s) (\<lambda>_.
     io_bind (load_and_validate rt s) (\<lambda>_.
     io_bind (compose_command s [''up'', ''--detach'']) (\<lambda>command.
     io_bind (if a_no_build args then io_return True else exists_file s (at_root s ''runtime/update/images.json'')) (\<lambda>no_build.
     io_bind (io_lift (rmap text_of (command @ [JStr (if no_build then ''--no-build'' else ''--build'')]))) (\<lambda>words.
     io_bind (spawn s words) (\<lambda>(code, _).
     io_ensure (code = 0) (UserError ''docker compose up failed'')))))))"

definition up :: "pyrt \<Rightarrow> station \<Rightarrow> ctl_args \<Rightarrow> unit may" where
  "up rt s args =
     may_bind (returns (start_services rt s args)) (\<lambda>_.
     may_bind (wait rt s (a_timeout args)) (\<lambda>_.
     returns (if a_skip_service args then io_return () else install_service s (a_timeout args))))"

definition ps_running :: "string list" where
  "ps_running = [''ps'', ''--status'', ''running'', ''--quiet'']"

definition stop_services :: "station \<Rightarrow> ctl_args \<Rightarrow> unit ctl" where
  "stop_services s args =
     io_bind (exists_file s SYSTEMD_UNIT) (\<lambda>installed.
     if installed \<and> \<not> a_skip_service args then
       io_bind (spawn s [''systemctl'', ''stop'', UNIT_NAME]) (\<lambda>(code, _).
       io_ensure (code = 0) (UserError ''cannot stop transparent-gateway.service''))
     else
       io_bind (spawn_compose s [''stop'', ''--timeout'', ''20'']) (\<lambda>(code, _).
       io_ensure (code = 0) (UserError ''docker compose stop failed'')))"

definition down :: "station \<Rightarrow> ctl_args \<Rightarrow> unit ctl" where
  "down s args =
     io_bind (require_root s) (\<lambda>_.
     io_bind (stop_services s args) (\<lambda>_.
     io_bind (spawn_compose s ps_running) (\<lambda>(code, out).
     io_bind (io_ensure (code = 0) (UserError ''cannot verify that services stopped'')) (\<lambda>_.
     io_bind (io_ensure (strip out = []) (UserError ''one or more services are still running'')) (\<lambda>_.
     print s ''DOWN stopped=1'')))))"

section \<open>Observing\<close>

fun exit_ids :: "station \<Rightarrow> json list \<Rightarrow> string list res" where
  "exit_ids s [] = Inr []"
| "exit_ids s (e # es) =
     rbind (attr_get e ''exit_ip'') (\<lambda>v.
     if \<not> truthy v then exit_ids s es
     else case v of
       JStr ip \<Rightarrow> rbind (exit_ids s es) (\<lambda>ids. Inr (take 12 (st_sha256 s ip) # ids))
     | _ \<Rightarrow> Inl AttributeError)"

definition status :: "pyrt \<Rightarrow> station \<Rightarrow> unit ctl" where
  "status rt s =
     io_bind (require_root s) (\<lambda>_.
     io_bind (spawn_compose s [''ps'']) (\<lambda>(code, _).
     io_bind (io_ensure (code = 0) (UserError ''cannot read service status'')) (\<lambda>_.
     io_bind (active_snapshot rt s) (\<lambda>snap.
     if pool_ready snap = [] then print s ''ACTIVE_POOL ready=0''
     else
       io_bind (show_pool rt s (the snap)) (\<lambda>_.
       io_bind (io_lift (exit_ids s (pool_ready snap))) (\<lambda>ids.
       print s (''active_exit_ids='' @ join '','' (sort (remdups ids)))))))))"

text \<open>The gate, on the answers of the services at that moment.\<close>

definition gate_check :: "(ctl_log \<Rightarrow> gate) \<Rightarrow> env \<Rightarrow> rat option \<Rightarrow> readiness ctl" where
  "gate_check gates vals since past =
     (let r = Readiness.check (gates past) [''docker'', ''compose''] (map (\<lambda>(k, v). (k, JStr v)) vals) since in
      (r, past @ [(Gate, ok r)]))"

definition attempt :: "station \<Rightarrow> (ctl_log \<Rightarrow> gate) \<Rightarrow> env \<Rightarrow> rat option \<Rightarrow> readiness ctl" where
  "attempt s gates vals since =
     io_bind (gate_check gates vals since) (\<lambda>result.
     io_bind (print s ''READINESS PASS services=6 fresh_pools=1 relay_echo=1'') (\<lambda>_.
     io_return result))"

fun ready_catches :: "exn \<Rightarrow> bool" where
  "ready_catches (RuntimeError _) = True"
| "ready_catches KeyError = True"
| "ready_catches TypeError = True"
| "ready_catches TimeoutExpired = True"
| "ready_catches e = (is_ValueError e \<or> is_OSError e)"

partial_function (option) ready_loop ::
  "station \<Rightarrow> (ctl_log \<Rightarrow> gate) \<Rightarrow> env \<Rightarrow> rat option \<Rightarrow> rat \<Rightarrow> string \<Rightarrow> ctl_log \<Rightarrow> (readiness res \<times> ctl_log) option" where
  "ready_loop s gates vals since deadline reason past =
     (let (t, c) = tick s past in
      if \<not> t < deadline then Some (Inl (UserError (''readiness failed: '' @ reason)), c)
      else case attempt s gates vals since c of
        (Inr result, c1) \<Rightarrow> Some (Inr result, c1)
      | (Inl e, c1) \<Rightarrow>
          if \<not> ready_catches e then Some (Inl e, c1)
          else let (t1, c2) = tick s c1 in
            ready_loop s gates vals since deadline (st_str s e) (c2 @ [(Sleep (min 3 (max 0 (deadline - t1))), True)]))"

definition ready :: "pyrt \<Rightarrow> station \<Rightarrow> (ctl_log \<Rightarrow> gate) \<Rightarrow> ctl_args \<Rightarrow> readiness may" where
  "ready rt s gates args =
     may_bind (returns (require_root s)) (\<lambda>_.
     may_bind (returns (load_and_validate rt s)) (\<lambda>(vals, _, _) past.
     let (t, c) = tick s past in
     ready_loop s gates vals (a_since args) (t + of_int (a_timeout args)) ''readiness timeout'' c))"

section \<open>The command line\<close>

fun main_catches :: "exn \<Rightarrow> bool" where
  "main_catches (UserError _) = True"
| "main_catches JSONDecodeError = True"
| "main_catches TimeoutExpired = True"
| "main_catches e = is_OSError e"

datatype ctl_command = Configure | Check | Up | Down | Wait | Status | Ready

definition handler :: "pyrt \<Rightarrow> station \<Rightarrow> (ctl_log \<Rightarrow> gate) \<Rightarrow> ctl_command \<Rightarrow> ctl_args \<Rightarrow> unit may" where
  "handler rt s gates command args =
     (case command of
        Configure \<Rightarrow> returns (configure s)
      | Check \<Rightarrow> returns (Tgctl_Config.check rt s)
      | Up \<Rightarrow> up rt s args
      | Down \<Rightarrow> returns (down s args)
      | Wait \<Rightarrow> wait rt s (a_timeout args)
      | Status \<Rightarrow> returns (status rt s)
      | Ready \<Rightarrow> may_bind (ready rt s gates args) (\<lambda>_. returns (io_return ())))"

text \<open>How the process ends: exit status 0, the message of a failure and status 1, or a traceback.\<close>

datatype ending = Done | Failed exn | Traceback exn

definition main :: "pyrt \<Rightarrow> station \<Rightarrow> (ctl_log \<Rightarrow> gate) \<Rightarrow> ctl_command \<Rightarrow> ctl_args \<Rightarrow> ctl_log \<Rightarrow> (ending \<times> ctl_log) option" where
  "main rt s gates command args past =
     map_option (\<lambda>(r, c). (case r of Inr _ \<Rightarrow> Done
       | Inl e \<Rightarrow> if main_catches e then Failed e else Traceback e, c))
       (handler rt s gates command args past)"

section \<open>Polling until a deadline\<close>

lemma compose_command_silent: "emits (\<lambda>_. False) (compose_command s arguments)"
  unfolding compose_command_def exists_file_def read_text_def Let_def by (intro emits_intros)

lemma run_compose_event:
  assumes "run_compose rt s arguments past = (r, c)"
  shows "\<exists>new. c = past @ new \<and> attempts is_run new \<le> 1"
proof (cases "compose_command s arguments past")
  case (Pair q c1)
  have c1: "c1 = past" using silent[OF compose_command_silent Pair] .
  show ?thesis
  proof (cases q)
    case (Inl e)
    then show ?thesis using assms Pair c1 by (auto simp: run_compose_def io_bind_def)
  next
    case (Inr ws)
    then have "spawn s (map (py_str rt) ws) past = (r, c)" using assms Pair c1 by (simp add: run_compose_def io_bind_def)
    then show ?thesis using spawn_event by fastforce
  qed
qed

lemma announce_event:
  assumes "announce rt s past = (r, c)"
  shows "\<exists>new. c = past @ new \<and> attempts is_run new \<le> 1
    \<and> (r = Inr True \<longrightarrow> (\<exists>snap. fst (active_snapshot rt s past) = Inr snap \<and> pool_ready snap \<noteq> []))"
proof -
  obtain q c1 where first: "active_snapshot rt s past = (q, c1)" by fastforce
  then obtain q' where "run_compose rt s active_command past = (q', c1)"
    by (cases "run_compose rt s active_command past") (auto simp: active_snapshot_def io_bind_def io_lift_def split: sum.splits)
  then obtain new where new: "c1 = past @ new" "attempts is_run new \<le> 1" using run_compose_event by blast
  show ?thesis
  proof (cases q)
    case (Inl e)
    then show ?thesis using assms first new by (auto simp: announce_def io_bind_def)
  next
    case (Inr snap)
    let ?rest = "if pool_ready snap = [] then io_return False
      else io_bind (show_pool rt s (the snap)) (\<lambda>_. io_return True)"
    have rest: "?rest c1 = (r, c)" using assms first Inr by (simp add: announce_def io_bind_def)
    have "emits (\<lambda>e. \<not> is_run e) ?rest"
      unfolding show_pool_def by (intro emits_intros) simp_all
    then obtain new' where "c = c1 @ new'" "list_all (\<lambda>e. \<not> is_run e) new'" using rest by (rule emitsE)
    moreover have "pool_ready snap \<noteq> []" if "r = Inr True" using rest that by (auto simp: io_return_def)
    ultimately show ?thesis using new first Inr attempts_none[of is_run new'] by auto
  qed
qed

text \<open>What a round of \<open>wait\<close> that ends it saw: its clock before the deadline, and then the pool.\<close>

definition pool_seen :: "pyrt \<Rightarrow> station \<Rightarrow> rat \<Rightarrow> ctl_log \<Rightarrow> bool" where
  "pool_seen rt s deadline p \<longleftrightarrow> (\<exists>q snap. p = q @ [(Clock, True)] \<and> st_clock s q < deadline
     \<and> fst (active_snapshot rt s p) = Inr snap \<and> pool_ready snap \<noteq> [])"

interpretation waiting: polling s deadline 3 0 "\<lambda>_ :: unit. wait_loop rt s deadline" is_run
  "\<lambda>p _. pool_seen rt s deadline p" for rt s deadline
proof unfold_locales
  fix past and x :: unit
  show "settles (wait_loop rt s deadline past) past is_run 0 (\<lambda>p _. pool_seen rt s deadline p)"
    if "deadline \<le> st_clock s past"
    using that by (intro settlesI[where new = "[(Clock, True)]"]) (subst wait_loop.simps, simp add: tick_def, simp_all)
  show "settles (wait_loop rt s deadline past) past is_run 1 (\<lambda>p _. pool_seen rt s deadline p)
      \<or> (\<exists>x' :: unit. \<exists>new d. wait_loop rt s deadline past = wait_loop rt s deadline (past @ new @ [(Sleep d, True)])
         \<and> attempts is_run new \<le> 1
         \<and> (3 \<le> d \<or> (\<exists>q r. past @ new = q @ r \<and> deadline \<le> st_clock s q + d)))"
    if "st_clock s past < deadline"
  proof -
    let ?p = "past @ [(Clock, True)]"
    obtain r c where run: "announce rt s ?p = (r, c)" by fastforce
    then obtain new where new: "c = ?p @ new" "attempts is_run new \<le> 1"
      "r = Inr True \<longrightarrow> (\<exists>snap. fst (active_snapshot rt s ?p) = Inr snap \<and> pool_ready snap \<noteq> [])"
      using announce_event[OF run] by blast
    have loop: "wait_loop rt s deadline past = (case (r, c) of (Inl e, c1) \<Rightarrow> Some (Inl e, c1)
      | (Inr found, c1) \<Rightarrow> if found then Some (Inr (), c1) else wait_loop rt s deadline (c1 @ [(Sleep 3, True)]))"
      using that by (subst wait_loop.simps) (simp add: tick_def run)
    let ?new = "(Clock, True) # new"
    have quiet: "attempts is_run ?new \<le> 1" using new(2) by simp
    show ?thesis
    proof (cases "r = Inr False")
      case True
      then have "wait_loop rt s deadline past = wait_loop rt s deadline (past @ ?new @ [(Sleep 3, True)])"
        using loop new(1) by simp
      then show ?thesis using quiet by blast
    next
      case False
      then obtain q where q: "wait_loop rt s deadline past = Some (q, past @ ?new)" "\<forall>y. q = Inr y \<longrightarrow> r = Inr True"
        using loop new(1) by (cases r) auto
      have "settles (wait_loop rt s deadline past) past is_run 1 (\<lambda>p _. pool_seen rt s deadline p)"
      proof (rule settlesI[OF q(1) quiet])
        fix y assume "q = Inr y"
        then have "pool_seen rt s deadline ?p" using q(2) new(3) that by (auto simp: pool_seen_def)
        moreover have "prefix ?p (past @ ?new)" by simp
        ultimately show "\<exists>p. prefix past p \<and> prefix p (past @ ?new) \<and> pool_seen rt s deadline p" by (intro exI[of _ ?p]) simp
      qed
      then show ?thesis by blast
    qed
  qed
qed simp_all

definition gate_result :: "(ctl_log \<Rightarrow> gate) \<Rightarrow> env \<Rightarrow> rat option \<Rightarrow> ctl_log \<Rightarrow> readiness res" where
  "gate_result gates vals since p = fst (gate_check gates vals since p)"

lemma attempt_event:
  assumes "attempt s gates vals since past = (r, c)"
  shows "\<exists>new. c = past @ new \<and> attempts is_gate new \<le> 1 \<and> (\<forall>y. r = Inr y \<longrightarrow> gate_result gates vals since past = Inr y)"
proof -
  obtain q b where first: "gate_check gates vals since past = (q, past @ [(Gate, b)])"
    by (simp add: gate_check_def Let_def)
  show ?thesis
  proof (cases q)
    case (Inl e)
    then show ?thesis using assms first by (auto simp: attempt_def io_bind_def)
  next
    case (Inr result)
    let ?rest = "io_bind (print s ''READINESS PASS services=6 fresh_pools=1 relay_echo=1'') (\<lambda>_. io_return result)"
    have rest: "?rest (past @ [(Gate, b)]) = (r, c)" using assms first Inr by (simp add: attempt_def io_bind_def)
    have "emits (\<lambda>e. \<not> is_gate e) ?rest" by (intro emits_intros) simp_all
    then obtain new where "c = (past @ [(Gate, b)]) @ new" "list_all (\<lambda>e. \<not> is_gate e) new" using rest by (rule emitsE)
    moreover have "y = result" if "r = Inr y" for y
      using rest that by (auto simp: io_bind_def io_return_def split: prod.splits sum.splits)
    ultimately show ?thesis using first Inr attempts_none[of is_gate new] by (auto simp: gate_result_def)
  qed
qed

definition gate_passed ::
  "station \<Rightarrow> (ctl_log \<Rightarrow> gate) \<Rightarrow> env \<Rightarrow> rat option \<Rightarrow> rat \<Rightarrow> ctl_log \<Rightarrow> readiness \<Rightarrow> bool" where
  "gate_passed s gates vals since deadline p y \<longleftrightarrow> (\<exists>q. p = q @ [(Clock, True)] \<and> st_clock s q < deadline
     \<and> gate_result gates vals since p = Inr y)"

interpretation gating: polling s deadline 3 0 "ready_loop s gates vals since deadline" is_gate
  "gate_passed s gates vals since deadline" for s gates vals since deadline
proof unfold_locales
  fix past and x :: string
  let ?loop = "ready_loop s gates vals since deadline" and ?passed = "gate_passed s gates vals since deadline"
  show "settles (?loop x past) past is_gate 0 ?passed" if "deadline \<le> st_clock s past"
    using that by (intro settlesI[where new = "[(Clock, True)]"]) (subst ready_loop.simps, simp add: tick_def, simp_all)
  show "settles (?loop x past) past is_gate 1 ?passed
      \<or> (\<exists>x' new d. ?loop x past = ?loop x' (past @ new @ [(Sleep d, True)]) \<and> attempts is_gate new \<le> 1
         \<and> (3 \<le> d \<or> (\<exists>q r. past @ new = q @ r \<and> deadline \<le> st_clock s q + d)))"
    if "st_clock s past < deadline"
  proof -
    let ?p = "past @ [(Clock, True)]"
    obtain r c where run: "attempt s gates vals since ?p = (r, c)" by fastforce
    then obtain new where new: "c = ?p @ new" "attempts is_gate new \<le> 1"
      "\<forall>y. r = Inr y \<longrightarrow> gate_result gates vals since ?p = Inr y"
      using attempt_event[OF run] by blast
    let ?d = "min 3 (max 0 (deadline - st_clock s c))"
    have loop: "?loop x past = (case (r, c) of (Inr result, c1) \<Rightarrow> Some (Inr result, c1)
      | (Inl e, c1) \<Rightarrow> if \<not> ready_catches e then Some (Inl e, c1)
          else ?loop (st_str s e) ((c1 @ [(Clock, True)]) @ [(Sleep ?d, True)]))"
      using that by (subst ready_loop.simps) (simp add: tick_def run split: sum.splits)
    let ?new = "(Clock, True) # new"
    have quiet: "attempts is_gate ?new \<le> 1" "attempts is_gate (?new @ [(Clock, True)]) \<le> 1" using new(2) by simp_all
    show ?thesis
    proof (cases "\<exists>e. r = Inl e \<and> ready_catches e")
      case True
      then obtain e where "r = Inl e" "ready_catches e" by blast
      then have again: "?loop x past = ?loop (st_str s e) (past @ (?new @ [(Clock, True)]) @ [(Sleep ?d, True)])"
        using loop new(1) by simp
      have "3 \<le> ?d \<or> (\<exists>q r. past @ (?new @ [(Clock, True)]) = q @ r \<and> deadline \<le> st_clock s q + ?d)"
      proof (cases "3 \<le> ?d")
        case False
        then have "deadline \<le> st_clock s c + ?d" by (simp add: min_def max_def split: if_splits)
        moreover have "past @ (?new @ [(Clock, True)]) = c @ [(Clock, True)]" using new(1) by simp
        ultimately show ?thesis by blast
      qed simp
      then show ?thesis using again quiet(2) by blast
    next
      case False
      then have q: "?loop x past = Some (r, past @ ?new)" using loop new(1) by (cases r) auto
      have "settles (?loop x past) past is_gate 1 ?passed"
      proof (rule settlesI[OF q quiet(1)])
        fix y assume "r = Inr y"
        then have "?passed ?p y" using new(3) that by (auto simp: gate_passed_def)
        moreover have "prefix ?p (past @ ?new)" by simp
        ultimately show "\<exists>p. prefix past p \<and> prefix p (past @ ?new) \<and> ?passed p y" by (intro exI[of _ ?p]) simp
      qed
      then show ?thesis by blast
    qed
  qed
qed simp_all

lemma require_root_cases: "require_root s past = (if st_euid s = 0 then (Inr (), past) else (Inl (UserError ''run this command with sudo''), past))"
  by (simp add: require_root_def io_ensure_def io_return_def io_raise_def)

lemma load_and_validate_not_gate: "emits (\<lambda>e. \<not> is_gate e) (load_and_validate rt s)"
proof -
  have spawn: "emits (\<lambda>e. \<not> is_gate e) (spawn s words)" for words
    by (rule emitsI) (auto dest!: spawn_event)
  have compose: "emits (\<lambda>e. \<not> is_gate e) (run_compose rt s arguments)" for arguments
    unfolding run_compose_def by (intro emits_bind emits_mono[OF compose_command_silent] spawn) simp
  show ?thesis
    unfolding load_and_validate_def parse_env_def read_text_def
    by (intro emits_intros compose emits_mono[OF validate_permissions_silent]) simp_all
qed

section \<open>What a successful step leaves in the log\<close>

lemma systemd_command_Inr: "systemd_command s command past = (Inr u, c) \<Longrightarrow> c = past @ [(Run command, True)]"
  by (auto simp: systemd_command_def io_simps dest!: spawn_Inr elim!: io_bindE split: prod.splits)

lemma systemd_commands_Inr:
  "for_each (systemd_command s) commands past = (Inr us, c) \<Longrightarrow> c = past @ map (\<lambda>w. (Run w, True)) commands"
proof (induction commands arbitrary: past us)
  case (Cons w commands)
  then obtain u c1 vs where "systemd_command s w past = (Inr u, c1)" "for_each (systemd_command s) commands c1 = (Inr vs, c)"
    by (auto simp: io_return_eq elim!: io_bindE)
  then show ?case using Cons.IH systemd_command_Inr by fastforce
qed (simp add: io_return_eq)

definition unit_written :: "string \<Rightarrow> ctl_log" where
  "unit_written content = [(FileOp ''create'' TEMPORARY_UNIT [], True), (FileOp ''write'' TEMPORARY_UNIT content, True),
     (FileOp ''fsync'' TEMPORARY_UNIT [], True), (FileOp ''chown'' TEMPORARY_UNIT ''0:0'', True)]"

definition unit_replaced :: ctl_event where
  "unit_replaced = (FileOp ''replace'' TEMPORARY_UNIT SYSTEMD_UNIT, True)"

lemma write_systemd_unit_Inr:
  assumes "write_systemd_unit s content past = (Inr u, c)"
  shows "\<exists>b. c = past @ unit_written content @ [unit_replaced, (FileOp ''unlink'' TEMPORARY_UNIT [], b)]"
proof -
  let ?body = "io_bind (file_op s ''create'' TEMPORARY_UNIT []) (\<lambda>_. io_bind (file_op s ''write'' TEMPORARY_UNIT content) (\<lambda>_.
    io_bind (file_op s ''fsync'' TEMPORARY_UNIT []) (\<lambda>_. io_bind (file_op s ''chown'' TEMPORARY_UNIT ''0:0'') (\<lambda>_.
    file_op s ''replace'' TEMPORARY_UNIT SYSTEMD_UNIT))))"
  obtain r c1 where body: "?body past = (r, c1)" by fastforce
  obtain q where r: "r = Inr u" and unlink: "file_op s ''unlink'' TEMPORARY_UNIT [] c1 = (q, c)"
    using assms body unfolding write_systemd_unit_def finally_unlink_def
    by (auto split: prod.splits sum.splits if_splits)
  have "c1 = past @ unit_written content @ [unit_replaced]"
    using body r by (auto simp: unit_written_def unit_replaced_def elim!: io_bindE dest!: file_op_Inr)
  moreover have "\<exists>b. c = c1 @ [(FileOp ''unlink'' TEMPORARY_UNIT [], b)]"
    using unlink by (auto simp: file_op_def split: sum.splits)
  ultimately show ?thesis by auto
qed

definition service_log :: "string \<Rightarrow> bool \<Rightarrow> ctl_log" where
  "service_log content removed =
     unit_written content @ [unit_replaced, (FileOp ''unlink'' TEMPORARY_UNIT [], removed)]
     @ map (\<lambda>w. (Run w, True)) (prepare_commands @ install_commands) @ [(Print ''SYSTEMD_SERVICE enabled=1 active=1'', True)]"

lemma prepare_service_Inr:
  assumes "prepare_service s T past = (Inr u, c)"
  shows "\<exists>content b. systemd_unit s T = Inr content \<and> c = past @ unit_written content
    @ [unit_replaced, (FileOp ''unlink'' TEMPORARY_UNIT [], b)] @ map (\<lambda>w. (Run w, True)) prepare_commands"
  using assms unfolding prepare_service_def
  by (auto simp: io_lift_eq io_return_eq elim!: io_bindE dest!: write_systemd_unit_Inr systemd_commands_Inr)

lemma install_service_Inr:
  assumes "install_service s T past = (Inr u, c)"
  shows "\<exists>content b. systemd_unit s T = Inr content \<and> c = past @ service_log content b"
proof -
  obtain c1 c2 us where "prepare_service s T past = (Inr (), c1)"
    "for_each (systemd_command s) install_commands c1 = (Inr us, c2)" "print s ''SYSTEMD_SERVICE enabled=1 active=1'' c2 = (Inr (), c)"
    using assms unfolding install_service_def by (auto elim!: io_bindE)
  then show ?thesis
    by (auto simp: service_log_def dest!: prepare_service_Inr systemd_commands_Inr print_Inr)
qed

lemma systemd_unit_directory:
  assumes "systemd_unit s T = Inr content"
  shows "''WorkingDirectory='' @ st_root s \<in> set (splitlines content)"
proof -
  have "\<not> is_space c" if "c \<in> set (st_root s)" for c
    using assms that by (auto simp: systemd_unit_def Let_def list_ex_iff res_simps)
  moreover have "is_break c \<Longrightarrow> is_space c" for c by (auto simp: is_break_def is_space_def Let_def)
  ultimately have base: "line_plain (st_root s)" by (auto simp: line_plain_def list_all_iff)
  have "is_digit c \<Longrightarrow> \<not> is_break c" for c by (auto simp: is_digit_def is_break_def Let_def)
  then have "line_plain (dec n)" for n using dec_digits[of n] by (auto simp: line_plain_def list_all_iff)
  then have number: "line_plain (str_of_int i)" for i
    by (simp add: str_of_int_def line_plain_def is_break_def)
  let ?lines = "[''[Unit]'', ''Description=Transparent Gateway'', ''Wants=network-online.target'',
        ''Requires=docker.service'', ''After=network-online.target docker.service'', [],
        ''[Service]'', ''Type=oneshot'', ''RemainAfterExit=yes'', ''WorkingDirectory='' @ st_root s,
        ''ExecStart=/usr/bin/python3 '' @ at_root s ''scripts/tgctl.py'' @ '' up --timeout '' @ str_of_int T @ '' --no-build --skip-service'',
        ''ExecStop=/usr/bin/python3 '' @ at_root s ''scripts/tgctl.py'' @ '' down --skip-service'',
        ''TimeoutStartSec='' @ str_of_int (T + 60), ''TimeoutStopSec=60'', [],
        ''[Install]'', ''WantedBy=multi-user.target'']"
  have "list_all line_plain ?lines"
    using base number by (simp add: line_plain_def at_root_def is_break_def)
  then have "splitlines (join [LF] ?lines @ [LF]) = ?lines" by (intro splitlines_lines) simp_all
  moreover have "content = join [LF] ?lines @ [LF]"
    using assms by (simp add: systemd_unit_def Let_def rbind_eq_Inr)
  ultimately show ?thesis by simp
qed

definition touches_unit :: "ctl_event \<Rightarrow> bool" where
  "touches_unit = (\<lambda>(a, _). case a of
     FileOp act path content \<Rightarrow> path = SYSTEMD_UNIT \<or> (act = ''replace'' \<and> content = SYSTEMD_UNIT) | _ \<Rightarrow> False)"

lemma touches_simps:
  "touches_unit (FileOp act TEMPORARY_UNIT content, b) \<longleftrightarrow> act = ''replace'' \<and> content = SYSTEMD_UNIT"
  by (simp add: touches_unit_def TEMPORARY_UNIT_def)

lemma finally_unlink_cases:
  assumes "finally_unlink s path m past = (r, past')" "m past = (q, c)"
  shows "\<exists>b. past' = c @ [(FileOp ''unlink'' path [], b)] \<and> (\<forall>u. r = Inr u \<longrightarrow> q = Inr u)"
proof -
  obtain v c1 where unlink: "file_op s ''unlink'' path [] c = (v, c1)" by fastforce
  obtain b where "c1 = c @ [(FileOp ''unlink'' path [], b)]" using file_op_cases[OF unlink] by blast
  moreover have "past' = c1" "\<forall>u. r = Inr u \<longrightarrow> q = Inr u"
    using assms unlink by (cases v; auto simp: finally_unlink_def split: if_splits)+
  ultimately show ?thesis by blast
qed

lemma unit_body_cases:
  assumes "io_bind (file_op s ''create'' TEMPORARY_UNIT []) (\<lambda>_. io_bind (file_op s ''write'' TEMPORARY_UNIT content) (\<lambda>_.
    io_bind (file_op s ''fsync'' TEMPORARY_UNIT []) (\<lambda>_. io_bind (file_op s ''chown'' TEMPORARY_UNIT ''0:0'') (\<lambda>_.
    file_op s ''replace'' TEMPORARY_UNIT SYSTEMD_UNIT)))) past = (r, c)"
  shows "(\<exists>w. c = past @ w \<and> list_all (\<lambda>e. \<not> touches_unit e) w \<and> r \<noteq> Inr ())
    \<or> (\<exists>b. c = past @ unit_written content @ [(fst unit_replaced, b)] \<and> (r = Inr () \<longrightarrow> b))"
  using assms
  by (elim file_op_bind_cases)
    (auto simp: touches_simps unit_written_def unit_replaced_def dest!: file_op_cases)

lemma one_touch:
  assumes "w @ e' # late' = early @ e # late" "list_all (\<lambda>e. \<not> touches_unit e) w"
    "list_all (\<lambda>e. \<not> touches_unit e) late'" "touches_unit e"
  shows "early = w \<and> e = e' \<and> late = late'"
  using assms by (auto simp: append_eq_append_conv2 append_eq_Cons_conv Cons_eq_append_conv)

lemma rmap_snoc: "rmap f (xs @ [x]) = Inr ys \<Longrightarrow> \<exists>zs z. ys = zs @ [z] \<and> f x = Inr z"
proof (induction xs arbitrary: ys)
  case (Cons a xs)
  then obtain y zs where "rmap f (xs @ [x]) = Inr zs" "ys = y # zs" by (auto simp: res_simps)
  then show ?case using Cons.IH by (metis append_Cons)
qed (auto simp: res_simps)

lemma spawn_compose_Inr:
  assumes "spawn_compose s arguments past = (Inr (n, out), c)"
  obtains js ws where "compose_command s arguments past = (Inr js, past)" "rmap text_of js = Inr ws"
    "c = past @ [(Run ws, n = 0)]"
proof -
  obtain js c1 ws c2 where run: "compose_command s arguments past = (Inr js, c1)" "io_lift (rmap text_of js) c1 = (Inr ws, c2)"
    "spawn s ws c2 = (Inr (n, out), c)"
    using assms unfolding spawn_compose_def by (elim io_bindE)
  then show thesis
    using that silent[OF compose_command_silent run(1)] spawn_Inr by (simp add: io_lift_eq)
qed

lemma stop_services_Inr:
  assumes "stop_services s args past = (Inr u, c)"
  shows "(st_exists s past SYSTEMD_UNIT \<and> \<not> a_skip_service args \<and> c = past @ [(Run [''systemctl'', ''stop'', UNIT_NAME], True)])
    \<or> (\<exists>js ws. compose_command s [''stop'', ''--timeout'', ''20''] past = (Inr js, past) \<and> rmap text_of js = Inr ws
        \<and> c = past @ [(Run ws, True)])"
proof (cases "st_exists s past SYSTEMD_UNIT \<and> \<not> a_skip_service args")
  case True
  then have "io_bind (spawn s [''systemctl'', ''stop'', UNIT_NAME]) (\<lambda>(code, _).
      io_ensure (code = 0) (UserError ''cannot stop transparent-gateway.service'')) past = (Inr u, c)"
    using assms by (simp add: stop_services_def exists_file_def observe_def io_bind_def)
  then have "c = past @ [(Run [''systemctl'', ''stop'', UNIT_NAME], True)]"
    by (auto simp: io_simps elim!: io_bindE dest!: spawn_Inr split: prod.splits)
  then show ?thesis using True by blast
next
  case False
  then have "io_bind (spawn_compose s [''stop'', ''--timeout'', ''20'']) (\<lambda>(code, _).
      io_ensure (code = 0) (UserError ''docker compose stop failed'')) past = (Inr u, c)"
    using assms False by (auto simp: stop_services_def exists_file_def observe_def io_bind_def split: if_splits)
  then obtain out where "spawn_compose s [''stop'', ''--timeout'', ''20''] past = (Inr (0, out), c)"
    by (auto simp: io_simps elim!: io_bindE split: prod.splits)
  then show ?thesis by (rule spawn_compose_Inr) auto
qed

text \<open>
  The words of a Docker Compose command for this checkout: plain, or with the project name and the pinned
  images of \<open>runtime/update/images.json\<close> when this file is there.
\<close>

definition images_file :: "station \<Rightarrow> string" where
  "images_file s = at_root s ''runtime/update/images.json''"

definition compose_words :: "pyrt \<Rightarrow> station \<Rightarrow> ctl_log \<Rightarrow> string list \<Rightarrow> string list \<Rightarrow> bool" where
  "compose_words rt s p arguments ws \<longleftrightarrow>
     (if \<not> st_exists s p (images_file s) then ws = [''docker'', ''compose''] @ arguments
      else \<exists>t m project. st_read s p (images_file s) = Inr t \<and> st_json s t = JText (JObj m) \<and> map_of m ''name'' = Some project
        \<and> ws = [''docker'', ''compose'', ''--project-name'', py_str rt project,
             ''-f'', at_root s ''docker-compose.yml'', ''-f'', images_file s] @ arguments)"

text \<open>
  Redis, asked through Docker Compose after the events \<open>q\<close>, answers with an active pool that has
  entries, and their number is printed.
\<close>

definition pool_reported :: "pyrt \<Rightarrow> station \<Rightarrow> ctl_log \<Rightarrow> ctl_log \<Rightarrow> bool" where
  "pool_reported rt s q waited \<longleftrightarrow> (\<exists>words out data entries.
     compose_words rt s q [''exec'', ''-T'', ''redis'', ''redis-cli'', ''--raw'', ''GET'', ''proxy_pool:active:v1''] words
     \<and> st_run s q words = Inr (0, out) \<and> st_json s out = JText (JObj data)
     \<and> map_of data ''entries'' = Some (JArr entries) \<and> entries \<noteq> []
     \<and> prefix (q @ [(Run words, True), (Print (''ACTIVE_POOL ready='' @ dec (length entries)), True)]) waited)"

lemma compose_command_words:
  assumes "compose_command s arguments p = (Inr js, c)"
  shows "compose_words rt s p arguments (map (py_str rt) js)" "c = p"
proof -
  have subscript: "subscript v ''name'' = Inr x \<longleftrightarrow> (\<exists>m. v = JObj m \<and> map_of m ''name'' = Some x)" for v x
    by (cases v) (auto simp: subscript_def item_def of_option_eq_Inr)
  have loads: "json_loads j = Inr v \<longleftrightarrow> j = JText v" for j v by (cases j) simp_all
  show "c = p" using silent[OF compose_command_silent assms] .
  show "compose_words rt s p arguments (map (py_str rt) js)"
    using assms unfolding compose_command_def compose_words_def images_file_def
    by (auto simp: Let_def exists_file_def read_text_def observe_def io_return_eq io_lift_eq rbind_eq_Inr subscript loads o_def
        elim!: io_bindE split: if_splits)
qed

lemma rmap_text_of: "rmap text_of js = Inr ws \<Longrightarrow> ws = map (py_str rt) js"
  by (induction js arbitrary: ws) (auto simp: rbind_eq_Inr text_of_Inr)

lemma compose_words_snoc: "compose_words rt s p arguments ws \<Longrightarrow> compose_words rt s p (arguments @ [w]) (ws @ [w])"
  unfolding compose_words_def by (auto split: if_splits)

lemma start_services_Inr:
  assumes "start_services rt s args past = (Inr u, c)"
  shows "\<exists>v checked ws out. load_and_validate rt s past = (Inr v, checked)
    \<and> compose_words rt s checked [''up'', ''--detach'',
         if a_no_build args \<or> st_exists s checked (images_file s) then ''--no-build'' else ''--build''] ws
    \<and> st_run s checked ws = Inr (0, out) \<and> c = checked @ [(Run ws, True)]"
proof -
  obtain v checked js c1 no_build c2 ws c3 n out where
    "st_euid s = 0" and load: "load_and_validate rt s past = (Inr v, checked)"
    and js: "compose_command s [''up'', ''--detach''] checked = (Inr js, c1)"
    and no: "(if a_no_build args then io_return True else exists_file s (at_root s ''runtime/update/images.json'')) c1 = (Inr no_build, c2)"
    and ws: "io_lift (rmap text_of (js @ [JStr (if no_build then ''--no-build'' else ''--build'')])) c2 = (Inr ws, c3)"
    and run: "spawn s ws c3 = (Inr (n, out), c)" "n = 0"
    using assms unfolding start_services_def
    by (elim io_bindE) (auto simp: require_root_cases io_simps split: prod.splits if_splits)
  have c1: "c1 = checked" using silent[OF compose_command_silent js] .
  have no_build: "c2 = c1" "no_build \<longleftrightarrow> a_no_build args \<or> st_exists s checked (images_file s)"
    using no c1 by (auto simp: io_return_eq exists_file_def observe_def images_file_def split: if_splits)
  have c3: "c3 = c2" and words: "ws = map (py_str rt) js @ [if no_build then ''--no-build'' else ''--build'']"
    using ws rmap_text_of[of "js @ [JStr (if no_build then ''--no-build'' else ''--build'')]" ws rt] by (auto simp: io_lift_eq)
  have "c = checked @ [(Run ws, True)]" using spawn_Inr[OF run(1)] run(2) c1 no_build(1) c3 by simp
  moreover have "st_run s checked ws = Inr (0, out)"
    using run c1 no_build(1) c3 by (auto simp: spawn_def split: sum.splits)
  moreover have "compose_words rt s checked ([''up'', ''--detach''] @ [if no_build then ''--no-build'' else ''--build'']) ws"
    unfolding words by (rule compose_words_snoc) (rule compose_command_words[OF js])
  ultimately show ?thesis using load no_build(2) by (cases v) auto
qed

text \<open>What \<open>wait\<close> saw when it returns, whatever the clock does.\<close>

lemma announce_reports:
  assumes "announce rt s past = (Inr True, c)"
  shows "pool_reported rt s past c"
proof -
  obtain snap c1 where snap: "active_snapshot rt s past = (Inr snap, c1)" "pool_ready snap \<noteq> []"
    and rest: "io_bind (show_pool rt s (the snap)) (\<lambda>_. io_return True) c1 = (Inr True, c)"
    using assms unfolding announce_def by (auto elim!: io_bindE simp: io_return_eq split: if_splits)
  obtain n out c2 where run: "run_compose rt s active_command past = (Inr (n, out), c2)" "io_lift (pool_of_output s (n, out)) c2 = (Inr snap, c1)"
    using snap(1) unfolding active_snapshot_def by (auto elim!: io_bindE)
  obtain js c3 where js: "compose_command s active_command past = (Inr js, c3)" "spawn s (map (py_str rt) js) c3 = (Inr (n, out), c2)"
    using run(1) unfolding run_compose_def by (auto elim!: io_bindE)
  note words = compose_command_words[OF js(1)]
  have pool: "pool_of_output s (n, out) = Inr snap" "c1 = c2" using run(2) by (simp_all add: io_lift_eq)
  have some: "snap \<noteq> None" using snap(2) by (cases snap) (simp_all add: pool_ready_def)
  then have v: "n = 0" "strip out \<noteq> []" using pool(1) by (auto simp: pool_of_output_def split: if_splits)
  obtain data entries where data: "st_json s out = JText (JObj data)" "snap = Some data" "get data ''entries'' = JArr entries"
    using pool(1) some v by (cases "st_json s out") (auto simp: pool_of_output_def rbind_eq_Inr split: json.splits)
  have entries: "map_of data ''entries'' = Some (JArr entries)"
    using data(3) by (auto simp: get_def get_default_def split: option.splits)
  have ran: "st_run s past (map (py_str rt) js) = Inr (0, out)" "c2 = past @ [(Run (map (py_str rt) js), True)]"
    using js(2) words(2) v(1) by (auto simp: spawn_def split: sum.splits)
  have "prefix (c1 @ [(Print (''ACTIVE_POOL ready='' @ dec (length entries)), True)]) c"
    using rest data(2,3) unfolding show_pool_def
    by (auto elim!: io_bindE dest!: print_Inr simp: io_return_eq io_lift_eq pool_ready_def)
  then have "prefix (past @ [(Run (map (py_str rt) js), True), (Print (''ACTIVE_POOL ready='' @ dec (length entries)), True)]) c"
    using pool(2) ran(2) by simp
  then show ?thesis
    using words(1)[of rt] ran(1) data(1) entries snap(2) data(2,3)
    unfolding pool_reported_def active_command_def active_key_def pool_ready_def by auto
qed

lemma wait_loop_Some:
  assumes run: "wait_loop rt s deadline past = Some (Inr (), c)"
  shows "\<exists>p. prefix past p \<and> st_clock s p < deadline \<and> pool_reported rt s (p @ [(Clock, True)]) c"
proof -
  let ?Q = "\<lambda>rt s deadline past (y :: unit res \<times> ctl_log). fst y = Inr () \<longrightarrow>
    (\<exists>p. prefix past p \<and> st_clock s p < deadline \<and> pool_reported rt s (p @ [(Clock, True)]) (snd y))"
  have "?Q rt s deadline past (Inr (), c)"
  proof (rule wait_loop.raw_induct[of ?Q, OF _ run], goal_cases)
    case (1 f rt s deadline past y)
    let ?p = "past @ [(Clock, True)]"
    obtain r c1 where first: "announce rt s ?p = (r, c1)" by fastforce
    obtain new where new: "c1 = ?p @ new" using announce_event[OF first] by blast
    show ?case
    proof (intro impI)
      assume found: "fst y = Inr ()"
      then have early: "st_clock s past < deadline" using 1(2) by (auto simp: tick_def split: if_splits)
      show "\<exists>p. prefix past p \<and> st_clock s p < deadline \<and> pool_reported rt s (p @ [(Clock, True)]) (snd y)"
      proof (cases "r = Inr True")
        case True
        then show ?thesis
          using 1(2) early first announce_reports by (intro exI[of _ past]) (auto simp: tick_def)
      next
        case False
        then have "f rt s deadline (c1 @ [(Sleep 3, True)]) = Some y"
          using 1(2) early first found by (auto simp: tick_def split: sum.splits if_splits)
        then have "\<exists>p. prefix (c1 @ [(Sleep 3, True)]) p \<and> st_clock s p < deadline \<and> pool_reported rt s (p @ [(Clock, True)]) (snd y)"
          using 1(1) found by blast
        then show ?thesis using new by (auto simp: prefix_def)
      qed
    qed
  qed
  then show ?thesis by simp
qed

lemma wait_Some:
  assumes "wait rt s T past = Some (Inr (), c)"
  shows "\<exists>p. prefix past p \<and> st_clock s p < st_clock s past + of_int T \<and> pool_reported rt s (p @ [(Clock, True)]) c"
proof -
  have "wait_loop rt s (st_clock s past + of_int T) (past @ [(Clock, True)]) = Some (Inr (), c)"
    using assms by (auto simp: wait_def may_bind_def returns_def require_root_cases tick_def split: if_splits)
  from wait_loop_Some[OF this] show ?thesis using append_prefixD by blast
qed

section \<open>Properties\<close>

text \<open>
  C32. \<open>ready\<close> comes to an end: on a clock that does not go back, whatever the services answer, it
  returns or raises after at most one gate check for every three seconds of its timeout. It returns
  only the result of a gate check that accepted the installation, begun before the deadline, with
  the settings that \<open>load_and_validate\<close> had just accepted.
\<close>

theorem ready_decides:
  assumes "clock_law s"
  shows "\<exists>r new. ready rt s gates args past = Some (r, past @ new)
    \<and> attempts is_gate new \<le> rounds (a_timeout args) 3
    \<and> (\<forall>result. r = Inr result \<longrightarrow> (\<exists>vals cs creds checked q.
        load_and_validate rt s past = (Inr (vals, cs, creds), checked)
        \<and> prefix checked q \<and> prefix (q @ [(Clock, True)]) (past @ new)
        \<and> st_clock s q < st_clock s checked + of_int (a_timeout args)
        \<and> Readiness.check (gates (q @ [(Clock, True)])) [''docker'', ''compose'']
            (map (\<lambda>(k, v). (k, JStr v)) vals) (a_since args) = Inr result))"
proof (cases "st_euid s = 0")
  case False
  then show ?thesis by (auto simp: ready_def may_bind_def returns_def require_root_cases)
next
  case True
  obtain q checked where load: "load_and_validate rt s past = (q, checked)" by fastforce
  obtain new where new: "checked = past @ new" "list_all (\<lambda>e. \<not> is_gate e) new"
    using load_and_validate_not_gate load by (rule emitsE)
  note none = attempts_none[OF new(2)]
  show ?thesis
  proof (cases q)
    case (Inl e)
    then show ?thesis using True load new none by (auto simp: ready_def may_bind_def returns_def require_root_cases)
  next
    case (Inr v)
    obtain vals cs creds where v: "v = (vals, cs, creds)" by (cases v)
    let ?T = "a_timeout args" and ?c = "checked @ [(Clock, True)]" and ?deadline = "st_clock s checked + of_int (a_timeout args)"
    have "settles (ready_loop s gates vals (a_since args) ?deadline ''readiness timeout'' ?c) ?c is_gate (rounds ?T 3)
        (gate_passed s gates vals (a_since args) ?deadline)"
      using gating.loop_settles[OF assms rounds_enough[OF assms, of 3 checked ?T "[(Clock, True)]"]] by simp
    then obtain r rest where loop: "ready_loop s gates vals (a_since args) ?deadline ''readiness timeout'' ?c = Some (r, ?c @ rest)"
        "attempts is_gate rest \<le> rounds ?T 3"
      and sound: "\<forall>y. r = Inr y \<longrightarrow> (\<exists>p. prefix ?c p \<and> prefix p (?c @ rest) \<and> gate_passed s gates vals (a_since args) ?deadline p y)"
      unfolding settles_def by blast
    let ?new = "new @ (Clock, True) # rest"
    have "ready rt s gates args past = Some (r, past @ ?new)"
      using True load Inr v loop(1) new(1) by (simp add: ready_def may_bind_def returns_def require_root_cases tick_def)
    moreover have "attempts is_gate ?new \<le> rounds ?T 3" using none loop(2) by simp
    moreover have "\<exists>q. prefix checked q \<and> prefix (q @ [(Clock, True)]) (past @ ?new) \<and> st_clock s q < ?deadline
        \<and> Readiness.check (gates (q @ [(Clock, True)])) [''docker'', ''compose'']
            (map (\<lambda>(k, v). (k, JStr v)) vals) (a_since args) = Inr result" if accepted: "r = Inr result" for result
    proof -
      obtain q where q: "prefix ?c (q @ [(Clock, True)])" "prefix (q @ [(Clock, True)]) (?c @ rest)" "st_clock s q < ?deadline"
        "gate_result gates vals (a_since args) (q @ [(Clock, True)]) = Inr result"
        using sound accepted unfolding gate_passed_def by blast
      have "prefix checked q" using q(1) by (auto simp: prefix_snoc dest: append_prefixD)
      moreover have "prefix (q @ [(Clock, True)]) (past @ ?new)" using q(2) new(1) by simp
      ultimately show ?thesis using q(3,4) by (auto simp: gate_result_def gate_check_def Let_def)
    qed
    ultimately show ?thesis using load Inr v by blast
  qed
qed

text \<open>
  \<open>wait\<close> comes to an end as well, after at most one query of the active pool for every three
  seconds, and returns only after it read an active pool with entries before its deadline.
\<close>

theorem wait_decides:
  assumes "clock_law s"
  shows "\<exists>r new. wait rt s T past = Some (r, past @ new) \<and> attempts is_run new \<le> rounds T 3
    \<and> (r = Inr () \<longrightarrow> (\<exists>q snap. prefix past q \<and> prefix (q @ [(Clock, True)]) (past @ new)
        \<and> st_clock s q < st_clock s past + of_int T
        \<and> fst (active_snapshot rt s (q @ [(Clock, True)])) = Inr snap \<and> pool_ready snap \<noteq> []))"
proof (cases "st_euid s = 0")
  case False
  then show ?thesis by (auto simp: wait_def may_bind_def returns_def require_root_cases)
next
  case True
  let ?c = "past @ [(Clock, True)]" and ?deadline = "st_clock s past + of_int T"
  have "settles (wait_loop rt s ?deadline ?c) ?c is_run (rounds T 3) (\<lambda>p _. pool_seen rt s ?deadline p)"
    using waiting.loop_settles[OF assms rounds_enough[OF assms, of 3 past T "[(Clock, True)]"]] by simp
  then obtain r rest where loop: "wait_loop rt s ?deadline ?c = Some (r, ?c @ rest)" "attempts is_run rest \<le> rounds T 3"
    and sound: "r = Inr () \<longrightarrow> (\<exists>p. prefix ?c p \<and> prefix p (?c @ rest) \<and> pool_seen rt s ?deadline p)"
    unfolding settles_def by blast
  have "wait rt s T past = Some (r, past @ (Clock, True) # rest)"
    using True loop(1) by (simp add: wait_def may_bind_def returns_def require_root_cases tick_def)
  moreover have "attempts is_run ((Clock, True) # rest) \<le> rounds T 3" using loop(2) by simp
  moreover have "r = Inr () \<longrightarrow> (\<exists>q snap. prefix past q \<and> prefix (q @ [(Clock, True)]) (past @ (Clock, True) # rest)
      \<and> st_clock s q < ?deadline \<and> fst (active_snapshot rt s (q @ [(Clock, True)])) = Inr snap \<and> pool_ready snap \<noteq> [])"
  proof
    assume "r = Inr ()"
    then obtain q snap where q: "prefix ?c (q @ [(Clock, True)])" "prefix (q @ [(Clock, True)]) (?c @ rest)"
      "st_clock s q < ?deadline" "fst (active_snapshot rt s (q @ [(Clock, True)])) = Inr snap" "pool_ready snap \<noteq> []"
      using sound unfolding pool_seen_def by blast
    have "prefix past q" using q(1) by (auto simp: prefix_snoc dest: append_prefixD)
    then show "\<exists>q snap. prefix past q \<and> prefix (q @ [(Clock, True)]) (past @ (Clock, True) # rest)
      \<and> st_clock s q < ?deadline \<and> fst (active_snapshot rt s (q @ [(Clock, True)])) = Inr snap \<and> pool_ready snap \<noteq> []"
      using q(2-5) by auto
  qed
  ultimately show ?thesis by blast
qed

text \<open>
  However \<open>write_systemd_unit\<close> ends, or is interrupted, the unit file holds its old content or
  the complete new one: the only event that concerns it is one replacement by the temporary file,
  after that file was created exclusively and its content written, synced and owned by root. When the
  call returns, the replacement has taken place.
\<close>

theorem unit_replaced_whole:
  assumes "write_systemd_unit s content past = (r, past')"
  shows "\<exists>new. past' = past @ new
    \<and> (\<forall>early e late. new = early @ e # late \<and> touches_unit e \<longrightarrow>
        early = unit_written content \<and> fst e = fst unit_replaced \<and> \<not> list_ex touches_unit late)
    \<and> (r = Inr () \<longrightarrow> unit_replaced \<in> set new)"
proof -
  let ?unlink = "\<lambda>b. (FileOp ''unlink'' TEMPORARY_UNIT [], b)"
  obtain q c where body: "io_bind (file_op s ''create'' TEMPORARY_UNIT []) (\<lambda>_. io_bind (file_op s ''write'' TEMPORARY_UNIT content) (\<lambda>_.
    io_bind (file_op s ''fsync'' TEMPORARY_UNIT []) (\<lambda>_. io_bind (file_op s ''chown'' TEMPORARY_UNIT ''0:0'') (\<lambda>_.
    file_op s ''replace'' TEMPORARY_UNIT SYSTEMD_UNIT)))) past = (q, c)" by fastforce
  obtain b where unlink: "past' = c @ [?unlink b]" "r = Inr () \<longrightarrow> q = Inr ()"
    using finally_unlink_cases[OF assms[unfolded write_systemd_unit_def] body] by blast
  have quiet: "\<not> touches_unit (?unlink b)" "list_all (\<lambda>e. \<not> touches_unit e) (unit_written content)"
    by (simp_all add: touches_simps unit_written_def)
  from unit_body_cases[OF body] show ?thesis
  proof (elim disjE exE conjE)
    fix w assume w: "c = past @ w" "list_all (\<lambda>e. \<not> touches_unit e) w" "q \<noteq> Inr ()"
    then have "list_all (\<lambda>e. \<not> touches_unit e) (w @ [?unlink b])" using quiet by simp
    then have "\<not> touches_unit e" if "w @ [?unlink b] = early @ e # late" for early e late
      unfolding that by simp
    then show ?thesis using w unlink by (intro exI[of _ "w @ [?unlink b]"]) auto
  next
    fix b' assume w: "c = past @ unit_written content @ [(fst unit_replaced, b')]" "q = Inr () \<longrightarrow> b'"
    let ?new = "unit_written content @ (fst unit_replaced, b') # [?unlink b]"
    have "early = unit_written content \<and> fst e = fst unit_replaced \<and> \<not> list_ex touches_unit late"
      if "?new = early @ e # late" "touches_unit e" for early e late
      using one_touch[OF that(1) quiet(2) _ that(2)] quiet(1) by simp
    moreover have "r = Inr () \<longrightarrow> unit_replaced \<in> set ?new" using unlink(2) w(2) by (auto simp: unit_replaced_def)
    moreover have "past' = past @ ?new" using unlink(1) w(1) by simp
    ultimately show ?thesis by blast
  qed
qed

text \<open>
  When \<open>down\<close> returns, the service or the Compose project was stopped with success, and a query
  made after that listed no running container.
\<close>

theorem down_stops:
  assumes "down s args past = (Inr (), past')"
  shows "\<exists>stopped ws out. ((\<exists>vs. st_exists s past SYSTEMD_UNIT \<and> \<not> a_skip_service args \<and> vs = [''systemctl'', ''stop'', UNIT_NAME]
        \<and> stopped = past @ [(Run vs, True)])
      \<or> (\<exists>js vs. compose_command s [''stop'', ''--timeout'', ''20''] past = (Inr js, past) \<and> rmap text_of js = Inr vs
        \<and> stopped = past @ [(Run vs, True)]))
    \<and> spawn_compose s ps_running stopped = (Inr (0, out), stopped @ [(Run ws, True)]) \<and> strip out = []
    \<and> past' = stopped @ [(Run ws, True), (Print ''DOWN stopped=1'', True)]"
proof -
  obtain stopped n out c where run: "stop_services s args past = (Inr (), stopped)"
    "spawn_compose s ps_running stopped = (Inr (n, out), c)" "n = 0" "strip out = []"
    "print s ''DOWN stopped=1'' c = (Inr (), past')"
    using assms unfolding down_def
    by (elim io_bindE) (auto simp: require_root_cases io_simps split: prod.splits if_splits elim!: io_bindE)
  obtain ws where "c = stopped @ [(Run ws, True)]" using run(2,3) by (auto elim: spawn_compose_Inr)
  then show ?thesis using stop_services_Inr[OF run(1)] run(2-4) print_Inr[OF run(5)] by auto
qed

text \<open>
  C31. \<open>up\<close> returns only after each of its steps succeeded, in this order: the configuration was
  accepted; \<open>docker compose up --detach\<close> of this checkout returned 0, without building when the
  caller or the pinned images of an update forbid it; Redis, asked before the deadline, answered with an
  active pool that has entries, whose number was printed; and, unless it runs inside the service, the
  unit of this checkout was written, enabled and found active.
\<close>

theorem up_starts:
  assumes "up rt s args past = Some (Inr (), past')"
  shows "\<exists>v checked words out p waited. load_and_validate rt s past = (Inr v, checked)
    \<and> compose_words rt s checked [''up'', ''--detach'',
         if a_no_build args \<or> st_exists s checked (images_file s) then ''--no-build'' else ''--build''] words
    \<and> st_run s checked words = Inr (0, out)
    \<and> prefix (checked @ [(Run words, True)]) p
    \<and> st_clock s p < st_clock s (checked @ [(Run words, True)]) + of_int (a_timeout args)
    \<and> pool_reported rt s (p @ [(Clock, True)]) waited
    \<and> (if a_skip_service args then past' = waited
       else \<exists>content b. systemd_unit s (a_timeout args) = Inr content \<and> past' = waited @ service_log content b
          \<and> ''WorkingDirectory='' @ st_root s \<in> set (splitlines content))"
proof -
  obtain started waited where run: "start_services rt s args past = (Inr (), started)"
    "wait rt s (a_timeout args) started = Some (Inr (), waited)"
    "(if a_skip_service args then io_return () else install_service s (a_timeout args)) waited = (Inr (), past')"
    using assms unfolding up_def by (auto elim!: may_bind_Some simp: returns_def)
  have "if a_skip_service args then past' = waited
       else \<exists>content b. systemd_unit s (a_timeout args) = Inr content \<and> past' = waited @ service_log content b
          \<and> ''WorkingDirectory='' @ st_root s \<in> set (splitlines content)"
    using run(3) install_service_Inr[of s "a_timeout args" waited] systemd_unit_directory
    by (auto simp: io_return_eq split: if_splits)
  then show ?thesis using start_services_Inr[OF run(1)] wait_Some[OF run(2)] by blast
qed

text \<open>
  The error of \<open>http.client\<close> on a malformed answer of the relay's peer is in neither list of
  exceptions: \<open>ready\<close> does not try again and the process ends with a traceback.
\<close>

lemma gate_http_error_escapes:
  assumes "st_euid s = 0" "load_and_validate rt s past = (Inr (vals, cs, creds), c)"
    and "st_clock s (c @ [(Clock, True)]) < st_clock s c + of_int (a_timeout args)"
    and "\<And>p. gate_check gates vals (a_since args) p = (Inl (HTTPException m), p @ [(Gate, False)])"
  shows "main rt s gates Ready args past
    = Some (Traceback (HTTPException m), c @ [(Clock, True), (Clock, True), (Gate, False)])"
proof -
  have "ready_loop s gates vals (a_since args) (st_clock s c + of_int (a_timeout args)) reason (c @ [(Clock, True)])
      = Some (Inl (HTTPException m), c @ [(Clock, True), (Clock, True), (Gate, False)])" for reason
    using assms(3,4) by (subst ready_loop.simps) (simp add: tick_def attempt_def io_bind_def)
  then show ?thesis
    using assms(1,2) by (simp add: main_def handler_def ready_def may_bind_def returns_def require_root_cases tick_def)
qed

section \<open>Witnesses\<close>

definition sample_args :: ctl_args where
  "sample_args = \<lparr>a_timeout = 3, a_no_build = False, a_skip_service = False, a_since = None\<rparr>"

lemma sample_clock_law: "clock_law (sample_station r)"
  by (rule clock_law_sample) (simp add: sample_station_def)

definition sample_gates :: "ctl_log \<Rightarrow> gate" where
  "sample_gates past = \<lparr>g_run = (\<lambda>_. Inl (RuntimeError ''cannot query services or Redis'')), g_json = (\<lambda>_. BadText),
     g_now = (\<lambda>_. 0), g_echo = \<lparr>en_connect = Inl (OSError []), en_response = (\<lambda>_. Inl (OSError [])), en_marker = [],
       en_json = (\<lambda>_. BadText)\<rparr>,
     g_local_echo = \<lparr>en_connect = Inl (OSError []), en_response = (\<lambda>_. Inl (OSError [])), en_marker = [],
       en_json = (\<lambda>_. BadText)\<rparr>\<rparr>"

lemma ready_decides_witness:
  "\<exists>r new. ready plain_rt (sample_station JNull) sample_gates sample_args [] = Some (r, new) \<and> attempts is_gate new \<le> 1"
  using ready_decides[OF sample_clock_law, of plain_rt JNull sample_gates sample_args "[]"]
  by (auto simp: sample_args_def rounds_def)

lemma wait_decides_witness:
  "\<exists>r new. wait plain_rt (sample_station JNull) 6 [] = Some (r, new) \<and> attempts is_run new \<le> 2"
  using wait_decides[OF sample_clock_law, of plain_rt JNull 6 "[]"] by (auto simp: rounds_def)

lemma unit_replaced_whole_witness:
  "unit_replaced \<in> set (snd (write_systemd_unit (sample_station JNull) ''content'' []))"
proof -
  have "fst (write_systemd_unit (sample_station JNull) ''content'' []) = Inr ()" by code_simp
  then have "write_systemd_unit (sample_station JNull) ''content'' [] = (Inr (), snd (write_systemd_unit (sample_station JNull) ''content'' []))"
    by (simp add: prod_eq_iff)
  from unit_replaced_whole[OF this] show ?thesis by auto
qed

lemma down_stops_witness:
  "\<exists>stopped :: ctl_log. \<exists>ws. snd (down (sample_station JNull) sample_args []) = stopped @ [(Run ws, True), (Print ''DOWN stopped=1'', True)]"
proof -
  have "fst (down (sample_station JNull) sample_args []) = Inr ()" by code_simp
  then have "down (sample_station JNull) sample_args [] = (Inr (), snd (down (sample_station JNull) sample_args []))"
    by (simp add: prod_eq_iff)
  from down_stops[OF this] show ?thesis by blast
qed

definition sample_started :: ctl_log where
  "sample_started = [(Run [''docker'', ''compose'', ''config'', ''--quiet''], True),
     (Run [''docker'', ''compose'', ''up'', ''--detach'', ''--build''], True)]"

definition sample_waited :: "unit res \<times> ctl_log" where
  "sample_waited = the (wait plain_rt (sample_station (JStr ''a'')) 3 sample_started)"

lemma sample_start: "start_services plain_rt (sample_station (JStr ''a'')) sample_args [] = (Inr (), sample_started)"
proof -
  let ?s = "sample_station (JStr ''a'')"
  have "check_candidate 1 sample_logins (JObj (sample_entry (JStr ''a''))) = Inr (sample_entry (JStr ''a''))" by code_simp
  note load = sample_checked[OF this]
  let ?log = "[(Run [''docker'', ''compose'', ''config'', ''--quiet''], True)] :: ctl_log"
  have "require_root ?s [] = (Inr (), [])" "a_no_build sample_args = False"
    "compose_command ?s [''up'', ''--detach''] ?log = (Inr (map JStr [''docker'', ''compose'', ''up'', ''--detach'']), ?log)"
    "exists_file ?s (at_root ?s ''runtime/update/images.json'') ?log = (Inr False, ?log)"
    "rmap text_of (map JStr [''docker'', ''compose'', ''up'', ''--detach''] @ [JStr ''--build'']) =
      Inr [''docker'', ''compose'', ''up'', ''--detach'', ''--build'']"
    "spawn ?s [''docker'', ''compose'', ''up'', ''--detach'', ''--build''] ?log = (Inr (0, []), sample_started)"
    by code_simp+
  then show ?thesis
    unfolding start_services_def
    by (simp only: io_bind_def load prod.case sum.case if_False io_lift_def io_ensure_def io_return_def simp_thms if_True)
qed

lemma sample_wait: "wait plain_rt (sample_station (JStr ''a'')) 3 sample_started = Some (Inr (), snd sample_waited)"
proof -
  let ?s = "sample_station (JStr ''a'')"
  let ?c = "sample_started @ [(Clock, True), (Clock, True)]"
  have parts: "st_euid ?s = 0" "st_clock ?s sample_started = 0" "st_clock ?s (sample_started @ [(Clock, True)]) = 0"
    "fst (announce plain_rt ?s ?c) = Inr True"
    by code_simp+
  obtain c1 where "announce plain_rt ?s ?c = (Inr True, c1)"
    using parts(4) by (cases "announce plain_rt ?s ?c") simp
  then have "wait_loop plain_rt ?s 3 (sample_started @ [(Clock, True)]) = Some (Inr (), c1)"
    using parts by (subst wait_loop.simps) (simp add: tick_def)
  then show ?thesis
    using parts by (simp add: sample_waited_def wait_def may_bind_def returns_def require_root_cases tick_def)
qed

lemma up_starts_witness:
  "\<exists>past' p waited content b. up plain_rt (sample_station (JStr ''a'')) sample_args [] = Some (Inr (), past')
    \<and> pool_reported plain_rt (sample_station (JStr ''a'')) (p @ [(Clock, True)]) waited
    \<and> past' = waited @ service_log content b \<and> ''WorkingDirectory=r'' \<in> set (splitlines content)"
proof -
  let ?s = "sample_station (JStr ''a'')"
  let ?i = "install_service ?s 3 (snd sample_waited)"
  have "fst (install_service ?s 3 past) = Inr ()" for past by code_simp
  then have "?i = (Inr (), snd ?i)" by (simp add: prod_eq_iff)
  then have run: "up plain_rt ?s sample_args [] = Some (Inr (), snd ?i)"
    using sample_start sample_wait by (simp add: up_def may_bind_def returns_def sample_args_def)
  have "\<not> a_skip_service sample_args" "st_root ?s = ''r''" by code_simp+
  then show ?thesis using up_starts[OF run] run by (auto cong: conj_cong)
qed

end
