(* ===== verification/Balance_Api.thy ===== *)
theory Balance_Api
  imports Station
begin

text \<open>
  The service \<open>tg-balance-api.py\<close>, which switches the balancing of a HAProxy between two modes. The
  parsing of requests and the sending of answers belong to \<open>http.server\<close>: a request is its path
  and its \<open>Authorization\<close> header, an answer its status and its JSON value, and an exception that
  leaves the handler closes the connection without an answer.
\<close>

record balancer =
  bl_host :: station
  bl_stderr :: "ctl_log \<Rightarrow> string list \<Rightarrow> string"
  bl_temp :: "ctl_log \<Rightarrow> string"

definition MODE_PATH :: string where
  "MODE_PATH = ''/etc/haproxy/tg-balance-mode''"

definition TOKEN_PATH :: string where
  "TOKEN_PATH = ''/etc/haproxy/tg-balance-api.token''"

definition CONFIG_PATH :: string where
  "CONFIG_PATH = ''/etc/haproxy/haproxy.cfg''"

definition VALID_MODES :: "string list" where
  "VALID_MODES = [''round-robin'', ''stick-table'']"

definition mode_of_text :: "string \<Rightarrow> string" where
  "mode_of_text t = (if strip t \<in> set VALID_MODES then strip t else ''round-robin'')"

definition current_mode :: "balancer \<Rightarrow> string ctl" where
  "current_mode b = io_bind (read_text (bl_host b) MODE_PATH) (\<lambda>t. io_return (mode_of_text t))"

definition server_line :: "nat \<Rightarrow> string" where
  "server_line i = ''    server test'' @ dec i @ '' 10.10.10.'' @ dec (10 + i) @ '':3128 check''"

definition render :: "string \<Rightarrow> string" where
  "render mode = join [LF]
     ([''global'', ''    log /dev/log local0'', ''    maxconn 1000'',
       ''    stats socket /run/haproxy/admin.sock mode 660 level admin'', [],
       ''defaults'', ''    mode tcp'', ''    timeout connect 5s'', ''    timeout client 60s'', ''    timeout server 60s'', [],
       ''frontend test_forward_proxy'', ''    bind 10.10.10.2:3129'', ''    default_backend proxy_pool'', [],
       ''backend proxy_pool'', ''    balance roundrobin'', ''    stick-table type ip size 200k expire 30m store conn_cur'']
      @ (if mode = ''stick-table'' then [''    stick on src''] else [])
      @ [''    option tcp-check''] @ map server_line [1..<9]) @ [LF]"

text \<open>\<open>subprocess.run(command, check=True, capture_output=True)\<close>.\<close>

definition run_checked :: "balancer \<Rightarrow> string list \<Rightarrow> unit ctl" where
  "run_checked b command past =
     io_bind (spawn (bl_host b) command) (\<lambda>(n, _).
     io_ensure (n = 0) (CalledProcessError (bl_stderr b past command))) past"

definition haproxy_check :: "string \<Rightarrow> string list" where
  "haproxy_check path = [''/usr/sbin/haproxy'', ''-c'', ''-f'', path]"

definition haproxy_reload :: "string list" where
  "haproxy_reload = [''/usr/bin/systemctl'', ''reload'', ''haproxy'']"

definition remove_existing :: "station \<Rightarrow> string \<Rightarrow> unit ctl" where
  "remove_existing s path =
     io_bind (exists_file s path) (\<lambda>there. if there then file_op s ''unlink'' path [] else io_return ())"

definition apply_config :: "balancer \<Rightarrow> string \<Rightarrow> string \<Rightarrow> unit ctl" where
  "apply_config b temp mode =
     (let s = bl_host b in
      io_bind (file_op s ''write'' temp (render mode)) (\<lambda>_.
      io_bind (run_checked b (haproxy_check temp)) (\<lambda>_.
      io_bind (file_op s ''replace'' temp CONFIG_PATH) (\<lambda>_.
      io_bind (run_checked b haproxy_reload) (\<lambda>_.
      file_op s ''write'' MODE_PATH (mode @ [LF]))))))"

definition set_mode :: "balancer \<Rightarrow> string \<Rightarrow> unit ctl" where
  "set_mode b mode =
     io_bind (io_ensure (mode \<in> set VALID_MODES) (ValueError ''unsupported mode'')) (\<lambda>_ past.
     let temp = bl_temp b past; s = bl_host b in
     io_bind (file_op s ''create'' temp []) (\<lambda>_. try_finally (remove_existing s temp) (apply_config b temp mode)) past)"

section \<open>The requests\<close>

type_synonym answer = "nat \<times> json"

text \<open>\<open>hmac.compare_digest\<close> takes only ASCII texts.\<close>

definition compare_digest :: "string \<Rightarrow> string \<Rightarrow> bool res" where
  "compare_digest a b = (if list_all is_ascii a \<and> list_all is_ascii b then Inr (a = b) else Inl TypeError)"

definition authorized :: "balancer \<Rightarrow> string option \<Rightarrow> bool ctl" where
  "authorized b header =
     io_bind (read_text (bl_host b) TOKEN_PATH) (\<lambda>token.
     io_lift (compare_digest (case header of None \<Rightarrow> [] | Some h \<Rightarrow> h) (''Bearer '' @ strip token)))"

definition not_found :: answer where
  "not_found = (404, JObj [(''error'', JStr ''not found'')])"

definition do_GET :: "balancer \<Rightarrow> string \<Rightarrow> answer ctl" where
  "do_GET b path =
     (if path \<noteq> ''/v1/balancing'' then io_return not_found
      else io_bind (current_mode b) (\<lambda>mode.
        io_return (200, JObj [(''mode'', JStr mode), (''backend'', JStr ''proxy_pool''),
          (''selection'', JStr (if mode = ''round-robin'' then ''roundrobin'' else ''stick-table (stick on src)''))])))"

definition mode_of_path :: "string \<Rightarrow> string option" where
  "mode_of_path = map_of [(''/v1/balancing/round-robin'', ''round-robin''), (''/v1/balancing/stick-table'', ''stick-table'')]"

fun exn_name :: "exn \<Rightarrow> string" where
  "exn_name (ValueError _) = ''ValueError''"
| "exn_name UnicodeError = ''UnicodeError''"
| "exn_name JSONDecodeError = ''JSONDecodeError''"
| "exn_name (OSError _) = ''OSError''"
| "exn_name (AsnDatabaseError _) = ''AsnDatabaseError''"
| "exn_name TimeoutError = ''TimeoutError''"
| "exn_name IncompleteReadError = ''IncompleteReadError''"
| "exn_name LimitOverrunError = ''LimitOverrunError''"
| "exn_name TypeError = ''TypeError''"
| "exn_name KeyError = ''KeyError''"
| "exn_name AttributeError = ''AttributeError''"
| "exn_name IndexError = ''IndexError''"
| "exn_name (UserError _) = ''UserError''"
| "exn_name (UpdateFailure _) = ''UpdateFailure''"
| "exn_name (RuntimeError _) = ''RuntimeError''"
| "exn_name (HTTPException _) = ''HTTPException''"
| "exn_name TimeoutExpired = ''TimeoutExpired''"
| "exn_name (CalledProcessError _) = ''CalledProcessError''"
| "exn_name KeyboardInterrupt = ''KeyboardInterrupt''"

definition error_answer :: "exn \<Rightarrow> answer" where
  "error_answer e = (case e of
     CalledProcessError err \<Rightarrow> (500, JObj [(''error'', JStr ''haproxy reload failed''),
       (''detail'', JStr (drop (length err - 500) err))])
   | _ \<Rightarrow> (500, JObj [(''error'', JStr (exn_name e))]))"

definition applied :: "string \<Rightarrow> answer" where
  "applied mode = (200, JObj [(''mode'', JStr mode), (''result'', JStr ''applied'')])"

definition do_POST :: "balancer \<Rightarrow> string \<Rightarrow> string option \<Rightarrow> answer ctl" where
  "do_POST b path header =
     (case mode_of_path path of
        None \<Rightarrow> io_return not_found
      | Some mode \<Rightarrow>
          io_bind (authorized b header) (\<lambda>allowed.
          if \<not> allowed then io_return (401, JObj [(''error'', JStr ''bearer token required'')])
          else (\<lambda>past. case set_mode b mode past of
              (Inr _, c) \<Rightarrow> (Inr (applied mode), c)
            | (Inl e, c) \<Rightarrow> (if e = KeyboardInterrupt then Inl e else Inr (error_answer e), c))))"

section \<open>Lemmas\<close>

lemma authorized_silent: "emits (\<lambda>_. False) (authorized b header)"
  unfolding authorized_def read_text_def by (intro emits_intros)

lemma authorized_Inr:
  assumes "authorized b header past = (Inr a, c)"
  shows "c = past \<and> (\<exists>token. st_read (bl_host b) past TOKEN_PATH = Inr token
    \<and> (a \<longleftrightarrow> (case header of None \<Rightarrow> [] | Some h \<Rightarrow> h) = ''Bearer '' @ strip token))"
  using assms silent[OF authorized_silent assms]
  by (auto simp: authorized_def read_text_def observe_def compare_digest_def io_lift_eq elim!: io_bindE split: if_splits)

lemma run_checked_cases:
  assumes "run_checked b command past = (r, c)"
  shows "\<exists>ran. c = past @ [(Run command, ran)] \<and> (r = Inr () \<longrightarrow> ran)"
proof -
  obtain q c1 where run: "spawn (bl_host b) command past = (q, c1)" by fastforce
  then obtain ran where "c1 = past @ [(Run command, ran)]" using spawn_event by blast
  moreover have "c = c1" "r = Inr () \<longrightarrow> (\<exists>out. q = Inr (0, out))"
    using assms run by (cases q; auto simp: run_checked_def io_bind_def io_ensure_def io_return_def io_raise_def split: if_splits)+
  ultimately show ?thesis using run spawn_Inr by fastforce
qed

text \<open>The events of a change of the configuration.\<close>

definition change_log :: "string \<Rightarrow> string \<Rightarrow> ctl_log" where
  "change_log temp mode = [(FileOp ''create'' temp [], True), (FileOp ''write'' temp (render mode), True),
     (Run (haproxy_check temp), True), (FileOp ''replace'' temp CONFIG_PATH, True),
     (Run haproxy_reload, True), (FileOp ''write'' MODE_PATH (mode @ [LF]), True)]"

lemma run_checked_bind_cases:
  assumes "io_bind (run_checked b command) f past = (r, c)"
  obtains e ran where "c = past @ [(Run command, ran)]" "r = Inl e"
    | "f () (past @ [(Run command, True)]) = (r, c)"
proof (rule io_bind_cases[OF assms])
  fix e assume "run_checked b command past = (Inl e, c)" "r = Inl e"
  then show thesis using that(1) run_checked_cases by blast
next
  fix u c1 assume run: "run_checked b command past = (Inr u, c1)" "f u c1 = (r, c)"
  then have "c1 = past @ [(Run command, True)]" using run_checked_cases[OF run(1)] by auto
  then show thesis using that(2) run(2) by simp
qed

lemma apply_config_cases:
  assumes "apply_config b temp mode past = (r, c)"
  shows "\<exists>new. c = past @ new \<and> partial_log (tl (change_log temp mode)) new
    \<and> (r = Inr () \<longrightarrow> new = tl (change_log temp mode))"
  using assms unfolding apply_config_def Let_def
  by (elim file_op_bind_cases run_checked_bind_cases) (auto simp: change_log_def dest!: file_op_cases)

text \<open>The temporary file is removed afterwards, when it is still there.\<close>

definition removed :: "string \<Rightarrow> ctl_log \<Rightarrow> bool" where
  "removed temp new \<longleftrightarrow> new = [] \<or> (\<exists>ran. new = [(FileOp ''unlink'' temp [], ran)])"

lemma remove_existing_cases:
  "remove_existing s path past = (r, c) \<Longrightarrow> \<exists>new. c = past @ new \<and> removed path new"
  by (auto simp: remove_existing_def removed_def exists_file_def observe_def io_bind_def io_return_def
      dest!: file_op_cases split: if_splits)

lemma set_mode_cases:
  assumes "set_mode b mode past = (r, c)" "mode \<in> set VALID_MODES"
  shows "\<exists>new late. c = past @ new @ late \<and> partial_log (change_log (bl_temp b past) mode) new \<and> removed (bl_temp b past) late
    \<and> (r = Inr () \<longrightarrow> new = change_log (bl_temp b past) mode)"
proof -
  let ?t = "bl_temp b past"
  have head: "change_log ?t mode = (FileOp ''create'' ?t [], True) # tl (change_log ?t mode)"
    by (simp add: change_log_def)
  have body: "io_bind (file_op (bl_host b) ''create'' ?t []) (\<lambda>_. try_finally (remove_existing (bl_host b) ?t) (apply_config b ?t mode)) past
      = (r, c)"
    using assms by (simp add: set_mode_def Let_def io_bind_def io_ensure_def io_return_def)
  then show ?thesis
  proof (rule file_op_bind_cases)
    fix e assume "c = past @ [(FileOp ''create'' ?t [], False)]" "r = Inl e"
    moreover have "partial_log (change_log ?t mode) [(FileOp ''create'' ?t [], False)]" by (simp add: change_log_def)
    ultimately show ?thesis by (force simp: removed_def)
  next
    let ?p = "past @ [(FileOp ''create'' ?t [], True)]"
    assume run: "try_finally (remove_existing (bl_host b) ?t) (apply_config b ?t mode) ?p = (r, c)"
    obtain q c1 where first: "apply_config b ?t mode ?p = (q, c1)" by fastforce
    obtain v c2 where last: "remove_existing (bl_host b) ?t c1 = (v, c2)" by fastforce
    obtain new where new: "c1 = ?p @ new" "partial_log (tl (change_log ?t mode)) new" "q = Inr () \<longrightarrow> new = tl (change_log ?t mode)"
      using apply_config_cases[OF first] by blast
    obtain late where late: "c2 = c1 @ late" "removed ?t late" using remove_existing_cases[OF last] by blast
    have end_: "c = c2" "r = Inr () \<longrightarrow> q = Inr ()"
      using run first last by (cases v; auto simp: try_finally_def)+
    have "partial_log (change_log ?t mode) ((FileOp ''create'' ?t [], True) # new)"
      using new(2) by (subst head) (cases new, auto)
    moreover have "c = past @ ((FileOp ''create'' ?t [], True) # new) @ late" using end_(1) new(1) late(1) by simp
    moreover have "r = Inr () \<longrightarrow> (FileOp ''create'' ?t [], True) # new = change_log ?t mode"
      using end_(2) new(3) head by auto
    ultimately show ?thesis using late(2) by blast
  qed
qed

lemma post_effect_cases:
  assumes "do_POST b path header past = (r, past')"
  shows "(past' = past \<and> (\<forall>v. r \<noteq> Inr (200, v)))
    \<or> (\<exists>mode token early late. mode_of_path path = Some mode \<and> st_read (bl_host b) past TOKEN_PATH = Inr token
        \<and> header = Some (''Bearer '' @ strip token) \<and> past' = past @ early @ late
        \<and> partial_log (change_log (bl_temp b past) mode) early \<and> removed (bl_temp b past) late
        \<and> ((\<exists>v. r = Inr (200, v)) \<longrightarrow> r = Inr (applied mode) \<and> early = change_log (bl_temp b past) mode))"
proof (cases "mode_of_path path")
  case None
  then show ?thesis using assms by (auto simp: do_POST_def io_return_def not_found_def)
next
  case (Some mode)
  then have valid: "mode \<in> set VALID_MODES" by (auto simp: mode_of_path_def VALID_MODES_def split: if_splits)
  obtain q c where auth: "authorized b header past = (q, c)" by fastforce
  have c: "c = past" using silent[OF authorized_silent auth] .
  show ?thesis
  proof (cases "q = Inr True")
    case False
    then show ?thesis
      using assms Some auth c by (cases q) (auto simp: do_POST_def io_bind_def io_return_def)
  next
    case True
    then obtain token where token: "st_read (bl_host b) past TOKEN_PATH = Inr token"
      "(case header of None \<Rightarrow> [] | Some h \<Rightarrow> h) = ''Bearer '' @ strip token"
      using authorized_Inr[of b header past True c] auth by auto
    obtain v c1 where set: "set_mode b mode past = (v, c1)" by fastforce
    obtain early late where change: "c1 = past @ early @ late" "partial_log (change_log (bl_temp b past) mode) early"
      "removed (bl_temp b past) late" "v = Inr () \<longrightarrow> early = change_log (bl_temp b past) mode"
      using set_mode_cases[OF set valid] by blast
    have r: "past' = c1" "r = (case v of Inr _ \<Rightarrow> Inr (applied mode)
        | Inl e \<Rightarrow> if e = KeyboardInterrupt then Inl e else Inr (error_answer e))"
      using assms Some auth c True set by (auto simp: do_POST_def io_bind_def split: sum.splits)
    have "v = Inr ()" if "r = Inr (200, w)" for w
      using that r(2) by (cases v) (auto simp: error_answer_def split: exn.splits if_splits)
    then have "(\<exists>w. r = Inr (200, w)) \<longrightarrow> r = Inr (applied mode) \<and> early = change_log (bl_temp b past) mode"
      using r(2) change(4) by auto
    moreover have "header = Some (''Bearer '' @ strip token)" using token(2) by (cases header) auto
    ultimately show ?thesis using Some token(1) change(1-3) r(1) by blast
  qed
qed

section \<open>Properties\<close>

text \<open>
  C30. A request changes something only when it names a mode and carries the token of the token file.
  Then the events are, up to a first failure, exactly those of a change: the rendered configuration
  goes to a temporary file, HAProxy accepts it, it replaces the live one, HAProxy is reloaded, and the
  mode is recorded; the temporary file is removed at the end. The answer is 200 only if all of them
  succeeded.
\<close>

theorem post_effect:
  assumes "do_POST b path header past = (r, past')"
  shows "(past' = past \<and> (\<forall>v. r \<noteq> Inr (200, v)))
    \<or> (\<exists>mode token early late. mode_of_path path = Some mode \<and> st_read (bl_host b) past TOKEN_PATH = Inr token
        \<and> header = Some (''Bearer '' @ strip token) \<and> past' = past @ early @ late
        \<and> partial_log (change_log (bl_temp b past) mode) early \<and> removed (bl_temp b past) late
        \<and> ((\<exists>v. r = Inr (200, v)) \<longrightarrow> r = Inr (applied mode) \<and> early = change_log (bl_temp b past) mode))"
  using post_effect_cases[OF assms] .

text \<open>The content that the log gives to a file that is only written to.\<close>

fun writes :: "string \<Rightarrow> ctl_event \<Rightarrow> bool" where
  "writes path (FileOp act p _, b) = (b \<and> act = ''write'' \<and> p = path)"
| "writes path _ = False"

definition last_written :: "string \<Rightarrow> ctl_log \<Rightarrow> string option" where
  "last_written path past = (case find (writes path) (rev past) of Some (FileOp _ _ content, _) \<Rightarrow> Some content | _ \<Rightarrow> None)"

definition keeps :: "station \<Rightarrow> string \<Rightarrow> bool" where
  "keeps s path \<longleftrightarrow> (\<forall>past content. last_written path past = Some content \<longrightarrow> st_read s past path = Inr content)"

text \<open>
  On a host that keeps the mode file, a successful change is what the next query reports, and the
  live configuration is the one rendered for that mode.
\<close>

theorem mode_read_back:
  assumes run: "do_POST b path header past = (Inr (200, v), past')" and kept: "keeps (bl_host b) MODE_PATH"
  shows "\<exists>mode late. mode_of_path path = Some mode
    \<and> do_GET b ''/v1/balancing'' past' = (Inr (200, JObj [(''mode'', JStr mode), (''backend'', JStr ''proxy_pool''),
          (''selection'', JStr (if mode = ''round-robin'' then ''roundrobin'' else ''stick-table (stick on src)''))]), past')
    \<and> past' = past @ change_log (bl_temp b past) mode @ late \<and> removed (bl_temp b past) late"
proof -
  obtain mode late where mode: "mode_of_path path = Some mode"
    "past' = past @ change_log (bl_temp b past) mode @ late" "removed (bl_temp b past) late"
    using post_effect_cases[OF run] by auto
  have "last_written MODE_PATH past' = Some (mode @ [LF])"
    using mode(3) by (auto simp: mode(2) last_written_def change_log_def removed_def)
  then have read: "st_read (bl_host b) past' MODE_PATH = Inr (mode @ [LF])" using kept by (simp add: keeps_def)
  have "mode \<in> {''round-robin'', ''stick-table''}" using mode(1) by (auto simp: mode_of_path_def split: if_splits)
  moreover have "mode_of_text (''round-robin'' @ [LF]) = ''round-robin''" "mode_of_text (''stick-table'' @ [LF]) = ''stick-table''"
    by code_simp+
  ultimately have "mode_of_text (mode @ [LF]) = mode" by auto
  then have "current_mode b past' = (Inr mode, past')"
    using read by (simp add: current_mode_def read_text_def observe_def io_bind_def io_return_def)
  then show ?thesis using mode by (auto simp: do_GET_def io_bind_def io_return_def)
qed

section \<open>Witnesses\<close>

definition sample_host :: "(string list \<Rightarrow> int) \<Rightarrow> string \<Rightarrow> station" where
  "sample_host status token = \<lparr>st_root = [], st_euid = 0, st_run = (\<lambda>_ command. Inr (status command, [])),
     st_exists = (\<lambda>_ _. False),
     st_read = (\<lambda>past path. if path = TOKEN_PATH then Inr token
       else (case last_written path past of Some content \<Rightarrow> Inr content | None \<Rightarrow> Inl FileNotFoundError)),
     st_lstat = (\<lambda>_ _. Inl FileNotFoundError), st_file = (\<lambda>_ _. Inr ()), st_input = (\<lambda>_ _. Inr []),
     st_clock = (\<lambda>_. 0), st_str = exn_name, st_json = (\<lambda>_. BadText), st_dumps = (\<lambda>_. []), st_compact = (\<lambda>_. []),
     st_sha256 = (\<lambda>_. [])\<rparr>"

definition sample_balancer :: "(string list \<Rightarrow> int) \<Rightarrow> string \<Rightarrow> balancer" where
  "sample_balancer status token = \<lparr>bl_host = sample_host status token, bl_stderr = (\<lambda>_ _. ''failed''), bl_temp = (\<lambda>_. ''/t'')\<rparr>"

definition post_stick :: "(string list \<Rightarrow> int) \<Rightarrow> string \<Rightarrow> string \<Rightarrow> answer res \<times> ctl_log" where
  "post_stick status token header =
     do_POST (sample_balancer status token) ''/v1/balancing/stick-table'' (Some header) []"

lemma sample_keeps: "keeps (bl_host (sample_balancer status token)) MODE_PATH"
  by (simp add: keeps_def sample_balancer_def sample_host_def MODE_PATH_def TOKEN_PATH_def)

lemma post_effect_witness:
  "snd (post_stick (\<lambda>_. 0) ''k'' ''Bearer x'') = []"
proof -
  have "fst (post_stick (\<lambda>_. 0) ''k'' ''Bearer x'') = Inr (401, JObj [(''error'', JStr ''bearer token required'')])"
    by code_simp
  then have "post_stick (\<lambda>_. 0) ''k'' ''Bearer x'' =
      (Inr (401, JObj [(''error'', JStr ''bearer token required'')]), snd (post_stick (\<lambda>_. 0) ''k'' ''Bearer x''))"
    by (simp add: prod_eq_iff)
  from post_effect[OF this[unfolded post_stick_def]] show ?thesis
    by (auto simp: post_stick_def sample_balancer_def sample_host_def strip_def strip_by_def lstrip_by_def rstrip_by_def is_space_def)
qed

lemma mode_read_back_witness:
  "do_GET (sample_balancer (\<lambda>_. 0) ''k'') ''/v1/balancing'' (snd (post_stick (\<lambda>_. 0) ''k'' ''Bearer k''))
     = (Inr (200, JObj [(''mode'', JStr ''stick-table''), (''backend'', JStr ''proxy_pool''),
         (''selection'', JStr ''stick-table (stick on src)'')]), snd (post_stick (\<lambda>_. 0) ''k'' ''Bearer k''))"
proof -
  have "fst (post_stick (\<lambda>_. 0) ''k'' ''Bearer k'') = Inr (200, snd (applied ''stick-table''))" by code_simp
  then have "post_stick (\<lambda>_. 0) ''k'' ''Bearer k'' =
      (Inr (200, snd (applied ''stick-table'')), snd (post_stick (\<lambda>_. 0) ''k'' ''Bearer k''))"
    by (simp add: prod_eq_iff)
  from mode_read_back[OF this[unfolded post_stick_def] sample_keeps] show ?thesis
    by (auto simp: post_stick_def mode_of_path_def)
qed

text \<open>
  When the reload fails, the answer is an error and the recorded mode is the old one, but the new
  configuration stays in place, to be used by the next start of HAProxy.
\<close>

lemma failed_reload_keeps_config:
  "post_stick (\<lambda>command. if command = haproxy_reload then 1 else 0) ''k'' ''Bearer k'' =
     (Inr (500, JObj [(''error'', JStr ''haproxy reload failed''), (''detail'', JStr ''failed'')]),
      take 4 (change_log ''/t'' ''stick-table'') @ [(Run haproxy_reload, False)])"
  by code_simp

text \<open>With an empty token file, the word \<open>Bearer\<close> alone is a valid token.\<close>

lemma empty_token_authorizes:
  "fst (post_stick (\<lambda>_. 0) [LF] ''Bearer '') = Inr (applied ''stick-table'')"
  by code_simp

text \<open>A header outside ASCII is an exception of \<open>compare_digest\<close>, which no clause catches.\<close>

lemma latin_header_escapes:
  "fst (post_stick (\<lambda>_. 0) ''k'' [CHR 0xE9]) = Inl TypeError"
  by code_simp

end
