(* ===== verification/Deploy_Config.thy ===== *)
theory Deploy_Config
  imports Tgctl_Config Pool_Health
begin

text \<open>
  The configuration that \<open>deploy/deploy.py\<close> accepts for a host: \<open>read_env\<close> and \<open>validate\<close>. All of
  it is read at one moment, so the files are a \<open>view\<close>: what exists, its owner and mode, its text.
  The loading of a CA file belongs to the TLS library.
\<close>

record view =
  vw_exists :: "string \<Rightarrow> bool"
  vw_lstat :: "string \<Rightarrow> file_info res"
  vw_read :: "string \<Rightarrow> string res"
  vw_json :: "string \<Rightarrow> jtext"
  vw_load_ca :: "string \<Rightarrow> unit res"

definition under :: "string \<Rightarrow> string \<Rightarrow> string" where
  "under base name = base @ ''/'' @ name"

definition FILES :: "string list" where
  "FILES = [''.env'', ''inventory/connectors.json'', ''inventory/upstreams.jsonl'', ''secrets/proxy-credentials.json'',
     ''provider-secrets/api-token'']"

definition OPTIONAL_CA :: string where
  "OPTIONAL_CA = ''secrets/upstream-ca.crt''"

definition config_files :: "(string \<Rightarrow> bool) \<Rightarrow> string \<Rightarrow> string list" where
  "config_files there config = FILES @ (if there (under config OPTIONAL_CA) then [OPTIONAL_CA] else [])"

section \<open>The environment file\<close>

definition skipped_line :: "string \<Rightarrow> bool" where
  "skipped_line line \<longleftrightarrow> strip line = [] \<or> starts_with ''#'' (lstrip_by is_space line)"

fun read_env_lines :: "nat \<Rightarrow> string list \<Rightarrow> env \<Rightarrow> env res" where
  "read_env_lines n [] vals = Inr vals"
| "read_env_lines n (line # ls) vals =
     (if skipped_line line then read_env_lines (Suc n) ls vals
      else case split1 CHR ''='' line of
        None \<Rightarrow> Inl (ValueError (''invalid .env line '' @ dec n))
      | Some (key, v) \<Rightarrow>
          if \<not> env_key key \<or> map_of vals key \<noteq> None then
            Inl (ValueError (''invalid or duplicate .env key on line '' @ dec n))
          else if list_ex (\<lambda>c. c \<in> set quote_chars) v then
            Inl (ValueError (''.env requires literal unquoted values on line '' @ dec n))
          else read_env_lines (Suc n) ls (AList.update key v vals))"

definition read_env :: "string \<Rightarrow> env res" where
  "read_env t = read_env_lines 1 (splitlines t) []"

section \<open>Networks\<close>

text \<open>\<open>IPv4Interface(v)\<close>: an address with its prefix; a number stands for an address.\<close>

definition interface_of_text :: "string \<Rightarrow> (nat \<times> nat) option" where
  "interface_of_text t =
     (case split_on CHR ''/'' t of
        [a] \<Rightarrow> map_option (\<lambda>n. (n, 32)) (ipv4_of_string a)
      | [a, m] \<Rightarrow> Option.bind (ipv4_of_string a) (\<lambda>n. map_option (Pair n) (prefix_of_text m))
      | _ \<Rightarrow> None)"

definition ipv4_interface :: "pyrt \<Rightarrow> json \<Rightarrow> (nat \<times> nat) res" where
  "ipv4_interface rt v =
     of_option (ValueError ''not an IPv4 interface'')
       (case integer_of v of
          Some i \<Rightarrow> if 0 \<le> i \<and> i < 2 ^ 32 then Some (nat i, 32) else None
        | None \<Rightarrow> interface_of_text (py_str rt v))"

definition network_of :: "nat \<times> nat \<Rightarrow> nat \<times> nat" where
  "network_of = (\<lambda>(n, p). (mask_low (32 - p) n, p))"

definition in_net :: "nat \<Rightarrow> nat \<times> nat \<Rightarrow> bool" where
  "in_net x = (\<lambda>(n, p). mask_low (32 - p) x = n)"

definition broadcast :: "nat \<times> nat \<Rightarrow> nat" where
  "broadcast = (\<lambda>(n, p). n + (2 ^ (32 - p) - 1))"

definition overlaps :: "nat \<times> nat \<Rightarrow> nat \<times> nat \<Rightarrow> bool" where
  "overlaps a b \<longleftrightarrow> in_net (fst a) b \<or> in_net (broadcast a) b \<or> in_net (fst b) a \<or> in_net (broadcast b) a"

section \<open>Validation\<close>

definition file_mode :: "string \<Rightarrow> nat" where
  "file_mode name = (if name = ''.env'' then 384 else 416)"

definition check_file :: "view \<Rightarrow> string \<Rightarrow> string \<Rightarrow> unit res" where
  "check_file w config name =
     rbind (vw_lstat w (under config name)) (\<lambda>info.
     rbind (ensure (fi_regular info \<and> fi_uid info = 0)
       (ValueError (''config files must be regular and root-owned: '' @ name))) (\<lambda>_.
     rbind (ensure (fi_mode info = file_mode name) (ValueError (''incorrect config permissions: '' @ name))) (\<lambda>_.
     ensure (name = ''.env'' \<or> fi_gid info = 65532)
       (ValueError (''container-readable config requires GID 65532: '' @ name)))))"

definition env_get :: "env \<Rightarrow> string \<Rightarrow> string res" where
  "env_get vals key = of_option KeyError (map_of vals key)"

definition env_int :: "env \<Rightarrow> string \<Rightarrow> int res" where
  "env_int vals key = rbind (env_get vals key) (\<lambda>v. of_option (ValueError ''invalid literal for int()'') (py_int v))"

definition interface_of_host :: "pyrt \<Rightarrow> json \<Rightarrow> string \<Rightarrow> (nat \<times> nat) res" where
  "interface_of_host rt host name =
     rbind (subscript host ''interfaces'') (\<lambda>ifs. rbind (subscript ifs name) (ipv4_interface rt))"

definition check_network :: "pyrt \<Rightarrow> env \<Rightarrow> json \<Rightarrow> unit res" where
  "check_network rt vals host =
     (let refused = ValueError ''CLIENT_CIDR must match eth1 and exclude management'' in
      rbind (env_get vals ''CLIENT_CIDR'') (\<lambda>cidr.
      rbind (ipv4_network cidr) (\<lambda>client.
      rbind (interface_of_host rt host ''eth1'') (\<lambda>client_interface.
      rbind (ensure (client = network_of client_interface) refused) (\<lambda>_.
      rbind (interface_of_host rt host ''eth0'') (\<lambda>management.
      ensure (\<not> overlaps client (network_of management)) refused))))))"

definition POSITIVE :: "string list" where
  "POSITIVE = [''POOL_SIZE'', ''RESERVE_SIZE'', ''VALIDATION_CONCURRENCY'', ''VALIDATION_INTERVAL_SECONDS'',
     ''FETCH_INTERVAL_SECONDS'', ''RANK_INTERVAL_SECONDS'', ''DNS_MAX_CONCURRENCY'', ''DNS_TCP_TIMEOUT_SECONDS'']"

definition check_settings :: "env \<Rightarrow> unit res" where
  "check_settings vals =
     rbind (env_get vals ''VALIDATOR_REDIS_URL'') (\<lambda>v_url.
     rbind (if v_url \<noteq> ''redis://redis:6379/0'' then Inr False
            else rbind (env_get vals ''GATEWAY_REDIS_URL'') (\<lambda>g_url. Inr (g_url = ''redis://127.0.0.1:6379/0''))) (\<lambda>own_redis.
     rbind (ensure own_redis (ValueError ''this deployment requires the included local Redis service'')) (\<lambda>_.
     rbind (check_each (\<lambda>key. rbind (env_int vals key) (\<lambda>i.
       ensure (0 < i) (ValueError (''expected positive config integer: '' @ key)))) POSITIVE) (\<lambda>_.
     rbind (env_int vals ''POOL_SIZE'') (\<lambda>pool. rbind (env_int vals ''RESERVE_SIZE'') (\<lambda>reserve.
     rbind (ensure (pool \<le> reserve) (ValueError ''POOL_SIZE exceeds RESERVE_SIZE'')) (\<lambda>_.
     rbind (env_get vals ''DNS_DEFAULT_RESOLVER_IPS'') (\<lambda>resolvers. rbind (env_get vals ''DNS_DOH_IP'') (\<lambda>doh.
     rbind (check_each (\<lambda>a. rbind (of_option (ValueError ''not an IPv4 address'') (ipv4_of_string (strip a))) (\<lambda>_. Inr ()))
       (split_on CHR '','' resolvers @ [doh])) (\<lambda>_.
     rbind (env_get vals ''ANONYMITY_CHECK_URL'') (\<lambda>url. rbind (urlsplit url) (\<lambda>echo.
     ensure (u_scheme echo \<in> {''http'', ''https''} \<and> u_hostname echo \<noteq> [] \<and> u_username echo = [] \<and> u_password echo = []
         \<and> u_fragment echo = [] \<and> u_query echo = [])
       (ValueError ''readiness requires HTTP(S) echo without credentials or query'')))))))))))))"

definition valid_login :: "json \<Rightarrow> bool" where
  "valid_login v \<longleftrightarrow> (case v of JObj m \<Rightarrow> is_JStr (get m ''username'') \<and> is_JStr (get m ''password'') | _ \<Rightarrow> False)"

definition check_ca :: "view \<Rightarrow> string \<Rightarrow> json \<Rightarrow> unit res" where
  "check_ca w config entry =
     rbind (attr_get entry ''ca_file'') (\<lambda>ca.
     if \<not> truthy ca then Inr ()
     else if ca \<noteq> JStr ''/run/secrets/upstream-ca.crt'' then Inl (ValueError ''unapproved proxy CA path'')
     else vw_load_ca w (under config OPTIONAL_CA))"

definition read_credentials :: "view \<Rightarrow> string \<Rightarrow> dict res" where
  "read_credentials w config =
     rbind (vw_read w (under config ''secrets/proxy-credentials.json'')) (\<lambda>t.
     rbind (json_loads (vw_json w t)) (\<lambda>v.
     rbind (of_option (ValueError ''invalid proxy credential store'')
       (case v of JObj m \<Rightarrow> if list_all (\<lambda>(_, e). valid_login e) m then Some m else None | _ \<Rightarrow> None)) (\<lambda>credentials.
     rbind (check_each (check_ca w config) (map snd credentials)) (\<lambda>_.
     Inr credentials))))"

definition TOKEN_FILE :: string where
  "TOKEN_FILE = ''/run/provider-secrets/api-token''"

text \<open>\<open>urlsplit\<close> of any JSON value: its cache hashes the argument; false values are an empty URL.\<close>

definition split_feed_url :: "json \<Rightarrow> url option res" where
  "split_feed_url v =
     (case v of
        JStr u \<Rightarrow> rbind (urlsplit u) (\<lambda>p. Inr (Some p))
      | _ \<Rightarrow> if \<not> hashable v then Inl TypeError else if truthy v then Inl AttributeError else Inr None)"

definition https_feed :: "url option \<Rightarrow> bool" where
  "https_feed p \<longleftrightarrow> (case p of None \<Rightarrow> False
     | Some url \<Rightarrow> u_scheme url = ''https'' \<and> u_hostname url \<noteq> [] \<and> u_username url = [] \<and> u_password url = []
         \<and> u_query url = [] \<and> u_fragment url = [])"

definition check_feed :: "view \<Rightarrow> string \<Rightarrow> dict \<Rightarrow> unit res" where
  "check_feed w config connector =
     rbind (split_feed_url (get_default connector ''url'' (JStr []))) (\<lambda>url.
     rbind (ensure (https_feed url) (ValueError ''feed requires HTTPS URL without embedded secrets'')) (\<lambda>_.
     rbind (ensure (\<not> truthy (get connector ''token_env'') \<and> get connector ''token_file'' \<in> {JNull, JStr TOKEN_FILE})
       (ValueError ''feed token must reference the mounted provider token file'')) (\<lambda>_.
     rbind (vw_read w (under config ''provider-secrets/api-token'')) (\<lambda>t.
     ensure (\<not> truthy (get connector ''token_file'') \<or> token_ok (strip t))
       (ValueError ''provider token file is empty or invalid'')))))"

fun check_active :: "view \<Rightarrow> string \<Rightarrow> json list \<Rightarrow> json list \<Rightarrow> json list \<Rightarrow> dict list res" where
  "check_active w config allowed names [] = Inr []"
| "check_active w config allowed names (v # rest) =
     rbind (dict_attr v) (\<lambda>connector.
     let kind = get connector ''type''; name = get connector ''name'' in
     rbind (ensure (list_ex (py_eq kind) allowed \<and> kind \<in> {JStr ''jsonl_inventory'', JStr ''http_json_feed''})
       (ValueError ''connector is not explicitly allowed or registered'')) (\<lambda>_.
     rbind (if kind = JStr ''http_json_feed'' then check_feed w config connector else Inr ()) (\<lambda>_.
     rbind (ensure (truthy name) (ValueError ''connector names must be nonempty and unique'')) (\<lambda>_.
     rbind (ensure (hashable name) TypeError) (\<lambda>_.
     rbind (ensure (\<not> list_ex (py_eq name) names) (ValueError ''connector names must be nonempty and unique'')) (\<lambda>_.
     rbind (ensure (kind \<noteq> JStr ''jsonl_inventory'' \<or> get connector ''path'' = JStr INVENTORY)
       (ValueError ''inventory connector must use the mounted upstream file'')) (\<lambda>_.
     rbind (check_active w config allowed (name # names) rest) (\<lambda>cs. Inr (connector # cs)))))))))"

definition check_sources :: "view \<Rightarrow> string \<Rightarrow> dict list res" where
  "check_sources w config =
     rbind (vw_read w (under config ''inventory/connectors.json'')) (\<lambda>t.
     rbind (json_loads (vw_json w t)) (\<lambda>v.
     rbind (dict_attr v) (\<lambda>connectors.
     case (get connectors ''allowed_connector_types'', get connectors ''active_connectors'') of
       (JArr allowed, JArr (c # cs)) \<Rightarrow> check_active w config allowed [] (c # cs)
     | _ \<Rightarrow> Inl (ValueError ''explicit allowed and active connectors are required''))))"

definition check_entry_line :: "dict \<Rightarrow> json \<Rightarrow> unit res" where
  "check_entry_line credentials v =
     rbind (dict_attr v) (\<lambda>candidate.
     rbind (ensure (truthy (get candidate ''host'')
         \<and> (case integer_of (get candidate ''port'') of Some p \<Rightarrow> 1 \<le> p \<and> p \<le> 65535 | None \<Rightarrow> False))
       (ValueError ''inventory requires canonical host and port'')) (\<lambda>_.
     rbind (ensure (get candidate ''protocol'' \<in> set (map JStr PROTOCOLS)) (ValueError ''unsupported inventory protocol'')) (\<lambda>_.
     let reference = get candidate ''credential_ref'' in
     if \<not> truthy reference then Inr ()
     else rbind (ensure (hashable reference) TypeError) (\<lambda>_.
       ensure (case reference of JStr r \<Rightarrow> map_of credentials r \<noteq> None | _ \<Rightarrow> False)
         (ValueError ''inventory credential reference is missing'')))))"

definition count_candidates :: "view \<Rightarrow> string \<Rightarrow> dict \<Rightarrow> nat res" where
  "count_candidates w config credentials =
     rbind (vw_read w (under config ''inventory/upstreams.jsonl'')) (\<lambda>t.
     let lines = filter (\<lambda>line. \<not> skipped_line line) (splitlines t) in
     rbind (check_each (\<lambda>line. rbind (json_loads (vw_json w line)) (check_entry_line credentials)) lines) (\<lambda>_.
     Inr (length lines)))"

definition validate :: "pyrt \<Rightarrow> view \<Rightarrow> string \<Rightarrow> json \<Rightarrow> env res" where
  "validate rt w config host =
     rbind (check_each (check_file w config) (config_files (vw_exists w) config)) (\<lambda>_.
     rbind (vw_read w (under config ''.env'')) (\<lambda>t.
     rbind (read_env t) (\<lambda>vals.
     rbind (ensure (case map_of vals ''PROVIDER_API_TOKEN'' of None \<Rightarrow> True | Some v \<Rightarrow> v = [])
       (ValueError ''provider tokens must be delivered through a file'')) (\<lambda>_.
     rbind (check_network rt vals host) (\<lambda>_.
     rbind (check_settings vals) (\<lambda>_.
     rbind (read_credentials w config) (\<lambda>credentials.
     rbind (check_sources w config) (\<lambda>active.
     rbind (count_candidates w config credentials) (\<lambda>candidates.
     rbind (ensure (\<not> list_ex (\<lambda>c. get c ''type'' = JStr ''jsonl_inventory'') active \<or> candidates \<noteq> 0)
       (ValueError ''active inventory is empty'')) (\<lambda>_.
     Inr vals))))))))))"

section \<open>The two readers of the environment file\<close>

lemma strip_head: "\<not> is_space c \<Longrightarrow> strip (c # t) \<noteq> [] \<and> lstrip_by is_space (c # t) = c # t"
  by (simp add: strip_def strip_by_def lstrip_by_def rstrip_by_def dropWhile_append3)

lemma comment_skipped: "env_comment line \<Longrightarrow> skipped_line line"
  by (cases line) (auto simp: env_comment_def skipped_line_def lstrip_by_def is_space_def)

lemma setting_not_skipped:
  assumes "env_key key"
  shows "\<not> skipped_line (key @ t)"
proof -
  obtain c k where key: "key = c # k" "is_upper c" using assms by (cases key) (auto simp: env_key_def)
  then have "\<not> is_space c" "c \<noteq> CHR ''#''" by (auto simp: is_upper_def is_space_def Let_def)
  then show ?thesis using strip_head[of c "k @ t"] key(1) by (simp add: skipped_line_def)
qed

lemma env_lines_read: "env_lines n ls vals = Inr r \<Longrightarrow> read_env_lines n ls vals = Inr r"
proof (induction ls arbitrary: n vals)
  case (Cons line ls)
  show ?case
  proof (cases "env_comment line")
    case True
    then show ?thesis using Cons comment_skipped by simp
  next
    case False
    then obtain key v where split: "split1 CHR ''='' line = Some (key, v)" "env_key key"
      using Cons.prems by (auto split: option.splits if_splits)
    then have "\<not> skipped_line line" using setting_not_skipped by (auto simp: split1_Some)
    then show ?thesis using False Cons split by (auto split: if_splits)
  qed
qed simp

section \<open>Networks as sets of addresses\<close>

lemma mask_low_low: "k \<le> m \<Longrightarrow> mask_low m (mask_low k x) = mask_low m x"
proof -
  assume "k \<le> m"
  then obtain j where m: "m = k + j" using le_Suc_ex by blast
  have "x div 2 ^ k * 2 ^ k div 2 ^ m = x div 2 ^ k div 2 ^ j"
    by (simp add: m power_add div_mult2_eq)
  also have "\<dots> = x div 2 ^ m" by (simp add: m power_add div_mult2_eq)
  finally show ?thesis by (simp add: mask_low_def)
qed

lemma common_address_overlaps:
  assumes "in_net x a" "in_net x b"
  shows "overlaps a b"
proof -
  obtain n p m q where ab: "a = (n, p)" "b = (m, q)" by (cases a, cases b)
  have x: "mask_low (32 - p) x = n" "mask_low (32 - q) x = m" using assms by (simp_all add: ab in_net_def)
  show ?thesis
  proof (cases "32 - p \<le> 32 - q")
    case True
    then have "mask_low (32 - q) n = m" using mask_low_low[OF True, of x] x by simp
    then show ?thesis by (simp add: ab overlaps_def in_net_def)
  next
    case False
    then have "mask_low (32 - p) m = n" using mask_low_low[of "32 - q" "32 - p" x] x by simp
    then show ?thesis by (simp add: ab overlaps_def in_net_def)
  qed
qed

lemma validate_network:
  assumes "validate rt w config host = Inr vals"
  shows "\<exists>t. vw_read w (under config ''.env'') = Inr t \<and> read_env t = Inr vals \<and> check_network rt vals host = Inr ()"
  using assms unfolding validate_def by (auto simp: rbind_eq_Inr)

section \<open>Properties\<close>

text \<open>
  C29. In a configuration that \<open>validate\<close> accepts for a host, the client network is the network of the
  client interface, and no address belongs both to it and to the network of the management interface.
\<close>

theorem client_network_separate:
  assumes "validate rt w config host = Inr vals"
  shows "\<exists>cidr client_interface management. map_of vals ''CLIENT_CIDR'' = Some cidr
    \<and> interface_of_host rt host ''eth1'' = Inr client_interface \<and> interface_of_host rt host ''eth0'' = Inr management
    \<and> ipv4_network cidr = Inr (network_of client_interface)
    \<and> in_net (fst client_interface) (network_of client_interface)
    \<and> (\<forall>x. \<not> (in_net x (network_of client_interface) \<and> in_net x (network_of management)))"
proof -
  have "check_network rt vals host = Inr ()" using validate_network[OF assms] by blast
  then obtain cidr client client_interface management where c: "map_of vals ''CLIENT_CIDR'' = Some cidr"
    "ipv4_network cidr = Inr client" "interface_of_host rt host ''eth1'' = Inr client_interface"
    "client = network_of client_interface" "interface_of_host rt host ''eth0'' = Inr management"
    "\<not> overlaps client (network_of management)"
    unfolding check_network_def Let_def env_get_def by (auto simp: rbind_eq_Inr ensure_eq_Inr of_option_eq_Inr)
  have "in_net (fst client_interface) (network_of client_interface)"
    by (cases client_interface) (simp add: in_net_def network_of_def)
  then show ?thesis using c common_address_overlaps by blast
qed

text \<open>
  The deployment reads every environment file that \<open>tgctl.py\<close> accepts, with the same values.
\<close>

theorem read_env_agrees:
  "parse_env_text t = Inr vals \<Longrightarrow> read_env t = Inr vals"
  by (simp add: parse_env_text_def read_env_def env_lines_read)

lemma read_env_agrees_witness: "read_env sample_env_text = Inr sample_values"
proof (rule read_env_agrees)
  show "parse_env_text sample_env_text = Inr sample_values" by code_simp
qed

definition deploy_env :: env where
  "deploy_env = [(''CLIENT_CIDR'', ''0.0.0.0/1''), (''VALIDATOR_REDIS_URL'', ''redis://redis:6379/0''),
     (''GATEWAY_REDIS_URL'', ''redis://127.0.0.1:6379/0''), (''POOL_SIZE'', ''1''), (''RESERVE_SIZE'', ''9''),
     (''VALIDATION_CONCURRENCY'', ''4''), (''VALIDATION_INTERVAL_SECONDS'', ''6''), (''FETCH_INTERVAL_SECONDS'', ''6''),
     (''RANK_INTERVAL_SECONDS'', ''5''), (''DNS_MAX_CONCURRENCY'', ''2''), (''DNS_TCP_TIMEOUT_SECONDS'', ''8''),
     (''DNS_DEFAULT_RESOLVER_IPS'', ''0.0.0.0''), (''DNS_DOH_IP'', ''0.0.0.0''), (''ANONYMITY_CHECK_URL'', ''http://e/'')]"

definition deploy_env_text :: string where
  "deploy_env_text = join [LF] (map (\<lambda>(k, v). k @ ''='' @ v) deploy_env) @ [LF]"

definition sample_file :: "string \<Rightarrow> string \<Rightarrow> string res" where
  "sample_file config path =
     (if path = config @ ''/.env'' then Inr deploy_env_text
      else if path = config @ ''/inventory/connectors.json'' then Inr ''connectors''
      else if path = config @ ''/inventory/upstreams.jsonl'' then Inr ''upstreams''
      else if path = config @ ''/secrets/proxy-credentials.json'' then Inr ''credentials''
      else if path = config @ ''/provider-secrets/api-token'' then Inr []
      else if path = ''/etc/os-release'' then Inr (join [LF] [''ID=debian'', ''VERSION_ID=13''])
      else if path = ''/etc/transparent-gateway/host.json'' then Inr ''host''
      else if path = ''/etc/transparent-gateway/service.json'' then Inr ''settings''
      else if path = ''/proc/sys/kernel/random/boot_id'' then Inr ''boot'' else Inl FileNotFoundError)"

definition sample_info :: "string \<Rightarrow> string \<Rightarrow> file_info" where
  "sample_info config path = \<lparr>fi_regular = True, fi_uid = 0, fi_gid = 65532,
     fi_mode = (if path \<in> {config @ ''/.env'', ''/etc/transparent-gateway/service.json''} then 384 else 416)\<rparr>"

definition sample_host :: json where
  "sample_host = JObj [(''interfaces'', JObj [(''eth0'', JStr ''128.0.0.1/1''), (''eth1'', JStr ''0.0.0.1/1'')]),
     (''default_gateway'', JStr ''128.0.0.2'')]"

definition sample_sha :: string where
  "sample_sha = replicate 40 CHR ''a''"

definition inspected_rows :: json where
  "inspected_rows = JArr (map (\<lambda>s. JObj [(''Id'', JStr s), (''Name'', JStr (CHR ''/'' # s)),
     (''State'', JObj [(''Running'', JBool True)])]) [''redis'', ''fetcher'', ''validator'', ''ranker'', ''asn-updater'', ''gateway''])"

definition address_row :: "string \<Rightarrow> string \<Rightarrow> json" where
  "address_row name a = JObj [(''ifname'', JStr name), (''operstate'', JStr ''UP''),
     (''addr_info'', JArr [JObj [(''local'', JStr a), (''prefixlen'', JInt 1)]])]"

definition deploy_json :: "string \<Rightarrow> jtext" where
  "deploy_json t =
     (if t = ''host'' then JText sample_host
      else if t = ''addresses'' then JText (JArr [address_row ''eth0'' ''128.0.0.1'', address_row ''eth1'' ''0.0.0.1''])
      else if t = ''routes'' then JText (JArr [JObj [(''dev'', JStr ''eth0''), (''gateway'', JStr ''128.0.0.2'')]])
      else if t = ''rows'' then JText inspected_rows
      else if t = ''set'' then JText (JObj (map (\<lambda>n. (n, JStr [])) FILES))
      else if t = ''rendered'' then JText (JObj [(''services'', JObj [(''redis'', JObj [(''restart'', JStr ''no'')])])])
      else if t = ''settings'' then JText (JObj [(''destination'', JStr ''/opt/transparent-gateway''), (''lab_fixture'', JBool False),
        (''commit'', JStr sample_sha)])
      else sample_json (JStr ''a'') t)"

definition sample_view :: "string \<Rightarrow> view" where
  "sample_view config = \<lparr>vw_exists = (\<lambda>_. False),
     vw_lstat = (\<lambda>path. Inr (sample_info config path)), vw_read = sample_file config,
     vw_json = deploy_json, vw_load_ca = (\<lambda>_. Inr ())\<rparr>"

lemma sample_interfaces:
  "interface_of_host plain_rt sample_host ''eth1'' = Inr (1, 1)"
  "interface_of_host plain_rt sample_host ''eth0'' = Inr (2147483649, 1)"
  by (simp_all add: interface_of_host_def sample_host_def subscript_def item_def ipv4_interface_def integer_of_def
      interface_of_text_def ipv4_of_string_def parse_octet_def digits_val_def digit_val_def prefix_of_text_def is_digit_def)

lemma sample_valid:
  assumes "config \<in> {''c'', ''/c'', ''/opt/transparent-gateway'', ''/etc/transparent-gateway/.incoming-tmp''}"
  shows "validate plain_rt (sample_view config) config sample_host = Inr deploy_env"
proof -
  let ?w = "sample_view config"
  have files: "check_each (check_file ?w config) (config_files (vw_exists ?w) config) = Inr ()"
    "vw_read ?w (under config ''.env'') = Inr deploy_env_text" "read_credentials ?w config = Inr sample_logins"
    "rbind (check_sources ?w config) (\<lambda>active. Inr (map (\<lambda>c. get c ''type'') active)) = Inr [JStr ''jsonl_inventory'']"
    "count_candidates ?w config sample_logins = Inr 1"
    using assms by (elim insertE emptyE; hypsubst; code_simp)+
  have parts: "read_env deploy_env_text = Inr deploy_env" "map_of deploy_env ''PROVIDER_API_TOKEN'' = None"
    "map_of deploy_env ''CLIENT_CIDR'' = Some ''0.0.0.0/1''" "check_settings deploy_env = Inr ()"
    by code_simp+
  have "check_network plain_rt deploy_env sample_host = Inr ()"
    using parts(3) by (simp add: check_network_def env_get_def sample_network sample_interfaces network_of_def mask_low_def
        overlaps_def in_net_def broadcast_def)
  moreover obtain active where "check_sources ?w config = Inr active" using files(4) by (auto simp: rbind_eq_Inr)
  ultimately show ?thesis using parts files by (simp add: validate_def)
qed

lemma client_network_separate_witness:
  "validate plain_rt (sample_view ''c'') ''c'' sample_host = Inr deploy_env
   \<and> (\<exists>client_interface management. interface_of_host plain_rt sample_host ''eth1'' = Inr client_interface
     \<and> interface_of_host plain_rt sample_host ''eth0'' = Inr management
     \<and> (\<forall>x. \<not> (in_net x (network_of client_interface) \<and> in_net x (network_of management))))"
proof -
  have run: "validate plain_rt (sample_view ''c'') ''c'' sample_host = Inr deploy_env"
    by (rule sample_valid) simp
  then show ?thesis using client_network_separate[OF run] by blast
qed

end
