(* ===== verification/Deploy.thy ===== *)
theory Deploy
  imports Deploy_Config Readiness
begin

text \<open>
  The deployment of a commit (\<open>deploy/deploy.py\<close>) on the log of \<open>Station\<close>: the checks of the
  arguments and of the host, the checkout, the atomic replacement of the runtime files, the start of
  the services and the readiness gate. Contents of files are bytes below 256. The time limits of
  the commands appear only as the exception \<open>TimeoutExpired\<close> that a command may raise.
\<close>

record depot =
  dp_host :: station
  dp_symlink :: "ctl_log \<Rightarrow> string \<Rightarrow> bool"
  dp_dir :: "ctl_log \<Rightarrow> string \<Rightarrow> bool"
  dp_file :: "ctl_log \<Rightarrow> string \<Rightarrow> bool"
  dp_nonempty :: "ctl_log \<Rightarrow> string \<Rightarrow> bool res"
  dp_stat :: "ctl_log \<Rightarrow> string \<Rightarrow> file_info res"
  dp_temp :: "ctl_log \<Rightarrow> string \<Rightarrow> string"
  dp_load_ca :: "ctl_log \<Rightarrow> string \<Rightarrow> unit res"
  dp_gates :: "ctl_log \<Rightarrow> gate"
  dp_stamp :: "ctl_log \<Rightarrow> json"
  dp_round1 :: "rat \<Rightarrow> json"
  dp_dumps :: "json \<Rightarrow> string"

section \<open>Commands and files\<close>

text \<open>\<open>run\<close>: the output of a command that succeeded, stripped.\<close>

definition run_cmd :: "station \<Rightarrow> string list \<Rightarrow> string ctl" where
  "run_cmd s command =
     io_bind (spawn s command) (\<lambda>(n, out).
     io_bind (io_ensure (n = 0)
       (RuntimeError (name_of (hd command) @ '' command failed (exit '' @ str_of_int n @ '')''))) (\<lambda>_.
     io_return (strip out)))"

definition run_lines :: "station \<Rightarrow> string list \<Rightarrow> string list ctl" where
  "run_lines s command = io_bind (run_cmd s command) (\<lambda>out. io_return (splitlines out))"

definition run_loads :: "station \<Rightarrow> string list \<Rightarrow> json ctl" where
  "run_loads s command = io_bind (run_cmd s command) (\<lambda>out. io_lift (json_loads (st_json s out)))"

text \<open>Whether the file is there already, with this content, mode and owner.\<close>

definition unchanged :: "depot \<Rightarrow> string \<Rightarrow> string \<Rightarrow> nat \<Rightarrow> int \<Rightarrow> bool ctl" where
  "unchanged d path content mode gid = observe (\<lambda>past.
     if \<not> st_exists (dp_host d) past path then Inr False
     else rbind (st_read (dp_host d) past path) (\<lambda>t.
       if t \<noteq> content then Inr False
       else rbind (dp_stat d past path) (\<lambda>info.
         Inr (fi_mode info = mode \<and> fi_uid info = 0 \<and> fi_gid info = gid))))"

definition owner_text :: "int \<Rightarrow> string" where
  "owner_text gid = ''0:'' @ str_of_int gid"

definition replace_file :: "station \<Rightarrow> string \<Rightarrow> string \<Rightarrow> string \<Rightarrow> nat \<Rightarrow> int \<Rightarrow> bool ctl" where
  "replace_file s temp path content mode gid =
     io_bind (file_op s ''create'' temp []) (\<lambda>_.
     io_bind (file_op s ''write'' temp content) (\<lambda>_.
     io_bind (file_op s ''fsync'' temp []) (\<lambda>_.
     io_bind (file_op s ''chmod'' temp (dec mode)) (\<lambda>_.
     io_bind (file_op s ''chown'' temp (owner_text gid)) (\<lambda>_.
     io_bind (file_op s ''replace'' temp path) (\<lambda>_.
     io_return True))))))"

definition atomic_write :: "depot \<Rightarrow> string \<Rightarrow> string \<Rightarrow> nat \<Rightarrow> int \<Rightarrow> bool ctl" where
  "atomic_write d path content mode gid =
     io_bind (mkdir_parent (dp_host d) path) (\<lambda>_.
     io_bind (observe (\<lambda>past. Inr (dp_symlink d past path))) (\<lambda>link.
     io_bind (io_ensure (\<not> link) (ValueError (''refusing to replace a symlink: '' @ name_of path))) (\<lambda>_.
     io_bind (unchanged d path content mode gid) (\<lambda>same.
     if same then io_return False
     else (\<lambda>past. replace_file (dp_host d) (dp_temp d past (parent_of path)) path content mode gid past)))))"

section \<open>The arguments\<close>

record deploy_args =
  da_source :: string
  da_commit :: string
  da_destination :: string
  da_config_dir :: string
  da_timeout :: int
  da_lab :: bool

text \<open>\<open>pathlib.Path\<close>: the root, and the names without empty ones and dots.\<close>

definition path_root :: "string \<Rightarrow> string" where
  "path_root t = (if starts_with ''//'' t \<and> \<not> starts_with ''///'' t then ''//'' else if starts_with ''/'' t then ''/'' else [])"

definition path_names :: "string \<Rightarrow> string list" where
  "path_names t = filter (\<lambda>n. n \<noteq> [] \<and> n \<noteq> ''.'') (split_on CHR ''/'' t)"

definition path_text :: "string \<Rightarrow> string" where
  "path_text t = (if path_root t = [] \<and> path_names t = [] then ''.'' else path_root t @ join ''/'' (path_names t))"

definition path_within :: "string \<Rightarrow> string \<Rightarrow> bool" where
  "path_within t base \<longleftrightarrow> path_root t = path_root base
     \<and> take (length (path_names base)) (path_names t) = path_names base"

definition full_sha :: "string \<Rightarrow> bool" where
  "full_sha t \<longleftrightarrow> length t = 40 \<and> list_all (\<lambda>c. is_digit c \<or> (97 \<le> code c \<and> code c \<le> 102)) t"

definition check_arguments :: "depot \<Rightarrow> deploy_args \<Rightarrow> unit ctl" where
  "check_arguments d args = observe (\<lambda>past.
     let target = da_destination args; config = da_config_dir args in
     rbind (ensure (st_euid (dp_host d) = 0) (ValueError ''run with sudo'')) (\<lambda>_.
     rbind (ensure (full_sha (da_commit args)) (ValueError ''supply a full immutable 40-character commit SHA'')) (\<lambda>_.
     rbind (ensure (path_root target \<noteq> [] \<and> 2 \<le> length (path_names target) \<and> \<not> dp_symlink d past (path_text target))
       (ValueError ''destination must be an absolute application directory'')) (\<lambda>_.
     rbind (ensure (path_root config \<noteq> [] \<and> \<not> dp_symlink d past (path_text config) \<and> \<not> path_within config target)
       (ValueError ''canonical config must live outside checkout'')) (\<lambda>_.
     rbind (urlsplit (da_source args)) (\<lambda>url.
     rbind (ensure (u_username url = [] \<and> u_password url = [] \<and> u_scheme url \<in> {[], ''https''})
       (ValueError ''use an HTTPS source without URL credentials, or an absolute local Git repository'')) (\<lambda>_.
     ensure (u_scheme url \<noteq> [] \<or> path_root (da_source args) \<noteq> [])
       (ValueError ''local Git source must be an absolute path''))))))))"

section \<open>The host\<close>

definition STATE :: string where
  "STATE = ''/var/lib/transparent-gateway/deployment.json''"

definition LOCK :: string where
  "LOCK = ''/var/lib/transparent-gateway/deployment.lock''"

definition take_lock :: "station \<Rightarrow> unit ctl" where
  "take_lock s = io_bind (file_op s ''open'' LOCK []) (\<lambda>_. file_op s ''flock'' LOCK [])"

definition is_debian13 :: "string \<Rightarrow> bool" where
  "is_debian13 release \<longleftrightarrow>
     (let ls = split_on LF release in
      ''ID=debian'' \<in> set ls
      \<and> list_ex (\<lambda>l. l \<in> {''VERSION_ID=13'', ''VERSION_ID='' @ [CHR 0x22] @ ''13'' @ [CHR 0x22],
          ''VERSION_ID='' @ [CHR 0x22] @ ''13'', ''VERSION_ID=13'' @ [CHR 0x22]}) ls)"

text \<open>
  \<open>for row in v\<close>: the elements of a list, the keys of a dict, the characters of a string. In
  \<open>{row["ifname"]: row for row in rows}\<close>, read by \<open>.get(name, {})\<close>, a later row wins.
\<close>

fun iterate :: "json \<Rightarrow> json list res" where
  "iterate (JArr xs) = Inr xs"
| "iterate (JObj m) = Inr (map (\<lambda>(k, _). JStr k) m)"
| "iterate (JStr t) = Inr (map (\<lambda>c. JStr [c]) t)"
| "iterate _ = Inl TypeError"

fun rows_by_name :: "json list \<Rightarrow> (json \<times> json) list res" where
  "rows_by_name [] = Inr []"
| "rows_by_name (row # rows) =
     rbind (subscript row ''ifname'') (\<lambda>name.
     rbind (ensure (hashable name) TypeError) (\<lambda>_.
     rbind (rows_by_name rows) (\<lambda>rest. Inr ((name, row) # rest))))"

definition row_of :: "(json \<times> json) list \<Rightarrow> string \<Rightarrow> json" where
  "row_of rows name = (case find (\<lambda>(k, _). k = JStr name) (rev rows) of Some (_, row) \<Rightarrow> row | None \<Rightarrow> JObj [])"

definition cidr_text :: "pyrt \<Rightarrow> json \<Rightarrow> string res" where
  "cidr_text rt a =
     rbind (subscript a ''local'') (\<lambda>l. rbind (subscript a ''prefixlen'') (\<lambda>p.
     Inr (py_str rt l @ ''/'' @ py_str rt p)))"

text \<open>Whether the interface is up and has the address.\<close>

definition nic_ready :: "pyrt \<Rightarrow> json \<Rightarrow> json \<Rightarrow> bool res" where
  "nic_ready rt row cidr =
     rbind (attr_get row ''operstate'') (\<lambda>state.
     if state \<noteq> JStr ''UP'' then Inr False
     else rbind (dict_attr row) (\<lambda>m.
       rbind (iterate (get_default m ''addr_info'' (JArr []))) (\<lambda>infos.
       rbind (rmap (cidr_text rt) infos) (\<lambda>texts.
       rbind (ensure (hashable cidr) TypeError) (\<lambda>_.
       Inr (list_ex (\<lambda>t. cidr = JStr t) texts))))))"

text \<open>The only element of what \<open>ip route\<close> printed, if it has length 1.\<close>

fun only_row :: "json \<Rightarrow> json option res" where
  "only_row (JArr [v]) = Inr (Some v)"
| "only_row (JArr _) = Inr None"
| "only_row (JObj [_]) = Inl KeyError"
| "only_row (JObj _) = Inr None"
| "only_row (JStr [c]) = Inr (Some (JStr [c]))"
| "only_row (JStr _) = Inr None"
| "only_row _ = Inl TypeError"

definition default_route_ok :: "json \<Rightarrow> json \<Rightarrow> bool res" where
  "default_route_ok host routes =
     rbind (only_row routes) (\<lambda>row.
     case row of None \<Rightarrow> Inr False
     | Some r \<Rightarrow>
         rbind (attr_get r ''dev'') (\<lambda>dev.
         if dev \<noteq> JStr ''eth0'' then Inr False
         else rbind (attr_get r ''gateway'') (\<lambda>gateway. rbind (subscript host ''default_gateway'') (\<lambda>declared.
           Inr (py_eq gateway declared)))))"

definition address_command :: "string list" where
  "address_command = [''ip'', ''-j'', ''-4'', ''address'']"

definition route_command :: "string list" where
  "route_command = [''ip'', ''-j'', ''-4'', ''route'', ''show'', ''default'']"

text \<open>The declared interfaces and the default route; the messages differ between the callers.\<close>

definition check_host_network :: "pyrt \<Rightarrow> station \<Rightarrow> (string \<Rightarrow> exn) \<Rightarrow> exn \<Rightarrow> json \<Rightarrow> unit ctl" where
  "check_host_network rt s nic_error route_error host =
     io_bind (run_loads s address_command) (\<lambda>v.
     io_bind (io_lift (rbind (iterate v) rows_by_name)) (\<lambda>rows.
     io_bind (io_lift (rbind (subscript host ''interfaces'') dict_attr)) (\<lambda>interfaces.
     io_bind (io_lift (check_each (\<lambda>(name, cidr).
       rbind (nic_ready rt (row_of rows name) cidr) (\<lambda>good. ensure good (nic_error name))) interfaces)) (\<lambda>_.
     io_bind (run_loads s route_command) (\<lambda>routes.
     io_bind (io_lift (default_route_ok host routes)) (\<lambda>good.
     io_ensure good route_error))))))"

definition HOST_FILE :: string where
  "HOST_FILE = ''/etc/transparent-gateway/host.json''"

definition read_json :: "station \<Rightarrow> string \<Rightarrow> json ctl" where
  "read_json s path = io_bind (read_text s path) (\<lambda>t. io_lift (json_loads (st_json s t)))"

definition view_at :: "depot \<Rightarrow> ctl_log \<Rightarrow> view" where
  "view_at d past = \<lparr>vw_exists = st_exists (dp_host d) past, vw_lstat = st_lstat (dp_host d) past,
     vw_read = st_read (dp_host d) past, vw_json = st_json (dp_host d), vw_load_ca = dp_load_ca d past\<rparr>"

definition validate_config :: "pyrt \<Rightarrow> depot \<Rightarrow> string \<Rightarrow> json \<Rightarrow> env ctl" where
  "validate_config rt d config host = observe (\<lambda>past. validate rt (view_at d past) config host)"

text \<open>The lock, the release of the system, the network, Docker, and the configuration.\<close>

definition check_host :: "pyrt \<Rightarrow> depot \<Rightarrow> deploy_args \<Rightarrow> env ctl" where
  "check_host rt d args =
     (let s = dp_host d in
      io_bind (read_text s ''/etc/os-release'') (\<lambda>release.
      io_bind (io_ensure (is_debian13 release) (ValueError ''Debian 13 required'')) (\<lambda>_.
      io_bind (read_json s HOST_FILE) (\<lambda>host.
      io_bind (check_host_network rt s (\<lambda>name. ValueError (''host network differs from declared NIC mapping: '' @ name))
        (ValueError ''unexpected management default route'') host) (\<lambda>_.
      io_bind (run_cmd s [''docker'', ''info'', ''--format'', ''{{.ServerVersion}}'']) (\<lambda>_.
      io_bind (run_cmd s [''docker'', ''compose'', ''version'']) (\<lambda>_.
      validate_config rt d (path_text (da_config_dir args)) host)))))))"

section \<open>The checkout\<close>

definition git_in :: "string \<Rightarrow> string list \<Rightarrow> string list" where
  "git_in target arguments = [''git'', ''-C'', target] @ arguments"

definition mode_octal :: "depot \<Rightarrow> string \<Rightarrow> nat ctl" where
  "mode_octal d path = observe (\<lambda>past. rbind (dp_stat d past path) (\<lambda>info. Inr (fi_mode info)))"

text \<open>\<open>if mode differs: chmod\<close>.\<close>

definition ensure_mode :: "depot \<Rightarrow> string \<Rightarrow> nat \<Rightarrow> unit ctl" where
  "ensure_mode d path mode =
     io_bind (mode_octal d path) (\<lambda>old.
     if old = mode then io_return () else file_op (dp_host d) ''chmod'' path (dec mode))"

definition executable_bits :: "nat \<Rightarrow> bool" where
  "executable_bits m \<longleftrightarrow> odd (m div 64) \<or> odd (m div 8) \<or> odd m"

definition readable_file :: "depot \<Rightarrow> string \<Rightarrow> unit ctl" where
  "readable_file d path =
     io_bind (observe (\<lambda>past. Inr (dp_file d past path \<and> \<not> dp_symlink d past path))) (\<lambda>plain.
     if \<not> plain then io_return ()
     else io_bind (mode_octal d path) (\<lambda>old. ensure_mode d path (if executable_bits old then 493 else 420)))"

text \<open>The parents of a tracked file, from the nearest one up to the checkout itself.\<close>

definition parents_within :: "string \<Rightarrow> string \<Rightarrow> string list" where
  "parents_within target name =
     map (\<lambda>n. under target (join ''/'' (take n (path_names name)))) (rev [1..<length (path_names name)])"

definition directory_mode :: "string \<Rightarrow> string \<Rightarrow> nat" where
  "directory_mode target path =
     (if path \<in> set (map (under target) [''inventory'', ''secrets'', ''provider-secrets'']) then 488 else 493)"

definition fix_modes :: "depot \<Rightarrow> string \<Rightarrow> string \<Rightarrow> unit ctl" where
  "fix_modes d target name =
     io_bind (readable_file d (under target name)) (\<lambda>_.
     io_bind (for_each (\<lambda>p. ensure_mode d p (directory_mode target p)) (parents_within target name)) (\<lambda>_.
     io_return ()))"

definition checkout :: "depot \<Rightarrow> string \<Rightarrow> deploy_args \<Rightarrow> unit ctl" where
  "checkout d target args =
     (let s = dp_host d; git = (\<lambda>arguments. run_cmd s (git_in target arguments)) in
      io_bind (observe (\<lambda>past.
        if \<not> st_exists s past target \<or> dp_dir d past (under target ''.git'') then Inr False
        else dp_nonempty d past target)) (\<lambda>foreign.
      io_bind (io_ensure (\<not> foreign) (ValueError ''destination is nonempty and not a Git checkout'')) (\<lambda>_.
      io_bind (file_op s ''mkdir'' target []) (\<lambda>_.
      io_bind (ensure_mode d target 493) (\<lambda>_.
      io_bind (exists_file s (under target ''.git'')) (\<lambda>repository.
      io_bind (if repository then io_return [] else run_cmd s [''git'', ''init'', target]) (\<lambda>_.
      io_bind (git [''status'', ''--porcelain'', ''--untracked-files=no'']) (\<lambda>changes.
      io_bind (io_ensure (changes = []) (ValueError ''checkout has tracked local changes'')) (\<lambda>_.
      io_bind (git [''fetch'', ''--no-tags'', da_source args, da_commit args]) (\<lambda>_.
      io_bind (git [''rev-parse'', ''FETCH_HEAD'']) (\<lambda>fetched.
      io_bind (io_ensure (fetched = da_commit args) (ValueError ''fetched commit differs from requested SHA'')) (\<lambda>_.
      io_bind (git [''checkout'', ''--detach'', da_commit args]) (\<lambda>_.
      io_bind (git [''ls-files'']) (\<lambda>listing.
      io_bind (for_each (fix_modes d target) (splitlines listing)) (\<lambda>_.
      io_return ())))))))))))))))"

section \<open>The runtime files\<close>

definition prepare_directory :: "depot \<Rightarrow> string \<Rightarrow> unit ctl" where
  "prepare_directory d path =
     io_bind (observe (\<lambda>past. dp_stat d past path)) (\<lambda>info.
     io_bind (if (fi_uid info, fi_gid info) = (0, 65532) then io_return ()
              else file_op (dp_host d) ''chown'' path (owner_text 65532)) (\<lambda>_.
     ensure_mode d path 488))"

definition install_file :: "depot \<Rightarrow> string \<Rightarrow> string \<Rightarrow> string \<Rightarrow> bool ctl" where
  "install_file d target config name =
     (let s = dp_host d; path = under target name in
      io_bind (mkdir_parent s path) (\<lambda>_.
      io_bind (if name = ''.env'' then io_return () else prepare_directory d (parent_of path)) (\<lambda>_.
      io_bind (read_text s (under config name)) (\<lambda>content.
      atomic_write d path content (file_mode name) (if name = ''.env'' then 0 else 65532)))))"

definition install_files :: "depot \<Rightarrow> string \<Rightarrow> string \<Rightarrow> nat ctl" where
  "install_files d target config =
     io_bind (observe (\<lambda>past. Inr (config_files (st_exists (dp_host d) past) config))) (\<lambda>names.
     io_bind (for_each (install_file d target config) names) (\<lambda>changed.
     io_return (length (filter id changed))))"

section \<open>The services\<close>

definition compose_base :: "string \<Rightarrow> bool \<Rightarrow> string list" where
  "compose_base target lab =
     [''docker'', ''compose'', ''--project-name'', ''transparent-gateway'', ''--project-directory'', target,
      ''--env-file'', under target ''.env'', ''-f'', under target ''docker-compose.yml'']
     @ (if lab then [''-f'', under target ''deploy/lab/gateway.override.yml''] else [])"

definition fixture_base :: "string \<Rightarrow> string list" where
  "fixture_base target =
     [''docker'', ''compose'', ''--project-name'', ''tg-lab'', ''-f'', under target ''deploy/lab/compose.yml'']"

definition up_arguments :: "int \<Rightarrow> string list" where
  "up_arguments timeout = [''up'', ''--detach'', ''--wait'', ''--wait-timeout'', str_of_int timeout]"

definition all_containers :: "station \<Rightarrow> string list \<Rightarrow> string list ctl" where
  "all_containers s compose = io_bind (run_lines s (compose @ [''ps'', ''--all'', ''--quiet''])) (\<lambda>ids. io_return (remdups ids))"

definition start_fixture :: "station \<Rightarrow> string \<Rightarrow> int \<Rightarrow> unit ctl" where
  "start_fixture s target timeout =
     io_bind (run_cmd s (fixture_base target @ [''config'', ''--quiet''])) (\<lambda>_.
     io_bind (run_cmd s (fixture_base target @ up_arguments timeout)) (\<lambda>_.
     print s ''LAB_FIXTURE local echo only; validator attached to isolated fixture network''))"

definition start_application :: "station \<Rightarrow> string \<Rightarrow> deploy_args \<Rightarrow> nat \<Rightarrow> string list ctl" where
  "start_application s target args changed =
     (let compose = compose_base target (da_lab args) in
      io_bind (run_cmd s (compose @ [''config'', ''--quiet''])) (\<lambda>_.
      io_bind (print s (''COMMIT '' @ da_commit args @ [LF] @ ''PASS docker compose config --quiet'' @ [LF]
        @ ''CONFIG_FILES_CHANGED '' @ dec changed)) (\<lambda>_.
      io_bind (all_containers s compose) (\<lambda>earlier.
      io_bind (if da_lab args then start_fixture s target (da_timeout args) else io_return ()) (\<lambda>_.
      io_bind (print s ''Building application images (cached layers reused)'') (\<lambda>_.
      io_bind (run_cmd s (compose @ [''build'', ''--quiet''])) (\<lambda>_.
      io_bind (run_cmd s (compose @ up_arguments (da_timeout args))) (\<lambda>_.
      io_return earlier))))))))"

text \<open>The gate on the answers of the services at that moment.\<close>

definition gate_step :: "depot \<Rightarrow> string list \<Rightarrow> env \<Rightarrow> readiness ctl" where
  "gate_step d compose vals past =
     (let r = Readiness.check (dp_gates d past) compose (map (\<lambda>(k, v). (k, JStr v)) vals) None in
      (r, past @ [(Gate, ok r)]))"

fun deploy_catches :: "exn \<Rightarrow> bool" where
  "deploy_catches KeyError = True"
| "deploy_catches TypeError = True"
| "deploy_catches (RuntimeError _) = True"
| "deploy_catches e = (is_OSError e \<or> is_ValueError e)"

partial_function (option) deploy_loop ::
  "depot \<Rightarrow> string list \<Rightarrow> env \<Rightarrow> rat \<Rightarrow> string \<Rightarrow> ctl_log \<Rightarrow> (readiness res \<times> ctl_log) option" where
  "deploy_loop d compose vals deadline last_error past =
     (let (t, c) = tick (dp_host d) past in
      if \<not> t < deadline then Some (Inl (RuntimeError (''local readiness deadline exceeded: '' @ last_error)), c)
      else case gate_step d compose vals c of
        (Inr r, c1) \<Rightarrow> Some (Inr r, c1)
      | (Inl e, c1) \<Rightarrow>
          if \<not> deploy_catches e then Some (Inl e, c1)
          else deploy_loop d compose vals deadline (st_str (dp_host d) e) (c1 @ [(Sleep 3, True)]))"

definition readiness_json :: "readiness \<Rightarrow> json" where
  "readiness_json r = JObj [(''scope'', JStr ''host''), (''services'', JInt (int (rd_services r))),
     (''snapshot_age_seconds'', JObj (map (\<lambda>(k, a). (k, JInt a)) (rd_ages r))),
     (''pool_counts'', JObj (map (\<lambda>(k, n). (k, JInt (int n))) (rd_counts r))), (''relay_echo'', JStr ''PASS''),
     (''pipeline'', JObj [(''last_success_age_seconds'', JInt (fst (rd_pipeline r))),
        (''active_cycle_age_seconds'', JInt (snd (rd_pipeline r)))]),
     (''active_exit_ips'', JArr (rd_exits r)), (''client_dns_public'', JStr ''pending'')]"

section \<open>The deployment\<close>

definition record_deployment ::
  "depot \<Rightarrow> string \<Rightarrow> deploy_args \<Rightarrow> nat \<Rightarrow> string list \<Rightarrow> rat \<Rightarrow> readiness \<Rightarrow> unit ctl" where
  "record_deployment d target args changed earlier started ready =
     (let s = dp_host d in
      io_bind (all_containers s (compose_base target (da_lab args))) (\<lambda>later.
      let fresh_ids = filter (\<lambda>i. i \<notin> set earlier) later; kept = filter (\<lambda>i. i \<in> set later) earlier in
      io_bind (observe (\<lambda>past. Inr (dp_stamp d past))) (\<lambda>stamp.
      io_bind (\<lambda>past. case tick s past of (t, c) \<Rightarrow> (Inr (dp_round1 d (t - started)), c)) (\<lambda>elapsed.
      let result = JObj [(''commit'', JStr (da_commit args)), (''destination'', JStr target),
        (''readiness'', readiness_json ready), (''config_files_changed'', JInt (int changed)),
        (''containers_created_or_replaced'', JInt (int (length fresh_ids))),
        (''containers_unchanged'', JInt (int (length kept))), (''container_ids'', JArr (map JStr (sort later))),
        (''completed_at'', stamp), (''elapsed_seconds'', elapsed)] in
      io_bind (atomic_write d STATE (st_dumps s result @ [LF]) 384 0) (\<lambda>_.
      io_bind (print s (''CONTAINERS created_or_replaced='' @ dec (length fresh_ids) @ '' unchanged='' @ dec (length kept))) (\<lambda>_.
      io_bind (print s (''POOL_COUNTS '' @ dp_dumps d (sort_keys (JObj (map (\<lambda>(k, n). (k, JInt (int n))) (rd_counts ready)))))) (\<lambda>_.
      io_bind (print s ''PASS fresh snapshots and configured echo through gateway relay'') (\<lambda>_.
      print s (''HOST_READY elapsed='' @ dp_dumps d elapsed @ ''s; client/DNS/public checks pending'')))))))))"

definition prepare_deployment :: "pyrt \<Rightarrow> depot \<Rightarrow> deploy_args \<Rightarrow> (rat \<times> env \<times> nat \<times> string list) ctl" where
  "prepare_deployment rt d args =
     (let s = dp_host d; target = path_text (da_destination args) in
      io_bind (check_arguments d args) (\<lambda>_.
      io_bind (file_op s ''umask'' [] ''077'') (\<lambda>_.
      io_bind (mkdir_parent s STATE) (\<lambda>_.
      io_bind (take_lock s) (\<lambda>_.
      io_bind (\<lambda>past. case tick s past of (t, c) \<Rightarrow> (Inr t, c)) (\<lambda>started.
      io_bind (check_host rt d args) (\<lambda>vals.
      io_bind (print s ''PASS Debian, Docker, directories, NICs, config, inventory and credential references'') (\<lambda>_.
      io_bind (checkout d target args) (\<lambda>_.
      io_bind (install_files d target (path_text (da_config_dir args))) (\<lambda>changed.
      io_bind (start_application s target args changed) (\<lambda>earlier.
      io_return (started, vals, changed, earlier))))))))))))"

definition deploy :: "pyrt \<Rightarrow> depot \<Rightarrow> deploy_args \<Rightarrow> unit may" where
  "deploy rt d args =
     (let target = path_text (da_destination args); compose = compose_base target (da_lab args) in
      may_bind (returns (prepare_deployment rt d args)) (\<lambda>(started, vals, changed, earlier).
      may_bind (\<lambda>past. let (t, c) = tick (dp_host d) past in
          deploy_loop d compose vals (t + of_int (da_timeout args)) ''not checked'' c) (\<lambda>ready.
      returns (record_deployment d target args changed earlier started ready))))"

fun deploy_reports :: "exn \<Rightarrow> bool" where
  "deploy_reports TimeoutExpired = True"
| "deploy_reports e = deploy_catches e"

definition deploy_main :: "pyrt \<Rightarrow> depot \<Rightarrow> deploy_args \<Rightarrow> int \<Rightarrow> int may" where
  "deploy_main rt d args build_timeout past =
     (let s = dp_host d in
      case (if da_timeout args < 1 \<or> build_timeout < 1 then Some (Inl (ValueError ''timeouts must be positive''), past)
            else deploy rt d args past) of
        None \<Rightarrow> None
      | Some (Inr _, c) \<Rightarrow> Some (Inr 0, c)
      | Some (Inl e, c) \<Rightarrow>
          if deploy_reports e
          then returns (io_bind (print s (''DEPLOY_FAILED: '' @ st_str s e)) (\<lambda>_. io_return 1)) c
          else Some (Inl e, c))"

section \<open>The atomic replacement\<close>

definition replace_log :: "string \<Rightarrow> string \<Rightarrow> string \<Rightarrow> nat \<Rightarrow> int \<Rightarrow> ctl_log" where
  "replace_log temp path content mode gid =
     [(FileOp ''create'' temp [], True), (FileOp ''write'' temp content, True), (FileOp ''fsync'' temp [], True),
      (FileOp ''chmod'' temp (dec mode), True), (FileOp ''chown'' temp (owner_text gid), True), (FileOp ''replace'' temp path, True)]"

lemma replace_file_cases:
  assumes "replace_file s temp path content mode gid past = (r, c)"
  shows "\<exists>new. c = past @ new \<and> partial_log (replace_log temp path content mode gid) new
    \<and> (\<forall>b. r = Inr b \<longrightarrow> b \<and> new = replace_log temp path content mode gid)
    \<and> (\<forall>e. r = Inl e \<longrightarrow> new \<noteq> replace_log temp path content mode gid)"
  using assms unfolding replace_file_def
  by (elim file_op_bind_cases) (auto simp: replace_log_def io_return_def)

definition parent_made :: "string \<Rightarrow> bool \<Rightarrow> ctl_log" where
  "parent_made path b = [(FileOp ''mkdir'' (parent_of path) [], b)]"

lemma unchanged_silent: "unchanged d path content mode gid past = (r, c) \<Longrightarrow> c = past"
  by (auto simp: unchanged_def observe_def)

lemma atomic_write_cases:
  assumes "atomic_write d path content mode gid past = (r, c)"
  shows "\<exists>b new. c = past @ parent_made path b @ new
    \<and> (new = [] \<and> r \<noteq> Inr True
       \<or> b \<and> partial_log (replace_log (dp_temp d (past @ parent_made path True) (parent_of path)) path content mode gid) new
         \<and> r \<noteq> Inr False
         \<and> (r = Inr True \<longleftrightarrow> new = replace_log (dp_temp d (past @ parent_made path True) (parent_of path)) path content mode gid))
    \<and> (r = Inr False \<longrightarrow> b \<and> unchanged d path content mode gid (past @ parent_made path True) = (Inr True, past @ parent_made path True))"
  using assms unfolding atomic_write_def mkdir_parent_def
proof (rule file_op_bind_cases)
  fix e assume "c = past @ [(FileOp ''mkdir'' (parent_of path) [], False)]" "r = Inl e"
  then show ?thesis by (auto simp: parent_made_def)
next
  let ?p = "past @ parent_made path True"
  assume run: "io_bind (observe (\<lambda>past. Inr (dp_symlink d past path))) (\<lambda>link.
     io_bind (io_ensure (\<not> link) (ValueError (''refusing to replace a symlink: '' @ name_of path))) (\<lambda>_.
     io_bind (unchanged d path content mode gid) (\<lambda>same.
     if same then io_return False
     else (\<lambda>past. replace_file (dp_host d) (dp_temp d past (parent_of path)) path content mode gid past))))
     (past @ [(FileOp ''mkdir'' (parent_of path) [], True)]) = (r, c)"
  obtain q c1 where un: "unchanged d path content mode gid ?p = (q, c1)" by fastforce
  have c1: "c1 = ?p" using unchanged_silent[OF un] .
  show ?thesis
  proof (cases "dp_symlink d ?p path \<or> q \<noteq> Inr False")
    case True
    then show ?thesis
      using run un c1 by (cases q)
        (auto simp: io_bind_def observe_def io_ensure_def io_return_def io_raise_def parent_made_def split: if_splits)
  next
    case False
    then have written: "replace_file (dp_host d) (dp_temp d ?p (parent_of path)) path content mode gid ?p = (r, c)"
      using run un c1 by (simp add: io_bind_def observe_def io_ensure_def io_return_def parent_made_def)
    obtain new where new: "c = ?p @ new" "partial_log (replace_log (dp_temp d ?p (parent_of path)) path content mode gid) new"
      "\<forall>b. r = Inr b \<longrightarrow> b \<and> new = replace_log (dp_temp d ?p (parent_of path)) path content mode gid"
      "\<forall>e. r = Inl e \<longrightarrow> new \<noteq> replace_log (dp_temp d ?p (parent_of path)) path content mode gid"
      using replace_file_cases[OF written] by blast
    have "r \<noteq> Inr False" using new(3) by blast
    moreover have "r = Inr True \<longleftrightarrow> new = replace_log (dp_temp d ?p (parent_of path)) path content mode gid"
      using new(3,4) by (cases r) auto
    ultimately show ?thesis using new(1,2) by (intro exI[of _ True] exI[of _ new]) simp
  qed
qed

lemma atomic_write_parent:
  assumes run: "atomic_write d path content mode gid past = (r, c)" and made: "fst (mkdir_parent (dp_host d) path past) = Inr ()"
  shows "prefix (past @ parent_made path True) c"
proof -
  obtain c1 where step: "mkdir_parent (dp_host d) path past = (Inr (), c1)" using made by (cases "mkdir_parent (dp_host d) path past") simp
  then have c1: "c1 = past @ parent_made path True" by (auto simp: mkdir_parent_def parent_made_def dest: file_op_Inr)
  let ?rest = "io_bind (observe (\<lambda>past. Inr (dp_symlink d past path))) (\<lambda>link.
     io_bind (io_ensure (\<not> link) (ValueError (''refusing to replace a symlink: '' @ name_of path))) (\<lambda>_.
     io_bind (unchanged d path content mode gid) (\<lambda>same.
     if same then io_return False
     else (\<lambda>past. replace_file (dp_host d) (dp_temp d past (parent_of path)) path content mode gid past))))"
  have "emits (\<lambda>_. True) ?rest"
    unfolding unchanged_def replace_file_def
    by (intro emits_intros emits_at[where f = "\<lambda>past. dp_temp d past (parent_of path)"]) simp_all
  moreover have "?rest c1 = (r, c)" using run step by (simp add: atomic_write_def)
  ultimately show ?thesis using emits_prefix c1 by blast
qed

text \<open>What the log says of the files that were created in it: content, mode and owner.\<close>

type_synonym tracked = "string \<Rightarrow> (string \<times> string \<times> string) option"

fun track :: "ctl_event \<Rightarrow> tracked \<Rightarrow> tracked" where
  "track (FileOp act p arg, True) f =
     (if act = ''create'' then f(p \<mapsto> ([], ''384'', ''0:0''))
      else if act = ''write'' then f(p := map_option (\<lambda>(_, m, g). (arg, m, g)) (f p))
      else if act = ''chmod'' then f(p := map_option (\<lambda>(c, _, g). (c, arg, g)) (f p))
      else if act = ''chown'' then f(p := map_option (\<lambda>(c, m, _). (c, m, arg)) (f p))
      else if act = ''replace'' then f(arg := f p, p := None)
      else if act = ''unlink'' then f(p := None) else f)"
| "track e f = f"

definition tracked_files :: "ctl_log \<Rightarrow> tracked" where
  "tracked_files past = fold track past Map.empty"

text \<open>A host whose files are what was done to them.\<close>

definition faithful :: "depot \<Rightarrow> bool" where
  "faithful d \<longleftrightarrow> (\<forall>past path content mode gid. tracked_files past path = Some (content, dec mode, owner_text gid) \<longrightarrow>
       st_exists (dp_host d) past path \<and> \<not> dp_symlink d past path \<and> st_read (dp_host d) past path = Inr content
       \<and> (\<exists>info. dp_stat d past path = Inr info \<and> fi_mode info = mode \<and> fi_uid info = 0 \<and> fi_gid info = gid))"

lemma tracked_replace:
  "temp \<noteq> path \<Longrightarrow> tracked_files (past @ replace_log temp path content mode gid) path = Some (content, dec mode, owner_text gid)"
  by (simp add: tracked_files_def replace_log_def)

lemma tracked_parent: "tracked_files (past @ parent_made path' b) = tracked_files past"
  by (cases b) (simp_all add: tracked_files_def parent_made_def)

section \<open>Only the record replaces the state file\<close>

definition replaces :: "string \<Rightarrow> ctl_event \<Rightarrow> bool" where
  "replaces path = (\<lambda>(a, _). case a of FileOp act _ target \<Rightarrow> act = ''replace'' \<and> target = path | _ \<Rightarrow> False)"

lemma replaces_simps [simp]:
  "replaces path (FileOp act p target, b) \<longleftrightarrow> act = ''replace'' \<and> target = path"
  "\<not> replaces path (Run ws, b)" "\<not> replaces path (Print t, b)" "\<not> replaces path (Clock, b)"
  "\<not> replaces path (Gate, b)" "\<not> replaces path (Sleep q, b)"
  by (simp_all add: replaces_def)

lemma not_state: "name \<in> set (FILES @ [OPTIONAL_CA]) \<Longrightarrow> under target name \<noteq> STATE"
proof
  assume "name \<in> set (FILES @ [OPTIONAL_CA])" "under target name = STATE"
  then have "rev (target @ ''/'' @ name) = rev STATE" unfolding under_def by (intro arg_cong[of _ _ rev])
  then have "rev name @ ''/'' @ rev target = rev STATE" by simp
  moreover have "rev STATE = ''nosj.tnemyolped/yawetag-tnerapsnart/bil/rav/''" by code_simp
  ultimately show False
    using \<open>name \<in> set (FILES @ [OPTIONAL_CA])\<close> by (auto simp: FILES_def OPTIONAL_CA_def)
qed

lemma emits_run_cmd [emits_intros]: "P (Run ws, True) \<Longrightarrow> P (Run ws, False) \<Longrightarrow> emits P (run_cmd s ws)"
  unfolding run_cmd_def by (intro emits_intros)

lemma emits_atomic_write:
  assumes "path \<noteq> STATE"
  shows "emits (\<lambda>e. \<not> replaces STATE e) (atomic_write d path content mode gid)"
  unfolding atomic_write_def mkdir_parent_def unchanged_def replace_file_def
  using assms by (intro emits_intros emits_at[where f = "\<lambda>past. dp_temp d past (parent_of path)"]) simp_all

lemmas deploy_steps = check_host_def check_host_network_def checkout_def run_lines_def run_loads_def read_json_def
  read_text_def exists_file_def validate_config_def ensure_mode_def mode_octal_def fix_modes_def readable_file_def
  prepare_directory_def start_application_def start_fixture_def all_containers_def take_lock_def mkdir_parent_def Let_def

lemma emits_install_files: "emits (\<lambda>e. \<not> replaces STATE e) (install_files d target config)"
proof -
  have one: "emits (\<lambda>e. \<not> replaces STATE e) (install_file d target config name)"
    if "name \<in> set (FILES @ [OPTIONAL_CA])" for name
    unfolding install_file_def deploy_steps
    by (intro emits_intros emits_atomic_write not_state that) simp_all
  show ?thesis
    unfolding install_files_def
    by (intro emits_observed emits_bind emits_for_each_in one emits_pure) (auto simp: config_files_def split: if_splits)
qed

lemma emits_prepare_state: "emits (\<lambda>e. \<not> replaces STATE e) (prepare_deployment rt d args)"
  unfolding prepare_deployment_def check_arguments_def deploy_steps
  by (intro emits_intros emits_install_files) simp_all

lemma emits_prepare_gate: "emits (\<lambda>e. \<not> is_gate e) (prepare_deployment rt d args)"
  unfolding prepare_deployment_def check_arguments_def install_files_def install_file_def atomic_write_def unchanged_def
    replace_file_def deploy_steps
  by (intro emits_intros emits_at[where f = "\<lambda>past. dp_temp d past (parent_of _)"]) simp_all

section \<open>The readiness loop\<close>

definition gate_accepts :: "depot \<Rightarrow> string list \<Rightarrow> env \<Rightarrow> ctl_log \<Rightarrow> readiness \<Rightarrow> bool" where
  "gate_accepts d compose vals p y \<longleftrightarrow>
     Readiness.check (dp_gates d p) compose (map (\<lambda>(k, v). (k, JStr v)) vals) None = Inr y"

lemma gate_step_event:
  "gate_step d compose vals past = (r, c) \<Longrightarrow> \<exists>b. c = past @ [(Gate, b)] \<and> (\<forall>y. r = Inr y \<longrightarrow> gate_accepts d compose vals past y)"
  by (auto simp: gate_step_def gate_accepts_def Let_def)

lemma deploy_loop_round:
  obtains
    "\<not> st_clock (dp_host d) past < deadline"
    "deploy_loop d compose vals deadline x past
       = Some (Inl (RuntimeError (''local readiness deadline exceeded: '' @ x)), past @ [(Clock, True)])"
  | r b where "st_clock (dp_host d) past < deadline"
    "deploy_loop d compose vals deadline x past = Some (r, past @ [(Clock, True), (Gate, b)])"
    "\<forall>y. r = Inr y \<longrightarrow> gate_accepts d compose vals (past @ [(Clock, True)]) y"
  | e b where "st_clock (dp_host d) past < deadline" "deploy_catches e"
    "deploy_loop d compose vals deadline x past
       = deploy_loop d compose vals deadline (st_str (dp_host d) e) (past @ [(Clock, True), (Gate, b)] @ [(Sleep 3, True)])"
proof (cases "st_clock (dp_host d) past < deadline")
  case False
  then have "deploy_loop d compose vals deadline x past
      = Some (Inl (RuntimeError (''local readiness deadline exceeded: '' @ x)), past @ [(Clock, True)])"
    by (subst deploy_loop.simps) (simp add: tick_def)
  then show thesis using that(1) False by blast
next
  case True
  obtain r c where run: "gate_step d compose vals (past @ [(Clock, True)]) = (r, c)" by fastforce
  then obtain b where b: "c = past @ [(Clock, True), (Gate, b)]"
    "\<forall>y. r = Inr y \<longrightarrow> gate_accepts d compose vals (past @ [(Clock, True)]) y"
    using gate_step_event by fastforce
  have loop: "deploy_loop d compose vals deadline x past = (case (r, c) of (Inr r, c1) \<Rightarrow> Some (Inr r, c1)
      | (Inl e, c1) \<Rightarrow> if \<not> deploy_catches e then Some (Inl e, c1)
          else deploy_loop d compose vals deadline (st_str (dp_host d) e) (c1 @ [(Sleep 3, True)]))"
    using True by (subst deploy_loop.simps) (simp add: tick_def run)
  show thesis
  proof (cases "\<exists>e. r = Inl e \<and> deploy_catches e")
    case again: True
    then show thesis using that(3) True loop b(1) by auto
  next
    case False
    then have "deploy_loop d compose vals deadline x past = Some (r, past @ [(Clock, True), (Gate, b)])"
      using loop b(1) by (cases r) auto
    then show thesis using that(2) True b(2) by blast
  qed
qed

interpretation deploying: polling "dp_host d" deadline 3 0 "deploy_loop d compose vals deadline" is_gate
  "gate_accepts d compose vals" for d compose vals deadline
proof unfold_locales
  fix past and x :: string
  let ?loop = "deploy_loop d compose vals deadline"
  show "settles (?loop x past) past is_gate 0 (gate_accepts d compose vals)" if "deadline \<le> st_clock (dp_host d) past"
    using that by (cases rule: deploy_loop_round[of d past deadline compose vals x])
      (auto intro!: settlesI[where new = "[(Clock, True)]"])
  show "settles (?loop x past) past is_gate 1 (gate_accepts d compose vals)
      \<or> (\<exists>x' new q. ?loop x past = ?loop x' (past @ new @ [(Sleep q, True)]) \<and> attempts is_gate new \<le> 1
         \<and> (3 \<le> q \<or> (\<exists>p r. past @ new = p @ r \<and> deadline \<le> st_clock (dp_host d) p + q)))"
    if "st_clock (dp_host d) past < deadline"
  proof (cases rule: deploy_loop_round[of d past deadline compose vals x])
    case 1
    then show ?thesis using that by simp
  next
    case (2 r b)
    have "settles (?loop x past) past is_gate 1 (gate_accepts d compose vals)"
    proof (rule settlesI[OF 2(2)])
      fix y assume "r = Inr y"
      then show "\<exists>p. prefix past p \<and> prefix p (past @ [(Clock, True), (Gate, b)]) \<and> gate_accepts d compose vals p y"
        using 2(3) by (intro exI[of _ "past @ [(Clock, True)]"]) simp
    qed simp
    then show ?thesis by blast
  next
    case (3 e b)
    have "attempts is_gate [(Clock, True), (Gate, b)] \<le> 1" by simp
    moreover have "(3 :: rat) \<le> 3" by simp
    ultimately show ?thesis using 3(3) by blast
  qed
qed simp_all

text \<open>What the loop leaves behind when it ends, whatever the clock does.\<close>

lemma deploy_loop_Some:
  assumes "deploy_loop d compose vals deadline x past = Some (r, c)"
  shows "\<exists>new. c = past @ new \<and> list_all (\<lambda>e. \<not> replaces STATE e) new
    \<and> (\<forall>y. r = Inr y \<longrightarrow> (\<exists>p. prefix past p \<and> prefix p c \<and> gate_accepts d compose vals p y))"
proof -
  let ?P = "\<lambda>d compose vals deadline x past (y :: readiness res \<times> ctl_log). \<exists>new. snd y = past @ new
    \<and> list_all (\<lambda>e. \<not> replaces STATE e) new
    \<and> (\<forall>z. fst y = Inr z \<longrightarrow> (\<exists>p. prefix past p \<and> prefix p (snd y) \<and> gate_accepts d compose vals p z))"
  have "?P d compose vals deadline x past (r, c)"
  proof (rule deploy_loop.raw_induct[of ?P, OF _ assms], goal_cases)
    case (1 f d compose vals deadline x past y)
    obtain q c1 where run: "gate_step d compose vals (past @ [(Clock, True)]) = (q, c1)" by fastforce
    obtain b where b: "c1 = (past @ [(Clock, True)]) @ [(Gate, b)]"
      "\<forall>z. q = Inr z \<longrightarrow> gate_accepts d compose vals (past @ [(Clock, True)]) z"
      using gate_step_event[OF run] by blast
    show ?case
    proof (cases "st_clock (dp_host d) past < deadline \<and> (\<exists>e. q = Inl e \<and> deploy_catches e)")
      case True
      then obtain e where e: "q = Inl e" "deploy_catches e" by blast
      let ?next = "c1 @ [(Sleep 3, True)]"
      have "f d compose vals deadline (st_str (dp_host d) e) ?next = Some y"
        using 1(2) True run e by (simp add: tick_def)
      then obtain new where new: "snd y = ?next @ new" "list_all (\<lambda>e. \<not> replaces STATE e) new"
        "\<forall>z. fst y = Inr z \<longrightarrow> (\<exists>p. prefix ?next p \<and> prefix p (snd y) \<and> gate_accepts d compose vals p z)"
        using 1(1) by blast
      have "\<exists>p. prefix past p \<and> prefix p (snd y) \<and> gate_accepts d compose vals p z" if accepted: "fst y = Inr z" for z
      proof -
        obtain p where "prefix ?next p" "prefix p (snd y)" "gate_accepts d compose vals p z" using new(3) accepted by blast
        then show ?thesis using b(1) append_prefixD by (intro exI[of _ p]) auto
      qed
      then show ?thesis
        using new(1,2) b(1) by (intro exI[of _ "[(Clock, True), (Gate, b), (Sleep 3, True)] @ new"]) simp
    next
      case False
      then have "y = (if st_clock (dp_host d) past < deadline then (q, c1)
          else (Inl (RuntimeError (''local readiness deadline exceeded: '' @ x)), past @ [(Clock, True)]))"
        using 1(2) run by (cases q) (auto simp: tick_def split: if_splits)
      then show ?thesis using b by (auto intro!: exI[of _ "past @ [(Clock, True)]"])
    qed
  qed
  then show ?thesis by simp
qed

section \<open>Properties\<close>

text \<open>
  What the operations of \<open>atomic_write\<close> do to the files, as POSIX documents it: a file has a text, a
  mode and an owner, and its text is on the disk only after an \<open>fsync\<close>; a write that fails or is
  interrupted leaves any text behind; \<open>rename\<close> moves the file as it is, in one step. An event
  \<open>(act, False)\<close> is an operation that failed or was interrupted.
\<close>

record stored =
  so_text :: string
  so_durable :: bool
  so_mode :: string
  so_owner :: string

type_synonym disk = "string \<Rightarrow> stored option"

fun file_effect :: "ctl_event \<Rightarrow> disk \<Rightarrow> disk \<Rightarrow> bool" where
  "file_effect (FileOp act p arg, b) f g \<longleftrightarrow>
     (if act = ''create'' then
        g = f(p \<mapsto> \<lparr>so_text = [], so_durable = False, so_mode = ''384'', so_owner = ''0:0''\<rparr>) \<or> \<not> b \<and> g = f
      else if act = ''write'' then
        (\<exists>t. (b \<longrightarrow> t = arg) \<and> g = f(p := map_option (\<lambda>x. x\<lparr>so_text := t, so_durable := False\<rparr>) (f p)))
      else if act = ''replace'' \<and> p \<noteq> arg \<and> b then g = f(arg := f p, p := None)
      else if act = ''fsync'' \<and> b then g = f(p := map_option (\<lambda>x. x\<lparr>so_durable := True\<rparr>) (f p))
      else if act = ''chmod'' \<and> b then g = f(p := map_option (\<lambda>x. x\<lparr>so_mode := arg\<rparr>) (f p))
      else if act = ''chown'' \<and> b then g = f(p := map_option (\<lambda>x. x\<lparr>so_owner := arg\<rparr>) (f p))
      else g = f)"
| "file_effect _ f g \<longleftrightarrow> g = f"

fun disk_run :: "ctl_log \<Rightarrow> disk \<Rightarrow> disk \<Rightarrow> bool" where
  "disk_run [] f g \<longleftrightarrow> g = f"
| "disk_run (e # es) f g \<longleftrightarrow> (\<exists>h. file_effect e f h \<and> disk_run es h g)"

text \<open>
  The events that a reader, or a machine that stops, may find done while \<open>new\<close> happens: a beginning
  of them, the last one possibly interrupted.
\<close>

definition cut_short :: "ctl_log \<Rightarrow> ctl_log \<Rightarrow> bool" where
  "cut_short new sofar \<longleftrightarrow> prefix sofar new
     \<or> (\<exists>early act b late. new = early @ (act, b) # late \<and> sofar = early @ [(act, False)])"

text \<open>An event that leaves the file \<open>path\<close> alone.\<close>

fun spares :: "string \<Rightarrow> ctl_event \<Rightarrow> bool" where
  "spares path (FileOp act p arg, b) \<longleftrightarrow> act = ''mkdir'' \<or> p \<noteq> path \<and> (act = ''replace'' \<and> b \<longrightarrow> arg \<noteq> path)"
| "spares path _ \<longleftrightarrow> True"

lemma file_effect_spares: "file_effect e f g \<Longrightarrow> spares path e \<Longrightarrow> g path = f path"
  by (cases "(e, f, g)" rule: file_effect.cases) (auto split: if_splits)

lemma disk_run_spares: "disk_run es f g \<Longrightarrow> list_all (spares path) es \<Longrightarrow> g path = f path"
  by (induction es arbitrary: f) (auto dest: file_effect_spares)

lemma disk_run_append: "disk_run (xs @ ys) f g \<longleftrightarrow> (\<exists>h. disk_run xs f h \<and> disk_run ys h g)"
  by (induction xs arbitrary: f) auto

lemma partial_log_spares:
  assumes "partial_log all new" "list_all (\<lambda>(act, b). b \<and> spares path (act, False)) all" "list_all (spares path) (butlast all)"
  shows "list_all (spares path) new \<or> new = all"
  using assms
proof (induction all new rule: partial_log.induct)
  case (1 x all y)
  then show ?case by (cases x; cases y; cases all; cases "snd y") auto
next
  case (2 x all y z new)
  then show ?case by (cases all) (auto split: if_splits)
qed auto

lemma spares_interrupted: "spares path (act, b) \<Longrightarrow> spares path (act, False)"
  by (cases act) auto

lemma cut_short_spares: "cut_short new sofar \<Longrightarrow> list_all (spares path) new \<Longrightarrow> list_all (spares path) sofar"
  by (auto simp: cut_short_def elim!: prefixE dest: spares_interrupted)

lemma cut_short_complete:
  assumes sofar: "cut_short all sofar" and last: "list_all (\<lambda>(act, b). spares path (act, False)) all"
    and init: "list_all (spares path) (butlast all)"
  shows "list_all (spares path) sofar \<or> sofar = all"
  using sofar unfolding cut_short_def
proof
  assume "prefix sofar all"
  then obtain rest where all: "all = sofar @ rest" by (rule prefixE)
  show ?thesis
  proof (cases "rest = []")
    case False
    then show ?thesis using init unfolding all by (simp add: butlast_append)
  qed (simp add: all)
next
  assume "\<exists>early act b late. all = early @ (act, b) # late \<and> sofar = early @ [(act, False)]"
  then show ?thesis using last init by (auto simp: butlast_append)
qed

lemma replace_log_disk:
  assumes "temp \<noteq> path" "disk_run (replace_log temp path content mode gid) f g"
  shows "g path = Some \<lparr>so_text = content, so_durable = True, so_mode = dec mode, so_owner = owner_text gid\<rparr>"
  using assms by (auto simp: replace_log_def)

lemma replace_log_spares:
  assumes "temp \<noteq> path"
  shows "list_all (spares path) (butlast (replace_log temp path content mode gid))"
    "list_all (\<lambda>(act, b). b \<and> spares path (act, False)) (replace_log temp path content mode gid)"
    "list_all (\<lambda>(act, b). spares path (act, False)) (replace_log temp path content mode gid)"
  using assms by (simp_all add: replace_log_def)

text \<open>At every moment of the replacement, complete or not, it is done or has left the file alone.\<close>

lemma replacement_moment:
  assumes log: "new = [] \<or> partial_log (replace_log temp path content mode gid) new" and temp: "temp \<noteq> path"
    and sofar: "cut_short (parent_made path b @ new) sofar"
  shows "list_all (spares path) sofar \<or> sofar = parent_made path b @ replace_log temp path content mode gid \<and> sofar = parent_made path b @ new"
proof -
  let ?all = "replace_log temp path content mode gid"
  note init = replace_log_spares[OF temp]
  consider "list_all (spares path) new" | "new = ?all"
    using log partial_log_spares[OF _ init(2,1)] by auto
  then show ?thesis
  proof cases
    case 1
    then have "list_all (spares path) sofar" by (intro cut_short_spares[OF sofar]) (simp add: parent_made_def)
    then show ?thesis ..
  next
    case 2
    have "list_all (spares path) sofar \<or> sofar = parent_made path b @ ?all"
      using sofar unfolding 2 by (rule cut_short_complete) (use init in \<open>simp_all add: parent_made_def butlast_append\<close>)
    then show ?thesis using 2 by blast
  qed
qed

text \<open>
  C28. However \<open>atomic_write\<close> ends, and whenever it is interrupted, the file is as it was or completely
  new: at every moment of it, whatever failed or torn writes leave elsewhere, the file \<open>path\<close> is
  the one that was there before, or it has the whole new content, on the disk, with the new mode and
  owner. It is the new one after \<open>True\<close>, and the old one after an exception and after \<open>False\<close>, which
  is returned only when the file was found with this content, mode and owner already. The temporary
  file, whose name \<open>NamedTemporaryFile\<close> chooses, is not the file itself.
\<close>

theorem atomic_write_whole:
  assumes run: "atomic_write d path content mode gid past = (r, past')"
    and temp: "dp_temp d (past @ parent_made path True) (parent_of path) \<noteq> path"
  shows "\<exists>new. past' = past @ new
    \<and> (\<forall>sofar f g. cut_short new sofar \<longrightarrow> disk_run sofar f g \<longrightarrow> g path = f path
        \<or> g path = Some \<lparr>so_text = content, so_durable = True, so_mode = dec mode, so_owner = owner_text gid\<rparr>)
    \<and> (\<forall>f g. disk_run new f g \<longrightarrow> g path = (if r = Inr True
        then Some \<lparr>so_text = content, so_durable = True, so_mode = dec mode, so_owner = owner_text gid\<rparr> else f path))
    \<and> (r = Inr False \<longrightarrow> st_read (dp_host d) past' path = Inr content
        \<and> (\<exists>info. dp_stat d past' path = Inr info \<and> fi_mode info = mode \<and> fi_uid info = 0 \<and> fi_gid info = gid))"
proof -
  let ?temp = "dp_temp d (past @ parent_made path True) (parent_of path)"
  let ?all = "replace_log ?temp path content mode gid"
  obtain b new where past': "past' = past @ parent_made path b @ new" and log: "new = [] \<or> partial_log ?all new"
    and result: "r = Inr True \<longleftrightarrow> new = ?all"
    and same: "r = Inr False \<Longrightarrow> b \<and> new = [] \<and> unchanged d path content mode gid (past @ parent_made path True) = (Inr True, past @ parent_made path True)"
    using atomic_write_cases[OF run] by (auto simp: replace_log_def)
  have done_disk: "g path = Some \<lparr>so_text = content, so_durable = True, so_mode = dec mode, so_owner = owner_text gid\<rparr>"
    if "disk_run (parent_made path b @ ?all) f g" for f g
    using that replace_log_disk[OF temp] unfolding disk_run_append by blast
  have spared: "list_all (spares path) new \<or> new = ?all"
    using log partial_log_spares[OF _ replace_log_spares(2,1)[OF temp]] by auto
  have moments: "g path = f path \<or> g path = Some \<lparr>so_text = content, so_durable = True, so_mode = dec mode, so_owner = owner_text gid\<rparr>"
    if "cut_short (parent_made path b @ new) sofar" "disk_run sofar f g" for sofar f g
    using replacement_moment[OF log temp that(1)] disk_run_spares[OF that(2)] done_disk that(2) by blast
  moreover have "g path = (if r = Inr True
      then Some \<lparr>so_text = content, so_durable = True, so_mode = dec mode, so_owner = owner_text gid\<rparr> else f path)"
    if "disk_run (parent_made path b @ new) f g" for f g
    using that spared result done_disk disk_run_spares[OF that, of path] by (auto simp: parent_made_def)
  moreover have "st_read (dp_host d) past' path = Inr content
      \<and> (\<exists>info. dp_stat d past' path = Inr info \<and> fi_mode info = mode \<and> fi_uid info = 0 \<and> fi_gid info = gid)" if "r = Inr False"
    using same[OF that] past' by (auto simp: unchanged_def observe_def rbind_eq_Inr split: if_splits)
  ultimately show ?thesis using past' by blast
qed

text \<open>
  Writing the same again changes nothing: on a host that keeps its files, an \<open>atomic_write\<close> after a
  successful one with the same content, mode and group returns \<open>False\<close> and touches no file, or fails
  to make the directory; the name of the temporary file is not that of the file.
\<close>

theorem atomic_write_idempotent:
  assumes host: "faithful d" and temp: "\<And>past. dp_temp d past (parent_of path) \<noteq> path"
    and first: "atomic_write d path content mode gid past = (Inr True, c)"
    and later: "atomic_write d path content mode gid c = (r, c')"
  shows "c' = c @ parent_made path True \<and> r = Inr False \<or> c' = c @ parent_made path False \<and> (\<exists>e. r = Inl e)"
proof -
  let ?temp = "dp_temp d (past @ parent_made path True) (parent_of path)"
  let ?p = "c @ parent_made path True"
  obtain b where "c = past @ parent_made path b @ replace_log ?temp path content mode gid"
    using atomic_write_cases[OF first] by auto
  then have "tracked_files ?p path = Some (content, dec mode, owner_text gid)"
    using tracked_parent[of c path True] tracked_replace[of ?temp path "past @ parent_made path b" content mode gid] temp
    by simp
  then have known: "st_exists (dp_host d) ?p path" "\<not> dp_symlink d ?p path" "st_read (dp_host d) ?p path = Inr content"
    "\<exists>info. dp_stat d ?p path = Inr info \<and> fi_mode info = mode \<and> fi_uid info = 0 \<and> fi_gid info = gid"
    using host unfolding faithful_def by blast+
  have same: "unchanged d path content mode gid ?p = (Inr True, ?p)"
    using known by (auto simp: unchanged_def observe_def)
  from later show ?thesis
    unfolding atomic_write_def mkdir_parent_def
  proof (rule file_op_bind_cases)
    fix e assume "c' = c @ [(FileOp ''mkdir'' (parent_of path) [], False)]" "r = Inl e"
    then show ?thesis by (simp add: parent_made_def)
  next
    assume "io_bind (observe (\<lambda>past. Inr (dp_symlink d past path))) (\<lambda>link.
     io_bind (io_ensure (\<not> link) (ValueError (''refusing to replace a symlink: '' @ name_of path))) (\<lambda>_.
     io_bind (unchanged d path content mode gid) (\<lambda>same.
     if same then io_return False
     else (\<lambda>past. replace_file (dp_host d) (dp_temp d past (parent_of path)) path content mode gid past))))
     (c @ [(FileOp ''mkdir'' (parent_of path) [], True)]) = (r, c')"
    then show ?thesis
      using known(2) same by (simp add: parent_made_def io_bind_def observe_def io_ensure_def io_return_def)
  qed
qed

section \<open>A deployment ends\<close>

lemma emits_record_gate: "emits (\<lambda>e. \<not> is_gate e) (record_deployment d target args changed earlier started ready)"
  unfolding record_deployment_def all_containers_def run_lines_def atomic_write_def unchanged_def replace_file_def
    mkdir_parent_def Let_def
  by (intro emits_intros emits_at[where f = "\<lambda>past. dp_temp d past (parent_of _)"]) simp_all

lemma deploy_run:
  assumes "deploy rt d args past = Some (r, past')"
  obtains e where "prepare_deployment rt d args past = (Inl e, past')" "r = Inl e"
  | started vals changed earlier prepared q c where
    "prepare_deployment rt d args past = (Inr (started, vals, changed, earlier), prepared)"
    "deploy_loop d (compose_base (path_text (da_destination args)) (da_lab args)) vals
       (st_clock (dp_host d) prepared + of_int (da_timeout args)) ''not checked'' (prepared @ [(Clock, True)]) = Some (q, c)"
    "\<And>e. q = Inl e \<Longrightarrow> past' = c \<and> r = Inl e"
    "\<And>y. q = Inr y \<Longrightarrow>
       record_deployment d (path_text (da_destination args)) args changed earlier started y c = (r, past')"
  using assms unfolding deploy_def may_bind_def returns_def
  by (auto simp: tick_def Let_def split: sum.splits bind_splits prod.splits)


text \<open>
  \<open>deploy\<close> ends, with an error or not, when the clock is monotonic and sleeping takes its time;
  the gate has then been asked at most once for every three seconds of the timeout.
\<close>

theorem deploy_decides:
  assumes clock: "clock_law (dp_host d)"
  shows "\<exists>r new. deploy rt d args past = Some (r, past @ new) \<and> attempts is_gate new \<le> rounds (da_timeout args) 3"
proof -
  let ?target = "path_text (da_destination args)" and ?n = "rounds (da_timeout args) 3"
  let ?compose = "compose_base ?target (da_lab args)"
  obtain r1 new1 where first: "prepare_deployment rt d args past = (r1, past @ new1)" "list_all (\<lambda>e. \<not> is_gate e) new1"
    using emits_prepare_gate emitsE by (metis surj_pair)
  show ?thesis
  proof (cases r1)
    case (Inl e)
    then show ?thesis
      using first by (intro exI[of _ "Inl e"] exI[of _ new1]) (simp add: deploy_def may_bind_def returns_def attempts_none Let_def)
  next
    case (Inr v)
    obtain started vals changed earlier where v: "v = (started, vals, changed, earlier)" by (cases v)
    let ?p = "past @ new1"
    let ?deadline = "st_clock (dp_host d) ?p + of_int (da_timeout args)"
    have "?deadline \<le> st_clock (dp_host d) (?p @ [(Clock, True)]) + 3 * of_nat ?n"
      by (rule rounds_enough[OF clock]) simp
    from deploying.loop_settles[OF clock this, of ?compose vals "''not checked''"]
    obtain q new2 where loop: "deploy_loop d ?compose vals ?deadline ''not checked'' (?p @ [(Clock, True)])
        = Some (q, (?p @ [(Clock, True)]) @ new2)" "attempts is_gate new2 \<le> ?n"
      unfolding settles_def by auto
    let ?c = "(?p @ [(Clock, True)]) @ new2"
    show ?thesis
    proof (cases q)
      case (Inl e)
      then show ?thesis
        using first loop Inr v
        by (intro exI[of _ "Inl e"] exI[of _ "new1 @ [(Clock, True)] @ new2"])
          (simp add: deploy_def may_bind_def returns_def tick_def attempts_none Let_def)
    next
      case (Inr y)
      obtain r new3 where last: "record_deployment d ?target args changed earlier started y ?c = (r, ?c @ new3)"
        "list_all (\<lambda>e. \<not> is_gate e) new3"
        using emits_record_gate emitsE by (metis surj_pair)
      show ?thesis
        using first loop last Inr \<open>r1 = Inr v\<close> v
        by (intro exI[of _ r] exI[of _ "new1 @ [(Clock, True)] @ new2 @ new3"])
          (simp add: deploy_def may_bind_def returns_def tick_def attempts_none Let_def)
    qed
  qed
qed

text \<open>
  C27. A deployment is recorded only after the readiness gate: when \<open>deploy\<close> has replaced the state
  file, every preparation step had succeeded before it, and the gate had accepted, between the start of
  the services and the record, the host as it then was, for the values of the validated configuration.
\<close>

theorem deployment_recorded_after_gate:
  assumes run: "deploy rt d args past = Some (r, past')"
    and recorded: "past' = past @ early @ (FileOp ''replace'' temp STATE, b) # late"
  shows "\<exists>started vals changed earlier prepared q result.
    prepare_deployment rt d args past = (Inr (started, vals, changed, earlier), prepared)
    \<and> prefix prepared q \<and> prefix q (past @ early)
    \<and> gate_accepts d (compose_base (path_text (da_destination args)) (da_lab args)) vals q result"
  using run
proof (cases rule: deploy_run)
  case (1 e)
  then show ?thesis
    using emits_prepare_state[of rt d args] recorded by (auto elim!: emitsE)
next
  case (2 started vals changed earlier prepared q c)
  obtain new1 where new1: "prepared = past @ new1" "list_all (\<lambda>e. \<not> replaces STATE e) new1"
    using emits_prepare_state 2(1) by (rule emitsE)
  obtain new2 where new2: "c = (prepared @ [(Clock, True)]) @ new2" "list_all (\<lambda>e. \<not> replaces STATE e) new2"
    "\<forall>y. q = Inr y \<longrightarrow> (\<exists>p. prefix (prepared @ [(Clock, True)]) p \<and> prefix p c
      \<and> gate_accepts d (compose_base (path_text (da_destination args)) (da_lab args)) vals p y)"
    using deploy_loop_Some[OF 2(2)] by blast
  show ?thesis
  proof (cases q)
    case (Inl e)
    then have "early @ (FileOp ''replace'' temp STATE, b) # late = new1 @ [(Clock, True)] @ new2"
      using 2(3)[OF Inl] new1(1) new2(1) recorded by simp
    then have "list_all (\<lambda>e. \<not> replaces STATE e) (early @ (FileOp ''replace'' temp STATE, b) # late)"
      using new1(2) new2(2) by simp
    then show ?thesis by simp
  next
    case (Inr y)
    obtain new3 where new3: "past' = c @ new3"
      using 2(4)[OF Inr] emits_record_gate emitsE by blast
    obtain p where p: "prefix (prepared @ [(Clock, True)]) p" "prefix p c"
      "gate_accepts d (compose_base (path_text (da_destination args)) (da_lab args)) vals p y"
      using new2(3) Inr by blast
    have "(new1 @ [(Clock, True)] @ new2) @ new3 = early @ (FileOp ''replace'' temp STATE, b) # late"
      using recorded new3 new2(1) new1(1) by simp
    then obtain zs where "early = (new1 @ [(Clock, True)] @ new2) @ zs"
      using event_after[of "new1 @ [(Clock, True)] @ new2" new3 early _ late "replaces STATE"] new1(2) new2(2) by auto
    then have "prefix c (past @ early)" using new1(1) new2(1) by simp
    then show ?thesis
      using 2(1) p append_prefixD prefix_order.trans by blast
  qed
qed

section \<open>Examples\<close>

text \<open>A host that keeps what was written to it, and nothing else.\<close>

definition parsed_info :: "string \<Rightarrow> string \<Rightarrow> file_info" where
  "parsed_info mode owner = \<lparr>fi_regular = True, fi_uid = 0,
     fi_gid = (case drop 2 owner of c # ds \<Rightarrow> if c = CHR ''-'' then - int (digits_val 10 ds) else int (digits_val 10 (c # ds)) | [] \<Rightarrow> 0),
     fi_mode = digits_val 10 mode\<rparr>"

definition keeping_depot :: "station \<Rightarrow> depot" where
  "keeping_depot s = \<lparr>dp_host = s\<lparr>st_exists := \<lambda>past path. tracked_files past path \<noteq> None,
       st_read := \<lambda>past path. (case tracked_files past path of Some (t, _) \<Rightarrow> Inr t | None \<Rightarrow> Inl FileNotFoundError)\<rparr>,
     dp_symlink = (\<lambda>_ _. False), dp_dir = (\<lambda>_ _. False), dp_file = (\<lambda>_ _. False), dp_nonempty = (\<lambda>_ _. Inr False),
     dp_stat = (\<lambda>past path. case tracked_files past path of
       Some (_, mode, owner) \<Rightarrow> Inr (parsed_info mode owner) | None \<Rightarrow> Inl FileNotFoundError),
     dp_temp = (\<lambda>_ dir. dir @ ''/tmp''), dp_load_ca = (\<lambda>_ _. Inr ()), dp_gates = (\<lambda>_. sample_gate),
     dp_stamp = (\<lambda>_. JStr []), dp_round1 = (\<lambda>_. JInt 0), dp_dumps = (\<lambda>_. [])\<rparr>"

lemma parsed_info: "parsed_info (dec mode) (owner_text gid) = \<lparr>fi_regular = True, fi_uid = 0, fi_gid = gid, fi_mode = mode\<rparr>"
proof -
  have digits: "digits_val 10 (dec n) = n" for n by (rule digits_val_digits) simp_all
  obtain c ds where cs: "dec (nat gid) = c # ds" by (cases "dec (nat gid)") simp_all
  have "c \<in> set (dec (nat gid))" using cs by simp
  then have "is_hexchar c" using dec_chars by blast
  then have "c \<noteq> CHR ''-''" by (auto simp: is_hexchar_def)
  then show ?thesis
    using digits[of mode] digits[of "nat gid"] digits[of "nat (- gid)"] cs
    by (simp add: parsed_info_def owner_text_def str_of_int_def)
qed

lemma keeping_faithful: "faithful (keeping_depot s)"
  by (simp add: faithful_def keeping_depot_def parsed_info)

lemma atomic_write_whole_witness:
  "\<exists>new. atomic_write (keeping_depot (sample_station JNull)) ''/v/x'' ''new'' 384 0 [] = (Inr True, new) \<and> length new = 7
     \<and> (\<forall>sofar f g. cut_short new sofar \<longrightarrow> disk_run sofar f g \<longrightarrow> g ''/v/x'' = f ''/v/x''
        \<or> g ''/v/x'' = Some \<lparr>so_text = ''new'', so_durable = True, so_mode = ''384'', so_owner = ''0:0''\<rparr>)
     \<and> (\<forall>f g. disk_run new f g \<longrightarrow>
        g ''/v/x'' = Some \<lparr>so_text = ''new'', so_durable = True, so_mode = ''384'', so_owner = ''0:0''\<rparr>)"
proof -
  let ?run = "atomic_write (keeping_depot (sample_station JNull)) ''/v/x'' ''new'' 384 0 []"
  have first: "fst ?run = Inr True" and count: "length (snd ?run) = 7" by code_simp+
  have run: "?run = (Inr True, snd ?run)" using first by (simp add: prod_eq_iff)
  have temp: "dp_temp (keeping_depot (sample_station JNull)) ([] @ parent_made ''/v/x'' True) (parent_of ''/v/x'') \<noteq> ''/v/x''"
    by code_simp
  have numbers: "dec 384 = ''384''" "owner_text 0 = ''0:0''" by code_simp+
  from atomic_write_whole[OF run temp] show ?thesis using run count unfolding numbers by auto
qed

lemma atomic_write_idempotent_witness:
  "\<exists>c. atomic_write (keeping_depot (sample_station JNull)) ''/v/x'' ''new'' 384 0 [] = (Inr True, c)
    \<and> fst (atomic_write (keeping_depot (sample_station JNull)) ''/v/x'' ''new'' 384 0 c) = Inr False"
proof -
  let ?d = "keeping_depot (sample_station JNull)"
  obtain c where first: "atomic_write ?d ''/v/x'' ''new'' 384 0 [] = (Inr True, c)"
  proof -
    have "fst (atomic_write ?d ''/v/x'' ''new'' 384 0 []) = Inr True" by code_simp
    then show thesis using that by (metis prod.collapse)
  qed
  obtain r c' where later: "atomic_write ?d ''/v/x'' ''new'' 384 0 c = (r, c')" by fastforce
  have temp: "dp_temp ?d past (parent_of ''/v/x'') \<noteq> ''/v/x''" for past
    by (simp add: keeping_depot_def parent_of_def rsplit1_def split1.simps)
  from atomic_write_idempotent[OF keeping_faithful temp first later] have "r = Inr False"
  proof
    assume failed: "c' = c @ parent_made ''/v/x'' False \<and> (\<exists>e. r = Inl e)"
    have "fst (mkdir_parent (dp_host ?d) ''/v/x'' c) = Inr ()"
      by (simp add: mkdir_parent_def file_op_def keeping_depot_def sample_station_def)
    then have "prefix (c @ parent_made ''/v/x'' True) c'" by (rule atomic_write_parent[OF later])
    then show ?thesis using failed by (simp add: parent_made_def)
  qed simp
  then show ?thesis using first later by auto
qed

section \<open>A whole deployment\<close>

definition deploy_answer :: "string list \<Rightarrow> string" where
  "deploy_answer ws =
     (if ws = address_command then ''addresses'' else if ws = route_command then ''routes''
      else if last ws = ''HEAD'' \<or> last ws = ''FETCH_HEAD'' then sample_sha
      else if last ws = ''ls-files'' then ''src/app.py''
      else if last ws = ''label=com.docker.compose.project=transparent-gateway'' then join [LF] SERVICES
      else if take 2 ws = [''docker'', ''inspect''] then ''rows''
      else if last ws = ''json'' then ''rendered'' else [])"

definition deploy_host :: "string \<Rightarrow> station" where
  "deploy_host config = (sample_station JNull)\<lparr>st_run := (\<lambda>_ ws. Inr (0, deploy_answer ws)), st_exists := (\<lambda>_ _. False),
     st_lstat := (\<lambda>_ path. Inr (sample_info config path)),
     st_read := (\<lambda>_. sample_file config), st_json := deploy_json\<rparr>"

definition sample_depot :: "string \<Rightarrow> depot" where
  "sample_depot config = (keeping_depot (deploy_host config))\<lparr>dp_host := deploy_host config, dp_file := (\<lambda>_ _. True),
     dp_stat := (\<lambda>_ _. Inr \<lparr>fi_regular = True, fi_uid = 0, fi_gid = 65532, fi_mode = 493\<rparr>)\<rparr>"

definition sample_deploy_args :: deploy_args where
  "sample_deploy_args = \<lparr>da_source = ''https://e/r'', da_commit = sample_sha, da_destination = ''/opt/tg'', da_config_dir = ''/c'',
     da_timeout = 180, da_lab = False\<rparr>"

lemma fst_bind:
  assumes "\<And>p. fst (m p) = Inr x" "\<And>p. fst (f x p) = Inr y"
  shows "fst (io_bind m f past) = Inr y"
proof -
  obtain c where "m past = (Inr x, c)" using assms(1)[of past] by (cases "m past") simp
  then show ?thesis using assms(2) by simp
qed

lemma ex_fst_bind:
  assumes "\<And>p. fst (m p) = Inr x" "\<And>p. \<exists>t. fst (f x p) = Inr (g t)"
  shows "\<exists>t. fst (io_bind m f past) = Inr (g t)"
proof -
  obtain c where "m past = (Inr x, c)" using assms(1)[of past] by (cases "m past") simp
  then show ?thesis using assms(2) by simp
qed

lemma ex_fst_tick:
  assumes "\<And>t p. fst (f t p) = Inr (g t)"
  shows "\<exists>t. fst (io_bind (\<lambda>past. case tick s past of (t, c) \<Rightarrow> (Inr t, c)) f past) = Inr (g t)"
  using assms by (auto simp: io_bind_def tick_def)

lemma sample_view_at: "view_at (sample_depot config) past = sample_view config"
  by (simp add: view_at_def sample_depot_def deploy_host_def keeping_depot_def sample_view_def sample_station_def)

lemma sample_check_host: "fst (check_host plain_rt (sample_depot ''/c'') sample_deploy_args past) = Inr deploy_env"
proof -
  have config: "path_text (da_config_dir sample_deploy_args) = ''/c''" by code_simp
  have valid: "fst (validate_config plain_rt (sample_depot ''/c'') ''/c'' sample_host past) = Inr deploy_env" for past
    by (simp add: validate_config_def observe_def sample_view_at sample_valid)
  let ?s = "dp_host (sample_depot ''/c'')"
  have release: "fst (read_text ?s ''/etc/os-release'' p) = Inr (join [LF] [''ID=debian'', ''VERSION_ID=13''])" for p
    by code_simp
  have debian: "fst (io_ensure (is_debian13 (join [LF] [''ID=debian'', ''VERSION_ID=13''])) e p) = Inr ()" for e p
    by (simp add: io_ensure_def io_return_def) code_simp
  have host: "fst (read_json ?s HOST_FILE p) = Inr sample_host" for p
    by code_simp
  have network: "fst (check_host_network plain_rt ?s f e sample_host p) = Inr ()" for f e p
    by code_simp
  have docker: "fst (run_cmd ?s [''docker'', ''info'', ''--format'', ''{{.ServerVersion}}''] p) = Inr []"
    "fst (run_cmd ?s [''docker'', ''compose'', ''version''] p) = Inr []" for p
    by code_simp+
  show ?thesis
    unfolding check_host_def Let_def config
    by (intro fst_bind[OF release] fst_bind[OF debian] fst_bind[OF host] fst_bind[OF network] fst_bind[OF docker(1)]
        fst_bind[OF docker(2)] valid)
qed

lemma sample_file_op: "file_op (deploy_host config) act path content p = (Inr (), p @ [(FileOp act path content, True)])"
  by (simp add: file_op_def deploy_host_def sample_station_def)

lemma sample_atomic_write:
  "fst (atomic_write (sample_depot config) path content mode gid p) = Inr True"
  by (simp add: atomic_write_def mkdir_parent_def unchanged_def replace_file_def observe_def io_bind_def io_ensure_def io_return_def
      sample_depot_def keeping_depot_def sample_file_op) (simp add: deploy_host_def)

lemma sample_install:
  assumes "name \<in> set FILES"
  shows "fst (install_file (sample_depot ''/c'') ''/opt/tg'' ''/c'' name p) = Inr True"
proof -
  let ?s = "dp_host (sample_depot ''/c'')"
  have read: "\<exists>content. fst (read_text ?s (under ''/c'' name) p) = Inr content" for p
    using assms by (auto simp: read_text_def observe_def sample_depot_def deploy_host_def sample_file_def under_def FILES_def)
  then obtain content where content: "fst (read_text ?s (under ''/c'' name) p) = Inr content" for p
    by (auto simp: read_text_def observe_def sample_depot_def deploy_host_def)
  have mkdir: "fst (mkdir_parent ?s path p) = Inr ()" for path p
    by (simp add: mkdir_parent_def sample_depot_def sample_file_op)
  have directory: "fst ((if name = ''.env'' then io_return () else prepare_directory (sample_depot ''/c'') path) p) = Inr ()" for path p
    by (simp add: prepare_directory_def ensure_mode_def mode_octal_def observe_def io_bind_def io_return_def sample_depot_def
        sample_file_op)
  show ?thesis
    unfolding install_file_def Let_def
    by (intro fst_bind[OF mkdir] fst_bind[OF directory] fst_bind[OF content] sample_atomic_write)
qed

lemma for_each_fst:
  assumes "\<And>x p. x \<in> set xs \<Longrightarrow> fst (f x p) = Inr y"
  shows "fst (for_each f xs past) = Inr (replicate (length xs) y)"
  using assms
proof (induction xs arbitrary: past)
  case (Cons x xs)
  then show ?case by (auto intro!: fst_bind simp: io_return_def)
qed (simp add: io_return_def)

lemma sample_prepare:
  "\<exists>t n ids c. prepare_deployment plain_rt (sample_depot ''/c'') sample_deploy_args [] = (Inr (t, deploy_env, n, ids), c)"
proof -
  let ?d = "sample_depot ''/c''" and ?args = sample_deploy_args
  let ?s = "dp_host ?d"
  have paths: "path_text (da_destination ?args) = ''/opt/tg''" "path_text (da_config_dir ?args) = ''/c''" by code_simp+
  have arguments: "fst (check_arguments ?d ?args p) = Inr ()" for p by code_simp
  have umask: "fst (file_op ?s ''umask'' [] ''077'' p) = Inr ()" for p by code_simp
  have mkdir: "fst (mkdir_parent ?s STATE p) = Inr ()" for p by code_simp
  have lock: "fst (take_lock ?s p) = Inr ()" for p by code_simp
  have passed: "fst (print ?s line p) = Inr ()" for line p
    by (simp add: print_def sample_depot_def deploy_host_def sample_station_def)
  have repository: "fst (checkout ?d ''/opt/tg'' ?args p) = Inr ()" for p by code_simp
  have installed: "fst (install_files ?d ''/opt/tg'' ''/c'' p) = Inr 5" for p
  proof -
    have names: "fst (observe (\<lambda>past. Inr (config_files (st_exists ?s past) ''/c'')) q) = Inr FILES" for q
      by (simp add: observe_def config_files_def sample_depot_def deploy_host_def)
    have each: "fst (for_each (install_file ?d ''/opt/tg'' ''/c'') FILES q) = Inr (replicate (length FILES) True)" for q
      by (rule for_each_fst) (rule sample_install)
    show ?thesis
      unfolding install_files_def
      by (intro fst_bind[OF names] fst_bind[OF each]) (simp add: io_return_def FILES_def)
  qed
  have started: "fst (start_application ?s ''/opt/tg'' ?args 5 p) = Inr []" for p by code_simp
  have "\<exists>t. fst (prepare_deployment plain_rt ?d ?args []) = Inr (t, deploy_env, 5, [])"
    unfolding prepare_deployment_def Let_def paths
    by (intro ex_fst_bind[OF arguments] ex_fst_bind[OF umask] ex_fst_bind[OF mkdir] ex_fst_bind[OF lock] ex_fst_tick
        fst_bind[OF sample_check_host] fst_bind[OF passed] fst_bind[OF repository] fst_bind[OF installed] fst_bind[OF started])
      (simp add: io_return_def)
  then show ?thesis by (cases "prepare_deployment plain_rt ?d ?args []") auto
qed

lemma sample_record:
  "\<exists>early temp late. snd (record_deployment (sample_depot ''/c'') (path_text (da_destination sample_deploy_args)) sample_deploy_args
     n ids t ready past) = early @ (FileOp ''replace'' temp STATE, True) # late"
proof -
  let ?d = "sample_depot ''/c''" and ?target = "path_text (da_destination sample_deploy_args)"
  let ?s = "dp_host ?d"
  have "fst (all_containers ?s (compose_base ?target (da_lab sample_deploy_args)) past) = Inr []" by code_simp
  then obtain c1 where ids: "all_containers ?s (compose_base ?target (da_lab sample_deploy_args)) past = (Inr [], c1)"
    by (metis prod.collapse)
  have print: "print ?s line p = (Inr (), p @ [(Print line, True)])" for line p
    by (simp add: print_def sample_depot_def deploy_host_def sample_station_def)
  define f where "f x p = snd (atomic_write ?d STATE x 384 0 p)" for x p
  have wrote: "atomic_write ?d STATE x 384 0 p = (Inr True, f x p)" for x p
    unfolding f_def by (simp add: prod_eq_iff sample_atomic_write)
  obtain x p late where all: "snd (record_deployment ?d ?target sample_deploy_args n ids t ready past) = f x p @ late"
    by (atomize_elim) (auto simp: record_deployment_def Let_def ids io_bind_def observe_def tick_def wrote print)
  obtain b temp where "f x p = p @ parent_made STATE b @ replace_log temp STATE x 384 0"
    using atomic_write_cases[OF wrote, of x p] by auto
  moreover have "replace_log temp STATE x 384 0
      = butlast (replace_log temp STATE x 384 0) @ [(FileOp ''replace'' temp STATE, True)]"
    by (simp add: replace_log_def)
  ultimately have "f x p = (p @ parent_made STATE b @ butlast (replace_log temp STATE x 384 0)) @ [(FileOp ''replace'' temp STATE, True)]"
    by (metis append_assoc)
  then show ?thesis using all by (metis append_Cons append_Nil append_assoc)
qed

lemma deploy_env_gate:
  "gate_limits (map (\<lambda>(k, v). (k, JStr v)) deploy_env) = Inr [(''raw'', 60), (''validated'', 60), (''reserve'', 60), (''active'', 60)]"
  "item (map (\<lambda>(k, v). (k, JStr v)) deploy_env) ''ANONYMITY_CHECK_URL'' = Inr (JStr ''http://e/'')"
  "get (map (\<lambda>(k, v). (k, JStr v)) deploy_env) ''LAB_LOCAL_ECHO_ENABLED'' \<noteq> JStr ''1''"
  by code_simp+

lemma sample_deploys:
  "\<exists>r c early temp late. deploy plain_rt (sample_depot ''/c'') sample_deploy_args [] = Some (r, c)
    \<and> c = [] @ early @ (FileOp ''replace'' temp STATE, True) # late"
proof -
  let ?d = "sample_depot ''/c''" and ?args = sample_deploy_args
  let ?compose = "compose_base (path_text (da_destination ?args)) (da_lab ?args)"
  obtain t n ids c where prepared: "prepare_deployment plain_rt ?d ?args [] = (Inr (t, deploy_env, n, ids), c)"
    using sample_prepare by blast
  obtain ready where "Readiness.check sample_gate ?compose (map (\<lambda>(k, v). (k, JStr v)) deploy_env) None = Inr ready"
    using sample_gate_ready[OF deploy_env_gate] by blast
  then have gate: "gate_step ?d ?compose deploy_env p = (Inr ready, p @ [(Gate, True)])" for p
    by (simp add: gate_step_def sample_depot_def keeping_depot_def ok_def)
  let ?p = "c @ [(Clock, True)]"
  let ?c = "?p @ [(Clock, True), (Gate, True)]"
  have "st_clock (dp_host ?d) ?p < st_clock (dp_host ?d) c + of_int (da_timeout ?args)"
    by (simp add: sample_depot_def deploy_host_def sample_station_def sample_clock_def sample_deploy_args_def)
  then have loop: "deploy_loop ?d ?compose deploy_env (st_clock (dp_host ?d) c + of_int (da_timeout ?args)) ''not checked'' ?p
      = Some (Inr ready, ?c)"
    using gate by (subst deploy_loop.simps) (simp add: tick_def)
  let ?outcome = "record_deployment ?d (path_text (da_destination ?args)) ?args n ids t ready ?c"
  have run: "deploy plain_rt ?d ?args [] = Some ?outcome"
    using prepared loop by (simp add: deploy_def may_bind_def returns_def tick_def Let_def)
  have "\<exists>early temp late. snd ?outcome = early @ (FileOp ''replace'' temp STATE, True) # late"
    by (rule sample_record)
  then show ?thesis using run by (metis append_Nil prod.collapse)
qed

lemma deploy_decides_witness:
  "\<exists>r new. deploy plain_rt (sample_depot ''/c'') sample_deploy_args [] = Some (r, new) \<and> attempts is_gate new \<le> 60"
proof -
  have "clock_law (dp_host (sample_depot ''/c''))"
    by (rule clock_law_sample) (simp add: sample_depot_def deploy_host_def sample_station_def)
  from deploy_decides[OF this, of plain_rt sample_deploy_args "[]"] show ?thesis
    by (auto simp: rounds_def sample_deploy_args_def)
qed

lemma deployment_recorded_after_gate_witness:
  "\<exists>vals q result. gate_accepts (sample_depot ''/c'') (compose_base ''/opt/tg'' False) vals q result"
proof -
  obtain r c early temp late where run: "deploy plain_rt (sample_depot ''/c'') sample_deploy_args [] = Some (r, c)"
    "c = [] @ early @ (FileOp ''replace'' temp STATE, True) # late"
    using sample_deploys by blast
  have "path_text (da_destination sample_deploy_args) = ''/opt/tg''" "\<not> da_lab sample_deploy_args" by code_simp+
  then show ?thesis using deployment_recorded_after_gate[OF run] by auto
qed

end
