(* ===== verification/Bootstrap.thy ===== *)
theory Bootstrap
  imports Deploy
begin

text \<open>
  The check of a fresh host and the record of it (\<open>deploy/cloud-init/bootstrap.py\<close>), on the log of
  \<open>Station\<close>: the release file with the quoting rules of \<open>shlex\<close>, the packages, the network, Docker, the
  guest agent and the manifest of the script itself.
\<close>

record boot_host =
  bh_host :: station
  bh_self :: string
  bh_hostname :: "ctl_log \<Rightarrow> string"
  bh_stamp :: "ctl_log \<Rightarrow> string"
  bh_temp :: "ctl_log \<Rightarrow> string"

definition CONFIG :: string where
  "CONFIG = ''/etc/transparent-gateway/host.json''"

definition SOURCE :: string where
  "SOURCE = ''/usr/local/lib/transparent-gateway/bootstrap-source.json''"

definition BOOTSTRAP :: string where
  "BOOTSTRAP = ''/var/lib/transparent-gateway/bootstrap.json''"

section \<open>The release file\<close>

text \<open>
  \<open>shlex.split\<close>: words at blanks, quotes of both kinds, and backslashes outside of quotes and in double
  quotes. Between words and inside a word the lexer does the same, so both are \<open>Bare\<close>; \<open>quoted\<close>
  says that the word has had quotes, so that it counts even when it is empty.
\<close>

datatype lexing = Bare | Quoted char | Escaped "char option"

abbreviation is_quote :: "char \<Rightarrow> bool" where
  "is_quote c \<equiv> c = CHR 0x22 \<or> c = CHR 0x27"

abbreviation backslash :: char where
  "backslash \<equiv> CHR 0x5C"

definition is_blank :: "char \<Rightarrow> bool" where
  "is_blank c \<longleftrightarrow> c \<in> {CHR '' '', CHR 0x09, CR, LF}"

fun shlex :: "string \<Rightarrow> bool \<Rightarrow> lexing \<Rightarrow> string \<Rightarrow> string list res" where
  "shlex cur quoted Bare [] = Inr (if cur = [] \<and> \<not> quoted then [] else [rev cur])"
| "shlex cur quoted Bare (c # s) =
     (if is_blank c then
        (if cur = [] \<and> \<not> quoted then shlex [] False Bare s
         else rbind (shlex [] False Bare s) (\<lambda>ws. Inr (rev cur # ws)))
      else if c = backslash then shlex cur quoted (Escaped None) s
      else if is_quote c then shlex cur quoted (Quoted c) s
      else shlex (c # cur) quoted Bare s)"
| "shlex cur quoted (Quoted q) [] = Inl (ValueError ''No closing quotation'')"
| "shlex cur quoted (Quoted q) (c # s) =
     (if c = q then shlex cur True Bare s
      else if c = backslash \<and> q = CHR 0x22 then shlex cur True (Escaped (Some q)) s
      else shlex (c # cur) True (Quoted q) s)"
| "shlex cur quoted (Escaped outer) [] = Inl (ValueError ''No escaped character'')"
| "shlex cur quoted (Escaped None) (c # s) = shlex (c # cur) quoted Bare s"
| "shlex cur quoted (Escaped (Some q)) (c # s) =
     shlex (if c \<noteq> backslash \<and> c \<noteq> q then c # backslash # cur else c # cur) quoted (Quoted q) s"

definition shlex_split :: "string \<Rightarrow> string list res" where
  "shlex_split s = shlex [] False Bare s"

text \<open>The assignments of the file, in order.\<close>

fun release_values :: "string list \<Rightarrow> (string \<times> string) list res" where
  "release_values [] = Inr []"
| "release_values (l # ls) =
     (case (if starts_with ''#'' l then None else split1 CHR ''='' l) of
        None \<Rightarrow> release_values ls
      | Some (key, v) \<Rightarrow>
          rbind (shlex_split v) (\<lambda>ws.
          case ws of [] \<Rightarrow> Inl IndexError
          | w # _ \<Rightarrow> rbind (release_values ls) (\<lambda>rest. Inr ((key, w) # rest))))"

definition is_trixie :: "(string \<times> string) list \<Rightarrow> bool" where
  "is_trixie release \<longleftrightarrow> map_of (rev release) ''ID'' = Some ''debian'' \<and> map_of (rev release) ''VERSION_ID'' = Some ''13''"

section \<open>The checks\<close>

definition ask_host :: "station \<Rightarrow> string list \<Rightarrow> string ctl" where
  "ask_host s command =
     io_bind (spawn s command) (\<lambda>(n, out).
     io_bind (io_ensure (n = 0) (RuntimeError (hd command @ '' prerequisite check failed (exit '' @ str_of_int n @ '')''))) (\<lambda>_.
     io_return (strip out)))"

definition ask_json :: "station \<Rightarrow> string list \<Rightarrow> json ctl" where
  "ask_json s command = io_bind (ask_host s command) (\<lambda>out. io_lift (json_loads (st_json s out)))"

definition check_release :: "station \<Rightarrow> unit ctl" where
  "check_release s =
     io_bind (io_ensure (st_euid s = 0) (RuntimeError ''run with sudo'')) (\<lambda>_.
     io_bind (read_text s ''/etc/os-release'') (\<lambda>t.
     io_bind (io_lift (release_values (splitlines t))) (\<lambda>release.
     io_bind (io_ensure (is_trixie release) (RuntimeError ''Debian 13 is required'')) (\<lambda>_.
     print s ''PASS Debian 13''))))"

definition package_command :: "string \<Rightarrow> string \<Rightarrow> string list" where
  "package_command field package = [''dpkg-query'', ''-W'', ''-f'', field, package]"

definition check_package :: "station \<Rightarrow> json \<Rightarrow> (string \<times> string) ctl" where
  "check_package s v =
     io_bind (io_lift (text_of v)) (\<lambda>package.
     io_bind (ask_host s (package_command ''${Status}'' package)) (\<lambda>status.
     io_bind (io_ensure (status = ''install ok installed'') (RuntimeError (''required package is not installed: '' @ package))) (\<lambda>_.
     io_bind (ask_host s (package_command ''${Version}'' package)) (\<lambda>version.
     io_return (package, version)))))"

definition check_packages :: "station \<Rightarrow> json \<Rightarrow> dict ctl" where
  "check_packages s config =
     io_bind (io_lift (rbind (subscript config ''required_packages'') iterate)) (\<lambda>packages.
     io_bind (for_each (check_package s) packages) (\<lambda>found.
     let versions = fold (\<lambda>(p, v). set_item p (JStr v)) found [] in
     io_bind (ask_host s [''dig'', ''-v'']) (\<lambda>_.
     io_bind (print s (''PASS required packages ('' @ dec (length versions) @ ''), including dig'')) (\<lambda>_.
     io_return versions))))"

definition interface_text :: "nat \<times> nat \<Rightarrow> string" where
  "interface_text = (\<lambda>(n, p). ipv4_str n @ ''/'' @ dec p)"

text \<open>Whether the interface has the address and is up, in this order.\<close>

definition nic_matches :: "pyrt \<Rightarrow> json \<Rightarrow> string \<Rightarrow> bool res" where
  "nic_matches rt row cidr =
     rbind (dict_attr row) (\<lambda>m.
     rbind (iterate (get_default m ''addr_info'' (JArr []))) (\<lambda>infos.
     rbind (rmap (cidr_text rt) infos) (\<lambda>texts.
     Inr (cidr \<in> set texts \<and> get m ''operstate'' = JStr ''UP''))))"

definition check_interface :: "pyrt \<Rightarrow> station \<Rightarrow> (json \<times> json) list \<Rightarrow> string \<times> json \<Rightarrow> unit ctl" where
  "check_interface rt s rows = (\<lambda>(name, declared).
     io_bind (io_lift (rbind (ipv4_interface rt declared) (\<lambda>i. Inr (interface_text i)))) (\<lambda>cidr.
     io_bind (io_lift (nic_matches rt (row_of rows name) cidr)) (\<lambda>good.
     io_bind (io_ensure good (RuntimeError (''interface '' @ name @ '' does not match expected network''))) (\<lambda>_.
     print s (''PASS '' @ name @ '' '' @ cidr)))))"

definition check_links :: "pyrt \<Rightarrow> station \<Rightarrow> json \<Rightarrow> unit ctl" where
  "check_links rt s config =
     io_bind (ask_json s address_command) (\<lambda>v.
     io_bind (io_lift (rbind (iterate v) rows_by_name)) (\<lambda>rows.
     io_bind (io_lift (rbind (subscript config ''interfaces'') dict_attr)) (\<lambda>interfaces.
     io_bind (for_each (check_interface rt s rows) interfaces) (\<lambda>_.
     io_bind (ask_json s route_command) (\<lambda>routes.
     io_bind (io_lift (default_route_ok config routes)) (\<lambda>good.
     io_bind (io_ensure good (RuntimeError ''expected one management default route on eth0'')) (\<lambda>_.
     print s ''PASS default route via management'')))))))"

definition compose_major :: "string \<Rightarrow> int res" where
  "compose_major t =
     of_option (ValueError ''invalid literal for int()'') (py_int (before CHR ''.'' (lstrip_by (\<lambda>c. c = CHR ''v'') t)))"

definition check_engine :: "station \<Rightarrow> (string \<times> string) ctl" where
  "check_engine s =
     io_bind (ask_host s [''docker'', ''info'', ''--format'', ''{{.ServerVersion}}'']) (\<lambda>docker.
     io_bind (ask_host s [''docker'', ''compose'', ''version'', ''--short'']) (\<lambda>compose.
     io_bind (io_lift (compose_major compose)) (\<lambda>major.
     io_bind (io_ensure (2 \<le> major) (RuntimeError ''Compose v2 or newer is required'')) (\<lambda>_.
     io_bind (print s (''PASS Docker '' @ docker @ ''; Compose '' @ compose)) (\<lambda>_.
     io_bind (ask_host s [''systemctl'', ''is-active'', ''qemu-guest-agent.service'']) (\<lambda>agent.
     io_bind (io_ensure (agent = ''active'') (RuntimeError ''QEMU guest agent is not active'')) (\<lambda>_.
     io_bind (print s ''PASS QEMU guest agent'') (\<lambda>_.
     io_return (docker, compose)))))))))"

text \<open>The f-string \<open>{v[:12]}\<close>.\<close>

definition short_text :: "pyrt \<Rightarrow> json \<Rightarrow> string res" where
  "short_text rt v =
     (case v of
        JStr t \<Rightarrow> Inr (take 12 t)
      | JArr xs \<Rightarrow> Inr (py_str rt (JArr (take 12 xs)))
      | JObj _ \<Rightarrow> Inl KeyError
      | _ \<Rightarrow> Inl TypeError)"

definition check_source :: "pyrt \<Rightarrow> boot_host \<Rightarrow> (json \<times> string) ctl" where
  "check_source rt b =
     (let s = bh_host b in
      io_bind (read_json s SOURCE) (\<lambda>source.
      io_bind (read_text s (bh_self b)) (\<lambda>body.
      let digest = st_sha256 s body in
      io_bind (io_lift (subscript source ''bootstrap_sha256'')) (\<lambda>declared.
      io_bind (io_ensure (declared = JStr digest) (RuntimeError ''bootstrap file does not match its source manifest'')) (\<lambda>_.
      io_bind (io_lift (subscript source ''commit'')) (\<lambda>commit.
      io_bind (io_lift (short_text rt commit)) (\<lambda>short.
      io_bind (print s (''PASS bootstrap source '' @ short)) (\<lambda>_.
      io_return (commit, digest)))))))))"

definition check :: "pyrt \<Rightarrow> boot_host \<Rightarrow> dict ctl" where
  "check rt b =
     (let s = bh_host b in
      io_bind (check_release s) (\<lambda>_.
      io_bind (read_json s CONFIG) (\<lambda>config.
      io_bind (check_packages s config) (\<lambda>versions.
      io_bind (check_links rt s config) (\<lambda>_.
      io_bind (check_engine s) (\<lambda>(docker, compose).
      io_bind (check_source rt b) (\<lambda>(commit, digest).
      io_bind (observe (\<lambda>past. Inr (bh_hostname b past))) (\<lambda>hostname.
      io_bind (read_text s ''/proc/sys/kernel/random/boot_id'') (\<lambda>boot.
      io_bind (io_lift (subscript config ''interfaces'')) (\<lambda>interfaces.
      io_return [(''status'', JStr ''HOST_READY''), (''application_deployment'', JStr ''pending''), (''hostname'', JStr hostname),
        (''boot_id'', JStr (strip boot)), (''source_commit'', commit), (''bootstrap_sha256'', JStr digest),
        (''docker_version'', JStr docker), (''compose_version'', JStr compose), (''interfaces'', interfaces),
        (''package_versions'', JObj versions)]))))))))))"

section \<open>The record\<close>

definition check_record :: "pyrt \<Rightarrow> station \<Rightarrow> dict \<Rightarrow> unit ctl" where
  "check_record rt s result =
     io_bind (read_json s BOOTSTRAP) (\<lambda>recorded.
     io_bind (io_lift (dict_attr recorded)) (\<lambda>m.
     io_bind (io_ensure (get m ''status'' = JStr ''HOST_READY'' \<and> py_eq (get m ''source_commit'') (get result ''source_commit'')
         \<and> get m ''bootstrap_sha256'' = get result ''bootstrap_sha256'')
       (RuntimeError ''no matching successful bootstrap record'')) (\<lambda>_.
     io_bind (io_lift (item m ''completed_at'')) (\<lambda>stamp.
     print s (''BOOTSTRAP_COMPLETED '' @ py_str rt stamp)))))"

text \<open>The steps that replace the record; a failure before the last one leaves the temporary file.\<close>

definition record_text :: "boot_host \<Rightarrow> string \<Rightarrow> dict \<Rightarrow> string" where
  "record_text b stamp result = st_dumps (bh_host b) (JObj (result @ [(''completed_at'', JStr stamp)])) @ [LF]"

definition replace_record :: "station \<Rightarrow> string \<Rightarrow> string \<Rightarrow> unit ctl" where
  "replace_record s temp content =
     io_bind (file_op s ''create'' temp []) (\<lambda>_.
     io_bind (file_op s ''write'' temp content) (\<lambda>_.
     io_bind (file_op s ''fsync'' temp []) (\<lambda>_.
     io_bind (file_op s ''chmod'' temp (dec 416)) (\<lambda>_.
     file_op s ''replace'' temp BOOTSTRAP))))"

definition write_record :: "boot_host \<Rightarrow> dict \<Rightarrow> unit ctl" where
  "write_record b result =
     io_bind (mkdir_parent (bh_host b) BOOTSTRAP) (\<lambda>_.
     io_bind (observe (\<lambda>past. Inr (bh_stamp b past))) (\<lambda>stamp.
     (\<lambda>past. replace_record (bh_host b) (bh_temp b past) (record_text b stamp result) past)))"

definition checked_main :: "pyrt \<Rightarrow> boot_host \<Rightarrow> bool \<Rightarrow> unit ctl" where
  "checked_main rt b check_only =
     io_bind (check rt b) (\<lambda>result.
     io_bind (if check_only then check_record rt (bh_host b) result else write_record b result) (\<lambda>_.
     print (bh_host b) ''HOST_READY; application deployment pending (stage 3)''))"

fun bootstrap_catches :: "exn \<Rightarrow> bool" where
  "bootstrap_catches (RuntimeError _) = True"
| "bootstrap_catches KeyError = True"
| "bootstrap_catches TimeoutExpired = True"
| "bootstrap_catches e = (is_OSError e \<or> is_ValueError e)"

definition bootstrap_main :: "pyrt \<Rightarrow> boot_host \<Rightarrow> bool \<Rightarrow> int ctl" where
  "bootstrap_main rt b check_only past =
     (case checked_main rt b check_only past of
        (Inr _, c) \<Rightarrow> (Inr 0, c)
      | (Inl e, c) \<Rightarrow>
          if bootstrap_catches e
          then io_bind (print (bh_host b) (''BOOTSTRAP_FAILED: '' @ st_str (bh_host b) e)) (\<lambda>_. io_return 1) c
          else (Inl e, c))"

section \<open>Quoting\<close>

lemma shlex_bare:
  assumes "list_all (\<lambda>c. \<not> is_blank c \<and> c \<noteq> backslash \<and> \<not> is_quote c) v"
  shows "shlex cur quoted Bare v = shlex (rev v @ cur) quoted Bare []"
  using assms by (induction v arbitrary: cur) simp_all

lemma shlex_single:
  assumes "CHR 0x27 \<notin> set v"
  shows "shlex cur quoted (Quoted (CHR 0x27)) (v @ [CHR 0x27]) = shlex (rev v @ cur) True Bare []"
  using assms by (induction v arbitrary: cur quoted) auto

text \<open>How \<open>os-release\<close> asks to write a value with special characters: in double quotes, with escapes.\<close>

definition escaped :: "char \<Rightarrow> string" where
  "escaped c = (if c = backslash \<or> c = CHR 0x22 then [backslash, c] else [c])"

definition release_quote :: "string \<Rightarrow> string" where
  "release_quote v = CHR 0x22 # concat (map escaped v) @ [CHR 0x22]"

lemma shlex_double:
  "shlex cur quoted (Quoted (CHR 0x22)) (concat (map escaped v) @ [CHR 0x22]) = shlex (rev v @ cur) True Bare []"
  by (induction v arbitrary: cur quoted) (auto simp: escaped_def)

lemma shlex_quote: "shlex_split (release_quote v) = Inr [v]"
  by (simp add: shlex_split_def release_quote_def shlex_double is_blank_def CR_def LF_def)

text \<open>A value as the file may write it: plain, or in double quotes.\<close>

definition written_as :: "string \<Rightarrow> string \<Rightarrow> bool" where
  "written_as t v \<longleftrightarrow> t = release_quote v
     \<or> (t = v \<and> v \<noteq> [] \<and> list_all (\<lambda>c. \<not> is_blank c \<and> c \<noteq> backslash \<and> \<not> is_quote c) v)"

lemma written_as_split: "written_as t v \<Longrightarrow> shlex_split t = Inr [v]"
  unfolding written_as_def using shlex_quote by (auto simp: shlex_split_def shlex_bare)

lemma release_values_lines:
  assumes "list_all2 (\<lambda>l (k, v). \<exists>t. l = k @ CHR ''='' # t \<and> CHR ''='' \<notin> set k \<and> \<not> starts_with ''#'' l \<and> written_as t v) ls vals"
  shows "release_values ls = Inr vals"
  using assms
proof (induction rule: list_all2_induct)
  case (Cons l ls p vals)
  then obtain k v t where "p = (k, v)" "l = k @ CHR ''='' # t" "CHR ''='' \<notin> set k" "\<not> starts_with ''#'' l" "shlex_split t = Inr [v]"
    using written_as_split by (cases p) auto
  then show ?case using Cons.IH by (simp add: split1_append)
qed simp

text \<open>An empty value, which the format allows, raises an exception that \<open>main\<close> does not catch.\<close>

lemma empty_value_escapes:
  "release_values [''BUG_REPORT_URL=''] = Inl IndexError" and "\<not> bootstrap_catches IndexError"
  by code_simp+

section \<open>The record\<close>

definition replaces_record :: "ctl_event \<Rightarrow> bool" where
  "replaces_record = (\<lambda>(a, _). case a of FileOp act _ target \<Rightarrow> act = ''replace'' \<and> target = BOOTSTRAP | _ \<Rightarrow> False)"

lemma replaces_record_simps [simp]:
  "replaces_record (Print t, x)  \<longleftrightarrow> False" "replaces_record (Run ws, x) \<longleftrightarrow> False"
  "replaces_record (FileOp act p arg, x) \<longleftrightarrow> act = ''replace'' \<and> arg = BOOTSTRAP"
  by (simp_all add: replaces_record_def)

definition unrecorded :: "'a ctl \<Rightarrow> bool" where
  "unrecorded m \<longleftrightarrow> emits (\<lambda>e. \<not> replaces_record e) m"

lemma unrecorded_intros [intro]:
  "unrecorded (ask_host s ws)" "unrecorded (ask_json s ws)" "unrecorded (read_json s path)" "unrecorded (read_text s path)"
  "unrecorded (print s t)" "unrecorded (io_lift r)" "unrecorded (io_ensure c e)" "unrecorded (io_return x)" "unrecorded (observe f)"
  unfolding unrecorded_def ask_host_def ask_json_def read_json_def read_text_def by (intro emits_intros; simp)+

lemma unrecorded_bind [intro]: "unrecorded m \<Longrightarrow> (\<And>x. unrecorded (f x)) \<Longrightarrow> unrecorded (io_bind m f)"
  unfolding unrecorded_def by (rule emits_bind)

lemma unrecorded_each [intro]: "(\<And>x. unrecorded (f x)) \<Longrightarrow> unrecorded (for_each f xs)"
  unfolding unrecorded_def by (rule emits_for_each)

lemma unrecorded_pair [intro]: "(\<And>x y. unrecorded (f x y)) \<Longrightarrow> unrecorded (case p of (x, y) \<Rightarrow> f x y)"
  by (cases p) simp

lemma steps_unrecorded:
  "unrecorded (check_package s v)" "unrecorded (check_release s)" "unrecorded (check_packages s config)"
  "unrecorded (check_interface rt s rows x)" "unrecorded (check_links rt s config)" "unrecorded (check_engine s)"
  "unrecorded (check_source rt b)"
proof -
  have package: "unrecorded (check_package s v)" for s v unfolding check_package_def by (intro unrecorded_intros unrecorded_bind)
  have interface: "unrecorded (check_interface rt s rows p)" for s rows p
    unfolding check_interface_def by (cases p) (auto simp: prod.case)
  show "unrecorded (check_package s v)" "unrecorded (check_interface rt s rows x)" by (rule package, rule interface)
  show "unrecorded (check_release s)" "unrecorded (check_packages s config)"
    unfolding check_release_def check_packages_def Let_def by (intro unrecorded_intros unrecorded_bind unrecorded_each package)+
  show "unrecorded (check_links rt s config)"
    unfolding check_links_def by (intro unrecorded_intros unrecorded_bind unrecorded_each interface)
  show "unrecorded (check_engine s)" "unrecorded (check_source rt b)"
    unfolding check_engine_def check_source_def Let_def by (intro unrecorded_intros unrecorded_bind)+
qed

lemma check_unrecorded: "unrecorded (check rt b)"
  unfolding check_def Let_def by (intro unrecorded_bind unrecorded_pair unrecorded_intros steps_unrecorded)

lemma unrecorded_prefix: "unrecorded m \<Longrightarrow> m past = (r, c) \<Longrightarrow> prefix past c"
  unfolding unrecorded_def by (rule emits_prefix)

lemma record_unrecorded: "unrecorded (check_record rt s result)"
  unfolding check_record_def by (intro unrecorded_intros unrecorded_bind)

lemma replace_record_cases:
  assumes "replace_record s temp content past = (r, c)"
  shows "(\<exists>new. c = past @ new \<and> list_all (\<lambda>e. \<not> replaces_record e) new)
    \<or> (\<exists>b. c = past @ [(FileOp ''create'' temp [], True), (FileOp ''write'' temp content, True), (FileOp ''fsync'' temp [], True),
          (FileOp ''chmod'' temp (dec 416), True), (FileOp ''replace'' temp BOOTSTRAP, b)])"
  using assms unfolding replace_record_def io_bind_def file_op_def by (auto split: sum.splits)

text \<open>What has been done when the record is moved into place.\<close>

definition record_log :: "string \<Rightarrow> string \<Rightarrow> ctl_log" where
  "record_log temp content = [(FileOp ''mkdir'' (parent_of BOOTSTRAP) [], True), (FileOp ''create'' temp [], True),
     (FileOp ''write'' temp content, True), (FileOp ''fsync'' temp [], True), (FileOp ''chmod'' temp (dec 416), True)]"

lemma write_record_cases:
  assumes "write_record b result past = (r, c)"
  shows "(\<exists>new. c = past @ new \<and> list_all (\<lambda>e. \<not> replaces_record e) new)
    \<or> (\<exists>stamp temp moved. c = past @ record_log temp (record_text b stamp result) @ [(FileOp ''replace'' temp BOOTSTRAP, moved)])"
proof -
  let ?q = "past @ [(FileOp ''mkdir'' (parent_of BOOTSTRAP) [], True)]"
  show ?thesis
  proof (rule file_op_bind_cases[OF assms[unfolded write_record_def mkdir_parent_def]])
    fix e assume "c = past @ [(FileOp ''mkdir'' (parent_of BOOTSTRAP) [], False)]"
    then show ?thesis by (intro disjI1) simp
  next
    assume "io_bind (observe (\<lambda>past. Inr (bh_stamp b past)))
      (\<lambda>stamp past. replace_record (bh_host b) (bh_temp b past) (record_text b stamp result) past) ?q = (r, c)"
    then have "replace_record (bh_host b) (bh_temp b ?q) (record_text b (bh_stamp b ?q) result) ?q = (r, c)"
      by (simp add: observe_def io_bind_def)
    from replace_record_cases[OF this] show ?thesis
    proof (elim disjE exE conjE)
      fix new assume "c = ?q @ new" "list_all (\<lambda>e. \<not> replaces_record e) new"
      then show ?thesis
        by (intro disjI1 exI[of _ "(FileOp ''mkdir'' (parent_of BOOTSTRAP) [], True) # new"]) simp
    qed (auto simp: record_log_def)
  qed
qed

lemma only_event:
  assumes "early @ e # late = us @ v # vs" "P e" "list_all (\<lambda>x. \<not> P x) us" "list_all (\<lambda>x. \<not> P x) vs"
  shows "early = us \<and> e = v"
  using assms by (auto simp: append_eq_append_conv2 append_eq_Cons_conv Cons_eq_append_conv)

lemma checked_main_cases:
  assumes "checked_main rt b check_only past = (r, c)"
  shows "(\<exists>new. c = past @ new \<and> list_all (\<lambda>e. \<not> replaces_record e) new)
    \<or> (\<not> check_only \<and> (\<exists>result checked stamp temp moved late. check rt b past = (Inr result, checked)
         \<and> c = checked @ record_log temp (record_text b stamp result) @ (FileOp ''replace'' temp BOOTSTRAP, moved) # late
         \<and> list_all (\<lambda>e. \<not> replaces_record e) late))"
  using assms[unfolded checked_main_def]
proof (rule io_bind_cases)
  fix e assume "check rt b past = (Inl e, c)"
  then show ?thesis using check_unrecorded[of rt b] unfolding unrecorded_def by (auto elim: emitsE)
next
  fix result checked
  assume check: "check rt b past = (Inr result, checked)"
    and rest: "io_bind (if check_only then check_record rt (bh_host b) result else write_record b result)
      (\<lambda>_. print (bh_host b) ''HOST_READY; application deployment pending (stage 3)'') checked = (r, c)"
  obtain n1 where n1: "checked = past @ n1" "list_all (\<lambda>e. \<not> replaces_record e) n1"
    using check_unrecorded check unfolding unrecorded_def by (rule emitsE)
  show ?thesis
  proof (cases check_only)
    case True
    have "unrecorded (io_bind (check_record rt (bh_host b) result)
        (\<lambda>_. print (bh_host b) ''HOST_READY; application deployment pending (stage 3)''))"
      by (intro unrecorded_bind record_unrecorded unrecorded_intros)
    then obtain n2 where "c = checked @ n2" "list_all (\<lambda>e. \<not> replaces_record e) n2"
      using rest True unfolding unrecorded_def by (auto elim: emitsE)
    then show ?thesis using n1 by (intro disjI1 exI[of _ "n1 @ n2"]) simp
  next
    case False
    then have "io_bind (write_record b result) (\<lambda>_. print (bh_host b) ''HOST_READY; application deployment pending (stage 3)'') checked = (r, c)"
      using rest by simp
    then obtain q mid late where mid: "write_record b result checked = (q, mid)" "c = mid @ late"
      "list_all (\<lambda>e. \<not> replaces_record e) late"
      by (rule io_bind_cases) (auto simp: print_def split: sum.splits)
    from write_record_cases[OF mid(1)] show ?thesis
    proof (elim disjE exE conjE)
      fix n2 assume "mid = checked @ n2" "list_all (\<lambda>e. \<not> replaces_record e) n2"
      then show ?thesis using n1 mid(2,3) by (intro disjI1 exI[of _ "n1 @ n2 @ late"]) simp
    next
      fix stamp temp moved
      assume "mid = checked @ record_log temp (record_text b stamp result) @ [(FileOp ''replace'' temp BOOTSTRAP, moved)]"
      then show ?thesis using check mid(2,3) False by (intro disjI2) auto
    qed
  qed
qed

section \<open>What a check has seen\<close>

text \<open>
  Between the logs \<open>past\<close> and \<open>c\<close> the host answered a command with the status 0 and this output, stripped,
  or a file had this content.
\<close>

definition answered :: "station \<Rightarrow> ctl_log \<Rightarrow> ctl_log \<Rightarrow> string list \<Rightarrow> string \<Rightarrow> bool" where
  "answered s past c command out \<longleftrightarrow>
     (\<exists>q t. prefix past q \<and> prefix (q @ [(Run command, True)]) c \<and> st_run s q command = Inr (0, t) \<and> out = strip t)"

definition held :: "station \<Rightarrow> ctl_log \<Rightarrow> ctl_log \<Rightarrow> string \<Rightarrow> string \<Rightarrow> bool" where
  "held s past c path t \<longleftrightarrow> (\<exists>q. prefix past q \<and> prefix q c \<and> st_read s q path = Inr t)"

definition release_seen :: "station \<Rightarrow> ctl_log \<Rightarrow> ctl_log \<Rightarrow> bool" where
  "release_seen s past c \<longleftrightarrow> st_euid s = 0 \<and> (\<exists>t release. held s past c ''/etc/os-release'' t
     \<and> release_values (splitlines t) = Inr release \<and> is_trixie release)"

text \<open>dpkg called every required package installed, and \<open>versions\<close> holds these packages with the versions it named.\<close>

definition packages_seen :: "station \<Rightarrow> ctl_log \<Rightarrow> ctl_log \<Rightarrow> json \<Rightarrow> dict \<Rightarrow> bool" where
  "packages_seen s past c config versions \<longleftrightarrow> (\<exists>packages. rbind (subscript config ''required_packages'') iterate = Inr packages
     \<and> set packages = JStr ` fst ` set versions
     \<and> (\<forall>(p, v) \<in> set versions. answered s past c (package_command ''${Status}'' p) ''install ok installed''
         \<and> (\<exists>version. answered s past c (package_command ''${Version}'' p) version \<and> v = JStr version)))"

text \<open>The host reported every declared interface up with its address, and the declared default route.\<close>

definition links_seen :: "pyrt \<Rightarrow> station \<Rightarrow> ctl_log \<Rightarrow> ctl_log \<Rightarrow> json \<Rightarrow> bool" where
  "links_seen rt s past c config \<longleftrightarrow> (\<exists>addresses v rows interfaces routes w.
     answered s past c address_command addresses \<and> json_loads (st_json s addresses) = Inr v
     \<and> rbind (iterate v) rows_by_name = Inr rows
     \<and> rbind (subscript config ''interfaces'') dict_attr = Inr interfaces
     \<and> (\<forall>(name, declared) \<in> set interfaces. \<exists>i. ipv4_interface rt declared = Inr i
          \<and> nic_matches rt (row_of rows name) (interface_text i) = Inr True)
     \<and> answered s past c route_command routes \<and> json_loads (st_json s routes) = Inr w \<and> default_route_ok config w = Inr True)"

definition engine_seen :: "station \<Rightarrow> ctl_log \<Rightarrow> ctl_log \<Rightarrow> string \<Rightarrow> string \<Rightarrow> bool" where
  "engine_seen s past c docker compose \<longleftrightarrow>
     answered s past c [''docker'', ''info'', ''--format'', ''{{.ServerVersion}}''] docker
     \<and> answered s past c [''docker'', ''compose'', ''version'', ''--short''] compose
     \<and> (\<exists>major. compose_major compose = Inr major \<and> 2 \<le> major)
     \<and> answered s past c [''systemctl'', ''is-active'', ''qemu-guest-agent.service''] ''active''"

definition script_seen :: "boot_host \<Rightarrow> ctl_log \<Rightarrow> ctl_log \<Rightarrow> json \<Rightarrow> json \<Rightarrow> bool" where
  "script_seen b past c commit digest \<longleftrightarrow> (\<exists>text source body. held (bh_host b) past c SOURCE text
     \<and> json_loads (st_json (bh_host b) text) = Inr source \<and> held (bh_host b) past c (bh_self b) body
     \<and> digest = JStr (st_sha256 (bh_host b) body) \<and> subscript source ''bootstrap_sha256'' = Inr digest
     \<and> subscript source ''commit'' = Inr commit)"

lemma answered_mono: "answered s p c command out \<Longrightarrow> prefix p' p \<Longrightarrow> prefix c c' \<Longrightarrow> answered s p' c' command out"
  unfolding answered_def by (metis prefix_order.trans)

lemma held_mono: "held s p c path t \<Longrightarrow> prefix p' p \<Longrightarrow> prefix c c' \<Longrightarrow> held s p' c' path t"
  unfolding held_def by (meson prefix_order.trans)

lemma seen_mono:
  assumes "prefix p' p" "prefix c c'"
  shows "release_seen s p c \<Longrightarrow> release_seen s p' c'" "packages_seen s p c config versions \<Longrightarrow> packages_seen s p' c' config versions"
    "links_seen rt s p c config \<Longrightarrow> links_seen rt s p' c' config" "engine_seen s p c docker compose \<Longrightarrow> engine_seen s p' c' docker compose"
    "script_seen b p c commit digest \<Longrightarrow> script_seen b p' c' commit digest"
proof -
  note a = answered_mono[OF _ assms] and h = held_mono[OF _ assms]
  show "release_seen s p c \<Longrightarrow> release_seen s p' c'" unfolding release_seen_def using h by blast
  show "packages_seen s p c config versions \<Longrightarrow> packages_seen s p' c' config versions"
    unfolding packages_seen_def using a by fastforce
  show "links_seen rt s p c config \<Longrightarrow> links_seen rt s p' c' config" unfolding links_seen_def using a by blast
  show "engine_seen s p c docker compose \<Longrightarrow> engine_seen s p' c' docker compose" unfolding engine_seen_def using a by blast
  show "script_seen b p c commit digest \<Longrightarrow> script_seen b p' c' commit digest" unfolding script_seen_def using h by blast
qed

lemma ask_host_Inr: "ask_host s ws p = (Inr out, c) \<Longrightarrow> answered s p c ws out"
  unfolding ask_host_def spawn_def answered_def by (auto elim!: io_bindE simp: io_ensure_Inr io_return_eq split: sum.splits)

lemma ask_json_Inr: "ask_json s ws p = (Inr v, c) \<Longrightarrow> \<exists>out. answered s p c ws out \<and> json_loads (st_json s out) = Inr v"
  unfolding ask_json_def by (auto elim!: io_bindE dest!: ask_host_Inr simp: io_lift_eq)

lemma read_text_Inr: "read_text s path p = (Inr t, c) \<Longrightarrow> held s p c path t"
  unfolding read_text_def observe_def held_def by auto

lemma read_json_Inr: "read_json s path p = (Inr v, c) \<Longrightarrow> \<exists>t. held s p c path t \<and> json_loads (st_json s t) = Inr v"
  unfolding read_json_def by (auto elim!: io_bindE dest!: read_text_Inr simp: io_lift_eq)

lemma for_each_all2:
  assumes f: "\<And>x. unrecorded (f x)" and run: "for_each f xs past = (Inr ys, c)"
  shows "list_all2 (\<lambda>x y. \<exists>p p'. prefix past p \<and> f x p = (Inr y, p') \<and> prefix p' c) xs ys"
  using run
proof (induction xs arbitrary: past ys)
  case (Cons x xs)
  then obtain y c1 zs where *: "f x past = (Inr y, c1)" "for_each f xs c1 = (Inr zs, c)" "ys = y # zs"
    by (auto elim!: io_bindE simp: io_return_eq)
  have pre: "prefix past c1" "prefix c1 c"
    using unrecorded_prefix[OF f *(1)] unrecorded_prefix[OF unrecorded_each[OF f] *(2)] by simp_all
  have "list_all2 (\<lambda>x y. \<exists>p p'. prefix past p \<and> f x p = (Inr y, p') \<and> prefix p' c) xs zs"
    using Cons.IH[OF *(2)] by (rule list_all2_mono) (meson pre(1) prefix_order.trans)
  then show ?case using * pre(2) by auto
qed (simp add: io_return_eq)

lemma keys_update: "fst ` set (set_item k v m) = insert k (fst ` set m)"
  by (induction m) auto

lemma keys_updates: "fst ` set (fold (\<lambda>(p, v). set_item p (JStr v)) found m) = fst ` set found \<union> fst ` set m"
  by (induction found arbitrary: m) (simp_all add: keys_update case_prod_beta)

lemma items_update: "set (set_item k v m) \<subseteq> insert (k, v) (set m)"
  by (induction m) auto

lemma items_updates: "set (fold (\<lambda>(p, v). set_item p (JStr v)) found m) \<subseteq> (\<lambda>(p, v). (p, JStr v)) ` set found \<union> set m"
proof (induction found arbitrary: m)
  case (Cons x found)
  then show ?case using items_update[of "fst x" "JStr (snd x)" m] by (cases x) fastforce
qed simp

lemma check_package_Inr:
  assumes "check_package s v p = (Inr (k, version), c)"
  shows "v = JStr k \<and> answered s p c (package_command ''${Status}'' k) ''install ok installed''
    \<and> answered s p c (package_command ''${Version}'' k) version"
proof -
  obtain c1 c2 where steps: "v = JStr k" "ask_host s (package_command ''${Status}'' k) p = (Inr ''install ok installed'', c1)"
    "ask_host s (package_command ''${Version}'' k) c1 = (Inr version, c)"
    using assms unfolding check_package_def
    by (auto elim!: io_bindE simp: io_ensure_Inr io_return_eq io_lift_eq text_of_Inr)
  have "prefix p c1" "prefix c1 c" using unrecorded_prefix[OF unrecorded_intros(1)] steps(2,3) by blast+
  then show ?thesis
    using steps(1) answered_mono[OF ask_host_Inr[OF steps(2)]] answered_mono[OF ask_host_Inr[OF steps(3)]] by blast
qed

lemma check_packages_Inr:
  assumes run: "check_packages s config past = (Inr versions, c)"
  shows "packages_seen s past c config versions"
proof -
  obtain packages found q out q1 where packages: "rbind (subscript config ''required_packages'') iterate = Inr packages"
    and found: "for_each (check_package s) packages past = (Inr found, q)"
    and versions: "versions = fold (\<lambda>(p, v). set_item p (JStr v)) found []"
    and dig: "ask_host s [''dig'', ''-v''] q = (Inr out, q1)"
    and said: "print s (''PASS required packages ('' @ dec (length versions) @ ''), including dig'') q1 = (Inr (), c)"
    using run unfolding check_packages_def Let_def by (elim io_bindE) (auto simp: io_lift_eq io_return_eq)
  have ended: "prefix q c"
    using unrecorded_prefix[OF unrecorded_intros(1) dig] unrecorded_prefix[OF unrecorded_intros(5) said] by simp
  let ?ok = "\<lambda>k version. answered s past c (package_command ''${Status}'' k) ''install ok installed''
    \<and> answered s past c (package_command ''${Version}'' k) version"
  have "list_all2 (\<lambda>v p. v = JStr (fst p) \<and> ?ok (fst p) (snd p)) packages found"
    using for_each_all2[OF steps_unrecorded(1) found]
  proof (rule list_all2_mono)
    fix v and x :: "string \<times> string"
    assume "\<exists>p p'. prefix past p \<and> check_package s v p = (Inr x, p') \<and> prefix p' q"
    then obtain p p' where p: "prefix past p" "check_package s v p = (Inr (fst x, snd x), p')" "prefix p' c"
      using ended prefix_order.trans by (metis prod.collapse)
    show "v = JStr (fst x) \<and> ?ok (fst x) (snd x)"
      using check_package_Inr[OF p(2)] answered_mono[OF _ p(1,3)] by blast
  qed
  then have keys: "set packages = JStr ` fst ` set found" and ok: "\<forall>(k, v) \<in> set found. ?ok k v"
    by (induction rule: list_all2_induct) auto
  have "fst ` set versions = fst ` set found" unfolding versions by (simp add: keys_updates)
  moreover have "set versions \<subseteq> (\<lambda>(p, v). (p, JStr v)) ` set found" using items_updates[of found "[]"] versions by simp
  then have "answered s past c (package_command ''${Status}'' k) ''install ok installed''
      \<and> (\<exists>version. answered s past c (package_command ''${Version}'' k) version \<and> w = JStr version)"
    if "(k, w) \<in> set versions" for k w
    using that ok by fastforce
  ultimately show ?thesis unfolding packages_seen_def using packages keys by (intro exI[of _ packages]) auto
qed

lemma check_release_Inr:
  assumes run: "check_release s past = (Inr u, c)"
  shows "release_seen s past c"
proof -
  obtain t c1 release where steps: "st_euid s = 0" "read_text s ''/etc/os-release'' past = (Inr t, c1)"
      "release_values (splitlines t) = Inr release" "is_trixie release" "print s ''PASS Debian 13'' c1 = (Inr (), c)"
    using run unfolding check_release_def by (elim io_bindE) (auto simp: io_lift_eq io_ensure_Inr)
  have "held s past c ''/etc/os-release'' t"
    by (rule held_mono[OF read_text_Inr[OF steps(2)] prefix_order.refl unrecorded_prefix[OF unrecorded_intros(5) steps(5)]])
  then show ?thesis unfolding release_seen_def using steps(1,3,4) by blast
qed

lemma check_links_Inr:
  assumes run: "check_links rt s config past = (Inr u, c)"
  shows "links_seen rt s past c config"
proof -
  obtain v c1 rows interfaces us c2 w c3 where steps: "ask_json s address_command past = (Inr v, c1)"
      "rbind (iterate v) rows_by_name = Inr rows" "rbind (subscript config ''interfaces'') dict_attr = Inr interfaces"
      "for_each (check_interface rt s rows) interfaces c1 = (Inr us, c2)" "ask_json s route_command c2 = (Inr w, c3)"
      "default_route_ok config w = Inr True"
    and rest: "print s ''PASS default route via management'' c3 = (Inr u, c)"
    using run unfolding check_links_def by (elim io_bindE) (auto simp: io_lift_eq io_ensure_Inr)
  have pre: "prefix past c1" "prefix c1 c2" "prefix c2 c3" "prefix c3 c"
    using unrecorded_prefix[OF unrecorded_intros(2) steps(1)] unrecorded_prefix[OF unrecorded_each[OF steps_unrecorded(4)] steps(4)]
      unrecorded_prefix[OF unrecorded_intros(2) steps(5)] unrecorded_prefix[OF unrecorded_intros(5) rest] by blast+
  have "\<exists>i. ipv4_interface rt declared = Inr i \<and> nic_matches rt (row_of rows name) (interface_text i) = Inr True"
    if entry: "(name, declared) \<in> set interfaces" for name declared
  proof -
    obtain i where i: "i < length interfaces" "interfaces ! i = (name, declared)" using entry unfolding in_set_conv_nth by blast
    have "\<exists>p p'. prefix c1 p \<and> check_interface rt s rows (interfaces ! i) p = (Inr (us ! i), p') \<and> prefix p' c2"
      by (rule list_all2_nthD[OF for_each_all2[OF steps_unrecorded(4) steps(4)] i(1)])
    then obtain p p' where "check_interface rt s rows (interfaces ! i) p = (Inr (us ! i), p')" by (elim exE conjE)
    then show ?thesis
      unfolding i(2) check_interface_def by (auto elim!: io_bindE simp: io_lift_eq io_ensure_Inr rbind_eq_Inr)
  qed
  moreover obtain addresses where "answered s past c address_command addresses" "json_loads (st_json s addresses) = Inr v"
    using ask_json_Inr[OF steps(1)] answered_mono pre prefix_order.trans by (meson prefix_order.refl)
  moreover obtain routes where "answered s past c route_command routes" "json_loads (st_json s routes) = Inr w"
    using ask_json_Inr[OF steps(5)] answered_mono pre prefix_order.trans by meson
  ultimately show ?thesis unfolding links_seen_def using steps(2,3,6) by blast
qed

lemma check_engine_Inr:
  assumes run: "check_engine s past = (Inr (docker, compose), c)"
  shows "engine_seen s past c docker compose"
proof -
  obtain c1 c2 c3 c4 major where steps: "ask_host s [''docker'', ''info'', ''--format'', ''{{.ServerVersion}}''] past = (Inr docker, c1)"
      "ask_host s [''docker'', ''compose'', ''version'', ''--short''] c1 = (Inr compose, c2)"
      "compose_major compose = Inr major" "2 \<le> major"
      "print s (''PASS Docker '' @ docker @ ''; Compose '' @ compose) c2 = (Inr (), c3)"
      "ask_host s [''systemctl'', ''is-active'', ''qemu-guest-agent.service''] c3 = (Inr ''active'', c4)"
      "print s ''PASS QEMU guest agent'' c4 = (Inr (), c)"
    using run unfolding check_engine_def by (elim io_bindE) (auto simp: io_lift_eq io_ensure_Inr io_return_eq)
  have pre: "prefix past c1" "prefix c1 c2" "prefix c2 c3" "prefix c3 c4" "prefix c4 c"
    using unrecorded_prefix[OF unrecorded_intros(1) steps(1)] unrecorded_prefix[OF unrecorded_intros(1) steps(2)]
      unrecorded_prefix[OF unrecorded_intros(5) steps(5)] unrecorded_prefix[OF unrecorded_intros(1) steps(6)]
      unrecorded_prefix[OF unrecorded_intros(5) steps(7)] by blast+
  then have all: "prefix past past" "prefix c1 c" "prefix past c1" "prefix c2 c" "prefix past c3" by (meson prefix_order.refl prefix_order.trans)+
  show ?thesis
    unfolding engine_seen_def
    using answered_mono[OF ask_host_Inr[OF steps(1)] all(1,2)] answered_mono[OF ask_host_Inr[OF steps(2)] all(3,4)]
      answered_mono[OF ask_host_Inr[OF steps(6)] all(5) pre(5)] steps(3,4) by blast
qed

lemma check_source_Inr:
  assumes run: "check_source rt b past = (Inr (commit, digest), c)"
  shows "script_seen b past c commit (JStr digest)"
proof -
  obtain source c1 body c2 short c3 where steps: "read_json (bh_host b) SOURCE past = (Inr source, c1)"
      "read_text (bh_host b) (bh_self b) c1 = (Inr body, c2)" "digest = st_sha256 (bh_host b) body"
      "subscript source ''bootstrap_sha256'' = Inr (JStr digest)" "subscript source ''commit'' = Inr commit"
      "print (bh_host b) (''PASS bootstrap source '' @ short) c2 = (Inr (), c3)" "c = c3"
    using run unfolding check_source_def Let_def by (elim io_bindE) (auto simp: io_lift_eq io_ensure_Inr io_return_eq)
  have pre: "prefix past c1" "prefix c1 c2" "prefix c2 c"
    using unrecorded_prefix[OF unrecorded_intros(3) steps(1)] unrecorded_prefix[OF unrecorded_intros(4) steps(2)]
      unrecorded_prefix[OF unrecorded_intros(5) steps(6)] steps(7) by blast+
  then have all: "prefix past past" "prefix c1 c" by (meson prefix_order.refl prefix_order.trans)+
  obtain t where t: "held (bh_host b) past c1 SOURCE t" "json_loads (st_json (bh_host b) t) = Inr source"
    using read_json_Inr[OF steps(1)] by blast
  show ?thesis
    unfolding script_seen_def
    using held_mono[OF t(1) all] t(2) held_mono[OF read_text_Inr[OF steps(2)] pre(1,3)] steps(3-5) by blast
qed

lemma host_check_Inr:
  assumes run: "check rt b past = (Inr result, c)"
  shows "release_seen (bh_host b) past c
    \<and> (\<exists>t config versions docker compose. held (bh_host b) past c CONFIG t \<and> json_loads (st_json (bh_host b) t) = Inr config
         \<and> packages_seen (bh_host b) past c config versions \<and> links_seen rt (bh_host b) past c config
         \<and> engine_seen (bh_host b) past c docker compose
         \<and> get result ''package_versions'' = JObj versions \<and> subscript config ''interfaces'' = Inr (get result ''interfaces'')
         \<and> get result ''docker_version'' = JStr docker \<and> get result ''compose_version'' = JStr compose)
    \<and> script_seen b past c (get result ''source_commit'') (get result ''bootstrap_sha256'')"
proof -
  let ?s = "bh_host b"
  obtain u c1 config c2 versions c3 v c4 docker compose c5 commit digest c6 hostname c7 boot c8 interfaces where
    steps: "check_release ?s past = (Inr u, c1)" "read_json ?s CONFIG c1 = (Inr config, c2)"
      "check_packages ?s config c2 = (Inr versions, c3)" "check_links rt ?s config c3 = (Inr v, c4)"
      "check_engine ?s c4 = (Inr (docker, compose), c5)" "check_source rt b c5 = (Inr (commit, digest), c6)"
      "observe (\<lambda>past. Inr (bh_hostname b past)) c6 = (Inr hostname, c7)"
      "read_text ?s ''/proc/sys/kernel/random/boot_id'' c7 = (Inr boot, c8)"
      "io_lift (subscript config ''interfaces'') c8 = (Inr interfaces, c)"
    and entries: "get result ''source_commit'' = commit" "get result ''bootstrap_sha256'' = JStr digest"
      "get result ''package_versions'' = JObj versions" "get result ''interfaces'' = interfaces"
      "get result ''docker_version'' = JStr docker" "get result ''compose_version'' = JStr compose"
    using run unfolding check_def Let_def by (auto elim!: io_bindE simp: io_return_eq get_def get_default_def)
  have last: "c7 = c6" "c8 = c" "subscript config ''interfaces'' = Inr interfaces"
    using steps(7,9) by (auto simp: observe_def io_lift_eq)
  note result = entries last(3)[folded entries(4)]
  have pre: "prefix past c1" "prefix c1 c2" "prefix c2 c3" "prefix c3 c4" "prefix c4 c5" "prefix c5 c6" "prefix c6 c"
    using unrecorded_prefix[OF steps_unrecorded(2) steps(1)] unrecorded_prefix[OF unrecorded_intros(3) steps(2)]
      unrecorded_prefix[OF steps_unrecorded(3) steps(3)] unrecorded_prefix[OF steps_unrecorded(5) steps(4)]
      unrecorded_prefix[OF steps_unrecorded(6) steps(5)] unrecorded_prefix[OF steps_unrecorded(7) steps(6)]
      unrecorded_prefix[OF unrecorded_intros(4) steps(8)] last(1,2) by blast+
  have behind: "prefix past c2" "prefix past c3" "prefix past c4" "prefix past c5"
    using pre(1-5) prefix_order.trans by blast+
  have ahead: "prefix c6 c" "prefix c5 c" "prefix c4 c" "prefix c3 c" "prefix c2 c" "prefix c1 c"
    using pre prefix_order.trans by blast+
  have "release_seen ?s past c1" by (rule check_release_Inr[OF steps(1)])
  then have "release_seen ?s past c" by (rule seen_mono(1)[OF prefix_order.refl ahead(6)])
  moreover obtain t where "held ?s past c CONFIG t" "json_loads (st_json ?s t) = Inr config"
    using read_json_Inr[OF steps(2)] held_mono[OF _ pre(1) ahead(5)] by blast
  moreover have "packages_seen ?s past c config versions" "links_seen rt ?s past c config" "engine_seen ?s past c docker compose"
    using seen_mono(2)[OF behind(1) ahead(4) check_packages_Inr[OF steps(3)]] seen_mono(3)[OF behind(2) ahead(3) check_links_Inr[OF steps(4)]]
      seen_mono(4)[OF behind(3) ahead(2) check_engine_Inr[OF steps(5)]] by blast+
  moreover have "script_seen b past c (get result ''source_commit'') (get result ''bootstrap_sha256'')"
    using seen_mono(5)[OF behind(4) ahead(1) check_source_Inr[OF steps(6)]] unfolding result(1,2) .
  ultimately show ?thesis using result(3,5,6,7) by (intro conjI exI[of _ config] exI[of _ t] exI[of _ versions] exI[of _ docker] exI[of _ compose])
qed

lemma bootstrap_main_checked:
  assumes "bootstrap_main rt b check_only past = (r, past')"
  shows "\<exists>q c said. checked_main rt b check_only past = (q, c) \<and> past' = c @ said \<and> list_all (\<lambda>e. \<not> replaces_record e) said"
proof -
  obtain q c where run: "checked_main rt b check_only past = (q, c)" by fastforce
  have said: "unrecorded (io_bind (print (bh_host b) t) (\<lambda>_. io_return (1 :: int)))" for t
    by (intro unrecorded_bind unrecorded_intros)
  show ?thesis
  proof (cases q)
    case (Inl e)
    have "past' = c \<or> (io_bind (print (bh_host b) (''BOOTSTRAP_FAILED: '' @ st_str (bh_host b) e)) (\<lambda>_. io_return 1) c = (r, past'))"
      using assms unfolding bootstrap_main_def run Inl by (simp split: if_splits)
    then obtain new where "past' = c @ new" "list_all (\<lambda>e. \<not> replaces_record e) new"
    proof
      assume "io_bind (print (bh_host b) (''BOOTSTRAP_FAILED: '' @ st_str (bh_host b) e)) (\<lambda>_. io_return 1) c = (r, past')"
      then show thesis by (rule emitsE[OF said[unfolded unrecorded_def]]) (rule that)
    qed (simp add: that)
    then show ?thesis using run by blast
  next
    case (Inr u)
    then show ?thesis using assms run by (intro exI[of _ q] exI[of _ c] exI[of _ "[]"]) (simp add: bootstrap_main_def)
  qed
qed

section \<open>Property\<close>

text \<open>
  C40. The record of a bootstrap is replaced only when its check has passed: between the start of the run and
  the end of the check, the release file named Debian 13; with the configuration that the file \<open>CONFIG\<close> held,
  dpkg called every required package installed, the host reported every declared interface up with its
  address, and the declared default route; Docker, Compose 2 and the guest agent answered; and the manifest named
  this very script. The record holds the versions, the interfaces and the source of this check. Before it is moved into
  place, it has been written to a temporary file, synced and protected.
\<close>

theorem bootstrap_recorded_after_check:
  assumes "bootstrap_main rt b check_only past = (r, past')"
    and "past' = past @ early @ (FileOp ''replace'' temp BOOTSTRAP, moved) # late"
  shows "\<not> check_only
    \<and> (\<exists>result checked stamp t config versions docker compose. check rt b past = (Inr result, checked)
         \<and> release_seen (bh_host b) past checked
         \<and> held (bh_host b) past checked CONFIG t \<and> json_loads (st_json (bh_host b) t) = Inr config
         \<and> packages_seen (bh_host b) past checked config versions \<and> links_seen rt (bh_host b) past checked config
         \<and> engine_seen (bh_host b) past checked docker compose
         \<and> script_seen b past checked (get result ''source_commit'') (get result ''bootstrap_sha256'')
         \<and> get result ''package_versions'' = JObj versions \<and> subscript config ''interfaces'' = Inr (get result ''interfaces'')
         \<and> get result ''docker_version'' = JStr docker \<and> get result ''compose_version'' = JStr compose
         \<and> past @ early = checked @ record_log temp (record_text b stamp result))"
proof -
  let ?e = "(FileOp ''replace'' temp BOOTSTRAP, moved)"
  obtain q c said where main: "checked_main rt b check_only past = (q, c)" "past' = c @ said"
    "list_all (\<lambda>e. \<not> replaces_record e) said"
    using bootstrap_main_checked[OF assms(1)] by blast
  from checked_main_cases[OF main(1)] show ?thesis
  proof (elim disjE exE conjE)
    fix new assume "c = past @ new" "list_all (\<lambda>e. \<not> replaces_record e) new"
    then show ?thesis using main(2,3) assms(2) by (auto simp: append_eq_append_conv2 append_eq_Cons_conv Cons_eq_append_conv)
  next
    fix result checked stamp temp' moved' late'
    assume fresh: "\<not> check_only" and check: "check rt b past = (Inr result, checked)"
      and c: "c = checked @ record_log temp' (record_text b stamp result) @ (FileOp ''replace'' temp' BOOTSTRAP, moved') # late'"
      and quiet: "list_all (\<lambda>e. \<not> replaces_record e) late'"
    obtain n1 where n1: "checked = past @ n1" "list_all (\<lambda>e. \<not> replaces_record e) n1"
      using check_unrecorded check unfolding unrecorded_def by (rule emitsE)
    have "early @ ?e # late = (n1 @ record_log temp' (record_text b stamp result)) @ (FileOp ''replace'' temp' BOOTSTRAP, moved') # late' @ said"
      using assms(2) main(2) c n1(1) by simp
    then have "early = n1 @ record_log temp' (record_text b stamp result) \<and> ?e = (FileOp ''replace'' temp' BOOTSTRAP, moved')"
      by (rule only_event[where P = replaces_record]) (use n1(2) quiet main(3) in \<open>simp_all add: record_log_def\<close>)
    then have "past @ early = checked @ record_log temp (record_text b stamp result)" using n1(1) by simp
    then show ?thesis using fresh check host_check_Inr[OF check] by blast
  qed
qed

section \<open>A host that is ready\<close>

definition boot_answer :: "string list \<Rightarrow> string" where
  "boot_answer ws =
     (if ws = address_command then ''addresses'' else if ws = route_command then ''routes''
      else if last ws = ''--short'' then ''v2.30.1'' else if last ws = ''qemu-guest-agent.service'' then ''active''
      else if ws = package_command ''${Status}'' ''curl'' then ''install ok installed'' else ''8.14'')"

definition boot_file :: "string \<Rightarrow> string res" where
  "boot_file path =
     (if path = ''/etc/os-release'' then Inr (join [LF] [''PRETTY_NAME='' @ release_quote ''Debian GNU/Linux 13'', ''VERSION_ID='' @ release_quote ''13'', ''ID=debian''])
      else if path = CONFIG then Inr ''config'' else if path = SOURCE then Inr ''source'' else Inr ''body'')"

definition boot_config :: json where
  "boot_config = JObj [(''required_packages'', JArr [JStr ''curl'']), (''interfaces'', JObj [(''eth1'', JStr ''0.0.0.1/1'')]),
     (''default_gateway'', JStr ''128.0.0.2'')]"

definition boot_json :: "string \<Rightarrow> jtext" where
  "boot_json t =
     (if t = ''config'' then JText boot_config
      else if t = ''source'' then JText (JObj [(''bootstrap_sha256'', JStr ''digest''), (''commit'', JStr sample_sha)])
      else deploy_json t)"

definition ready_host :: boot_host where
  "ready_host = \<lparr>bh_host = (sample_station JNull)\<lparr>st_run := (\<lambda>_ ws. Inr (0, boot_answer ws)), st_read := (\<lambda>_. boot_file),
       st_json := boot_json, st_sha256 := (\<lambda>_. ''digest'')\<rparr>,
     bh_self = ''/usr/local/sbin/tg-bootstrap'', bh_hostname = (\<lambda>_. ''tg''), bh_stamp = (\<lambda>_. ''now''),
     bh_temp = (\<lambda>_. ''/var/lib/transparent-gateway/tmp'')\<rparr>"

lemma ready_ask: "fst (ask_host (bh_host ready_host) ws p) = Inr (strip (boot_answer ws))"
  by (simp add: ask_host_def spawn_def ready_host_def io_bind_def io_ensure_def io_return_def)

lemma ready_print: "print (bh_host ready_host) t p = (Inr (), p @ [(Print t, True)])"
  by (simp add: print_def ready_host_def sample_station_def)

lemma ready_read: "fst (read_text (bh_host ready_host) path p) = boot_file path"
  by (simp add: read_text_def observe_def ready_host_def)

lemma ready_json: "fst (ask_json (bh_host ready_host) ws p) = json_loads (boot_json (strip (boot_answer ws)))"
proof -
  obtain c where "ask_host (bh_host ready_host) ws p = (Inr (strip (boot_answer ws)), c)" using ready_ask by (metis prod.collapse)
  then show ?thesis by (simp add: ask_json_def io_bind_def io_lift_def) (simp add: ready_host_def)
qed

lemma ready_loads: "boot_file path = Inr t \<Longrightarrow> fst (read_json (bh_host ready_host) path p) = json_loads (boot_json t)"
  by (simp add: read_json_def read_text_def observe_def io_bind_def io_lift_def ready_host_def)

lemma fst_lift: "r = Inr x \<Longrightarrow> fst (io_lift r p) = Inr x"
  by (simp add: io_lift_def)

lemma fst_ensure: "c \<Longrightarrow> fst (io_ensure c e p) = Inr ()"
  by (simp add: io_ensure_def io_return_def)

lemma fst_return: "fst (io_return x p) = Inr x"
  by (simp add: io_return_def)

lemma ready_release: "fst (check_release (bh_host ready_host) p) = Inr ()"
proof -
  let ?t = "join [LF] [''PRETTY_NAME='' @ release_quote ''Debian GNU/Linux 13'', ''VERSION_ID='' @ release_quote ''13'', ''ID=debian'']"
  let ?v = "[(''PRETTY_NAME'', ''Debian GNU/Linux 13''), (''VERSION_ID'', ''13''), (''ID'', ''debian'')]"
  have t: "fst (read_text (bh_host ready_host) ''/etc/os-release'' p) = Inr ?t" for p by (simp add: ready_read boot_file_def)
  have v: "release_values (splitlines ?t) = Inr ?v" "is_trixie ?v" by code_simp+
  have root: "st_euid (bh_host ready_host) = 0" by (simp add: ready_host_def sample_station_def)
  show ?thesis
    unfolding check_release_def
    by (rule fst_bind, rule fst_ensure, rule root, rule fst_bind, rule t, rule fst_bind, rule fst_lift, rule v(1), rule fst_bind,
        rule fst_ensure, rule v(2)) (simp add: ready_print)
qed

lemma ready_packages: "fst (check_packages (bh_host ready_host) boot_config p) = Inr [(''curl'', JStr ''8.14'')]"
proof -
  have packages: "rbind (subscript boot_config ''required_packages'') iterate = Inr [JStr ''curl'']" by code_simp
  have answers: "strip (boot_answer (package_command ''${Status}'' ''curl'')) = ''install ok installed''"
    "strip (boot_answer (package_command ''${Version}'' ''curl'')) = ''8.14''" by code_simp+
  have one: "fst (check_package (bh_host ready_host) (JStr ''curl'') p) = Inr (''curl'', ''8.14'')" for p
    unfolding check_package_def
    by (rule fst_bind, rule fst_lift, simp add: text_of_def, rule fst_bind, rule ready_ask, rule fst_bind, rule fst_ensure,
        rule answers, rule fst_bind, rule ready_ask, simp only: answers fst_return)
  have "fst (for_each (check_package (bh_host ready_host)) [JStr ''curl''] p) = Inr [(''curl'', ''8.14'')]" for p
    using for_each_fst[of "[JStr ''curl'']" "check_package (bh_host ready_host)" "(''curl'', ''8.14'')" p] one by simp
  then show ?thesis
    unfolding check_packages_def Let_def
    by (rule fst_bind[OF fst_lift[OF packages] fst_bind]) (rule fst_bind[OF ready_ask fst_bind[where x = "()"]], simp_all add: ready_print fst_return)
qed

lemma ready_links: "fst (check_links plain_rt (bh_host ready_host) boot_config p) = Inr ()"
proof -
  define rows where "rows = [address_row ''eth0'' ''128.0.0.1'', address_row ''eth1'' ''0.0.0.1'']"
  have strips: "strip (boot_answer address_command) = ''addresses''" "strip (boot_answer route_command) = ''routes''" by code_simp+
  have addresses: "fst (ask_json (bh_host ready_host) address_command p) = Inr (JArr rows)" for p
    unfolding ready_json strips by (simp add: boot_json_def deploy_json_def rows_def)
  have routes: "fst (ask_json (bh_host ready_host) route_command p) = Inr (JArr [JObj [(''dev'', JStr ''eth0''), (''gateway'', JStr ''128.0.0.2'')]])" for p
    unfolding ready_json strips by (simp add: boot_json_def deploy_json_def)
  have named: "rbind (iterate (JArr rows)) rows_by_name = Inr (zip [JStr ''eth0'', JStr ''eth1''] rows)"
    unfolding rows_def by code_simp
  have interfaces: "rbind (subscript boot_config ''interfaces'') dict_attr = Inr [(''eth1'', JStr ''0.0.0.1/1'')]" by code_simp
  have cidr: "rbind (ipv4_interface plain_rt (JStr ''0.0.0.1/1'')) (\<lambda>i. Inr (interface_text i)) = Inr ''0.0.0.1/1''"
    by (simp add: ipv4_interface_def integer_of_def interface_of_text_def ipv4_of_string_def parse_octet_def digits_val_def
        digit_val_def prefix_of_text_def is_digit_def interface_text_def ipv4_str_def octets_def digits.simps hexdigit_def)
  have matches: "nic_matches plain_rt (row_of (zip [JStr ''eth0'', JStr ''eth1''] rows) ''eth1'') ''0.0.0.1/1'' = Inr True"
    unfolding rows_def by code_simp
  have one: "fst (check_interface plain_rt (bh_host ready_host) (zip [JStr ''eth0'', JStr ''eth1''] rows) (''eth1'', JStr ''0.0.0.1/1'') p) = Inr ()" for p
    unfolding check_interface_def prod.case
    by (rule fst_bind, rule fst_lift, rule cidr, rule fst_bind, rule fst_lift, rule matches, rule fst_bind, rule fst_ensure, rule TrueI)
      (simp add: ready_print)
  have each: "fst (for_each (check_interface plain_rt (bh_host ready_host) (zip [JStr ''eth0'', JStr ''eth1''] rows)) [(''eth1'', JStr ''0.0.0.1/1'')] p)
      = Inr [()]" for p
    using for_each_fst[of "[(''eth1'', JStr ''0.0.0.1/1'')]" "check_interface plain_rt (bh_host ready_host) (zip [JStr ''eth0'', JStr ''eth1''] rows)" "()" p] one
    by simp
  have route: "default_route_ok boot_config (JArr [JObj [(''dev'', JStr ''eth0''), (''gateway'', JStr ''128.0.0.2'')]]) = Inr True" by code_simp
  show ?thesis
    unfolding check_links_def
    by (rule fst_bind, rule addresses, rule fst_bind, rule fst_lift, rule named, rule fst_bind, rule fst_lift, rule interfaces,
        rule fst_bind, rule each, rule fst_bind, rule routes, rule fst_bind, rule fst_lift, rule route, rule fst_bind,
        rule fst_ensure, rule TrueI) (simp add: ready_print)
qed

lemma ready_engine: "fst (check_engine (bh_host ready_host) p) = Inr (''8.14'', ''v2.30.1'')"
proof -
  have strips: "strip (boot_answer [''docker'', ''info'', ''--format'', ''{{.ServerVersion}}'']) = ''8.14''"
    "strip (boot_answer [''docker'', ''compose'', ''version'', ''--short'']) = ''v2.30.1''"
    "strip (boot_answer [''systemctl'', ''is-active'', ''qemu-guest-agent.service'']) = ''active''" by code_simp+
  have major: "compose_major ''v2.30.1'' = Inr 2" by code_simp
  have said: "fst (print (bh_host ready_host) t p) = Inr ()" for t p by (simp add: ready_print)
  note asked = ready_ask[of "[''docker'', ''info'', ''--format'', ''{{.ServerVersion}}'']", unfolded strips]
    ready_ask[of "[''docker'', ''compose'', ''version'', ''--short'']", unfolded strips]
    ready_ask[of "[''systemctl'', ''is-active'', ''qemu-guest-agent.service'']", unfolded strips]
  show ?thesis
    unfolding check_engine_def
    by (rule fst_bind, rule asked(1), rule fst_bind, rule asked(2), rule fst_bind, rule fst_lift, rule major, rule fst_bind,
        rule fst_ensure, simp, rule fst_bind, rule said, rule fst_bind, rule asked(3), rule fst_bind, rule fst_ensure, rule refl,
        rule fst_bind, rule said, rule fst_return)
qed

lemma ready_source: "fst (check_source plain_rt ready_host p) = Inr (JStr sample_sha, ''digest'')"
proof -
  let ?s = "bh_host ready_host" and ?v = "JObj [(''bootstrap_sha256'', JStr ''digest''), (''commit'', JStr sample_sha)]"
  have source: "fst (read_json ?s SOURCE p) = Inr ?v" for p
    by (subst ready_loads[of _ "''source''"]) (simp_all add: boot_file_def SOURCE_def CONFIG_def boot_json_def)
  have body: "fst (read_text ?s (bh_self ready_host) p) = Inr ''body''" for p
    by (simp add: ready_read) (simp add: boot_file_def ready_host_def SOURCE_def CONFIG_def)
  have digest: "st_sha256 ?s ''body'' = ''digest''" by (simp add: ready_host_def)
  have items: "subscript ?v ''bootstrap_sha256'' = Inr (JStr ''digest'')" "subscript ?v ''commit'' = Inr (JStr sample_sha)"
    by (simp_all add: subscript_def item_def)
  have said: "fst (print ?s t p) = Inr ()" for t p by (simp add: ready_print)
  show ?thesis
    unfolding check_source_def Let_def
    by (rule fst_bind, rule source, rule fst_bind, rule body, rule fst_bind, rule fst_lift, rule items, unfold digest, rule fst_bind,
        rule fst_ensure, rule refl, rule fst_bind, rule fst_lift, rule items, rule fst_bind, rule fst_lift, simp add: short_text_def,
        rule fst_bind, rule said, rule fst_return)
qed

lemma ready_checked: "\<exists>result. fst (check plain_rt ready_host p) = Inr result"
proof -
  let ?s = "bh_host ready_host"
  have config: "fst (read_json ?s CONFIG p) = Inr boot_config" for p
    by (subst ready_loads[of _ "''config''"]) (simp_all add: boot_file_def CONFIG_def boot_json_def)
  have boot: "fst (read_text ?s ''/proc/sys/kernel/random/boot_id'' p) = Inr ''body''" for p
    by (simp add: ready_read) (simp add: boot_file_def SOURCE_def CONFIG_def)
  have hostname: "fst (observe (\<lambda>past. Inr (bh_hostname ready_host past)) p) = Inr ''tg''" for p
    by (simp add: observe_def ready_host_def)
  have interfaces: "subscript boot_config ''interfaces'' = Inr (JObj [(''eth1'', JStr ''0.0.0.1/1'')])" by code_simp
  show ?thesis
    unfolding check_def Let_def
    by (rule exI, rule fst_bind, rule ready_release, rule fst_bind, rule config, rule fst_bind, rule ready_packages, rule fst_bind,
        rule ready_links, rule fst_bind, rule ready_engine, unfold prod.case, rule fst_bind, rule ready_source, unfold prod.case,
        rule fst_bind, rule hostname, rule fst_bind, rule boot, rule fst_bind, rule fst_lift, rule interfaces, rule fst_return)
qed

lemma bootstrap_recorded_after_check_witness:
  "\<exists>result checked config versions. check plain_rt ready_host [] = (Inr result, checked)
     \<and> packages_seen (bh_host ready_host) [] checked config versions \<and> links_seen plain_rt (bh_host ready_host) [] checked config
     \<and> script_seen ready_host [] checked (get result ''source_commit'') (get result ''bootstrap_sha256'')"
proof -
  let ?temp = "''/var/lib/transparent-gateway/tmp''"
  obtain result c where check: "check plain_rt ready_host [] = (Inr result, c)" using ready_checked by (metis prod.collapse)
  obtain new where new: "c = [] @ new" using check_unrecorded check unfolding unrecorded_def by (rule emitsE)
  have op: "file_op (bh_host ready_host) act path arg p = (Inr (), p @ [(FileOp act path arg, True)])" for act path arg p
    by (simp add: file_op_def ready_host_def sample_station_def)
  have temp: "bh_temp ready_host p = ?temp" for p by (simp add: ready_host_def)
  have stamp: "bh_stamp ready_host p = ''now''" for p by (simp add: ready_host_def)
  let ?text = "record_text ready_host ''now'' result"
  have "write_record ready_host result c = (Inr (), c @ record_log ?temp ?text @ [(FileOp ''replace'' ?temp BOOTSTRAP, True)])"
    by (simp add: write_record_def mkdir_parent_def replace_record_def io_bind_def observe_def op temp stamp record_log_def)
  then obtain said where "bootstrap_main plain_rt ready_host False [] = (Inr 0,
      [] @ (new @ record_log ?temp ?text) @ (FileOp ''replace'' ?temp BOOTSTRAP, True) # said)"
    using check new by (auto simp: bootstrap_main_def checked_main_def ready_print)
  from bootstrap_recorded_after_check[OF this refl] show ?thesis by blast
qed

end
