(* ===== verification/Service.thy ===== *)
theory Service
  imports Deploy
begin

text \<open>
  The supervisor of the installed release (\<open>deploy/service.py\<close>), run by systemd: the preflight checks,
  the start of the containers under the deployment lock, the readiness gate, the notification, and the
  endless supervision. The address of systemd's socket, the wall clock and the names of the exception
  classes are arguments.
\<close>

record supervisor =
  sv_depot :: depot
  sv_socket :: "string option"
  sv_now :: "ctl_log \<Rightarrow> json"
  sv_class :: "exn \<Rightarrow> string"

abbreviation sv_host :: "supervisor \<Rightarrow> station" where
  "sv_host v \<equiv> dp_host (sv_depot v)"

definition ROOT :: string where
  "ROOT = ''/opt/transparent-gateway''"

definition SETTINGS :: string where
  "SETTINGS = ''/etc/transparent-gateway/service.json''"

definition BOOT_STATE :: string where
  "BOOT_STATE = ''/var/lib/transparent-gateway/service-boot.json''"

section \<open>Settings\<close>

definition settings :: "depot \<Rightarrow> dict ctl" where
  "settings d = observe (\<lambda>past. let s = dp_host d in
     rbind (st_lstat s past SETTINGS) (\<lambda>info.
     rbind (ensure (\<not> dp_symlink d past SETTINGS \<and> fi_uid info = 0 \<and> fi_mode info mod 512 = 384)
       (ValueError ''invalid service settings ownership or permissions'')) (\<lambda>_.
     rbind (rbind (st_read s past SETTINGS) (\<lambda>t. json_loads (st_json s t))) (\<lambda>v.
     rbind (subscript v ''destination'') (\<lambda>destination.
     rbind (ensure (destination = JStr ROOT) (ValueError ''unexpected service destination or fixture setting'')) (\<lambda>_.
     rbind (subscript v ''lab_fixture'') (\<lambda>lab.
     rbind (ensure (lab \<in> {JBool True, JBool False}) (ValueError ''unexpected service destination or fixture setting'')) (\<lambda>_.
     dict_attr v))))))))"

text \<open>\<open>data['lab_fixture']\<close>, a Boolean after \<open>settings\<close>.\<close>

definition lab_of :: "dict \<Rightarrow> bool" where
  "lab_of data \<longleftrightarrow> get data ''lab_fixture'' = JBool True"

definition commands :: "dict \<Rightarrow> string list \<times> string list" where
  "commands data = (compose_base ROOT (lab_of data), fixture_base ROOT)"

section \<open>Repeating an attempt until a deadline\<close>

text \<open>
  \<open>while True\<close>: an attempt; after a caught exception the clock is read, and the loop fails or sleeps.
\<close>

partial_function (option) retry_loop ::
  "station \<Rightarrow> 'a ctl \<Rightarrow> (exn \<Rightarrow> bool) \<Rightarrow> (exn \<Rightarrow> exn) \<Rightarrow> rat \<Rightarrow> rat \<Rightarrow> ctl_log \<Rightarrow> ('a res \<times> ctl_log) option" where
  "retry_loop s attempt catches too_late gap deadline past =
     (case attempt past of
        (Inr x, c) \<Rightarrow> Some (Inr x, c)
      | (Inl e, c) \<Rightarrow>
          if \<not> catches e then Some (Inl e, c)
          else case tick s c of (t, c1) \<Rightarrow>
            if deadline \<le> t then Some (Inl (too_late e), c1)
            else retry_loop s attempt catches too_late gap deadline (c1 @ [(Sleep gap, True)]))"

definition retry_until ::
  "station \<Rightarrow> 'a ctl \<Rightarrow> (exn \<Rightarrow> bool) \<Rightarrow> (exn \<Rightarrow> exn) \<Rightarrow> rat \<Rightarrow> int \<Rightarrow> 'a may" where
  "retry_until s attempt catches too_late gap timeout past =
     (case tick s past of (t, c) \<Rightarrow> retry_loop s attempt catches too_late gap (t + of_int timeout) c)"

section \<open>Preflight\<close>

definition network :: "pyrt \<Rightarrow> station \<Rightarrow> json \<Rightarrow> unit ctl" where
  "network rt s host =
     check_host_network rt s (\<lambda>_. ValueError ''declared NIC not ready'') (ValueError ''declared default route not ready'') host"

definition check_release :: "station \<Rightarrow> dict \<Rightarrow> json ctl" where
  "check_release s data =
     io_bind (run_cmd s (git_in ROOT [''rev-parse'', ''HEAD''])) (\<lambda>head.
     io_bind (io_lift (item data ''commit'')) (\<lambda>pin.
     io_bind (io_ensure (pin = JStr head)
       (ValueError ''installed release differs from service pin; reinstall service settings'')) (\<lambda>_.
     io_bind (run_cmd s (git_in ROOT [''status'', ''--porcelain'', ''--untracked-files=no''])) (\<lambda>changes.
     io_bind (io_ensure (changes = []) (ValueError ''installed release has tracked changes'')) (\<lambda>_.
     read_json s HOST_FILE)))))"

fun any_restart :: "json list \<Rightarrow> bool res" where
  "any_restart [] = Inr False"
| "any_restart (service # services) =
     rbind (dict_attr service) (\<lambda>m.
     if get_default m ''restart'' (JStr ''no'') \<noteq> JStr ''no'' then Inr True else any_restart services)"

definition check_project :: "station \<Rightarrow> string list \<Rightarrow> unit ctl" where
  "check_project s command =
     io_bind (run_cmd s (command @ [''config'', ''--quiet''])) (\<lambda>_.
     io_bind (run_loads s (command @ [''config'', ''--format'', ''json''])) (\<lambda>rendered.
     io_bind (io_lift (rbind (rbind (subscript rendered ''services'') dict_attr) (\<lambda>m. any_restart (map snd m)))) (\<lambda>restarts.
     io_ensure (\<not> restarts) (ValueError ''systemd supervision requires Docker restart policies disabled''))))"

definition check_projects :: "pyrt \<Rightarrow> depot \<Rightarrow> dict \<Rightarrow> json \<Rightarrow> env ctl" where
  "check_projects rt d data host =
     (let (compose, fixture) = commands data in
      io_bind (validate_config rt d ROOT host) (\<lambda>vals.
      io_bind (for_each (check_project (dp_host d)) ([compose] @ (if lab_of data then [fixture] else []))) (\<lambda>_.
      io_return vals)))"

definition preflight :: "pyrt \<Rightarrow> depot \<Rightarrow> dict \<Rightarrow> env may" where
  "preflight rt d data =
     may_bind (returns (check_release (dp_host d) data)) (\<lambda>host.
     may_bind (retry_until (dp_host d) (network rt (dp_host d) host) is_ValueError (\<lambda>e. e) 2 90) (\<lambda>_.
     returns (check_projects rt d data host)))"

section \<open>Containers\<close>

definition projects :: "bool \<Rightarrow> (string \<times> nat) list" where
  "projects lab = [(''transparent-gateway'', 6)] @ (if lab then [(''tg-lab'', 2)] else [])"

definition label_filter :: "string \<Rightarrow> string list" where
  "label_filter project = [''--filter'', ''label=com.docker.compose.project='' @ project]"

definition unhealthy :: "json \<Rightarrow> bool res" where
  "unhealthy state =
     rbind (dict_attr state) (\<lambda>m. rbind (dict_attr (get_default m ''Health'' (JObj []))) (\<lambda>health.
     Inr (get_default health ''Status'' (JStr ''healthy'') = JStr ''unhealthy'')))"

definition inspect_row :: "json \<Rightarrow> (string \<times> json) res" where
  "inspect_row row =
     rbind (subscript row ''State'') (\<lambda>state. rbind (subscript state ''Running'') (\<lambda>running.
     rbind (if truthy running then unhealthy state else Inr True) (\<lambda>bad.
     rbind (ensure (\<not> bad) (RuntimeError ''application container stopped or unhealthy'')) (\<lambda>_.
     rbind (subscript row ''Id'') (\<lambda>ident. rbind (subscript row ''Name'') (\<lambda>name.
     rbind (of_option AttributeError (case name of JStr t \<Rightarrow> Some t | _ \<Rightarrow> None)) (\<lambda>t.
     Inr (lstrip_by (\<lambda>c. c = CHR ''/'') t, ident))))))))"

definition project_containers :: "station \<Rightarrow> string \<times> nat \<Rightarrow> (string \<times> json) list ctl" where
  "project_containers s = (\<lambda>(project, count).
     io_bind (run_lines s ([''docker'', ''ps'', ''-aq''] @ label_filter project)) (\<lambda>ids.
     io_bind (io_ensure (length ids = count) (RuntimeError ''expected application containers missing'')) (\<lambda>_.
     io_bind (run_loads s ([''docker'', ''inspect''] @ ids)) (\<lambda>v.
     io_lift (rbind (iterate v) (rmap inspect_row))))))"

definition containers :: "station \<Rightarrow> bool \<Rightarrow> dict ctl" where
  "containers s lab =
     io_bind (for_each (project_containers s) (projects lab)) (\<lambda>found.
     io_return (fold (\<lambda>(name, ident). AList.update name ident) (concat found) []))"

section \<open>The start of the service\<close>

definition notify :: "supervisor \<Rightarrow> string \<Rightarrow> unit ctl" where
  "notify v message =
     (case sv_socket v of
        Some (c # rest) \<Rightarrow>
          (let target = (if c = CHR ''@'' then CHR 0x00 # rest else c # rest) in
           io_bind (file_op (sv_host v) ''connect'' target []) (\<lambda>_. file_op (sv_host v) ''send'' target message))
      | _ \<Rightarrow> io_raise (ValueError ''service must be started by systemd''))"

definition READY :: string where
  "READY = ''READY=1'' @ [LF] @ ''STATUS=Local ready; supervising containers; client/DNS/public checks pending''"

definition start_arguments :: "string list" where
  "start_arguments = [''up'', ''--detach'', ''--no-build'', ''--pull'', ''never'', ''--wait'', ''--wait-timeout'', ''180'']"

definition start_containers :: "station \<Rightarrow> dict \<Rightarrow> unit ctl" where
  "start_containers s data =
     (let (compose, fixture) = commands data in
      io_bind (for_each (\<lambda>command. run_cmd s (command @ start_arguments)) ((if lab_of data then [fixture] else []) @ [compose])) (\<lambda>_.
      io_return ()))"

definition boot_record :: "string \<Rightarrow> json \<Rightarrow> json \<Rightarrow> dict \<Rightarrow> readiness \<Rightarrow> json" where
  "boot_record boot commit ready_at running result =
     JObj [(''boot_id'', JStr (strip boot)), (''commit'', commit), (''ready_at'', ready_at),
       (''containers'', JObj running), (''readiness'', readiness_json result)]"

definition write_boot_state :: "supervisor \<Rightarrow> dict \<Rightarrow> readiness \<Rightarrow> bool ctl" where
  "write_boot_state v data result =
     (let s = sv_host v in
      io_bind (read_text s ''/proc/sys/kernel/random/boot_id'') (\<lambda>boot.
      io_bind (io_lift (item data ''commit'')) (\<lambda>commit.
      io_bind (observe (\<lambda>past. Inr (sv_now v past))) (\<lambda>ready_at.
      io_bind (containers s (lab_of data)) (\<lambda>running.
      atomic_write (sv_depot v) BOOT_STATE (st_dumps s (boot_record boot commit ready_at running result) @ [LF]) 384 0)))))"

definition announce_ready :: "supervisor \<Rightarrow> dict \<Rightarrow> readiness \<Rightarrow> unit ctl" where
  "announce_ready v data result =
     io_bind (write_boot_state v data result) (\<lambda>_.
     io_bind (print (sv_host v)
       ''BOOT_LOCAL_READY: 6 services; fresh pools; authenticated relay echo; client/DNS/public pending'') (\<lambda>_.
     notify v READY))"

text \<open>The deployment lock is closed, and so released, however the block ends.\<close>

definition with_lock :: "station \<Rightarrow> 'a may \<Rightarrow> 'a may" where
  "with_lock s body past =
     (case file_op s ''open'' LOCK [] past of
        (Inl e, c) \<Rightarrow> Some (Inl e, c)
      | (Inr _, c) \<Rightarrow> map_option (\<lambda>(r, c1). (r, c1 @ [(FileOp ''close'' LOCK [], True)])) (body c))"

definition gate_wait :: "depot \<Rightarrow> dict \<Rightarrow> env \<Rightarrow> readiness may" where
  "gate_wait d data vals =
     retry_until (dp_host d) (gate_step d (compose_base ROOT (lab_of data)) vals) deploy_catches
       (\<lambda>_. RuntimeError ''local readiness deadline exceeded'') 3 180"

definition bring_up :: "pyrt \<Rightarrow> supervisor \<Rightarrow> dict \<Rightarrow> unit may" where
  "bring_up rt v data =
     (let d = sv_depot v; s = sv_host v in
      with_lock s (
        may_bind (returns (file_op s ''flock'' LOCK [])) (\<lambda>_.
        may_bind (preflight rt d data) (\<lambda>vals.
        may_bind (returns (start_containers s data)) (\<lambda>_.
        may_bind (gate_wait d data vals) (\<lambda>result.
        returns (announce_ready v data result)))))))"

section \<open>Supervision\<close>

definition BlockingIOError :: exn where
  "BlockingIOError = OSError ''Resource temporarily unavailable''"

text \<open>One round: the containers are inspected unless another process holds the lock.\<close>

definition supervision_round :: "station \<Rightarrow> bool \<Rightarrow> unit may" where
  "supervision_round s lab past =
     with_lock s (returns (\<lambda>past. case file_op s ''flock'' LOCK [] past of
         (Inl e, c) \<Rightarrow> (if e = BlockingIOError then Inr () else Inl e, c)
       | (Inr _, c) \<Rightarrow> io_bind (containers s lab) (\<lambda>_. io_return ()) c)) (past @ [(Sleep 15, True)])"

partial_function (option) supervise :: "station \<Rightarrow> bool \<Rightarrow> ctl_log \<Rightarrow> (unit res \<times> ctl_log) option" where
  "supervise s lab past =
     Option.bind (supervision_round s lab past) (\<lambda>(r, c). case r of
       Inl e \<Rightarrow> Some (Inl e, c)
     | Inr _ \<Rightarrow> supervise s lab c)"

definition serve :: "pyrt \<Rightarrow> supervisor \<Rightarrow> dict \<Rightarrow> unit may" where
  "serve rt v data = may_bind (bring_up rt v data) (\<lambda>_. supervise (sv_host v) (lab_of data))"

section \<open>Stop and the actions\<close>

definition stop_project :: "station \<Rightarrow> string \<Rightarrow> unit ctl" where
  "stop_project s project =
     io_bind (run_lines s ([''docker'', ''ps'', ''-q''] @ label_filter project)) (\<lambda>ids.
     if ids = [] then io_return ()
     else io_bind (run_cmd s ([''docker'', ''stop'', ''--time'', ''20''] @ ids)) (\<lambda>_. io_return ()))"

definition stop :: "station \<Rightarrow> dict \<Rightarrow> unit ctl" where
  "stop s data =
     io_bind (for_each (stop_project s) ([''transparent-gateway''] @ (if lab_of data then [''tg-lab''] else []))) (\<lambda>_.
     print s ''STOPPED: application containers; data volumes retained'')"

definition service_action :: "pyrt \<Rightarrow> supervisor \<Rightarrow> string list \<Rightarrow> dict \<Rightarrow> unit may" where
  "service_action rt v argv data =
     (case argv of
        [] \<Rightarrow> returns (io_raise IndexError)
      | act # _ \<Rightarrow>
          if act = ''check'' then
            may_bind (preflight rt (sv_depot v) data) (\<lambda>_.
            returns (print (sv_host v) ''PREFLIGHT PASS: pinned release, three NICs, secrets and Compose config''))
          else if act = ''serve'' then serve rt v data
          else if act = ''stop'' then returns (stop (sv_host v) data)
          else returns (io_raise (ValueError ''invalid service action'')))"

definition service_main :: "pyrt \<Rightarrow> supervisor \<Rightarrow> string list \<Rightarrow> int may" where
  "service_main rt v argv past =
     (case may_bind (returns (settings (sv_depot v))) (service_action rt v argv) past of
        None \<Rightarrow> None
      | Some (Inr _, c) \<Rightarrow> Some (Inr 0, c)
      | Some (Inl e, c) \<Rightarrow>
          if e = KeyboardInterrupt then Some (Inl e, c)
          else returns (io_bind (print (sv_host v) (''SERVICE_FAILED: '' @ sv_class v e @ ''; details suppressed''))
            (\<lambda>_. io_return 1)) c)"

section \<open>The loops\<close>

lemma retry_round:
  assumes log: "\<forall>past r c. attempt past = (r, c) \<longrightarrow> (\<exists>new. c = past @ new \<and> Q new)"
  obtains x new where "attempt past = (Inr x, past @ new)" "Q new"
      "retry_loop s attempt catches too_late gap deadline past = Some (Inr x, past @ new)"
    | e new where "Q new" "retry_loop s attempt catches too_late gap deadline past = Some (Inl e, past @ new)"
    | e new where "Q new" "deadline \<le> st_clock s (past @ new)"
      "retry_loop s attempt catches too_late gap deadline past = Some (Inl e, past @ new @ [(Clock, True)])"
    | new where "Q new" "st_clock s (past @ new) < deadline"
      "retry_loop s attempt catches too_late gap deadline past
        = retry_loop s attempt catches too_late gap deadline (past @ (new @ [(Clock, True)]) @ [(Sleep gap, True)])"
proof -
  obtain r c where run: "attempt past = (r, c)" by fastforce
  then obtain new where new: "c = past @ new" "Q new" using log by blast
  show thesis
  proof (cases r)
    case (Inr x)
    then show thesis using run new by (intro that(1)) (auto simp: retry_loop.simps)
  next
    case (Inl e)
    consider "\<not> catches e" | "catches e" "deadline \<le> st_clock s c" | "catches e" "st_clock s c < deadline" by fastforce
    then show thesis
    proof cases
      case 1
      then show thesis using run new Inl by (intro that(2)) (auto simp: retry_loop.simps)
    next
      case 2
      then show thesis using run new Inl by (intro that(3)) (auto simp: retry_loop.simps tick_def)
    next
      case 3
      then show thesis using run new Inl
        by (intro that(4)) (simp_all, subst retry_loop.simps, simp add: tick_def)
    qed
  qed
qed

lemma polling_retry:
  assumes log: "\<forall>past r c. attempt past = (r, c) \<longrightarrow> (\<exists>new. c = past @ new \<and> attempts marks new \<le> 1)"
    and unmarked: "\<And>b. \<not> marks (Clock, b)" "\<And>d b. \<not> marks (Sleep d, b)" and gap: "0 < gap"
  shows "polling s deadline gap 1 (\<lambda>_ :: unit. retry_loop s attempt catches too_late gap deadline) marks
    (\<lambda>p y. fst (attempt p) = Inr y)"
proof
  fix past and x :: unit
  let ?loop = "retry_loop s attempt catches too_late gap deadline past"
  let ?accepts = "\<lambda>p y. fst (attempt p) = Inr y"
  have found: "settles (Some (Inr y, past @ new)) past marks 1 ?accepts"
    if "attempt past = (Inr y, past @ new)" "attempts marks new \<le> 1" for y new
    using that by (intro settlesI[where new = new]) (auto intro!: exI[of _ past])
  have failed: "settles (Some (Inl e, past @ new)) past marks 1 ?accepts" if "attempts marks new \<le> 1" for e new
    using that by (intro settlesI[where new = new]) auto
  have late: "settles (Some (Inl e, past @ new @ [(Clock, True)])) past marks 1 ?accepts" if "attempts marks new \<le> 1" for e new
    using failed[of "new @ [(Clock, True)]"] that unmarked by simp
  show "settles ?loop past marks 1 ?accepts" if clock: "clock_law s" and ended: "deadline \<le> st_clock s past"
  proof (cases rule: retry_round[OF log, of past s catches too_late gap deadline])
    case (4 new)
    have "st_clock s past \<le> st_clock s (past @ new)" using clock by (simp add: clock_law_def)
    then show ?thesis using 4(2) ended by simp
  qed (use found failed late in auto)
  show "settles ?loop past marks 1 ?accepts
    \<or> (\<exists>x' :: unit. \<exists>new d. ?loop = retry_loop s attempt catches too_late gap deadline (past @ new @ [(Sleep d, True)])
        \<and> attempts marks new \<le> 1 \<and> (gap \<le> d \<or> (\<exists>q r. past @ new = q @ r \<and> deadline \<le> st_clock s q + d)))"
  proof (cases rule: retry_round[OF log, of past s catches too_late gap deadline])
    case (4 new)
    have "attempts marks (new @ [(Clock, True)]) \<le> 1" using 4(1) unmarked by simp
    then show ?thesis using 4(3) by blast
  qed (use found failed late in auto)
qed (use unmarked gap in auto)

text \<open>What such a loop leaves behind when it ends, whatever the clock does: its last attempt succeeded.\<close>

lemma retry_loop_Some:
  assumes "emits P attempt" "P (Clock, True)" "P (Sleep gap, True)"
    and run: "retry_loop s attempt catches too_late gap deadline past = Some (r, c)"
  shows "\<exists>new. c = past @ new \<and> list_all P new \<and> (\<forall>y. r = Inr y \<longrightarrow> (\<exists>q. prefix past q \<and> attempt q = (Inr y, c)))"
proof -
  let ?Q = "\<lambda>s attempt catches too_late gap deadline past (y :: 'a res \<times> ctl_log).
    emits P attempt \<longrightarrow> P (Sleep gap, True) \<longrightarrow> (\<exists>new. snd y = past @ new \<and> list_all P new
      \<and> (\<forall>z. fst y = Inr z \<longrightarrow> (\<exists>q. prefix past q \<and> attempt q = (Inr z, snd y))))"
  have "?Q s attempt catches too_late gap deadline past (r, c)"
  proof (rule retry_loop.raw_induct[of ?Q, OF _ run], goal_cases)
    case (1 f s attempt catches too_late gap deadline past y)
    show ?case
    proof (intro impI)
      assume emits: "emits P attempt" and sleep: "P (Sleep gap, True)"
      obtain q mid where step: "attempt past = (q, mid)" by fastforce
      obtain new where new: "mid = past @ new" "list_all P new" using emits step by (rule emitsE)
      show "\<exists>new. snd y = past @ new \<and> list_all P new
        \<and> (\<forall>z. fst y = Inr z \<longrightarrow> (\<exists>q. prefix past q \<and> attempt q = (Inr z, snd y)))"
      proof (cases "\<exists>e. q = Inl e \<and> catches e \<and> st_clock s mid < deadline")
        case True
        let ?next = "past @ new @ [(Clock, True), (Sleep gap, True)]"
        have "f s attempt catches too_late gap deadline ?next = Some y"
          using 1(2) True step new(1) by (auto simp: tick_def)
        then obtain rest where rest: "snd y = ?next @ rest" "list_all P rest"
          "\<forall>z. fst y = Inr z \<longrightarrow> (\<exists>q. prefix ?next q \<and> attempt q = (Inr z, snd y))"
          using 1(1) emits sleep by blast
        have "\<exists>q. prefix past q \<and> attempt q = (Inr z, snd y)" if accepted: "fst y = Inr z" for z
          using rest(3) accepted append_prefixD by blast
        then show ?thesis
          using rest(1,2) new(2) assms(2) sleep
          by (intro exI[of _ "new @ [(Clock, True), (Sleep gap, True)] @ rest"]) simp
      next
        case False
        then have "y = (q, mid) \<or> (\<exists>e. y = (Inl e, mid @ [(Clock, True)]))"
          using 1(2) step by (cases q) (auto simp: tick_def split: if_splits)
        then show ?thesis using step new assms(2) by auto
      qed
    qed
  qed
  then show ?thesis using assms(1,3) by simp
qed

lemma retry_until_Some:
  assumes "emits P attempt" "P (Clock, True)" "P (Sleep gap, True)"
    and "retry_until s attempt catches too_late gap timeout past = Some (r, c)"
  shows "\<exists>new. c = past @ new \<and> list_all P new \<and> (\<forall>y. r = Inr y \<longrightarrow> (\<exists>q. prefix past q \<and> attempt q = (Inr y, c)))"
proof -
  let ?deadline = "st_clock s past + of_int timeout"
  have run: "retry_loop s attempt catches too_late gap ?deadline (past @ [(Clock, True)]) = Some (r, c)"
    using assms(4) by (simp add: retry_until_def tick_def)
  obtain new where "c = (past @ [(Clock, True)]) @ new" "list_all P new"
    "\<forall>y. r = Inr y \<longrightarrow> (\<exists>q. prefix (past @ [(Clock, True)]) q \<and> attempt q = (Inr y, c))"
    using retry_loop_Some[OF assms(1-3) run] by blast
  then show ?thesis
    using assms(2) append_prefixD[of past] by (intro exI[of _ "(Clock, True) # new"]) fastforce
qed

section \<open>What the steps leave in the log\<close>

text \<open>The attempts of the two loops: the first command of \<open>network\<close>, and the readiness gate.\<close>

fun boot_attempt :: "ctl_event \<Rightarrow> bool" where
  "boot_attempt (Run ws, _) = (ws = address_command)"
| "boot_attempt (Gate, _) = True"
| "boot_attempt _ = False"

fun notifies :: "ctl_event \<Rightarrow> bool" where
  "notifies (FileOp act _ _, _) = (act = ''send'')"
| "notifies _ = False"

lemma run_loads_event: "run_loads s ws past = (r, c) \<Longrightarrow> \<exists>b. c = past @ [(Run ws, b)]"
  unfolding run_loads_def run_cmd_def
  by (elim io_bind_cases) (auto dest!: spawn_event simp: io_lift_def io_ensure_def io_return_def io_raise_def split: if_splits prod.splits)

lemma at_most_one_bind:
  assumes m: "\<And>past r c. m past = (r, c) \<Longrightarrow> \<exists>new. c = past @ new \<and> attempts marks new \<le> 1"
    and f: "\<And>x. emits (\<lambda>e. \<not> marks e) (f x)" and run: "io_bind m f past = (r, c)"
  shows "\<exists>new. c = past @ new \<and> attempts marks new \<le> 1"
  using run
proof (rule io_bind_cases)
  fix e assume "m past = (Inl e, c)"
  then show ?thesis by (rule m)
next
  fix x c1 assume first: "m past = (Inr x, c1)" and rest: "f x c1 = (r, c)"
  obtain new where "c1 = past @ new" "attempts marks new \<le> 1" using m[OF first] by blast
  moreover obtain new' where "c = c1 @ new'" "list_all (\<lambda>e. \<not> marks e) new'" using f rest by (rule emitsE)
  ultimately show ?thesis by (intro exI[of _ "new @ new'"]) (simp add: attempts_none)
qed

lemma network_log:
  "\<forall>past r c. network rt s host past = (r, c) \<longrightarrow> (\<exists>new. c = past @ new \<and> attempts boot_attempt new \<le> 1)"
proof (intro allI impI)
  fix past r c assume run: "network rt s host past = (r, c)"
  show "\<exists>new. c = past @ new \<and> attempts boot_attempt new \<le> 1"
  proof (rule at_most_one_bind[OF _ _ run[unfolded network_def check_host_network_def]])
    fix past r c assume "run_loads s address_command past = (r, c)"
    then show "\<exists>new. c = past @ new \<and> attempts boot_attempt new \<le> 1" using run_loads_event by fastforce
  qed (unfold run_loads_def, intro emits_intros, simp_all add: route_command_def address_command_def)
qed

lemma gate_step_log:
  "\<forall>past r c. gate_step d compose vals past = (r, c) \<longrightarrow> (\<exists>new. c = past @ new \<and> attempts boot_attempt new \<le> 1)"
  using gate_step_event by fastforce

interpretation boot_network: polling s deadline 2 1
  "\<lambda>_ :: unit. retry_loop s (network rt s host) catches too_late 2 deadline" boot_attempt
  "\<lambda>p y. fst (network rt s host p) = Inr y" for rt s host catches too_late deadline
  by (rule polling_retry[OF network_log]) simp_all

interpretation boot_gate: polling s deadline 3 1
  "\<lambda>_ :: unit. retry_loop s (gate_step d compose vals) catches too_late 3 deadline" boot_attempt
  "\<lambda>p y. fst (gate_step d compose vals p) = Inr y" for d s compose vals catches too_late deadline
  by (rule polling_retry[OF gate_step_log]) simp_all

lemmas service_steps = check_release_def check_projects_def check_project_def commands_def start_containers_def
  run_loads_def run_lines_def read_json_def read_text_def validate_config_def Let_def git_in_def

lemma emits_network: "P (Run address_command, True) \<Longrightarrow> P (Run address_command, False) \<Longrightarrow>
    P (Run route_command, True) \<Longrightarrow> P (Run route_command, False) \<Longrightarrow> emits P (network rt s host)"
  unfolding network_def check_host_network_def run_loads_def by (intro emits_intros)

lemma emits_gate_step: "P (Gate, True) \<Longrightarrow> P (Gate, False) \<Longrightarrow> emits P (gate_step d compose vals)"
proof (rule emitsI)
  fix past r c assume P: "P (Gate, True)" "P (Gate, False)" and "gate_step d compose vals past = (r, c)"
  then obtain b where "c = past @ [(Gate, b)]" using gate_step_event by blast
  then show "\<exists>new. c = past @ new \<and> list_all P new" using P by (cases b) auto
qed

text \<open>Every event of the other steps of the preparation is another command.\<close>

lemma compose_commands:
  "command \<in> set ([compose_base ROOT lab] @ (if lab then [fixture_base ROOT] else [])) \<Longrightarrow> command @ rest \<noteq> address_command"
  "command \<in> set ((if lab then [fixture_base ROOT] else []) @ [compose_base ROOT lab]) \<Longrightarrow> command @ rest \<noteq> address_command"
  by (auto simp: address_command_def compose_base_def fixture_base_def split: if_splits)

lemma emits_runs:
  assumes P: "\<And>ws b. ws \<noteq> address_command \<Longrightarrow> P (Run ws, b)"
  shows "emits P (check_release s data)" "emits P (check_projects rt d data host)" "emits P (start_containers s data)"
    "emits P (containers s lab)"
proof -
  show "emits P (check_release s data)"
    unfolding service_steps by (intro emits_intros P) (simp_all add: address_command_def)
  have "emits P (check_project s' command)"
    if "command \<in> set ([compose_base ROOT lab] @ (if lab then [fixture_base ROOT] else []))" for command s' lab
    unfolding check_project_def run_loads_def by (intro emits_intros P) (simp_all only: compose_commands(1)[OF that] not_False_eq_True)
  then show "emits P (check_projects rt d data host)"
    unfolding check_projects_def commands_def Let_def validate_config_def prod.case
    by (intro emits_bind emits_for_each_in emits_pure)
  have "emits P (run_cmd s (command @ start_arguments))"
    if "command \<in> set ((if lab then [fixture_base ROOT] else []) @ [compose_base ROOT lab])" for command lab
    by (intro emits_run_cmd P) (simp_all only: compose_commands(2)[OF that] not_False_eq_True)
  then show "emits P (start_containers s data)"
    unfolding start_containers_def commands_def Let_def prod.case by (intro emits_bind emits_for_each_in emits_pure)
  show "emits P (containers s lab)"
    unfolding containers_def project_containers_def run_loads_def run_lines_def
    by (intro emits_intros P) (simp_all add: address_command_def)
qed

text \<open>The same for programs that may run forever: what they leave behind if they end.\<close>

definition leaves :: "(ctl_event \<Rightarrow> bool) \<Rightarrow> 'a may \<Rightarrow> bool" where
  "leaves P m \<longleftrightarrow> (\<forall>past r c. m past = Some (r, c) \<longrightarrow> (\<exists>new. c = past @ new \<and> list_all P new))"

lemma leavesE:
  assumes "leaves P m" "m past = Some (r, c)"
  obtains new where "c = past @ new" "list_all P new"
  using assms unfolding leaves_def by blast

lemma may_bind_cases:
  assumes "may_bind m f past = Some (r, c)"
  obtains e where "m past = Some (Inl e, c)" "r = Inl e"
    | x c1 where "m past = Some (Inr x, c1)" "f x c1 = Some (r, c)"
  using assms by (auto simp: may_bind_def split: bind_splits sum.splits)

lemma leaves_returns: "emits P m \<Longrightarrow> leaves P (returns m)"
  unfolding leaves_def returns_def by (auto elim: emitsE)

lemma leaves_bind:
  assumes m: "leaves P m" and f: "\<And>x. leaves P (f x)"
  shows "leaves P (may_bind m f)"
  unfolding leaves_def
proof (intro allI impI)
  fix past r c assume "may_bind m f past = Some (r, c)"
  then show "\<exists>new. c = past @ new \<and> list_all P new"
  proof (rule may_bind_cases)
    fix e assume "m past = Some (Inl e, c)"
    then show ?thesis using m leavesE by blast
  next
    fix x c1 assume first: "m past = Some (Inr x, c1)" and rest: "f x c1 = Some (r, c)"
    obtain new where "c1 = past @ new" "list_all P new" using m first by (rule leavesE)
    moreover obtain new' where "c = c1 @ new'" "list_all P new'" using f rest by (rule leavesE)
    ultimately show ?thesis by (intro exI[of _ "new @ new'"]) simp
  qed
qed

lemma leaves_retry:
  assumes "emits P attempt" "P (Clock, True)" "P (Sleep gap, True)"
  shows "leaves P (retry_until s attempt catches too_late gap timeout)"
  unfolding leaves_def using retry_until_Some[OF assms] by blast

lemma preflight_quiet: "leaves (\<lambda>e. \<not> notifies e) (preflight rt d data)"
  unfolding preflight_def
  by (intro leaves_bind leaves_returns leaves_retry emits_runs emits_network) simp_all

lemma gate_wait_quiet: "leaves (\<lambda>e. \<not> notifies e) (gate_wait d data vals)"
  unfolding gate_wait_def by (intro leaves_retry emits_gate_step) simp_all

lemma gate_wait_accepts:
  assumes "gate_wait d data vals past = Some (Inr result, c)"
  shows "\<exists>q. prefix past q \<and> prefix q c \<and> gate_accepts d (compose_base ROOT (lab_of data)) vals q result"
proof -
  have "emits (\<lambda>_. True) (gate_step d (compose_base ROOT (lab_of data)) vals)" by (rule emits_gate_step) simp_all
  from retry_until_Some[OF this _ _ assms[unfolded gate_wait_def]] obtain q where
    q: "prefix past q" "gate_step d (compose_base ROOT (lab_of data)) vals q = (Inr result, c)"
    by auto
  then show ?thesis using gate_step_event[OF q(2)] by auto
qed

lemma write_boot_state_Inr:
  assumes "write_boot_state v data result past = (Inr x, c)"
  obtains boot commit running c1 where "containers (sv_host v) (lab_of data) past = (Inr running, c1)"
    "atomic_write (sv_depot v) BOOT_STATE
       (st_dumps (sv_host v) (boot_record boot commit (sv_now v past) running result) @ [LF]) 384 0 c1 = (Inr x, c)"
  using assms unfolding write_boot_state_def
  by (auto simp: Let_def read_text_def observe_def io_lift_def elim!: io_bindE)

lemma emits_write_boot_state:
  assumes "\<And>ws b. ws \<noteq> address_command \<Longrightarrow> P (Run ws, b)" "\<And>act p arg b. act \<noteq> ''send'' \<Longrightarrow> P (FileOp act p arg, b)"
  shows "emits P (write_boot_state v data result)"
  unfolding write_boot_state_def atomic_write_def unchanged_def replace_file_def mkdir_parent_def read_text_def Let_def
  by (intro emits_intros emits_runs emits_at[where f = "\<lambda>past. dp_temp (sv_depot v) past (parent_of _)"] assms) simp_all

lemma write_boot_state_quiet: "emits (\<lambda>e. \<not> notifies e) (write_boot_state v data result)"
  by (rule emits_write_boot_state) simp_all

lemma emits_notify:
  assumes "\<And>act p arg b. P (FileOp act p arg, b)"
  shows "emits P (notify v message)"
  using assms unfolding notify_def Let_def by (auto split: option.splits list.splits intro!: emits_intros)

lemma announce_ready_cases:
  assumes "announce_ready v data result past = (r, c)"
  obtains new where "c = past @ new" "list_all (\<lambda>e. \<not> notifies e) new"
    | x c1 new where "write_boot_state v data result past = (Inr x, c1)" "c = c1 @ new"
  using assms unfolding announce_ready_def
proof (rule io_bind_cases)
  fix e assume "write_boot_state v data result past = (Inl e, c)"
  then show thesis using that(1) write_boot_state_quiet emitsE by blast
next
  fix x c1 assume first: "write_boot_state v data result past = (Inr x, c1)"
    and rest: "io_bind (print (sv_host v)
       ''BOOT_LOCAL_READY: 6 services; fresh pools; authenticated relay echo; client/DNS/public pending'') (\<lambda>_.
       notify v READY) c1 = (r, c)"
  have "emits (\<lambda>_. True) (io_bind (print (sv_host v)
       ''BOOT_LOCAL_READY: 6 services; fresh pools; authenticated relay echo; client/DNS/public pending'') (\<lambda>_.
       notify v READY))"
    by (intro emits_intros emits_notify TrueI)
  then show thesis using that(2)[OF first] rest emitsE by blast
qed

text \<open>One step of a program after the events \<open>new\<close>: it ends the program, or adds more such events.\<close>

lemma leaves_bind_cases:
  assumes run: "may_bind m f (past @ new) = Some (r, c)" and m: "leaves P m" and new: "list_all P new"
  obtains new' where "c = past @ new'" "list_all P new'"
    | x new' where "m (past @ new) = Some (Inr x, past @ new')" "list_all P new'" "prefix new new'" "f x (past @ new') = Some (r, c)"
  using run
proof (rule may_bind_cases)
  fix e assume "m (past @ new) = Some (Inl e, c)"
  then obtain rest where "c = (past @ new) @ rest" "list_all P rest" by (rule leavesE[OF m])
  then show thesis using that(1)[of "new @ rest"] new by simp
next
  fix x c1 assume first: "m (past @ new) = Some (Inr x, c1)" and rest: "f x c1 = Some (r, c)"
  obtain more_events where "c1 = (past @ new) @ more_events" "list_all P more_events" by (rule leavesE[OF m first])
  then show thesis using that(2)[of x "new @ more_events"] new first rest by simp
qed

lemma with_lock_cases:
  assumes "with_lock s body past = Some (r, c)"
  obtains e where "c = past @ [(FileOp ''open'' LOCK [], False)]" "r = Inl e"
    | c1 where "body (past @ [(FileOp ''open'' LOCK [], True)]) = Some (r, c1)" "c = c1 @ [(FileOp ''close'' LOCK [], True)]"
  using assms by (auto simp: with_lock_def file_op_def split: sum.splits)

lemma bring_up_cases:
  assumes "bring_up rt v data past = Some (r, past')"
  obtains new where "past' = past @ new" "list_all (\<lambda>e. \<not> notifies e) new"
    | locked vals checked started result new c where "prefix past locked"
      "preflight rt (sv_depot v) data locked = Some (Inr vals, checked)"
      "start_containers (sv_host v) data checked = (Inr (), started)"
      "gate_wait (sv_depot v) data vals started = Some (Inr result, past @ new)" "list_all (\<lambda>e. \<not> notifies e) new"
      "announce_ready v data result (past @ new) = (r, c)" "past' = c @ [(FileOp ''close'' LOCK [], True)]"
  using assms unfolding bring_up_def Let_def
proof (rule with_lock_cases)
  fix e assume "past' = past @ [(FileOp ''open'' LOCK [], False)]"
  then show thesis using that(1)[of "[(FileOp ''open'' LOCK [], False)]"] by simp
next
  let ?quiet = "\<lambda>e. \<not> notifies e"
  note quiet_end = that(1) and ready_end = that(2)
  fix c assume body: "may_bind (returns (file_op (sv_host v) ''flock'' LOCK [])) (\<lambda>_.
      may_bind (preflight rt (sv_depot v) data) (\<lambda>vals. may_bind (returns (start_containers (sv_host v) data)) (\<lambda>_.
      may_bind (gate_wait (sv_depot v) data vals) (\<lambda>result. returns (announce_ready v data result)))))
      (past @ [(FileOp ''open'' LOCK [], True)]) = Some (r, c)"
    and close: "past' = c @ [(FileOp ''close'' LOCK [], True)]"
  have stop: thesis if ended: "c = past @ new" "list_all ?quiet new" for new
    using ended quiet_end[of "new @ [(FileOp ''close'' LOCK [], True)]"] close by simp
  have lock: "leaves ?quiet (returns (file_op (sv_host v) ''flock'' LOCK []))"
    and start: "leaves ?quiet (returns (start_containers (sv_host v) data))"
    by (intro leaves_returns emits_runs emits_intros; simp)+
  show thesis
  proof (rule leaves_bind_cases[OF body lock], simp, erule (1) stop)
    fix u n0 assume n0: "list_all ?quiet n0" and body1: "may_bind (preflight rt (sv_depot v) data) (\<lambda>vals.
        may_bind (returns (start_containers (sv_host v) data)) (\<lambda>_. may_bind (gate_wait (sv_depot v) data vals) (\<lambda>result.
        returns (announce_ready v data result)))) (past @ n0) = Some (r, c)"
    show thesis
    proof (rule leaves_bind_cases[OF body1 preflight_quiet n0], erule (1) stop)
      fix vals n1 assume flight: "preflight rt (sv_depot v) data (past @ n0) = Some (Inr vals, past @ n1)" and n1: "list_all ?quiet n1"
        and body2: "may_bind (returns (start_containers (sv_host v) data)) (\<lambda>_. may_bind (gate_wait (sv_depot v) data vals) (\<lambda>result.
          returns (announce_ready v data result))) (past @ n1) = Some (r, c)"
      show thesis
      proof (rule leaves_bind_cases[OF body2 start n1], erule (1) stop)
        fix w n2 assume begun: "returns (start_containers (sv_host v) data) (past @ n1) = Some (Inr w, past @ n2)"
          and n2: "list_all ?quiet n2" and body3: "may_bind (gate_wait (sv_depot v) data vals) (\<lambda>result.
            returns (announce_ready v data result)) (past @ n2) = Some (r, c)"
        show thesis
        proof (rule leaves_bind_cases[OF body3 gate_wait_quiet n2], erule (1) stop)
          fix result n3 assume "gate_wait (sv_depot v) data vals (past @ n2) = Some (Inr result, past @ n3)"
            "list_all ?quiet n3" "returns (announce_ready v data result) (past @ n3) = Some (r, c)"
          then show thesis
            using ready_end[OF _ flight, of "past @ n2" result n3 c] begun close by (simp add: returns_def)
        qed
      qed
    qed
  qed
qed

section \<open>Properties\<close>

lemma quiet_no_send: "list_all (\<lambda>e. \<not> notifies e) new \<Longrightarrow> new \<noteq> early @ (FileOp ''send'' target message, b) # late"
  by auto

text \<open>
  C24. systemd is told \<open>READY\<close> only when the service is: before the first message on its socket, the
  preflight had accepted the installed release, the containers had been started, the readiness gate had
  accepted them for the values of that preflight, every container had been inspected, and the boot
  state that lists them had been written, in this order.
\<close>

theorem ready_after_gate:
  assumes run: "bring_up rt v data past = Some (r, past')"
    and told: "past' = past @ early @ (FileOp ''send'' target message, b) # late"
  shows "\<exists>locked vals checked started q result accepted boot commit running listed x written.
    prefix past locked \<and> preflight rt (sv_depot v) data locked = Some (Inr vals, checked)
    \<and> start_containers (sv_host v) data checked = (Inr (), started)
    \<and> prefix started q \<and> gate_accepts (sv_depot v) (compose_base ROOT (lab_of data)) vals q result \<and> prefix q accepted
    \<and> containers (sv_host v) (lab_of data) accepted = (Inr running, listed)
    \<and> atomic_write (sv_depot v) BOOT_STATE
        (st_dumps (sv_host v) (boot_record boot commit (sv_now v accepted) running result) @ [LF]) 384 0 listed = (Inr x, written)
    \<and> prefix written (past @ early)"
  using run
proof (rule bring_up_cases)
  fix new assume "past' = past @ new" "list_all (\<lambda>e. \<not> notifies e) new"
  then show ?thesis using told quiet_no_send by (metis same_append_eq)
next
  fix locked vals checked started result new c
  assume steps: "prefix past locked" "preflight rt (sv_depot v) data locked = Some (Inr vals, checked)"
    "start_containers (sv_host v) data checked = (Inr (), started)"
    "gate_wait (sv_depot v) data vals started = Some (Inr result, past @ new)"
    and new: "list_all (\<lambda>e. \<not> notifies e) new"
    and announced: "announce_ready v data result (past @ new) = (r, c)" and close: "past' = c @ [(FileOp ''close'' LOCK [], True)]"
  obtain q where q: "prefix started q" "prefix q (past @ new)"
    "gate_accepts (sv_depot v) (compose_base ROOT (lab_of data)) vals q result"
    using gate_wait_accepts[OF steps(4)] by blast
  from announced show ?thesis
  proof (rule announce_ready_cases)
    fix rest assume "c = (past @ new) @ rest" "list_all (\<lambda>e. \<not> notifies e) rest"
    moreover from this have "list_all (\<lambda>e. \<not> notifies e) (new @ rest @ [(FileOp ''close'' LOCK [], True)])" using new by simp
    moreover have "past' = past @ (new @ rest @ [(FileOp ''close'' LOCK [], True)])" using calculation(1) close by simp
    ultimately show ?thesis using told quiet_no_send by (metis same_append_eq)
  next
    fix x written rest assume state: "write_boot_state v data result (past @ new) = (Inr x, written)" and c: "c = written @ rest"
    obtain n1 where n1: "written = (past @ new) @ n1" "list_all (\<lambda>e. \<not> notifies e) n1"
      using write_boot_state_quiet state by (rule emitsE)
    have "(new @ n1) @ (rest @ [(FileOp ''close'' LOCK [], True)]) = early @ (FileOp ''send'' target message, b) # late"
      using told close c n1(1) by simp
    then have "\<exists>zs. early = (new @ n1) @ zs" by (rule event_after[where P = notifies]) (use new n1(2) in simp_all)
    then obtain zs where "early = (new @ n1) @ zs" by blast
    then have "prefix written (past @ early)" using n1(1) by simp
    moreover obtain boot commit running listed where
      "containers (sv_host v) (lab_of data) (past @ new) = (Inr running, listed)"
      "atomic_write (sv_depot v) BOOT_STATE
        (st_dumps (sv_host v) (boot_record boot commit (sv_now v (past @ new)) running result) @ [LF]) 384 0 listed = (Inr x, written)"
      using state by (rule write_boot_state_Inr)
    ultimately show ?thesis using steps(1-3) q by blast
  qed
qed

text \<open>What the inspection of a container that runs well shows.\<close>

definition runs_well :: "json \<Rightarrow> bool" where
  "runs_well row \<longleftrightarrow> (\<exists>m state running. row = JObj m \<and> map_of m ''State'' = Some (JObj state)
     \<and> map_of state ''Running'' = Some running \<and> truthy running
     \<and> (\<forall>health. map_of state ''Health'' = Some (JObj health) \<longrightarrow> map_of health ''Status'' \<noteq> Some (JStr ''unhealthy'')))"

lemma subscript_Inr: "subscript v k = Inr x \<longleftrightarrow> (\<exists>m. v = JObj m \<and> map_of m k = Some x)"
  by (cases v) (auto simp: subscript_def item_def of_option_eq_Inr)

lemma dict_attr_Inr: "dict_attr v = Inr m \<longleftrightarrow> v = JObj m"
  by (cases v) (auto simp: dict_attr_def)

lemma inspect_row_Inr: "inspect_row row = Inr (name, cid) \<Longrightarrow> runs_well row"
  unfolding inspect_row_def runs_well_def unhealthy_def
  by (auto simp: rbind_eq_Inr subscript_Inr dict_attr_Inr ensure_eq_Inr get_default_def split: if_splits option.splits)

lemma fold_update_dom: "dom (map_of (fold (\<lambda>(k, v). AList.update k v) kvs m)) = fst ` set kvs \<union> dom (map_of m)"
  by (induction kvs arbitrary: m) (auto simp: update_conv')

lemma rmap_set: "rmap f xs = Inr ys \<Longrightarrow> x \<in> set xs \<Longrightarrow> \<exists>y \<in> set ys. f x = Inr y"
  by (induction xs arbitrary: ys) (auto simp: rbind_eq_Inr)

lemma project_containers_Inr:
  assumes "project_containers s (project, number) past = (Inr found, c)"
  obtains ids p v rows where "run_lines s ([''docker'', ''ps'', ''-aq''] @ label_filter project) past = (Inr ids, p)"
    "length ids = number" "run_loads s ([''docker'', ''inspect''] @ ids) p = (Inr v, c)" "iterate v = Inr rows"
    "\<forall>row \<in> set rows. runs_well row \<and> (\<exists>name cid. inspect_row row = Inr (name, cid) \<and> name \<in> fst ` set found)"
proof -
  obtain ids p v rows where *: "run_lines s ([''docker'', ''ps'', ''-aq''] @ label_filter project) past = (Inr ids, p)"
    "length ids = number" "run_loads s ([''docker'', ''inspect''] @ ids) p = (Inr v, c)" "iterate v = Inr rows"
    "rmap inspect_row rows = Inr found"
    using assms unfolding project_containers_def
    by (auto elim!: io_bindE simp: io_ensure_Inr io_lift_eq rbind_eq_Inr)
  have "runs_well row \<and> (\<exists>name cid. inspect_row row = Inr (name, cid) \<and> name \<in> fst ` set found)" if "row \<in> set rows" for row
    using rmap_set[OF *(5) that] inspect_row_Inr by force
  then show thesis using that * by blast
qed

lemma for_each_each:
  assumes "for_each f xs past = (Inr ys, past')" "\<And>x. emits (\<lambda>_. True) (f x)" "x \<in> set xs"
  shows "\<exists>p y p'. f x p = (Inr y, p') \<and> prefix past p \<and> prefix p' past' \<and> y \<in> set ys"
  using assms(1,3)
proof (induction xs arbitrary: past ys)
  case (Cons a xs)
  obtain y c rest where *: "f a past = (Inr y, c)" "for_each f xs c = (Inr rest, past')" "ys = y # rest"
    using Cons.prems(1) by (auto elim!: io_bindE simp: io_return_eq)
  have pre: "prefix past c" "prefix c past'"
    using emits_prefix[OF assms(2) *(1)] emits_prefix[OF emits_for_each *(2)] assms(2) by blast+
  show ?case
  proof (cases "x = a")
    case True
    then show ?thesis using * pre by auto
  next
    case False
    then obtain p z p' where "f x p = (Inr z, p')" "prefix c p" "prefix p' past'" "z \<in> set rest"
      using Cons.IH[OF *(2)] Cons.prems(2) by auto
    then show ?thesis using *(3) pre(1) prefix_order.trans by fastforce
  qed
qed simp

text \<open>
  When the inspection of the containers succeeds, each expected project had exactly its number of
  containers, all of them running and none unhealthy, and the result names each of them.
\<close>

theorem containers_complete:
  assumes "containers s lab past = (Inr result, past')" "(project, number) \<in> set (projects lab)"
  shows "\<exists>p ids p' v rows p''. run_lines s ([''docker'', ''ps'', ''-aq''] @ label_filter project) p = (Inr ids, p')
    \<and> length ids = number \<and> run_loads s ([''docker'', ''inspect''] @ ids) p' = (Inr v, p'') \<and> iterate v = Inr rows
    \<and> prefix past p \<and> prefix p'' past'
    \<and> (\<forall>row \<in> set rows. runs_well row \<and> (\<exists>name cid. inspect_row row = Inr (name, cid) \<and> map_of result name \<noteq> None))"
proof -
  obtain lists where run: "for_each (project_containers s) (projects lab) past = (Inr lists, past')"
    and result: "result = fold (\<lambda>(name, cid). AList.update name cid) (concat lists) []"
    using assms(1) unfolding containers_def by (auto elim!: io_bindE simp: io_return_def)
  have quiet: "emits (\<lambda>_. True) (project_containers s x)" for x
    unfolding project_containers_def run_lines_def run_loads_def by (intro emits_intros) simp_all
  obtain p c found where one: "project_containers s (project, number) p = (Inr found, c)" "prefix past p" "prefix c past'"
    "found \<in> set lists"
    using for_each_each[OF run quiet assms(2)] by blast
  have "map_of result name \<noteq> None" if "name \<in> fst ` set found" for name
  proof -
    have "name \<in> dom (map_of result)" using that one(4) by (auto simp: result fold_update_dom)
    then show ?thesis by auto
  qed
  then show ?thesis
    using project_containers_Inr[OF one(1)] one(2,3) by metis
qed

section \<open>Supervision\<close>

text \<open>The log after \<open>n\<close> rounds of supervision that found nothing wrong.\<close>

fun after_rounds :: "station \<Rightarrow> bool \<Rightarrow> nat \<Rightarrow> ctl_log \<Rightarrow> ctl_log option" where
  "after_rounds s lab 0 past = Some past"
| "after_rounds s lab (Suc n) past =
     (case supervision_round s lab past of Some (Inr _, c) \<Rightarrow> after_rounds s lab n c | _ \<Rightarrow> None)"

lemma supervise_after: "after_rounds s lab n past = Some p \<Longrightarrow> supervise s lab past = supervise s lab p"
proof (induction n arbitrary: past)
  case (Suc n)
  then obtain u c where "supervision_round s lab past = Some (Inr u, c)" "after_rounds s lab n c = Some p"
    by (auto split: option.splits sum.splits prod.splits)
  then show ?case using Suc.IH[of c] by (subst supervise.simps) simp
qed simp

lemma supervise_Some:
  assumes "supervise s lab past = Some (r, c)"
  shows "\<exists>n p e. after_rounds s lab n past = Some p \<and> supervision_round s lab p = Some (Inl e, c) \<and> r = Inl e"
proof -
  let ?P = "\<lambda>s lab past (y :: unit res \<times> ctl_log). \<exists>n p e. after_rounds s lab n past = Some p
    \<and> supervision_round s lab p = Some (Inl e, snd y) \<and> fst y = Inl e"
  have "?P s lab past (r, c)"
  proof (rule supervise.raw_induct[of ?P, OF _ assms], goal_cases)
    case (1 f s lab past y)
    then obtain q mid where step: "supervision_round s lab past = Some (q, mid)"
      by (cases "supervision_round s lab past") auto
    show ?case
    proof (cases q)
      case (Inl e)
      then show ?thesis using 1(2) step by (intro exI[of _ 0]) auto
    next
      case (Inr u)
      then obtain n p e where "after_rounds s lab n mid = Some p" "supervision_round s lab p = Some (Inl e, snd y)" "fst y = Inl e"
        using 1 step by fastforce
      then show ?thesis using step Inr by (intro exI[of _ "Suc n"]) auto
    qed
  qed
  then show ?thesis by simp
qed

text \<open>
  The supervision runs on as long as its rounds find nothing wrong, and ends with the first error of
  a round: it returns exactly when, after some rounds without an error, the next one raises, and then
  with this exception; it never returns normally.
\<close>

theorem supervise_ends:
  "supervise s lab past = Some (r, c) \<longleftrightarrow>
     (\<exists>n p e. after_rounds s lab n past = Some p \<and> supervision_round s lab p = Some (Inl e, c) \<and> r = Inl e)"
proof
  assume "\<exists>n p e. after_rounds s lab n past = Some p \<and> supervision_round s lab p = Some (Inl e, c) \<and> r = Inl e"
  then obtain n p e where p: "after_rounds s lab n past = Some p" "supervision_round s lab p = Some (Inl e, c)" "r = Inl e"
    by blast
  then have "supervise s lab p = Some (r, c)" by (subst supervise.simps) simp
  then show "supervise s lab past = Some (r, c)" using supervise_after[OF p(1)] by simp
qed (rule supervise_Some)

text \<open>
  What docker answers about a project after the events \<open>q\<close>: another number of containers than the
  project has, or one that has stopped or is unhealthy.
\<close>

definition stopped_or_unhealthy :: "json \<Rightarrow> bool" where
  "stopped_or_unhealthy row \<longleftrightarrow> (\<exists>m state. row = JObj m \<and> map_of m ''State'' = Some (JObj state)
     \<and> (map_of state ''Running'' = Some (JBool False)
        \<or> (\<exists>health. map_of state ''Health'' = Some (JObj health) \<and> map_of health ''Status'' = Some (JStr ''unhealthy''))))"

definition project_down :: "station \<Rightarrow> string \<Rightarrow> nat \<Rightarrow> ctl_log \<Rightarrow> bool" where
  "project_down s project number q \<longleftrightarrow>
     (\<exists>out. st_run s q ([''docker'', ''ps'', ''-aq''] @ label_filter project) = Inr (0, out)
       \<and> (length (splitlines (strip out)) \<noteq> number
          \<or> (\<exists>found rows row. st_run s (q @ [(Run ([''docker'', ''ps'', ''-aq''] @ label_filter project), True)])
                ([''docker'', ''inspect''] @ splitlines (strip out)) = Inr (0, found)
              \<and> st_json s (strip found) = JText (JArr rows) \<and> row \<in> set rows \<and> stopped_or_unhealthy row)))"

fun asks_docker :: "ctl_event \<Rightarrow> bool" where
  "asks_docker (Run ws, _) = (take 1 ws = [''docker''])"
| "asks_docker _ = False"

lemma run_cmd_answer:
  "run_cmd s ws past = (Inr text, c) \<Longrightarrow> \<exists>out. st_run s past ws = Inr (0, out) \<and> text = strip out \<and> c = past @ [(Run ws, True)]"
  unfolding run_cmd_def by (auto elim!: io_bindE simp: spawn_def io_ensure_Inr io_return_eq split: sum.splits prod.splits)

lemma runs_well_not_down: "runs_well row \<Longrightarrow> \<not> stopped_or_unhealthy row"
  by (auto simp: runs_well_def stopped_or_unhealthy_def)

lemma containers_ask_docker: "emits asks_docker (containers s lab)"
  unfolding containers_def project_containers_def run_lines_def run_loads_def by (intro emits_intros) simp_all

lemma project_up:
  assumes "run_lines s ([''docker'', ''ps'', ''-aq''] @ label_filter project) q = (Inr ids, p')" "length ids = number"
    and "run_loads s ([''docker'', ''inspect''] @ ids) p' = (Inr v, p'')" "iterate v = Inr rows"
    and "\<forall>row \<in> set rows. runs_well row"
  shows "\<not> project_down s project number q" "prefix q p''"
proof -
  let ?ps = "[''docker'', ''ps'', ''-aq''] @ label_filter project"
  obtain out where out: "st_run s q ?ps = Inr (0, out)" "ids = splitlines (strip out)" "p' = q @ [(Run ?ps, True)]"
    using assms(1) run_cmd_answer unfolding run_lines_def by (fastforce elim!: io_bindE simp: io_return_eq)
  obtain found where found: "st_run s p' ([''docker'', ''inspect''] @ ids) = Inr (0, found)"
    "json_loads (st_json s (strip found)) = Inr v" "p'' = p' @ [(Run ([''docker'', ''inspect''] @ ids), True)]"
    using assms(3) run_cmd_answer unfolding run_loads_def by (fastforce elim!: io_bindE simp: io_lift_eq)
  show "\<not> project_down s project number q"
    using out found assms(2,4,5) runs_well_not_down unfolding project_down_def by auto
  show "prefix q p''" using out(3) found(3) by simp
qed

lemma containers_detect:
  assumes project: "(project, number) \<in> set (projects lab)"
    and down: "\<And>seen. list_all asks_docker seen \<Longrightarrow> project_down s project number (locked @ seen)"
  obtains e seen where "containers s lab locked = (Inl e, locked @ seen)" "list_all asks_docker seen"
proof -
  obtain r c where run: "containers s lab locked = (r, c)" by fastforce
  obtain seen where seen: "c = locked @ seen" "list_all asks_docker seen"
    using containers_ask_docker run by (rule emitsE)
  show thesis
  proof (cases r)
    case (Inl e)
    then show thesis using that run seen by blast
  next
    case (Inr result)
    obtain q ids p' v rows p'' where q: "run_lines s ([''docker'', ''ps'', ''-aq''] @ label_filter project) q = (Inr ids, p')"
      "length ids = number" "run_loads s ([''docker'', ''inspect''] @ ids) p' = (Inr v, p'')" "iterate v = Inr rows"
      "prefix locked q" "prefix p'' c" "\<forall>row \<in> set rows. runs_well row"
      using containers_complete[OF run[unfolded Inr] project] by metis
    note up = project_up[OF q(1-4,7)]
    obtain new where new: "q = locked @ new" using q(5) by (rule prefixE)
    obtain rest where "c = q @ rest" using up(2) q(6) prefix_order.trans by (blast elim: prefixE)
    then have "list_all asks_docker new" using seen new by simp
    then show thesis using down up(1) new by blast
  qed
qed

text \<open>
  C25. A stopped, unhealthy or missing container ends the supervision in the next round in which the
  deployment lock is free: when docker, asked while the round holds the lock, lists another number of
  containers for one of the projects than it has, or shows one of them as not running or as unhealthy,
  the supervision returns with an exception, whatever the other projects look like; all it did with the
  lock held is ask docker, and the lock is released.
\<close>

theorem supervision_detects:
  assumes "after_rounds s lab n past = Some p"
    and "file_op s ''open'' LOCK [] (p @ [(Sleep 15, True)]) = (Inr (), opened)"
    and "file_op s ''flock'' LOCK [] opened = (Inr (), locked)"
    and "(project, number) \<in> set (projects lab)"
    and "\<forall>seen. list_all asks_docker seen \<longrightarrow> project_down s project number (locked @ seen)"
  shows "\<exists>e seen. supervise s lab past = Some (Inl e, locked @ seen @ [(FileOp ''close'' LOCK [], True)])
    \<and> list_all asks_docker seen"
proof -
  obtain e seen where seen: "containers s lab locked = (Inl e, locked @ seen)" "list_all asks_docker seen"
    using containers_detect[OF assms(4)] assms(5) by blast
  have "supervision_round s lab p = Some (Inl e, locked @ seen @ [(FileOp ''close'' LOCK [], True)])"
    using assms(2,3) seen(1) by (simp add: supervision_round_def with_lock_def returns_def io_bind_def)
  then have "supervise s lab p = Some (Inl e, locked @ seen @ [(FileOp ''close'' LOCK [], True)])"
    by (subst supervise.simps) simp
  then show ?thesis using supervise_after[OF assms(1)] seen(2) by auto
qed

section \<open>The start ends\<close>

definition ends :: "(ctl_event \<Rightarrow> bool) \<Rightarrow> nat \<Rightarrow> 'a may \<Rightarrow> bool" where
  "ends marks n m \<longleftrightarrow> (\<forall>past. \<exists>r new. m past = Some (r, past @ new) \<and> attempts marks new \<le> n)"

lemma ends_returns: "emits (\<lambda>e. \<not> marks e) m \<Longrightarrow> ends marks 0 (returns m)"
  unfolding ends_def returns_def by (metis attempts_none emitsE le_zero_eq surj_pair)

lemma ends_bind:
  assumes m: "ends marks k m" and f: "\<And>x. ends marks n (f x)"
  shows "ends marks (k + n) (may_bind m f)"
  unfolding ends_def
proof
  fix past
  obtain q new where first: "m past = Some (q, past @ new)" "attempts marks new \<le> k" using m unfolding ends_def by blast
  show "\<exists>r new. may_bind m f past = Some (r, past @ new) \<and> attempts marks new \<le> k + n"
  proof (cases q)
    case (Inl e)
    then show ?thesis using first by (auto simp: may_bind_def)
  next
    case (Inr x)
    obtain r rest where "f x (past @ new) = Some (r, (past @ new) @ rest)" "attempts marks rest \<le> n"
      using f unfolding ends_def by blast
    then show ?thesis using first Inr by (intro exI[of _ r] exI[of _ "new @ rest"]) (simp add: may_bind_def)
  qed
qed

lemma ends_lock:
  assumes "ends marks n body" "\<And>act b. \<not> marks (FileOp act LOCK [], b)"
  shows "ends marks n (with_lock s body)"
  unfolding ends_def
proof
  fix past
  let ?p = "past @ [(FileOp ''open'' LOCK [], True)]"
  obtain r new where body: "body ?p = Some (r, ?p @ new)" "attempts marks new \<le> n" using assms(1) unfolding ends_def by blast
  obtain q c where first: "file_op s ''open'' LOCK [] past = (q, c)" by fastforce
  then obtain b where b: "c = past @ [(FileOp ''open'' LOCK [], b)]" "q = Inr () \<longleftrightarrow> b" using file_op_cases by blast
  show "\<exists>r new. with_lock s body past = Some (r, past @ new) \<and> attempts marks new \<le> n"
  proof (cases q)
    case (Inl e)
    then show ?thesis using first b assms(2) by (auto simp: with_lock_def)
  next
    case (Inr u)
    then show ?thesis
      using first b body assms(2)
      by (intro exI[of _ r] exI[of _ "(FileOp ''open'' LOCK [], True) # new @ [(FileOp ''close'' LOCK [], True)]"])
        (simp add: with_lock_def)
  qed
qed

lemma ends_retry:
  assumes clock: "clock_law s" and gap: "0 < gap" and unmarked: "\<not> marks (Clock, True)"
    and loop: "\<And>deadline. polling s deadline gap 1 (\<lambda>_ :: unit. retry_loop s attempt catches too_late gap deadline) marks
      (\<lambda>p y. fst (attempt p) = Inr y)"
  shows "ends marks (rounds T gap + 1) (retry_until s attempt catches too_late gap T)"
  unfolding ends_def
proof
  fix past
  let ?c = "past @ [(Clock, True)]"
  obtain r new where "retry_loop s attempt catches too_late gap (st_clock s past + of_int T) ?c = Some (r, ?c @ new)"
    "attempts marks new \<le> rounds T gap + 1"
    using polling.loop_settles[OF loop clock rounds_enough[OF clock gap, of past T "[(Clock, True)]"]]
    unfolding settles_def by auto
  then show "\<exists>r new. retry_until s attempt catches too_late gap T past = Some (r, past @ new) \<and> attempts marks new \<le> rounds T gap + 1"
    using unmarked by (intro exI[of _ r] exI[of _ "(Clock, True) # new"]) (simp add: retry_until_def tick_def)
qed

lemma preflight_ends: "clock_law (dp_host d) \<Longrightarrow> ends boot_attempt (rounds 90 2 + 1) (preflight rt d data)"
  using ends_bind[OF ends_returns[OF emits_runs(1)] ends_bind[OF ends_retry[OF _ _ _ boot_network.polling_axioms]
      ends_returns[OF emits_runs(2)]]]
  unfolding preflight_def by simp

lemma announce_ready_unmarked: "emits (\<lambda>e. \<not> boot_attempt e) (announce_ready v data result)"
  unfolding announce_ready_def by (intro emits_intros emits_notify emits_write_boot_state) simp_all

text \<open>
  C26. The start of the service ends, with an error or not, when the clock is monotonic and sleeping takes
  its time: the network is looked at for 90 seconds and the gate asked for 180, one attempt for every two
  and every three seconds, and one more each.
\<close>

theorem bring_up_decides:
  assumes clock: "clock_law (sv_host v)"
  shows "\<exists>r new. bring_up rt v data past = Some (r, past @ new) \<and> attempts boot_attempt new \<le> rounds 90 2 + rounds 180 3 + 2"
proof -
  have gate: "ends boot_attempt (rounds 180 3 + 1) (gate_wait (sv_depot v) data vals)" for vals
    unfolding gate_wait_def by (rule ends_retry[OF clock _ _ boot_gate.polling_axioms]) simp_all
  have lock: "ends boot_attempt 0 (returns (file_op (sv_host v) ''flock'' LOCK []))"
    and start: "ends boot_attempt 0 (returns (start_containers (sv_host v) data))"
    and tell: "ends boot_attempt 0 (returns (announce_ready v data result))" for result
    by (intro ends_returns emits_runs emits_intros announce_ready_unmarked; simp)+
  have "ends boot_attempt (0 + ((rounds 90 2 + 1) + (0 + ((rounds 180 3 + 1) + 0)))) (bring_up rt v data)"
    unfolding bring_up_def Let_def
    by (intro ends_lock ends_bind lock preflight_ends clock start gate tell) simp
  then show ?thesis unfolding ends_def by simp
qed

section \<open>Examples\<close>

definition sample_supervisor :: supervisor where
  "sample_supervisor = \<lparr>sv_depot = sample_depot ROOT, sv_socket = Some ''@n'', sv_now = (\<lambda>_. JInt 0), sv_class = (\<lambda>_. [])\<rparr>"

definition sample_settings :: dict where
  "sample_settings = [(''destination'', JStr ROOT), (''lab_fixture'', JBool False), (''commit'', JStr sample_sha)]"

lemma sample_sv_host: "dp_host (sample_depot ROOT) = deploy_host ROOT" "sv_depot sample_supervisor = sample_depot ROOT"
  by (simp_all add: sample_supervisor_def sample_depot_def)

lemma settings_sample: "fst (settings (sample_depot ROOT) past) = Inr sample_settings"
  by code_simp

lemma bring_up_decides_witness:
  "\<exists>r new. bring_up plain_rt sample_supervisor sample_settings [] = Some (r, new) \<and> attempts boot_attempt new \<le> 107"
proof -
  have "clock_law (sv_host sample_supervisor)"
    by (rule clock_law_sample) (simp add: sample_sv_host deploy_host_def sample_station_def)
  from bring_up_decides[OF this, of plain_rt sample_settings "[]"] show ?thesis
    by (auto simp: rounds_def)
qed

lemma sample_containers:
  "fst (containers (deploy_host ROOT) False past) = Inr (map (\<lambda>s. (s, JStr s)) SERVICES)"
  by code_simp

lemma containers_complete_witness:
  "\<exists>p ids p'. run_lines (deploy_host ROOT) ([''docker'', ''ps'', ''-aq''] @ label_filter ''transparent-gateway'') p = (Inr ids, p')
    \<and> length ids = 6"
proof -
  obtain c where "containers (deploy_host ROOT) False [] = (Inr (map (\<lambda>s. (s, JStr s)) SERVICES), c)"
    using sample_containers[of "[]"] by (metis prod.collapse)
  moreover have "(''transparent-gateway'', 6) \<in> set (projects False)" by (simp add: projects_def)
  ultimately show ?thesis using containers_complete by blast
qed

text \<open>A host with the six containers, of which the last one has become unhealthy.\<close>

definition container_row :: "string \<Rightarrow> string \<Rightarrow> json" where
  "container_row name status = JObj [(''State'', JObj [(''Running'', JBool True), (''Health'', JObj [(''Status'', JStr status)])]),
     (''Id'', JStr name), (''Name'', JStr name)]"

definition ailing_host :: station where
  "ailing_host = (deploy_host ROOT)\<lparr>st_json := (\<lambda>t. if t = ''rows''
     then JText (JArr (map (\<lambda>name. container_row name (if name = last SERVICES then ''unhealthy'' else ''healthy'')) SERVICES))
     else deploy_json t)\<rparr>"

lemma ailing_down: "project_down ailing_host ''transparent-gateway'' 6 q"
proof -
  let ?ps = "[''docker'', ''ps'', ''-aq''] @ label_filter ''transparent-gateway''"
  have out: "st_run ailing_host q ?ps = Inr (0, join [LF] SERVICES)" "splitlines (strip (join [LF] SERVICES)) = SERVICES"
    and rows: "st_run ailing_host q' ([''docker'', ''inspect''] @ SERVICES) = Inr (0, ''rows'')" for q'
    by code_simp+
  have "st_json ailing_host (strip ''rows'')
      = JText (JArr (map (\<lambda>name. container_row name (if name = last SERVICES then ''unhealthy'' else ''healthy'')) SERVICES))"
    by code_simp
  moreover have "last SERVICES \<in> set SERVICES" by code_simp
  moreover have "stopped_or_unhealthy (container_row name ''unhealthy'')" for name
    by (simp add: container_row_def stopped_or_unhealthy_def)
  ultimately show ?thesis unfolding project_down_def using out rows by (auto simp: image_iff)
qed

lemma supervision_detects_witness:
  "\<exists>e c. supervise ailing_host False [] = Some (Inl e, c @ [(FileOp ''close'' LOCK [], True)])"
proof -
  let ?s = "ailing_host"
  have ok: "file_op ?s act path content q = (Inr (), q @ [(FileOp act path content, True)])" for act path content q
    by (simp add: ailing_host_def file_op_def deploy_host_def sample_station_def)
  have "(''transparent-gateway'', 6) \<in> set (projects False)" by (simp add: projects_def)
  from supervision_detects[OF _ ok ok this, of 0 "[]"] ailing_down show ?thesis by fastforce
qed

text \<open>A start that succeeds.\<close>

definition reaches :: "'a may \<Rightarrow> 'a \<Rightarrow> (ctl_log \<Rightarrow> bool) \<Rightarrow> bool" where
  "reaches m x Q \<longleftrightarrow> (\<forall>past. \<exists>c. m past = Some (Inr x, c) \<and> Q c)"

lemma reaches_returns: "(\<And>p. fst (m p) = Inr x) \<Longrightarrow> reaches (returns m) x (\<lambda>_. True)"
  unfolding reaches_def returns_def by (metis prod.collapse)

lemma reaches_bind: "reaches m x (\<lambda>_. True) \<Longrightarrow> reaches (f x) y Q \<Longrightarrow> reaches (may_bind m f) y Q"
  unfolding reaches_def
proof
  fix past assume m: "\<forall>past. \<exists>c. m past = Some (Inr x, c) \<and> True" and f: "\<forall>past. \<exists>c. f x past = Some (Inr y, c) \<and> Q c"
  obtain c where c: "m past = Some (Inr x, c)" using m by blast
  obtain c' where "f x c = Some (Inr y, c')" "Q c'" using f by blast
  then show "\<exists>c. may_bind m f past = Some (Inr y, c) \<and> Q c" using c by (simp add: may_bind_def)
qed

lemma reaches_retry: "(\<And>p. fst (attempt p) = Inr x) \<Longrightarrow> reaches (retry_until s attempt catches too_late gap T) x (\<lambda>_. True)"
proof -
  assume first: "\<And>p. fst (attempt p) = Inr x"
  have "\<exists>c. retry_loop s attempt catches too_late gap deadline p = Some (Inr x, c)" for deadline p
    using first[of p] by (cases "attempt p") (auto simp: retry_loop.simps)
  then show ?thesis by (auto simp: reaches_def retry_until_def tick_def)
qed

lemma sample_preflight: "reaches (preflight plain_rt (sample_depot ROOT) sample_settings) deploy_env (\<lambda>_. True)"
proof -
  let ?d = "sample_depot ROOT"
  have release: "fst (check_release (dp_host ?d) sample_settings p) = Inr sample_host" for p by code_simp
  have net: "fst (network plain_rt (dp_host ?d) sample_host p) = Inr ()" for p by code_simp
  have valid: "fst (validate_config plain_rt ?d ROOT sample_host p) = Inr deploy_env" for p
    by (simp add: validate_config_def observe_def sample_view_at sample_valid ROOT_def)
  have each: "fst (for_each (check_project (dp_host ?d)) ([compose_base ROOT (lab_of sample_settings)]
      @ (if lab_of sample_settings then [fixture_base ROOT] else [])) p) = Inr [()]" for p by code_simp
  have "fst (check_projects plain_rt ?d sample_settings sample_host p) = Inr deploy_env" for p
    unfolding check_projects_def commands_def Let_def prod.case
    by (intro fst_bind[OF valid] fst_bind[OF each]) (simp add: io_return_def)
  then show ?thesis
    unfolding preflight_def
    by (intro reaches_bind[OF reaches_returns[OF release]] reaches_bind[OF reaches_retry[OF net]] reaches_returns)
qed

definition tells :: "ctl_log \<Rightarrow> bool" where
  "tells c \<longleftrightarrow> (\<exists>early target. c = early @ [(FileOp ''send'' target READY, True)])"

lemma sample_announce: "reaches (returns (announce_ready sample_supervisor sample_settings result)) () tells"
  unfolding reaches_def
proof
  fix past
  let ?v = sample_supervisor
  have containers: "fst (containers (sv_host ?v) (lab_of sample_settings) p) = Inr (map (\<lambda>s. (s, JStr s)) SERVICES)" for p
    using sample_containers by (simp add: sample_sv_host sample_settings_def lab_of_def get_def get_default_def)
  have boot: "fst (read_text (sv_host ?v) ''/proc/sys/kernel/random/boot_id'' p) = Inr ''boot''"
    and commit: "fst (io_lift (item sample_settings ''commit'') p) = Inr (JStr sample_sha)"
    and now: "fst (observe (\<lambda>past. Inr (sv_now ?v past)) p) = Inr (JInt 0)" for p :: ctl_log
    by code_simp+
  have written: "fst (write_boot_state ?v sample_settings result past) = Inr True"
    unfolding write_boot_state_def Let_def
    by (intro fst_bind[OF boot] fst_bind[OF commit] fst_bind[OF now] fst_bind[OF containers])
      (simp add: sample_sv_host(2) sample_atomic_write)
  then obtain c where state: "write_boot_state ?v sample_settings result past = (Inr True, c)" by (metis prod.collapse)
  have "print (sv_host ?v) line p = (Inr (), p @ [(Print line, True)])" for line p
    by (simp add: sample_sv_host print_def deploy_host_def sample_station_def)
  then show "\<exists>c. returns (announce_ready ?v sample_settings result) past = Some (Inr (), c) \<and> tells c"
    using state by (auto simp: returns_def announce_ready_def notify_def sample_supervisor_def Let_def io_bind_def
        sample_sv_host(1) sample_file_op tells_def)
qed

lemma sample_bring_up:
  "\<exists>early target past'. bring_up plain_rt sample_supervisor sample_settings [] = Some (Inr (), past')
    \<and> past' = [] @ early @ (FileOp ''send'' target READY, True) # [(FileOp ''close'' LOCK [], True)]"
proof -
  let ?d = "sample_depot ROOT" and ?s = "sv_host sample_supervisor"
  obtain ready where "Readiness.check sample_gate (compose_base ROOT (lab_of sample_settings))
      (map (\<lambda>(k, v). (k, JStr v)) deploy_env) None = Inr ready"
    using sample_gate_ready[OF deploy_env_gate] by blast
  then have "fst (gate_step ?d (compose_base ROOT (lab_of sample_settings)) deploy_env p) = Inr ready" for p
    by (simp add: gate_step_def sample_depot_def keeping_depot_def)
  then have waited: "reaches (gate_wait ?d sample_settings deploy_env) ready (\<lambda>_. True)"
    unfolding gate_wait_def by (intro reaches_retry)
  have lock: "fst (file_op ?s ''flock'' LOCK [] p) = Inr ()" for p by (simp add: sample_sv_host sample_file_op)
  have start: "fst (start_containers ?s sample_settings p) = Inr ()" for p by code_simp
  have "reaches (may_bind (returns (file_op ?s ''flock'' LOCK [])) (\<lambda>_.
      may_bind (preflight plain_rt ?d sample_settings) (\<lambda>vals. may_bind (returns (start_containers ?s sample_settings)) (\<lambda>_.
      may_bind (gate_wait ?d sample_settings vals) (\<lambda>result.
      returns (announce_ready sample_supervisor sample_settings result)))))) () tells"
    by (intro reaches_bind[OF reaches_returns[OF lock]] reaches_bind[OF sample_preflight] reaches_bind[OF reaches_returns[OF start]]
        reaches_bind[OF waited] sample_announce)
  then obtain c where "tells c" "bring_up plain_rt sample_supervisor sample_settings [] = Some (Inr (), c @ [(FileOp ''close'' LOCK [], True)])"
    unfolding reaches_def bring_up_def Let_def with_lock_def sample_sv_host sample_file_op by auto
  then show ?thesis unfolding tells_def by auto
qed

lemma ready_after_gate_witness:
  "\<exists>vals q result. gate_accepts (sample_depot ROOT) (compose_base ROOT False) vals q result"
proof -
  obtain early target past' where run: "bring_up plain_rt sample_supervisor sample_settings [] = Some (Inr (), past')"
    "past' = [] @ early @ (FileOp ''send'' target READY, True) # [(FileOp ''close'' LOCK [], True)]"
    using sample_bring_up by blast
  have "lab_of sample_settings = False" by code_simp
  then show ?thesis using ready_after_gate[OF run] by (auto simp: sample_sv_host)
qed

end
