(* ===== verification/Secret_Transfer.thy ===== *)
theory Secret_Transfer
  imports Service
begin

text \<open>
  The delivery of a runtime set (\<open>deploy/secret-transfer.py\<close>): \<open>document\<close> packs the protected files of
  a directory, the payload goes through the standard input of SSH, and \<open>receive\<close> stages it, validates
  the staged set and replaces the canonical files. The outcome of the SSH command is a function of the
  log, the command and the payload.
\<close>

definition LIMIT :: nat where
  "LIMIT = 1048576"

definition CANONICAL_PARENT :: string where
  "CANONICAL_PARENT = ''/etc/transparent-gateway''"

definition CANONICAL :: string where
  "CANONICAL = ''/etc/transparent-gateway/runtime''"

section \<open>Base 64\<close>

text \<open>\<open>base64.b64decode(s, validate=True)\<close>: groups of four, padding only at the end.\<close>

definition b64_value :: "char \<Rightarrow> nat option" where
  "b64_value c = (let n = code c in
     if 65 \<le> n \<and> n \<le> 90 then Some (n - 65)
     else if 97 \<le> n \<and> n \<le> 122 then Some (n - 71)
     else if 48 \<le> n \<and> n \<le> 57 then Some (n + 4)
     else if c = CHR ''+'' then Some 62
     else if c = CHR ''/'' then Some 63 else None)"

fun b64decode :: "string \<Rightarrow> string option" where
  "b64decode [] = Some []"
| "b64decode [a, b, c, d] =
     (case (b64_value a, b64_value b) of
        (Some i, Some j) \<Rightarrow>
          if c = CHR ''='' \<and> d = CHR ''='' then Some [chr (i * 4 + j div 16)]
          else (case b64_value c of None \<Rightarrow> None
            | Some k \<Rightarrow>
                if d = CHR ''='' then Some [chr (i * 4 + j div 16), chr (j mod 16 * 16 + k div 4)]
                else (case b64_value d of None \<Rightarrow> None
                  | Some l \<Rightarrow> Some [chr (i * 4 + j div 16), chr (j mod 16 * 16 + k div 4), chr (k mod 4 * 64 + l)]))
      | _ \<Rightarrow> None)"
| "b64decode (a # b # c # d # e # s) =
     (case (b64_value a, b64_value b, b64_value c, b64_value d) of
        (Some i, Some j, Some k, Some l) \<Rightarrow>
          map_option (\<lambda>rest. [chr (i * 4 + j div 16), chr (j mod 16 * 16 + k div 4), chr (k mod 4 * 64 + l)] @ rest)
            (b64decode (e # s))
      | _ \<Rightarrow> None)"
| "b64decode s = None"

section \<open>Packing\<close>

definition too_broad :: "nat \<Rightarrow> bool" where
  "too_broad m \<longleftrightarrow> m mod 8 \<noteq> 0 \<or> odd (m div 16) \<or> odd (m div 2)"

definition pack_file :: "depot \<Rightarrow> ctl_log \<Rightarrow> string \<Rightarrow> string \<Rightarrow> (string \<times> json) res" where
  "pack_file d past base name =
     (let path = under base name in
      rbind (ensure (\<not> dp_symlink d past (parent_of path) \<and> \<not> dp_symlink d past path \<and> dp_file d past path)
        (ValueError ''regular files and directories required'')) (\<lambda>_.
      rbind (dp_stat d past path) (\<lambda>info.
      rbind (ensure (fi_uid info = 0 \<and> \<not> too_broad (fi_mode info)) (ValueError ''source permissions are too broad'')) (\<lambda>_.
      rbind (st_read (dp_host d) past path) (\<lambda>content.
      Inr (name, JStr (b64encode content)))))))"

definition document :: "depot \<Rightarrow> string \<Rightarrow> string ctl" where
  "document d base = observe (\<lambda>past.
     let wrong = ValueError ''source directory must be root-owned mode 0700'' in
     rbind (ensure (\<not> dp_symlink d past base) wrong) (\<lambda>_.
     rbind (dp_stat d past base) (\<lambda>info.
     rbind (ensure (fi_uid info = 0 \<and> fi_mode info = 448) wrong) (\<lambda>_.
     rbind (rmap (pack_file d past base) (config_files (st_exists (dp_host d) past) base)) (\<lambda>items.
     let payload = dp_dumps d (JObj items) in
     rbind (ensure (length payload \<le> LIMIT) (ValueError ''runtime set exceeds 1 MiB'')) (\<lambda>_.
     Inr payload))))))"

section \<open>Receiving\<close>

text \<open>The names of a runtime set: exactly the declared files, with or without the optional one.\<close>

definition declared_names :: "json \<Rightarrow> json list res" where
  "declared_names v =
     rbind (iterate v) (\<lambda>names.
     rbind (ensure (list_all hashable names) TypeError) (\<lambda>_.
     rbind (ensure (set names \<in> {set (map JStr FILES), set (map JStr (FILES @ [OPTIONAL_CA]))})
       (ValueError ''runtime set must contain exactly the declared files'')) (\<lambda>_.
     Inr names)))"

definition decoded :: "json \<Rightarrow> string res" where
  "decoded v = (case v of JStr t \<Rightarrow> of_option (ValueError ''Invalid base64-encoded string'') (b64decode t) | _ \<Rightarrow> Inl TypeError)"

definition file_group :: "string \<Rightarrow> int" where
  "file_group name = (if name = ''.env'' then 0 else 65532)"

definition stage_file :: "depot \<Rightarrow> string \<Rightarrow> json \<Rightarrow> json \<Rightarrow> bool ctl" where
  "stage_file d staging v key =
     io_bind (io_lift (text_of key)) (\<lambda>name.
     io_bind (io_lift (rbind (subscript v name) decoded)) (\<lambda>content.
     atomic_write d (under staging name) content (file_mode name) (file_group name)))"

definition prepare_canonical :: "depot \<Rightarrow> unit ctl" where
  "prepare_canonical d =
     (let s = dp_host d in
      io_bind (observe (\<lambda>past. Inr (dp_symlink d past CANONICAL))) (\<lambda>link.
      io_bind (io_ensure (\<not> link) (ValueError ''canonical directory cannot be a symlink'')) (\<lambda>_.
      io_bind (file_op s ''mkdir'' CANONICAL []) (\<lambda>_.
      io_bind (file_op s ''chown'' CANONICAL (owner_text 0)) (\<lambda>_.
      file_op s ''chmod'' CANONICAL (dec 448))))))"

definition check_destination :: "depot \<Rightarrow> json \<Rightarrow> unit ctl" where
  "check_destination d key =
     io_bind (io_lift (text_of key)) (\<lambda>name.
     io_bind (observe (\<lambda>past. Inr (dp_symlink d past (parent_of (under CANONICAL name)) \<or> dp_symlink d past (under CANONICAL name)))) (\<lambda>link.
     io_ensure (\<not> link) (ValueError ''symlink in destination'')))"

definition install_secret :: "depot \<Rightarrow> string \<Rightarrow> json \<Rightarrow> bool ctl" where
  "install_secret d staging key =
     (let s = dp_host d in
      io_bind (io_lift (text_of key)) (\<lambda>name.
      let target = under CANONICAL name; folder = parent_of target in
      io_bind (if name = ''.env'' then io_return ()
        else io_bind (file_op s ''mkdir'' folder []) (\<lambda>_.
             io_bind (file_op s ''chown'' folder (owner_text 65532)) (\<lambda>_.
             file_op s ''chmod'' folder (dec 488)))) (\<lambda>_.
      io_bind (read_text s (under staging name)) (\<lambda>content.
      atomic_write d target content (file_mode name) (file_group name)))))"

text \<open>Under the lock: stage the files, validate them, and look at every destination.\<close>

definition stage_set :: "pyrt \<Rightarrow> depot \<Rightarrow> string \<Rightarrow> json \<Rightarrow> json list \<Rightarrow> env ctl" where
  "stage_set rt d staging v names =
     io_bind (file_op (dp_host d) ''flock'' LOCK []) (\<lambda>_.
     io_bind (for_each (stage_file d staging v) names) (\<lambda>_.
     io_bind (read_json (dp_host d) HOST_FILE) (\<lambda>host.
     io_bind (validate_config rt d staging host) (\<lambda>vals.
     io_bind (prepare_canonical d) (\<lambda>_.
     io_bind (for_each (check_destination d) names) (\<lambda>_.
     io_return vals))))))"

definition install_set :: "pyrt \<Rightarrow> depot \<Rightarrow> string \<Rightarrow> json \<Rightarrow> json list \<Rightarrow> unit ctl" where
  "install_set rt d staging v names =
     io_bind (stage_set rt d staging v names) (\<lambda>_.
     io_bind (for_each (install_secret d staging) names) (\<lambda>changed.
     print (dp_host d) (''SECRET_DELIVERY PASS files='' @ dec (length names) @ '' changed='' @ dec (length (filter id changed))
       @ ''; validated, root-owned; values hidden'')))"

text \<open>The name of the new directory of \<open>TemporaryDirectory(prefix='.incoming-', dir=parent)\<close>.\<close>

definition staging_of :: "depot \<Rightarrow> ctl_log \<Rightarrow> string" where
  "staging_of d past = CANONICAL_PARENT @ ''/.incoming-'' @ name_of (dp_temp d past CANONICAL_PARENT)"

definition in_staging :: "station \<Rightarrow> string \<Rightarrow> unit ctl \<Rightarrow> unit ctl" where
  "in_staging s staging m =
     io_bind (file_op s ''mkdtemp'' staging []) (\<lambda>_. try_finally (file_op s ''rmtree'' staging []) m)"

definition parse_set :: "station \<Rightarrow> string \<Rightarrow> (json \<times> json list) res" where
  "parse_set s input =
     (let payload = take (LIMIT + 1) input in
      rbind (ensure (length payload \<le> LIMIT) (ValueError ''runtime set exceeds 1 MiB'')) (\<lambda>_.
      rbind (json_loads (st_json s payload)) (\<lambda>v.
      rbind (declared_names v) (\<lambda>names. Inr (v, names)))))"

definition receive :: "pyrt \<Rightarrow> depot \<Rightarrow> string \<Rightarrow> unit ctl" where
  "receive rt d input =
     (let s = dp_host d in
      io_bind (io_lift (parse_set s input)) (\<lambda>(v, names).
      io_bind (mkdir_parent s LOCK) (\<lambda>_.
      io_bind (file_op s ''open'' LOCK []) (\<lambda>_.
      try_finally (file_op s ''close'' LOCK [])
        (\<lambda>past. in_staging s (staging_of d past) (install_set rt d (staging_of d past) v names) past)))))"

section \<open>The command\<close>

record transfer_args =
  ta_receive :: bool
  ta_host :: "string option"
  ta_directory :: "string option"

text \<open>The pattern \<open>[a-z_][a-z0-9_-]*@[a-zA-Z0-9.-]+\<close>.\<close>

definition valid_destination :: "string \<Rightarrow> bool" where
  "valid_destination t \<longleftrightarrow>
     (case split1 CHR ''@'' t of
        Some (u # user, host) \<Rightarrow>
          (is_lower u \<or> u = CHR ''_'') \<and> list_all (\<lambda>c. is_lower c \<or> is_digit c \<or> c = CHR ''_'' \<or> c = CHR ''-'') user
          \<and> host \<noteq> [] \<and> list_all (\<lambda>c. is_alnum c \<or> c = CHR ''.'' \<or> c = CHR ''-'') host
      | _ \<Rightarrow> False)"

definition ssh_command :: "string \<Rightarrow> string list" where
  "ssh_command host = [''ssh'', ''-o'', ''BatchMode=yes'', ''-o'', ''StrictHostKeyChecking=yes'', host,
     ''sudo -n python3 /var/lib/transparent-gateway/source/deploy/secret-transfer.py receive'']"

type_synonym ssh = "ctl_log \<Rightarrow> string list \<Rightarrow> string \<Rightarrow> (int \<times> string) res"

definition spawn_input :: "ssh \<Rightarrow> string list \<Rightarrow> string \<Rightarrow> (int \<times> string) ctl" where
  "spawn_input ssh command input past = (case ssh past command input of
     Inl e \<Rightarrow> (Inl e, past @ [(Run command, False)])
   | Inr r \<Rightarrow> (Inr r, past @ [(Run command, fst r = 0)]))"

definition send :: "ssh \<Rightarrow> depot \<Rightarrow> transfer_args \<Rightarrow> unit ctl" where
  "send ssh d args =
     (case (ta_host args, ta_directory args) of
        (Some host, Some directory) \<Rightarrow>
          io_bind (io_ensure (valid_destination host) (ValueError ''supply user@host and a protected source directory'')) (\<lambda>_.
          io_bind (document d directory) (\<lambda>payload.
          io_bind (spawn_input ssh (ssh_command host) payload) (\<lambda>(n, out).
          io_bind (io_ensure (n = 0 \<and> starts_with ''SECRET_DELIVERY PASS '' out)
            (RuntimeError ''remote delivery failed; no payload or subprocess output displayed'')) (\<lambda>_.
          print (dp_host d) (strip out)))))
      | _ \<Rightarrow> io_raise (ValueError ''supply user@host and a protected source directory''))"

definition transfer_main :: "pyrt \<Rightarrow> ssh \<Rightarrow> depot \<Rightarrow> string \<Rightarrow> transfer_args \<Rightarrow> unit ctl" where
  "transfer_main rt ssh d input args =
     io_bind (io_ensure (st_euid (dp_host d) = 0) (ValueError ''run as root'')) (\<lambda>_.
     io_bind (file_op (dp_host d) ''umask'' [] ''077'') (\<lambda>_.
     if ta_receive args then receive rt d input else send ssh d args))"

text \<open>The exit status; only the class of an exception is printed.\<close>

definition transfer_exit :: "(exn \<Rightarrow> string) \<Rightarrow> pyrt \<Rightarrow> ssh \<Rightarrow> depot \<Rightarrow> string \<Rightarrow> transfer_args \<Rightarrow> int ctl" where
  "transfer_exit name_of_class rt ssh d input args past =
     (case transfer_main rt ssh d input args past of
        (Inr _, c) \<Rightarrow> (Inr 0, c)
      | (Inl e, c) \<Rightarrow>
          if e = KeyboardInterrupt then (Inl e, c)
          else io_bind (print (dp_host d) (''SECRET_DELIVERY FAILED: '' @ name_of_class e)) (\<lambda>_. io_return 1) c)"

section \<open>Base 64 is inverted\<close>

definition b64_chars :: string where
  "b64_chars = ''ABCDEFGHIJKLMNOPQRSTUVWXYZabcdefghijklmnopqrstuvwxyz0123456789+/''"

lemma b64_values: "map b64_value b64_chars = map Some [0..<64]"
  by (simp add: b64_chars_def b64_value_def upt_rec)

lemma b64_value_char: "n < 64 \<Longrightarrow> b64_value (b64_char n) = Some n"
proof -
  assume n: "n < 64"
  have "length b64_chars = 64" by (simp add: b64_chars_def)
  then have "b64_value (b64_chars ! n) = map b64_value b64_chars ! n" using n by simp
  then show ?thesis using n unfolding b64_values by (simp add: b64_char_def b64_chars_def)
qed

lemma b64_char_pad: "n < 64 \<Longrightarrow> b64_char n \<noteq> CHR ''=''"
  using b64_value_char[of n] by (auto simp: b64_value_def)

lemma byte_split:
  fixes n m k :: nat
  assumes "n < 256" "m < 256" "k < 256"
  shows "n div 4 < 64" "n mod 4 * 16 + m div 16 < 64" "m mod 16 * 4 + k div 64 < 64" "k mod 64 < 64"
    "n mod 4 * 16 < 64" "m mod 16 * 4 < 64"
    "n div 4 * 4 + (n mod 4 * 16 + m div 16) div 16 = n"
    "(n mod 4 * 16 + m div 16) mod 16 * 16 + (m mod 16 * 4 + k div 64) div 4 = m"
    "(m mod 16 * 4 + k div 64) mod 4 * 64 + k mod 64 = k"
    "n div 4 * 4 + n mod 4 * 16 div 16 = n" "(n mod 4 * 16 + m div 16) mod 16 * 16 + m mod 16 * 4 div 4 = m"
proof -
  have small: "m div 16 < 16" "k div 64 < 4" "n mod 4 < 4" "m mod 16 < 16" "n div 4 < 64" "k mod 64 < 64"
    using assms by (simp_all add: less_mult_imp_div_less)
  have parts: "(n mod 4 * 16 + m div 16) div 16 = n mod 4" "(n mod 4 * 16 + m div 16) mod 16 = m div 16"
    "(m mod 16 * 4 + k div 64) div 4 = m mod 16" "(m mod 16 * 4 + k div 64) mod 4 = k div 64"
    using small by simp_all
  show "n div 4 < 64" "k mod 64 < 64" by (fact small)+
  show "n mod 4 * 16 + m div 16 < 64" "m mod 16 * 4 + k div 64 < 64" "n mod 4 * 16 < 64" "m mod 16 * 4 < 64"
    using small by linarith+
  show "n div 4 * 4 + (n mod 4 * 16 + m div 16) div 16 = n"
    "(n mod 4 * 16 + m div 16) mod 16 * 16 + (m mod 16 * 4 + k div 64) div 4 = m"
    "(m mod 16 * 4 + k div 64) mod 4 * 64 + k mod 64 = k"
    unfolding parts by simp_all
  show "n div 4 * 4 + n mod 4 * 16 div 16 = n" by simp
  show "(n mod 4 * 16 + m div 16) mod 16 * 16 + m mod 16 * 4 div 4 = m" unfolding parts by simp
qed

lemma b64decode_encode: "b64decode (b64encode s) = Some s"
proof (induction s rule: b64encode.induct)
  case (2 a)
  note s = byte_split[of "code a" 0 0]
  show ?case using s b64_char_pad[of "code a div 4"] by (simp add: Let_def b64_value_char)
next
  case (3 a b)
  note s = byte_split[of "code a" "code b" 0]
  show ?case using s b64_char_pad[of "code b mod 16 * 4"] by (simp add: Let_def b64_value_char)
next
  case (4 a b c s)
  note q = byte_split[of "code a" "code b" "code c"]
  show ?case
  proof (cases "b64encode s")
    case Nil
    then have "s = []" by (cases s rule: b64encode.cases) (simp_all add: Let_def)
    then show ?thesis
      using q b64_char_pad[of "code b mod 16 * 4 + code c div 64"] b64_char_pad[of "code c mod 64"]
      by (simp add: Let_def b64_value_char)
  next
    case (Cons e r)
    then show ?thesis using q 4 by (simp add: Let_def b64_value_char)
  qed
qed simp

section \<open>Packing and receiving\<close>

definition protected_file :: "depot \<Rightarrow> ctl_log \<Rightarrow> string \<Rightarrow> string \<Rightarrow> bool" where
  "protected_file d past path content \<longleftrightarrow> \<not> dp_symlink d past path \<and> dp_file d past path
     \<and> (\<exists>info. dp_stat d past path = Inr info \<and> fi_uid info = 0 \<and> \<not> too_broad (fi_mode info))
     \<and> st_read (dp_host d) past path = Inr content"

lemma pack_file_Inr:
  "pack_file d past base name = Inr (k, v) \<Longrightarrow> k = name \<and> (\<exists>content. protected_file d past (under base name) content \<and> v = JStr (b64encode content))"
  unfolding pack_file_def protected_file_def by (auto simp: Let_def rbind_eq_Inr ensure_eq_Inr)

lemma pack_files_Inr:
  "rmap (pack_file d past base) names = Inr items \<Longrightarrow>
   map fst items = names \<and> (\<forall>(k, v) \<in> set items. \<exists>content. protected_file d past (under base k) content \<and> v = JStr (b64encode content))"
proof (induction names arbitrary: items)
  case (Cons name names)
  then obtain k v rest where items: "items = (k, v) # rest" "pack_file d past base name = Inr (k, v)"
    "rmap (pack_file d past base) names = Inr rest"
    by (auto simp: rbind_eq_Inr)
  then show ?case using Cons.IH[OF items(3)] pack_file_Inr[OF items(2)] by auto
qed simp

lemma document_Inr:
  assumes "document d base past = (Inr payload, c)"
  obtains items where "rmap (pack_file d past base) (config_files (st_exists (dp_host d) past) base) = Inr items"
    "payload = dp_dumps d (JObj items)" "length payload \<le> LIMIT" "c = past"
proof -
  have "c = past" using assms by (simp add: document_def observe_def)
  obtain items where "rmap (pack_file d past base) (config_files (st_exists (dp_host d) past) base) = Inr items"
    "rbind (ensure (length (dp_dumps d (JObj items)) \<le> LIMIT) (ValueError ''runtime set exceeds 1 MiB'')) (\<lambda>_.
       Inr (dp_dumps d (JObj items))) = Inr payload"
    using assms by (auto simp only: document_def observe_def Let_def rbind_eq_Inr prod.inject)
  then show thesis using that \<open>c = past\<close> by (auto simp only: rbind_eq_Inr ensure_eq_Inr sum.inject)
qed

lemma distinct_files: "distinct (FILES @ [OPTIONAL_CA])"
  by code_simp

fun replaces_canonical :: "ctl_event \<Rightarrow> bool" where
  "replaces_canonical (FileOp act _ target, _) = (act = ''replace'' \<and> (\<exists>name. target = under CANONICAL name))"
| "replaces_canonical _ = False"

lemma staging_not_canonical: "under (staging_of d past) name \<noteq> under CANONICAL name'"
  by (simp add: under_def staging_of_def CANONICAL_def CANONICAL_PARENT_def)

lemma emits_atomic_write_to:
  assumes "\<And>act p arg b. act \<noteq> ''replace'' \<Longrightarrow> P (FileOp act p arg, b)" "\<And>p b. P (FileOp ''replace'' p path, b)"
  shows "emits P (atomic_write d path content mode gid)"
  unfolding atomic_write_def mkdir_parent_def unchanged_def replace_file_def
  by (intro emits_intros emits_at[where f = "\<lambda>past. dp_temp d past (parent_of path)"]) (simp_all add: assms)

lemma emits_lift: "(\<And>x. r = Inr x \<Longrightarrow> emits P (f x)) \<Longrightarrow> emits P (io_bind (io_lift r) f)"
  by (cases r) (simp_all add: emits_def io_bind_def io_lift_def)

lemma emits_stage_file:
  assumes "\<And>act p arg b. act \<noteq> ''replace'' \<Longrightarrow> P (FileOp act p arg, b)" "\<And>p name b. P (FileOp ''replace'' p (under staging name), b)"
  shows "emits P (stage_file d staging v key)"
  unfolding stage_file_def by (intro emits_bind emits_pure emits_atomic_write_to assms)

lemma emits_install_secret:
  assumes "\<And>act p arg b. act \<noteq> ''replace'' \<Longrightarrow> P (FileOp act p arg, b)"
    "\<And>p name b. JStr name = key \<Longrightarrow> P (FileOp ''replace'' p (under CANONICAL name), b)"
  shows "emits P (install_secret d staging key)"
proof -
  have "emits P (atomic_write d (under CANONICAL name) content mode gid)" if "text_of key = Inr name" for name content mode gid
    using assms that by (intro emits_atomic_write_to) (auto simp: text_of_Inr)
  then show ?thesis
    unfolding install_secret_def Let_def read_text_def
    by (intro emits_lift emits_bind emits_if emits_file_op emits_pure assms(1)) simp_all
qed

lemma emits_stage_set:
  assumes "\<And>act p arg b. act \<noteq> ''replace'' \<Longrightarrow> P (FileOp act p arg, b)" "\<And>p name b. P (FileOp ''replace'' p (under staging name), b)"
  shows "emits P (stage_set rt d staging v names)"
proof -
  have "emits P (stage_file d staging v key)" for key using assms by (intro emits_stage_file) auto
  moreover have "emits P (file_op (dp_host d) act p arg)" if "act \<noteq> ''replace''" for act p arg
    using assms(1) that by (intro emits_file_op) auto
  ultimately show ?thesis
    unfolding stage_set_def read_json_def read_text_def validate_config_def prepare_canonical_def check_destination_def Let_def
    by (intro emits_bind emits_for_each emits_pure) simp_all
qed

lemma emits_install_set:
  assumes "\<And>act p arg b. act \<noteq> ''replace'' \<Longrightarrow> P (FileOp act p arg, b)" "\<And>p name b. P (FileOp ''replace'' p (under staging name), b)"
    "\<And>p name b. JStr name \<in> set names \<Longrightarrow> P (FileOp ''replace'' p (under CANONICAL name), b)" "\<And>line b. P (Print line, b)"
  shows "emits P (install_set rt d staging v names)"
proof -
  have "emits P (install_secret d staging key)" if "key \<in> set names" for key
    using that assms(1,3) by (intro emits_install_secret) auto
  moreover have "emits P (stage_set rt d staging v names)" using assms(1,2) by (intro emits_stage_set) auto
  ultimately show ?thesis
    unfolding install_set_def by (intro emits_bind emits_for_each_in emits_print assms(4)) simp_all
qed

text \<open>What has happened before the first canonical file is replaced.\<close>

definition delivered :: "pyrt \<Rightarrow> depot \<Rightarrow> string \<Rightarrow> ctl_log \<Rightarrow> bool" where
  "delivered rt d input moment \<longleftrightarrow> (\<exists>v names staging started staged p host vals q.
     parse_set (dp_host d) input = Inr (v, names)
     \<and> for_each (stage_file d staging v) names started = (Inr staged, p) \<and> validate rt (view_at d p) staging host = Inr vals
     \<and> (\<forall>key \<in> set names. fst (check_destination d key q) = Inr ()) \<and> prefix p q \<and> prefix q moment)"

lemma read_json_silent:
  assumes "read_json s path past = (r, c)"
  shows "c = past"
proof -
  have "emits (\<lambda>_. False) (read_json s path)" unfolding read_json_def read_text_def by (intro emits_bind emits_pure)
  then show ?thesis using assms by (rule silent)
qed

lemma check_destination_silent: "check_destination d key past = (r, c) \<Longrightarrow> c = past"
  by (rule silent[of "check_destination d key"]) (simp_all add: check_destination_def emits_pure emits_bind)

lemma check_destinations:
  "for_each (check_destination d) names past = (Inr us, c) \<Longrightarrow> c = past \<and> (\<forall>key \<in> set names. fst (check_destination d key past) = Inr ())"
proof (induction names arbitrary: us)
  case (Cons key names)
  then obtain u c1 rest where "check_destination d key past = (Inr u, c1)" "for_each (check_destination d) names c1 = (Inr rest, c)"
    by (auto elim!: io_bindE simp: io_return_eq)
  moreover from this have "c1 = past" using check_destination_silent by blast
  ultimately show ?case using Cons.IH by auto
qed (simp add: io_return_eq)

lemma stage_set_Inr:
  assumes "stage_set rt d staging v names past = (Inr vals, c)" "parse_set (dp_host d) input = Inr (v, names)"
  shows "delivered rt d input (c @ rest)"
proof -
  obtain started staged p host p1 p2 q u us where steps: "for_each (stage_file d staging v) names started = (Inr staged, p)"
    "read_json (dp_host d) HOST_FILE p = (Inr host, p1)" "validate_config rt d staging host p1 = (Inr vals, p2)"
    "prepare_canonical d p2 = (Inr u, q)" "for_each (check_destination d) names q = (Inr us, c)"
    using assms(1) unfolding stage_set_def by (elim io_bindE) (auto simp: io_return_eq)
  have p1: "p1 = p"
    using steps(2) by (rule read_json_silent)
  have p2: "p2 = p1" "validate rt (view_at d p1) staging host = Inr vals"
    using steps(3) by (auto simp: validate_config_def observe_def)
  have "emits (\<lambda>_. True) (prepare_canonical d)" unfolding prepare_canonical_def Let_def by (intro emits_intros TrueI)
  then have "prefix p q" using steps(4) unfolding p1 p2(1) by (rule emits_prefix)
  moreover have "c = q" "\<forall>key \<in> set names. fst (check_destination d key q) = Inr ()" using check_destinations[OF steps(5)] by simp_all
  moreover have "validate rt (view_at d p) staging host = Inr vals" using p2(2) p1 by simp
  ultimately show ?thesis using steps(1) assms(2) unfolding delivered_def by (metis prefixI)
qed

text \<open>
  C35. No canonical file is replaced before the whole new set has been staged and validated for this
  host, and no canonical path is a symbolic link.
\<close>

theorem canonical_after_validation:
  assumes "receive rt d input past = (r, past')" and "past' = past @ early @ (FileOp ''replace'' temp (under CANONICAL name), b) # late"
  shows "delivered rt d input (past @ early)"
proof -
  let ?P = replaces_canonical
  let ?G = "delivered rt d input"
  let ?body = "\<lambda>v names staging. in_staging (dp_host d) staging (install_set rt d staging v names)"
  have total: "emits (\<lambda>_. True) (install_set rt d staging v names)" for staging v names
    by (rule emits_install_set) simp_all
  have "guarded ?P ?G (install_set rt d (staging_of d p) v names)" if parsed: "parse_set (dp_host d) input = Inr (v, names)" for p v names
    unfolding install_set_def
  proof (rule guarded_after)
    show "emits (\<lambda>e. \<not> ?P e) (stage_set rt d (staging_of d p) v names)"
      by (rule emits_stage_set) (simp_all add: staging_not_canonical)
    show "emits (\<lambda>_. True) (io_bind (for_each (install_secret d (staging_of d p)) names) (\<lambda>changed.
        print (dp_host d) (''SECRET_DELIVERY PASS files='' @ dec (length names) @ '' changed='' @ dec (length (filter id changed))
          @ ''; validated, root-owned; values hidden'')))" for x :: env
      by (intro emits_bind emits_for_each emits_install_secret emits_print) simp_all
  qed (use stage_set_Inr[OF _ parsed] in blast)
  then have body: "guarded ?P ?G (?body v names (staging_of d p))"
    if "parse_set (dp_host d) input = Inr (v, names)" for p v names
    unfolding in_staging_def using that
    by (intro guarded_bind guarded_finally total emits_file_op emits_try_finally) simp_all
  have body_total: "emits (\<lambda>_. True) (?body v names staging)" for staging v names
    unfolding in_staging_def by (intro emits_bind emits_try_finally emits_file_op total TrueI)
  have inner: "guarded ?P ?G (\<lambda>past. ?body v names (staging_of d past) past)" if parsed: "parse_set (dp_host d) input = Inr (v, names)" for v names
    unfolding guarded_def
  proof (intro allI impI)
    fix past r past' early e late
    assume "?body v names (staging_of d past) past = (r, past')" "past' = past @ early @ e # late" "?P e"
    then show "?G (past @ early)" by (rule guardedD[OF body[OF parsed]])
  qed
  have inner_total: "emits (\<lambda>_. True) (\<lambda>past. ?body v names (staging_of d past) past)" for v names
    by (rule emits_at) (rule body_total)
  have "guarded ?P ?G (receive rt d input)"
    unfolding receive_def Let_def mkdir_parent_def
  proof (rule guarded_lift)
    fix x assume parsed: "parse_set (dp_host d) input = Inr x"
    obtain v names where x: "x = (v, names)" by (cases x)
    note close = guarded_finally[OF inner[OF parsed[unfolded x]] inner_total emits_file_op]
    show "guarded ?P ?G (case x of (v, names) \<Rightarrow> io_bind (file_op (dp_host d) ''mkdir'' (parent_of LOCK) []) (\<lambda>_.
        io_bind (file_op (dp_host d) ''open'' LOCK []) (\<lambda>_. try_finally (file_op (dp_host d) ''close'' LOCK [])
          (\<lambda>past. ?body v names (staging_of d past) past))))"
      unfolding x prod.case
      by (rule guarded_bind, rule emits_file_op, simp, simp, intro emits_bind emits_try_finally emits_file_op inner_total TrueI,
          rule guarded_bind, rule emits_file_op, simp, simp, intro emits_try_finally emits_file_op inner_total TrueI,
          rule close) simp_all
  qed
  from guardedD[OF this assms(1,2)] show ?thesis by auto
qed

text \<open>
  C36. What is received is what was sent: when the receiver parses the JSON text as what the sender printed,
  the payload is a complete runtime set, and each of its files is staged with exactly the bytes of the
  sender's file, which was a regular file of root without access for others.
\<close>

theorem transfer_roundtrip:
  assumes sent: "document d base past = (Inr payload, c)"
    and json: "\<And>v. dp_dumps d v = payload \<Longrightarrow> st_json (dp_host e) payload = JText v"
    and name: "name \<in> set (config_files (st_exists (dp_host d) past) base)"
  shows "\<exists>v names content. json_loads (st_json (dp_host e) (take (LIMIT + 1) payload)) = Inr v
    \<and> declared_names v = Inr names \<and> JStr name \<in> set names \<and> protected_file d past (under base name) content
    \<and> stage_file e staging v (JStr name) = atomic_write e (under staging name) content (file_mode name) (file_group name)"
proof -
  obtain items where items: "rmap (pack_file d past base) (config_files (st_exists (dp_host d) past) base) = Inr items"
    "payload = dp_dumps d (JObj items)" "length payload \<le> LIMIT"
    using sent by (rule document_Inr)
  have names: "map fst items = config_files (st_exists (dp_host d) past) base" using pack_files_Inr[OF items(1)] by blast
  have "distinct (map fst items)" using distinct_files unfolding names config_files_def by (auto split: if_splits)
  obtain v where v: "(name, v) \<in> set items" using name unfolding names[symmetric] by auto
  then obtain content where content: "protected_file d past (under base name) content" "v = JStr (b64encode content)"
    using pack_files_Inr[OF items(1)] by fastforce
  have "map_of items name = Some v" using v \<open>distinct (map fst items)\<close> by simp
  then have "stage_file e staging (JObj items) (JStr name)
      = atomic_write e (under staging name) content (file_mode name) (file_group name)"
    using content(2) by (simp add: stage_file_def text_of_def subscript_def item_def decoded_def b64decode_encode io_lift_def
        io_bind_def fun_eq_iff)
  moreover have "iterate (JObj items) = Inr (map JStr (map fst items))" by (simp add: split_def)
  then have "declared_names (JObj items) = Inr (map JStr (map fst items))"
    by (auto simp: declared_names_def ensure_def names config_files_def list_all_iff)
  moreover have "JStr name \<in> set (map JStr (map fst items))" using v by force
  moreover have "json_loads (st_json (dp_host e) (take (LIMIT + 1) payload)) = Inr (JObj items)"
    using items(2,3) json by simp
  ultimately show ?thesis using content(1) by blast
qed

section \<open>Examples\<close>

definition secret_items :: dict where
  "secret_items = map (\<lambda>n. (n, JStr (b64encode (case sample_file ''/c'' (under ''/c'' n) of Inr t \<Rightarrow> t | Inl _ \<Rightarrow> [])))) FILES"

definition sample_source :: depot where
  "sample_source = (sample_depot ''/c'')\<lparr>dp_stat := (\<lambda>_ _. Inr \<lparr>fi_regular = True, fi_uid = 0, fi_gid = 0, fi_mode = 448\<rparr>),
     dp_dumps := (\<lambda>v. if v = JObj secret_items then ''p'' else ''q'')\<rparr>"

definition sample_receiver :: depot where
  "sample_receiver = (sample_depot ''/c'')\<lparr>dp_host := (deploy_host ''/c'')\<lparr>st_json := (\<lambda>_. JText (JObj secret_items))\<rparr>\<rparr>"

lemma sample_packed: "rmap (pack_file sample_source [] ''/c'') FILES = Inr secret_items"
  by (simp add: secret_items_def FILES_def pack_file_def Let_def sample_source_def sample_depot_def keeping_depot_def deploy_host_def
      sample_file_def under_def too_broad_def)

lemma sample_document: "document sample_source ''/c'' [] = (Inr ''p'', [])"
proof -
  have "config_files (st_exists (dp_host sample_source) []) ''/c'' = FILES"
    by (simp add: config_files_def sample_source_def sample_depot_def deploy_host_def)
  moreover have "dp_dumps sample_source (JObj secret_items) = ''p''" by (simp add: sample_source_def)
  moreover have "\<not> dp_symlink sample_source [] ''/c''" "dp_stat sample_source [] ''/c'' = Inr \<lparr>fi_regular = True, fi_uid = 0, fi_gid = 0, fi_mode = 448\<rparr>"
    by (simp_all add: sample_source_def sample_depot_def keeping_depot_def)
  ultimately show ?thesis using sample_packed by (simp add: document_def observe_def Let_def LIMIT_def)
qed

lemma transfer_roundtrip_witness:
  "\<exists>v. stage_file sample_receiver ''/x'' v (JStr ''.env'') = atomic_write sample_receiver ''/x/.env'' deploy_env_text 384 0"
proof -
  have json: "st_json (dp_host sample_receiver) ''p'' = JText v" if "dp_dumps sample_source v = ''p''" for v
    using that by (auto simp: sample_source_def sample_receiver_def split: if_splits)
  have "''.env'' \<in> set (config_files (st_exists (dp_host sample_source) []) ''/c'')" by (simp add: config_files_def FILES_def)
  from transfer_roundtrip[OF sample_document json this, of "''/x''"] obtain v content where
    "protected_file sample_source [] (under ''/c'' ''.env'') content"
    "stage_file sample_receiver ''/x'' v (JStr ''.env'') = atomic_write sample_receiver (under ''/x'' ''.env'') content (file_mode ''.env'') (file_group ''.env'')"
    by blast
  then show ?thesis
    by (auto simp: protected_file_def sample_source_def sample_depot_def deploy_host_def sample_file_def under_def file_mode_def
        file_group_def)
qed

text \<open>A delivery that succeeds: its log has the replacement of a canonical file.\<close>

definition replaced :: "ctl_log \<Rightarrow> bool" where
  "replaced c \<longleftrightarrow> (\<exists>temp name b. (FileOp ''replace'' temp (under CANONICAL name), b) \<in> set c)"

lemma replaced_later: "emits (\<lambda>_. True) m \<Longrightarrow> replaced past \<Longrightarrow> m past = (r, c) \<Longrightarrow> replaced c"
  by (erule emitsE, assumption) (auto simp: replaced_def)

lemma replaced_after: "(\<And>p. fst (m p) = Inr x) \<Longrightarrow> (\<And>p. replaced (snd (f x p))) \<Longrightarrow> replaced (snd (io_bind m f past))"
  by (metis io_bind_simps(2) prod.collapse)

lemma replaced_first:
  assumes "\<And>p. replaced (snd (m p))" "\<And>x. emits (\<lambda>_. True) (f x)"
  shows "replaced (snd (io_bind m f past))"
proof -
  obtain r c where "m past = (r, c)" "replaced c" using assms(1)[of past] by (cases "m past") simp
  then show ?thesis using replaced_later[OF assms(2)] by (cases r) (simp_all add: io_bind_def, metis prod.collapse)
qed

lemma replaced_finally:
  assumes "\<And>p. replaced (snd (m p))" "emits (\<lambda>_. True) cleanup"
  shows "replaced (snd (try_finally cleanup m past))"
proof -
  obtain r c where "m past = (r, c)" "replaced c" using assms(1)[of past] by (cases "m past") simp
  then show ?thesis using replaced_later[OF assms(2), of c] by (auto simp: try_finally_def split: prod.splits sum.splits)
qed

definition staging_dir :: string where
  "staging_dir = ''/etc/transparent-gateway/.incoming-tmp''"

lemma sample_install_secret: "replaced (snd (install_secret (sample_depot staging_dir) staging_dir (JStr ''.env'') p))"
proof -
  let ?d = "sample_depot staging_dir"
  obtain c where written: "atomic_write ?d (under CANONICAL ''.env'') deploy_env_text 384 0 p = (Inr True, c)"
    using sample_atomic_write by (metis prod.collapse)
  obtain b temp where "c = p @ parent_made (under CANONICAL ''.env'') b @ replace_log temp (under CANONICAL ''.env'') deploy_env_text 384 0"
    using atomic_write_cases[OF written] by auto
  then have "(FileOp ''replace'' temp (under CANONICAL ''.env''), True) \<in> set c" by (simp add: replace_log_def)
  then have "replaced c" unfolding replaced_def by blast
  then show ?thesis
    using written by (simp add: install_secret_def text_of_def io_lift_def io_bind_def io_return_def read_text_def observe_def Let_def
        sample_depot_def deploy_host_def sample_file_def under_def file_mode_def file_group_def)
qed

lemma sample_receives: "replaced (snd (receive plain_rt (sample_depot staging_dir) ''set'' []))"
proof -
  let ?d = "sample_depot staging_dir"
  let ?s = "dp_host ?d" and ?v = "JObj (map (\<lambda>n. (n, JStr [])) FILES)" and ?names = "map JStr FILES"
  have host: "?s = deploy_host staging_dir" by (simp add: sample_depot_def)
  have ok_op: "fst (file_op ?s act path arg p) = Inr ()" for act path arg p by (simp add: host sample_file_op)
  have staging: "staging_of ?d p = staging_dir" for p
    by (simp add: staging_of_def staging_dir_def sample_depot_def keeping_depot_def CANONICAL_PARENT_def name_of_def rsplit1_def split1.simps)
  have "json_loads (st_json ?s ''set'') = Inr ?v" by (simp add: host deploy_host_def deploy_json_def)
  moreover have "declared_names ?v = Inr ?names" by code_simp
  ultimately have parsed: "parse_set ?s ''set'' = Inr (?v, ?names)" by (simp add: parse_set_def Let_def LIMIT_def)
  have staged: "fst (for_each (stage_file ?d staging_dir ?v) ?names p) = Inr (replicate (length ?names) True)" for p
  proof (rule for_each_fst)
    fix key q assume "key \<in> set ?names"
    then show "fst (stage_file ?d staging_dir ?v key q) = Inr True"
      by (auto simp: stage_file_def io_lift_def io_bind_def text_of_def subscript_def item_def FILES_def decoded_def sample_atomic_write)
  qed
  have read: "fst (read_json ?s HOST_FILE p) = Inr sample_host" for p by code_simp
  have valid: "fst (validate_config plain_rt ?d staging_dir sample_host p) = Inr deploy_env" for p
    by (simp add: validate_config_def observe_def sample_view_at sample_valid staging_dir_def)
  have canonical: "fst (prepare_canonical ?d p) = Inr ()" for p
    by (simp add: prepare_canonical_def Let_def host sample_file_op io_bind_def observe_def io_ensure_def io_return_def)
      (simp add: sample_depot_def keeping_depot_def)
  have checked: "fst (for_each (check_destination ?d) ?names p) = Inr (replicate (length ?names) ())" for p
    by (rule for_each_fst)
      (auto simp: check_destination_def io_lift_def io_bind_def text_of_def observe_def io_ensure_def io_return_def sample_depot_def keeping_depot_def)
  have set_staged: "fst (stage_set plain_rt ?d staging_dir ?v ?names p) = Inr deploy_env" for p
    unfolding stage_set_def
    by (intro fst_bind[OF ok_op] fst_bind[OF staged] fst_bind[OF read] fst_bind[OF valid] fst_bind[OF canonical] fst_bind[OF checked])
      (simp add: io_return_def)
  have total: "emits (\<lambda>_. True) (for_each (install_secret ?d staging_dir) ks)" "emits (\<lambda>_. True) (print ?s line)" for ks line
    by (intro emits_for_each emits_install_secret emits_print; simp)+
  have first: "replaced (snd (for_each (install_secret ?d staging_dir) ?names p))" for p
    using sample_install_secret total(1)
    by (simp add: FILES_def) (rule replaced_first, assumption, intro emits_bind emits_for_each emits_install_secret emits_pure TrueI)
  have "replaced (snd (install_set plain_rt ?d staging_dir ?v ?names p))" for p
    unfolding install_set_def by (intro replaced_after[OF set_staged] replaced_first first total)
  then have "replaced (snd (in_staging ?s staging_dir (install_set plain_rt ?d staging_dir ?v ?names) p))" for p
    unfolding in_staging_def by (intro replaced_after[OF ok_op] replaced_finally emits_file_op TrueI)
  then have "replaced (snd (try_finally (file_op ?s ''close'' LOCK [])
      (\<lambda>past. in_staging ?s (staging_of ?d past) (install_set plain_rt ?d (staging_of ?d past) ?v ?names) past) p))" for p
    unfolding staging by (intro replaced_finally emits_file_op TrueI)
  then show ?thesis
    unfolding receive_def Let_def parsed mkdir_parent_def
    by (intro replaced_after[where x = "(?v, ?names)"]) (simp_all add: io_lift_def, intro replaced_after[OF ok_op])
qed

lemma canonical_after_validation_witness:
  "\<exists>early. delivered plain_rt (sample_depot staging_dir) ''set'' early"
proof -
  obtain r c where run: "receive plain_rt (sample_depot staging_dir) ''set'' [] = (r, c)" "replaced c"
    using sample_receives by (cases "receive plain_rt (sample_depot staging_dir) ''set'' []") simp
  then obtain temp name b early late where "c = [] @ early @ (FileOp ''replace'' temp (under CANONICAL name), b) # late"
    unfolding replaced_def by (metis append_Nil split_list)
  from canonical_after_validation[OF run(1) this] show ?thesis by blast
qed

end
