(* ===== verification/Service_Install.thy ===== *)
theory Service_Install
  imports Secret_Transfer
begin

text \<open>
  The installation of the supervision (\<open>deploy/install-service.py\<close>): the settings of \<open>service.py\<close> and
  the systemd unit are written for a commit that is checked out and recorded as deployed, and the
  service is enabled and started after its own preflight has passed.
\<close>

definition UNIT :: string where
  "UNIT = ''/etc/systemd/system/transparent-gateway.service''"

definition SERVICE :: string where
  "SERVICE = ''transparent-gateway.service''"

definition installed_settings :: "string \<Rightarrow> bool \<Rightarrow> json" where
  "installed_settings commit lab = JObj [(''commit'', JStr commit), (''destination'', JStr ROOT), (''lab_fixture'', JBool lab)]"

definition check_deployed :: "depot \<Rightarrow> string \<Rightarrow> unit ctl" where
  "check_deployed d commit =
     (let s = dp_host d in
      io_bind (io_ensure (st_euid s = 0 \<and> full_sha commit) (ValueError ''root and full commit SHA required'')) (\<lambda>_.
      io_bind (run_cmd s (git_in ROOT [''rev-parse'', ''HEAD''])) (\<lambda>head.
      io_bind (io_ensure (head = commit) (ValueError ''deploy requested commit before installing service'')) (\<lambda>_.
      io_bind (read_json s STATE) (\<lambda>state.
      io_bind (io_lift (subscript state ''commit'')) (\<lambda>deployed.
      io_ensure (deployed = JStr commit) (ValueError ''successful deployment of this commit required'')))))))"

definition write_service :: "depot \<Rightarrow> string \<Rightarrow> bool \<Rightarrow> bool ctl" where
  "write_service d commit lab =
     (let s = dp_host d in
      io_bind (run_cmd s [''systemctl'', ''is-enabled'', ''systemd-networkd-wait-online.service'']) (\<lambda>_.
      io_bind (atomic_write d SETTINGS (dp_dumps d (installed_settings commit lab) @ [LF]) 384 0) (\<lambda>config_changed.
      io_bind (read_text s (under ROOT ''deploy/transparent-gateway.service'')) (\<lambda>content.
      io_bind (atomic_write d UNIT content 420 0) (\<lambda>unit_changed.
      io_return (config_changed \<or> unit_changed))))))"

definition verify_command :: "string list" where
  "verify_command = [''systemd-analyze'', ''verify'', UNIT]"

definition check_command :: "string list" where
  "check_command = [''python3'', under ROOT ''deploy/service.py'', ''check'']"

definition prepare_release :: "depot \<Rightarrow> string \<Rightarrow> bool \<Rightarrow> bool ctl" where
  "prepare_release d commit lab =
     io_bind (check_deployed d commit) (\<lambda>_.
     io_bind (write_service d commit lab) (\<lambda>changed.
     io_bind (run_cmd (dp_host d) verify_command) (\<lambda>_.
     io_bind (run_cmd (dp_host d) check_command) (\<lambda>_.
     io_return changed))))"

definition install_release :: "depot \<Rightarrow> string \<Rightarrow> bool \<Rightarrow> unit ctl" where
  "install_release d commit lab =
     (let s = dp_host d in
      io_bind (prepare_release d commit lab) (\<lambda>changed.
      io_bind (run_cmd s [''systemctl'', ''daemon-reload'']) (\<lambda>_.
      io_bind (run_cmd s [''systemctl'', ''enable'', SERVICE]) (\<lambda>_.
      io_bind (run_cmd s [''systemctl'', if changed then ''restart'' else ''start'', SERVICE]) (\<lambda>_.
      io_bind (run_cmd s [''systemctl'', ''is-active'', SERVICE]) (\<lambda>_.
      print s (''SYSTEMD_INSTALLED PASS: enabled, active; local readiness passed; release '' @ commit)))))))"

definition install_main :: "(exn \<Rightarrow> string) \<Rightarrow> depot \<Rightarrow> string \<Rightarrow> bool \<Rightarrow> int ctl" where
  "install_main name_of_class d commit lab past =
     (case install_release d commit lab past of
        (Inr _, c) \<Rightarrow> (Inr 0, c)
      | (Inl e, c) \<Rightarrow>
          if e = KeyboardInterrupt then (Inl e, c)
          else io_bind (print (dp_host d) (''SYSTEMD_INSTALL FAILED: '' @ name_of_class e @ ''; details suppressed''))
            (\<lambda>_. io_return 1) c)"

section \<open>Before the service is enabled\<close>

lemma run_cmd_Inr: "run_cmd s ws past = (Inr out, c) \<Longrightarrow> c = past @ [(Run ws, True)]"
  unfolding run_cmd_def by (auto elim!: io_bindE dest!: spawn_Inr simp: io_ensure_Inr io_return_eq)

text \<open>The commands that change what systemd runs.\<close>

fun activates :: "ctl_event \<Rightarrow> bool" where
  "activates (Run ws, _) = (take 1 ws = [''systemctl''] \<and> ws ! 1 \<in> {''enable'', ''start'', ''restart''})"
| "activates _ = False"

definition release_checked :: "depot \<Rightarrow> string \<Rightarrow> bool \<Rightarrow> ctl_log \<Rightarrow> bool" where
  "release_checked d commit lab moment \<longleftrightarrow> (\<exists>p q changed w.
     check_deployed d commit p = (Inr (), q) \<and> write_service d commit lab q = (Inr changed, w)
     \<and> prefix (w @ [(Run verify_command, True), (Run check_command, True)]) moment)"

lemma prepare_release_Inr:
  assumes "prepare_release d commit lab past = (Inr changed, c)"
  shows "release_checked d commit lab (c @ rest)"
proof -
  obtain u q w v1 v2 c1 where steps: "check_deployed d commit past = (Inr u, q)" "write_service d commit lab q = (Inr changed, w)"
    "run_cmd (dp_host d) verify_command w = (Inr v1, c1)" "run_cmd (dp_host d) check_command c1 = (Inr v2, c)"
    using assms unfolding prepare_release_def by (elim io_bindE) (auto simp: io_return_eq)
  have "c = w @ [(Run verify_command, True), (Run check_command, True)]"
    using run_cmd_Inr[OF steps(3)] run_cmd_Inr[OF steps(4)] by simp
  then show ?thesis using steps(1,2) unfolding release_checked_def by fastforce
qed

lemma prepare_release_quiet: "emits (\<lambda>e. \<not> activates e) (prepare_release d commit lab)"
  unfolding prepare_release_def check_deployed_def write_service_def read_json_def read_text_def Let_def
  by (intro emits_bind emits_pure emits_run_cmd emits_atomic_write_to)
    (simp_all add: git_in_def verify_command_def check_command_def)

section \<open>Properties\<close>

text \<open>
  C37. The service is enabled, started or restarted only for a release that was checked out and recorded
  as deployed, after its settings and its unit had been written, systemd had verified the unit, and the
  preflight of the service had passed.
\<close>

theorem enabled_after_check:
  assumes "install_release d commit lab past = (r, past')"
    and "past' = past @ early @ (Run ([''systemctl'', verb] @ rest), b) # late" "verb \<in> {''enable'', ''start'', ''restart''}"
  shows "release_checked d commit lab (past @ early)"
proof (rule guardedD[where P = activates and e = "(Run ([''systemctl'', verb] @ rest), b)"])
  show "guarded activates (release_checked d commit lab) (install_release d commit lab)"
    unfolding install_release_def Let_def
    by (rule guarded_after) (use prepare_release_quiet prepare_release_Inr in \<open>auto intro!: emits_bind emits_run_cmd emits_print\<close>)
qed (use assms in auto)


section \<open>An installation\<close>

definition installer :: depot where
  "installer = (sample_depot ROOT)\<lparr>dp_host := (deploy_host ROOT)\<lparr>st_read := (\<lambda>_ path.
     if path = STATE then Inr ''settings'' else if path = under ROOT ''deploy/transparent-gateway.service'' then Inr []
     else sample_file ROOT path)\<rparr>\<rparr>"

lemma installer_run: "run_cmd (dp_host installer) ws p = (Inr (strip (deploy_answer ws)), p @ [(Run ws, True)])"
  by (simp add: run_cmd_def spawn_def installer_def deploy_host_def sample_station_def io_bind_def io_ensure_def io_return_def)

lemma installer_write: "fst (atomic_write installer path content mode gid p) = Inr True"
  by (simp add: atomic_write_def mkdir_parent_def unchanged_def replace_file_def observe_def io_bind_def io_ensure_def io_return_def
      installer_def sample_depot_def keeping_depot_def file_op_def deploy_host_def sample_station_def)

lemma installer_prepared: "fst (prepare_release installer sample_sha lab p) = Inr True"
proof -
  have head: "fst (run_cmd (dp_host installer) (git_in ROOT [''rev-parse'', ''HEAD'']) p) = Inr sample_sha" for p
    unfolding installer_run by code_simp
  have run: "fst (run_cmd (dp_host installer) ws p) = Inr (strip (deploy_answer ws))" for ws p
    by (simp add: installer_run)
  have root: "fst (io_ensure (st_euid (dp_host installer) = 0 \<and> full_sha sample_sha) e p) = Inr ()" for e p
    by code_simp
  have state: "fst (read_json (dp_host installer) STATE p) = Inr (JObj [(''destination'', JStr ROOT), (''lab_fixture'', JBool False),
      (''commit'', JStr sample_sha)])" for p
    by (simp add: read_json_def read_text_def observe_def io_bind_def io_lift_def installer_def deploy_host_def deploy_json_def ROOT_def)
  have deployed: "fst (check_deployed installer sample_sha p) = Inr ()" for p
    unfolding check_deployed_def Let_def
    by (rule fst_bind[OF root], rule fst_bind[OF head], rule fst_bind, simp add: io_ensure_def io_return_def, rule fst_bind[OF state])
      (simp add: io_ensure_def io_return_def io_lift_def io_bind_def subscript_def item_def)
  have content: "fst (read_text (dp_host installer) (under ROOT ''deploy/transparent-gateway.service'') p) = Inr []" for p
    by (simp add: read_text_def observe_def installer_def STATE_def under_def ROOT_def)
  have written: "fst (write_service installer sample_sha lab p) = Inr True" for p
    unfolding write_service_def Let_def
    by (intro fst_bind[OF run] fst_bind[OF installer_write] fst_bind[OF content]) (simp add: io_return_def)
  show ?thesis
    unfolding prepare_release_def by (intro fst_bind[OF deployed] fst_bind[OF written] fst_bind[OF run]) (simp add: io_return_def)
qed

lemma enabled_after_check_witness: "\<exists>moment. release_checked installer sample_sha False moment"
proof -
  obtain c where prepared: "prepare_release installer sample_sha False [] = (Inr True, c)"
    using installer_prepared by (metis prod.collapse)
  obtain r past' where run: "install_release installer sample_sha False [] = (r, past')" by fastforce
  have "prefix (c @ [(Run [''systemctl'', ''daemon-reload''], True), (Run [''systemctl'', ''enable'', SERVICE], True)]) past'"
    using run by (auto simp: install_release_def prepared installer_run io_bind_def print_def Let_def split: sum.splits)
  then obtain late where "past' = [] @ (c @ [(Run [''systemctl'', ''daemon-reload''], True)])
      @ (Run ([''systemctl'', ''enable''] @ [SERVICE]), True) # late"
    by (auto simp: prefix_def)
  from enabled_after_check[OF run this] show ?thesis by blast
qed

end
