(* ===== verification/Update_Txn.thy ===== *)
theory Update_Txn
  imports Connectors Cmd_Log
begin

text \<open>
  The transactional update of \<open>scripts/tg_update.py\<close>. Its state is the log of everything the
  program did to the host: the commands it ran, the files it replaced, each with whether it
  succeeded. What a command prints, which files exist and what they hold is decided by an
  environment that may depend on the whole log. The content of the files that \<open>atomic_json\<close>
  replaces follows from the log (\<open>replay\<close>), so a crash is a prefix of a log, and the lemmas speak
  of the journal that such a crash leaves behind.
\<close>

section \<open>Actions and the log\<close>

datatype action =
    Git "string list"
  | Compose "string list" "string list"
  | Docker "string list"
  | Systemctl string
  | Tgctl string "string list"
  | PrepareService
  | WriteTemp string json
  | Rename string json
  | SyncDir string
  | MakeTempDir string
  | FileStep string string
  | Say string

type_synonym event = "action \<times> bool"
type_synonym files = "string \<rightharpoonup> jtext"

fun replay :: "files \<Rightarrow> event list \<Rightarrow> files" where
  "replay fs [] = fs"
| "replay fs ((Rename path v, True) # es) = replay (fs(path \<mapsto> JText v)) es"
| "replay fs (_ # es) = replay fs es"

text \<open>
  The environment: the repository, the results of commands (return code and output), of file
  operations and of the parts of \<open>tgctl.py\<close> that the update calls.
\<close>

record host =
  h_root :: string
  h_files :: files
  h_exec :: "event list \<Rightarrow> action \<Rightarrow> (int \<times> string) res"
  h_exists :: "event list \<Rightarrow> string \<Rightarrow> bool"
  h_read :: "event list \<Rightarrow> string \<Rightarrow> string res"
  h_stat :: "event list \<Rightarrow> string \<Rightarrow> (int \<times> int \<times> int) res"
  h_sha256 :: "string \<Rightarrow> string"
  h_json :: "string \<Rightarrow> jtext"
  h_time :: "event list \<Rightarrow> rat"
  h_getenv :: "string \<Rightarrow> string option"
  h_systemd_unit :: "event list \<Rightarrow> string option"
  h_runtime :: "event list \<Rightarrow> (string \<rightharpoonup> string) res"
  h_temp_suffix :: string
  h_locked :: bool
  h_message :: "exn \<Rightarrow> string"

type_synonym 'a cmd = "(event list, 'a) act"

text \<open>The words of a command line.\<close>

fun words_of :: "host \<Rightarrow> action \<Rightarrow> string list" where
  "words_of h (Git arguments) = [''git'', ''-c'', ''safe.directory='' @ h_root h] @ arguments"
| "words_of h (Compose options arguments) = [''docker'', ''compose''] @ options @ arguments"
| "words_of h (Docker arguments) = ''docker'' # arguments"
| "words_of h (Systemctl act) = [''systemctl'', act, ''transparent-gateway.service'']"
| "words_of h (Tgctl script arguments) = [''python3'', script] @ arguments"
| "words_of h _ = []"

text \<open>\<open>execute\<close>; a visible command has no captured output.\<close>

definition execute :: "host \<Rightarrow> bool \<Rightarrow> action \<Rightarrow> string cmd" where
  "execute h visible a past =
     (case h_exec h past a of
        Inl e \<Rightarrow> (Inl e, past @ [(a, False)])
      | Inr (returncode, out) \<Rightarrow>
          if returncode \<noteq> 0 then
            (Inl (UpdateFailure (''command failed: '' @ join '' '' (take 3 (words_of h a)))), past @ [(a, False)])
          else (Inr (if visible then [] else out), past @ [(a, True)]))"

definition step :: "host \<Rightarrow> action \<Rightarrow> unit cmd" where
  "step h a past =
     (case h_exec h past a of
        Inl e \<Rightarrow> (Inl e, past @ [(a, False)])
      | Inr _ \<Rightarrow> (Inr (), past @ [(a, True)]))"

definition atomic_json :: "host \<Rightarrow> string \<Rightarrow> json \<Rightarrow> unit cmd" where
  "atomic_json h path v =
     io_bind (step h (WriteTemp path v)) (\<lambda>_.
     io_bind (step h (Rename path v)) (\<lambda>_.
     step h (SyncDir path)))"

definition git :: "host \<Rightarrow> string list \<Rightarrow> string cmd" where
  "git h arguments = io_bind (execute h False (Git arguments)) (\<lambda>out. io_return (strip out))"

definition clean_checkout :: "host \<Rightarrow> unit cmd" where
  "clean_checkout h =
     io_bind (git h [''status'', ''--porcelain'', ''--untracked-files=no'']) (\<lambda>changed.
     io_ensure (changed = []) (UpdateFailure (''tracked files changed; save your changes first:'' @ [LF] @ changed)))"

definition sub_path :: "string \<Rightarrow> string \<Rightarrow> string" where
  "sub_path a b = a @ ''/'' @ b"

definition fingerprint_of :: "host \<Rightarrow> string \<Rightarrow> (string \<times> json) cmd" where
  "fingerprint_of h name = observe (\<lambda>past.
     rbind (h_stat h past (sub_path (h_root h) name)) (\<lambda>(uid, gid, mode).
     rbind (h_read h past (sub_path (h_root h) name)) (\<lambda>content.
     Inr (name, JArr [JStr (h_sha256 h content), JInt uid, JInt gid, JInt mode]))))"

definition runtime_fingerprint :: "host \<Rightarrow> string list \<Rightarrow> dict cmd" where
  "runtime_fingerprint h names = for_each (fingerprint_of h) names"

section \<open>Paths\<close>

definition directory :: "host \<Rightarrow> string" where
  "directory h = sub_path (h_root h) ''runtime/update''"

definition images_path :: "host \<Rightarrow> string" where
  "images_path h = sub_path (directory h) ''images.json''"

definition journal_path :: "host \<Rightarrow> string" where
  "journal_path h = sub_path (directory h) ''transaction.json''"

definition stage_path :: "host \<Rightarrow> string" where
  "stage_path h = sub_path (directory h) (''candidate-'' @ h_temp_suffix h)"

definition file_now :: "host \<Rightarrow> string \<Rightarrow> event list \<Rightarrow> jtext option" where
  "file_now h path past = replay (h_files h) past path"

definition parse :: "host \<Rightarrow> string \<Rightarrow> json res" where
  "parse h out = json_loads (h_json h out)"

definition same_keys :: "dict \<Rightarrow> dict \<Rightarrow> bool" where
  "same_keys a b \<longleftrightarrow> set (map fst a) = set (map fst b)"

section \<open>The running installation\<close>

text \<open>The options of \<open>compose\<close>, which pin the project when an image override exists.\<close>

definition compose_options :: "pyrt \<Rightarrow> host \<Rightarrow> string list cmd" where
  "compose_options rt h = observe (\<lambda>past.
     case file_now h (images_path h) past of
       None \<Rightarrow> Inr []
     | Some t \<Rightarrow>
         rbind (json_loads t) (\<lambda>v. rbind (subscript v ''name'') (\<lambda>project.
         Inr [''--project-name'', py_str rt project, ''-f'', sub_path (h_root h) ''docker-compose.yml'',
              ''-f'', images_path h])))"

definition compose :: "pyrt \<Rightarrow> host \<Rightarrow> bool \<Rightarrow> string list \<Rightarrow> string cmd" where
  "compose rt h visible arguments =
     io_bind (compose_options rt h) (\<lambda>options. execute h visible (Compose options arguments))"

definition inspect :: "host \<Rightarrow> string \<Rightarrow> string option \<Rightarrow> json cmd" where
  "inspect h reference platform =
     io_bind (execute h False (Docker ([''image'', ''inspect'']
       @ (case platform of None \<Rightarrow> [] | Some p \<Rightarrow> if p = [] then [] else [''--platform'', p]) @ [reference])))
     (\<lambda>out. io_lift (rbind (parse h out) first_of))"

text \<open>\<open>try: m except UpdateFailure: h\<close>.\<close>

definition on_update_failure :: "'a cmd \<Rightarrow> 'a \<Rightarrow> 'a cmd" where
  "on_update_failure m d past =
     (case m past of (Inl (UpdateFailure _), past') \<Rightarrow> (Inr d, past') | r \<Rightarrow> r)"

text \<open>The platform of a container.\<close>

definition platform_text :: "dict \<Rightarrow> string res" where
  "platform_text platform =
     rbind (text_of (get_default platform ''os'' (JStr []))) (\<lambda>os.
     rbind (text_of (get_default platform ''architecture'' (JStr []))) (\<lambda>architecture.
     if truthy (get platform ''variant'') then
       rbind (text_of (get platform ''variant'')) (\<lambda>variant. Inr (os @ ''/'' @ architecture @ ''/'' @ variant))
     else Inr (os @ ''/'' @ architecture)))"

text \<open>\<open>matching\<close>: the image of the reference, when its manifest for the platform is the expected one.\<close>

definition matching :: "host \<Rightarrow> json \<Rightarrow> string \<Rightarrow> string \<Rightarrow> string option cmd" where
  "matching h expected platform reference =
     on_update_failure
       (io_bind (inspect h reference None) (\<lambda>image.
        io_bind (io_lift (rbind (subscript image ''Id'') text_of)) (\<lambda>image_id.
        io_bind (inspect h image_id (Some platform)) (\<lambda>selected.
        io_lift (rbind (attr_get selected ''Descriptor'') (\<lambda>d.
          rbind (dict_attr (or_else d (JObj []))) (\<lambda>d.
          rbind (subscript selected ''Id'') (\<lambda>selected_id.
          Inr (if py_eq (get_default d ''digest'' selected_id) expected then Some image_id else None)))))))))
       None"

fun first_match :: "(string \<Rightarrow> string option cmd) \<Rightarrow> string list \<Rightarrow> string list \<Rightarrow> string option cmd" where
  "first_match m checked [] = io_return None"
| "first_match m checked (reference # references) =
     (if reference = [] \<or> reference \<in> set checked then first_match m checked references
      else io_bind (m reference) (\<lambda>found.
        case found of
          Some image_id \<Rightarrow> if image_id = [] then first_match m (reference # checked) references else io_return found
        | None \<Rightarrow> first_match m (reference # checked) references))"

definition container_label :: string where
  "container_label = ''com.docker.compose.service''"

definition container_labels :: "json \<Rightarrow> json res" where
  "container_labels row = rbind (subscript row ''Config'') (\<lambda>c. subscript c ''Labels'')"

text \<open>The image reference of the container's configuration, when there is one.\<close>

definition configured_image :: "json \<Rightarrow> string list res" where
  "configured_image row =
     rbind (subscript row ''Config'') (\<lambda>c. rbind (attr_get c ''Image'') (\<lambda>v.
     if truthy v then rbind (text_of v) (\<lambda>s. Inr [s]) else Inr []))"

definition search_image :: "host \<Rightarrow> json \<Rightarrow> json \<Rightarrow> string \<Rightarrow> string option cmd" where
  "search_image h row expected platform =
     io_bind (io_lift (configured_image row)) (\<lambda>references.
     io_bind (first_match (matching h expected platform) [] references) (\<lambda>found.
     if found \<noteq> None then io_return found
     else io_bind (execute h False (Docker [''image'', ''ls'', ''--all'', ''--quiet'', ''--no-trunc''])) (\<lambda>out.
       first_match (matching h expected platform) references (words out))))"

definition container_image :: "host \<Rightarrow> json \<Rightarrow> string cmd" where
  "container_image h row =
     io_bind (io_lift (rbind (container_labels row) (\<lambda>l. rbind (subscript l container_label) text_of))) (\<lambda>service_name.
     io_bind (io_lift (rbind (attr_get row ''ImageManifestDescriptor'') (\<lambda>v. dict_attr (or_else v (JObj []))))) (\<lambda>descriptor.
     let expected = get descriptor ''digest'' in
     io_bind (io_lift (dict_attr (or_else (get descriptor ''platform'') (JObj [])))) (\<lambda>platform_data.
     io_bind (io_lift (platform_text platform_data)) (\<lambda>platform.
     io_bind (on_update_failure
         (io_bind (io_lift (rbind (subscript row ''Image'') text_of)) (\<lambda>reference.
          io_bind (inspect h reference None) (\<lambda>image.
          io_lift (rbind (subscript image ''Id'') (\<lambda>v. rbind (text_of v) (\<lambda>i. Inr (Some i))))))) None) (\<lambda>direct.
     case direct of
       Some image_id \<Rightarrow> io_return image_id
     | None \<Rightarrow>
         io_bind (if truthy expected \<and> truthy (get platform_data ''os'') \<and> truthy (get platform_data ''architecture'')
                  then search_image h row expected platform else io_return None) (\<lambda>found.
         case found of
           Some image_id \<Rightarrow> io_return image_id
         | None \<Rightarrow> io_raise (UpdateFailure (''cannot retain the running image for '' @ service_name
             @ ''; no matching local image found; containers have not been replaced''))))))))"

definition mount_volumes :: "string \<Rightarrow> json list \<Rightarrow> dict \<Rightarrow> dict res" where
  "mount_volumes service mounts volumes =
     foldl (\<lambda>acc mount. rbind acc (\<lambda>volumes.
       rbind (subscript mount ''Type'') (\<lambda>kind.
       if kind \<noteq> JStr ''volume'' then Inr volumes
       else rbind (rbind (subscript mount ''Destination'') text_of) (\<lambda>destination.
         rbind (subscript mount ''Name'') (\<lambda>name.
         Inr (set_item (service @ '':'' @ destination) name volumes)))))) (Inr volumes) mounts"

definition is_oneoff :: "json \<Rightarrow> bool res" where
  "is_oneoff labels =
     rbind (dict_attr labels) (\<lambda>m.
     case get_default m ''com.docker.compose.oneoff'' (JStr ''False'') of
       JStr s \<Rightarrow> Inr (lower s = ''true'')
     | _ \<Rightarrow> Inl AttributeError)"

fun scan_rows :: "host \<Rightarrow> json list \<Rightarrow> dict \<Rightarrow> dict \<Rightarrow> (dict \<times> dict) cmd" where
  "scan_rows h [] services volumes = io_return (services, volumes)"
| "scan_rows h (row # rows) services volumes =
     io_bind (io_lift (container_labels row)) (\<lambda>labels.
     io_bind (io_lift (is_oneoff labels)) (\<lambda>oneoff.
     if oneoff then scan_rows h rows services volumes
     else
       io_bind (io_lift (rbind (subscript labels container_label) text_of)) (\<lambda>service.
       io_bind (io_lift (if map_of services service \<noteq> None then Inr (JBool False)
                         else rbind (subscript row ''State'') (\<lambda>v. subscript v ''Running''))) (\<lambda>running.
       io_bind (io_ensure (truthy running)
         (UpdateFailure (''expected one running container per service: '' @ service))) (\<lambda>_.
       io_bind (container_image h row) (\<lambda>image.
       io_bind (io_lift (rbind (subscript row ''Mounts'') (\<lambda>v. rbind (elements_of v) (\<lambda>mounts.
         mount_volumes service mounts volumes)))) (\<lambda>volumes.
       scan_rows h rows (set_item service (JStr image) services) volumes)))))))"

text \<open>The project, the image of each service, and the mounted volumes.\<close>

definition current_installation :: "pyrt \<Rightarrow> host \<Rightarrow> (string \<times> dict \<times> dict) cmd" where
  "current_installation rt h =
     io_bind (compose rt h False [''config'', ''--format'', ''json'']) (\<lambda>out.
     io_bind (io_lift (parse h out)) (\<lambda>config.
     io_bind (compose rt h False [''ps'', ''--all'', ''--quiet'']) (\<lambda>out.
     let identifiers = words out in
     io_bind (io_ensure (identifiers \<noteq> []) (UpdateFailure ''no installed containers; run tgctl.py up first'')) (\<lambda>_.
     io_bind (execute h False (Docker (''inspect'' # identifiers))) (\<lambda>out.
     io_bind (io_lift (rbind (parse h out) elements_of)) (\<lambda>rows.
     io_bind (scan_rows h rows [] []) (\<lambda>(services, volumes).
     io_bind (io_lift (rbind (subscript config ''services'') items_of)) (\<lambda>configured.
     io_bind (io_ensure (same_keys services configured)
       (UpdateFailure ''installed services differ from Compose configuration'')) (\<lambda>_.
     io_bind (io_lift (rbind (subscript config ''name'') text_of)) (\<lambda>project.
     io_return (project, services, volumes)))))))))))"

definition root_prefix :: "host \<Rightarrow> string" where
  "root_prefix h = take 12 (h_sha256 h (utf8 (h_root h)))"

definition pin_image :: "host \<Rightarrow> string \<times> json \<Rightarrow> (string \<times> json) cmd" where
  "pin_image h = (\<lambda>(service, v).
     io_bind (io_lift (text_of v)) (\<lambda>identifier.
     let tag = ''tg-retained-'' @ root_prefix h @ ''-'' @ service @ '':'' @ last (split_on CHR '':'' identifier) in
     io_bind (execute h False (Docker [''tag'', identifier, tag])) (\<lambda>_.
     io_return (service, JObj [(''image'', JStr tag), (''pull_policy'', JStr ''never'')]))))"

definition pin_images :: "host \<Rightarrow> string \<Rightarrow> dict \<Rightarrow> dict cmd" where
  "pin_images h project images =
     io_bind (for_each (pin_image h) images) (\<lambda>pins.
     io_return [(''name'', JStr project), (''services'', JObj pins)])"

section \<open>Health, service and rollback\<close>

definition script_path :: "string \<Rightarrow> string" where
  "script_path d = sub_path d ''scripts/tgctl.py''"

definition health :: "pyrt \<Rightarrow> host \<Rightarrow> int \<Rightarrow> rat option \<Rightarrow> string cmd" where
  "health rt h timeout since =
     execute h True (Tgctl (script_path (h_root h)) ([''ready'', ''--timeout'', str_of_int timeout]
       @ (case since of None \<Rightarrow> [] | Some t \<Rightarrow> [''--since'', py_str rt (JFloat t)])))"

definition service :: "host \<Rightarrow> string \<Rightarrow> string cmd" where
  "service h action = execute h False (Systemctl action)"

definition say :: "host \<Rightarrow> string \<Rightarrow> unit cmd" where
  "say h message = step h (Say message)"

text \<open>The old commit and images again, up to the start of the containers; the time of that start.\<close>

definition reinstate :: "pyrt \<Rightarrow> host \<Rightarrow> json \<Rightarrow> int \<Rightarrow> rat cmd" where
  "reinstate rt h journal timeout =
     io_bind (say h ''ROLLBACK restoring_previous_version=1'') (\<lambda>_.
     io_bind (compose rt h False [''stop'', ''--timeout'', ''20'']) (\<lambda>_.
     io_bind (service h ''stop'') (\<lambda>_.
     io_bind (io_lift (rbind (subscript journal ''previous_commit'') text_of)) (\<lambda>previous.
     io_bind (git h [''checkout'', ''--detach'', previous]) (\<lambda>_.
     io_bind (io_lift (subscript journal ''previous_images'')) (\<lambda>images.
     io_bind (atomic_json h (images_path h) images) (\<lambda>_.
     io_bind (observe (\<lambda>past. Inr (h_time h past))) (\<lambda>since.
     io_bind (compose rt h True [''up'', ''--detach'', ''--no-build'', ''--pull'', ''never'']) (\<lambda>_.
     io_bind (service h ''start'') (\<lambda>_. io_return since))))))))))"

text \<open>The checks of the restored installation; the journal as a dictionary.\<close>

definition check_restored :: "pyrt \<Rightarrow> host \<Rightarrow> json \<Rightarrow> int \<Rightarrow> rat \<Rightarrow> dict cmd" where
  "check_restored rt h journal timeout since =
     io_bind (health rt h timeout (Some since)) (\<lambda>_.
     io_bind (current_installation rt h) (\<lambda>(_, _, volumes).
     io_bind (io_lift (subscript journal ''volumes'')) (\<lambda>expected.
     io_bind (io_ensure (py_eq (JObj volumes) expected)
       (UpdateFailure ''recovery mounted unexpected volumes'')) (\<lambda>_.
     io_lift (items_of journal)))))"

definition restore :: "pyrt \<Rightarrow> host \<Rightarrow> json \<Rightarrow> int \<Rightarrow> unit cmd" where
  "restore rt h journal timeout =
     io_bind (reinstate rt h journal timeout) (\<lambda>since.
     io_bind (check_restored rt h journal timeout since) (\<lambda>m.
     io_bind (atomic_json h (journal_path h) (JObj (set_item ''phase'' (JStr ''rolled_back'') m))) (\<lambda>_.
     say h ''ROLLBACK PASS previous_version_running=1'')))"

section \<open>The candidate\<close>

definition copy_runtime :: "host \<Rightarrow> string \<Rightarrow> string \<Rightarrow> unit cmd" where
  "copy_runtime h commit name =
     io_bind (git h [''ls-tree'', ''--name-only'', commit, ''--'', name]) (\<lambda>tracked.
     io_bind (io_ensure (tracked = []) (UpdateFailure (''target tracks a runtime file: '' @ name))) (\<lambda>_.
     let destination = sub_path (stage_path h) name in
     io_bind (step h (FileStep ''mkdir'' destination)) (\<lambda>_.
     io_bind (step h (FileStep ''copy'' destination)) (\<lambda>_.
     io_bind (observe (\<lambda>past. h_stat h past (sub_path (h_root h) name))) (\<lambda>_.
     step h (FileStep ''chown'' destination))))))"

text \<open>The image of a service: built from the stage, or pulled.\<close>

definition pin_service :: "host \<Rightarrow> string \<Rightarrow> string \<times> json \<Rightarrow> (string \<times> json) cmd" where
  "pin_service h commit = (\<lambda>(name, spec).
     io_bind (io_lift (attr_get spec ''build'')) (\<lambda>build.
     if truthy build then
       io_return (name, JObj [(''image'', JStr (''tg-release-'' @ root_prefix h @ ''-'' @ name @ '':'' @ commit))])
     else
       io_bind (io_lift (rbind (subscript spec ''image'') text_of)) (\<lambda>image.
       io_bind (execute h True (Docker [''pull'', image])) (\<lambda>_.
       io_return (name, JObj [(''image'', JStr image)])))))"

definition image_of_pin :: "host \<Rightarrow> string \<times> json \<Rightarrow> (string \<times> json) cmd" where
  "image_of_pin h = (\<lambda>(name, pin).
     io_bind (io_lift (rbind (subscript pin ''image'') text_of)) (\<lambda>image.
     io_bind (execute h False (Docker [''image'', ''inspect'', ''--format'', ''{{.Id}}'', image])) (\<lambda>out.
     io_return (name, JStr (strip out)))))"

definition candidate :: "host \<Rightarrow> string \<Rightarrow> string \<Rightarrow> dict \<Rightarrow> string list \<Rightarrow> dict cmd" where
  "candidate h project commit previous runtime_names =
     (let stage = stage_path h; script = script_path stage; override = sub_path stage ''update-build.json'' in
      io_bind (git h [''worktree'', ''add'', ''--detach'', stage, commit]) (\<lambda>_.
      io_bind (observe (\<lambda>past. if \<not> h_exists h past script then Inr False
                 else rbind (h_read h past script) (\<lambda>t. Inr (contains ''UPDATE_API_VERSION = 1'' t)))) (\<lambda>supported.
      io_bind (io_ensure supported (UpdateFailure ''target version does not support the update format'')) (\<lambda>_.
      io_bind (for_each (copy_runtime h commit) runtime_names) (\<lambda>_.
      io_bind (execute h True (Tgctl script [''check''])) (\<lambda>_.
      io_bind (execute h False (Compose [''--project-name'', project] [''config'', ''--format'', ''json''])) (\<lambda>out.
      io_bind (io_lift (rbind (parse h out) (\<lambda>config. rbind (subscript config ''services'') items_of))) (\<lambda>services.
      io_bind (io_ensure (same_keys services previous)
        (UpdateFailure ''this updater cannot add or remove services'')) (\<lambda>_.
      io_bind (for_each (pin_service h commit) services) (\<lambda>pins.
      io_bind (atomic_json h override (JObj [(''services'', JObj pins)])) (\<lambda>_.
      io_bind (execute h True (Compose [''--project-name'', project, ''-f'', sub_path stage ''docker-compose.yml'',
          ''-f'', override] [''build''])) (\<lambda>_.
      io_bind (for_each (image_of_pin h) pins) (\<lambda>images.
      pin_images h project images)))))))))))))"

text \<open>The named volumes of a service: pairs of source and target, in order.\<close>

definition volume_pair :: "json \<Rightarrow> (string \<times> string) list res" where
  "volume_pair v =
     rbind (subscript v ''type'') (\<lambda>kind.
     if kind \<noteq> JStr ''volume'' then Inr []
     else rbind (rbind (subscript v ''source'') text_of) (\<lambda>source.
       rbind (rbind (subscript v ''target'') text_of) (\<lambda>target. Inr [(source, target)])))"

definition service_volumes :: "string \<times> json \<Rightarrow> (string \<times> (string \<times> string) list) res" where
  "service_volumes = (\<lambda>(name, spec).
     rbind (dict_attr spec) (\<lambda>m.
     rbind (elements_of (get_default m ''volumes'' (JArr []))) (\<lambda>vs.
     rbind (rmap volume_pair vs) (\<lambda>ps.
     Inr (name, sort_key fst (sort_key snd (concat ps)))))))"

definition volume_layout :: "json \<Rightarrow> (string \<times> (string \<times> string) list) list res" where
  "volume_layout config =
     rbind (subscript config ''services'') (\<lambda>v. rbind (items_of v) (rmap service_volumes))"

section \<open>The update\<close>

record update_args =
  ua_timeout :: int
  ua_revision :: string
  ua_recover :: bool

definition override_names :: "string list" where
  "override_names = [''compose.override.yml'', ''compose.override.yaml'', ''docker-compose.override.yml'',
     ''docker-compose.override.yaml'']"

definition set_in_environment :: "host \<Rightarrow> string \<Rightarrow> bool" where
  "set_in_environment h name = (case h_getenv h name of None \<Rightarrow> False | Some v \<Rightarrow> v \<noteq> [])"

definition check_host :: "host \<Rightarrow> unit cmd" where
  "check_host h =
     io_bind (clean_checkout h) (\<lambda>_.
     io_bind (io_ensure (\<not> list_ex (set_in_environment h) [''COMPOSE_FILE'', ''COMPOSE_PROFILES''])
       (UpdateFailure ''custom Compose files/profiles are not supported by this updater'')) (\<lambda>_.
     io_bind (observe (\<lambda>past. Inr (list_ex (\<lambda>n. h_exists h past (sub_path (h_root h) n)) override_names))) (\<lambda>overridden.
     io_bind (io_ensure (\<not> overridden)
       (UpdateFailure ''custom Compose override files are not supported by this updater'')) (\<lambda>_.
     io_bind (observe (\<lambda>past. Inr (h_systemd_unit h past))) (\<lambda>unit_text.
     io_bind (io_ensure (unit_text \<noteq> None)
       (UpdateFailure ''install the systemd service with tgctl.py up before updating'')) (\<lambda>_.
     io_ensure (''WorkingDirectory='' @ h_root h \<in> set (splitlines (the unit_text)))
       (UpdateFailure ''systemd service belongs to another checkout; run tgctl.py up here first'')))))))"

text \<open>The journal of an earlier update that did not reach a final phase.\<close>

definition interrupted :: "host \<Rightarrow> json option cmd" where
  "interrupted h = observe (\<lambda>past.
     case file_now h (journal_path h) past of
       None \<Rightarrow> Inr None
     | Some t \<Rightarrow>
         rbind (json_loads t) (\<lambda>old. rbind (subscript old ''phase'') (\<lambda>phase.
         Inr (if phase = JStr ''complete'' \<or> phase = JStr ''rolled_back'' then None else Some old))))"

record plan =
  pl_previous :: string
  pl_target :: string
  pl_retained :: dict
  pl_volumes :: dict
  pl_pins :: dict
  pl_baseline :: dict

definition custom_compose_in_env :: "(string \<rightharpoonup> string) \<Rightarrow> bool" where
  "custom_compose_in_env values \<longleftrightarrow>
     list_ex (\<lambda>n. case values n of None \<Rightarrow> False | Some v \<Rightarrow> v \<noteq> []) [''COMPOSE_FILE'', ''COMPOSE_PROFILES'']"

definition same_map :: "(string \<times> 'v) list \<Rightarrow> (string \<times> 'v) list \<Rightarrow> bool" where
  "same_map a b = list_all (\<lambda>k. map_of a k = map_of b k) (map fst a @ map fst b)"

definition compare_configs :: "json \<Rightarrow> json \<Rightarrow> unit res" where
  "compare_configs old_config new_config =
     rbind (dict_attr old_config) (\<lambda>old. rbind (dict_attr new_config) (\<lambda>new.
     rbind (if \<not> py_eq (get_default old ''volumes'' (JObj [])) (get_default new ''volumes'' (JObj [])) then Inr False
            else rbind (volume_layout old_config) (\<lambda>a. rbind (volume_layout new_config) (\<lambda>b. Inr (same_map a b)))) (\<lambda>same.
     rbind (ensure same (UpdateFailure ''volume definitions changed; automatic update is not supported'')) (\<lambda>_.
     rbind (rbind (subscript old_config ''services'') (\<lambda>s. subscript s ''redis'')) (\<lambda>a.
     rbind (rbind (subscript new_config ''services'') (\<lambda>s. subscript s ''redis'')) (\<lambda>b.
     ensure (py_eq a b)
       (UpdateFailure ''Redis configuration changed; a separate data migration is required'')))))))"

text \<open>The project, its images and volumes, the commit that runs and the one to install.\<close>

definition identify :: "pyrt \<Rightarrow> host \<Rightarrow> update_args \<Rightarrow> ((string \<times> dict \<times> dict) \<times> string \<times> string) cmd" where
  "identify rt h args =
     io_bind (observe (h_runtime h)) (\<lambda>values.
     io_bind (io_ensure (\<not> custom_compose_in_env values)
       (UpdateFailure ''custom Compose files/profiles in .env are not supported by this updater'')) (\<lambda>_.
     io_bind (health rt h (ua_timeout args) None) (\<lambda>_.
     io_bind (current_installation rt h) (\<lambda>installation.
     io_bind (git h [''rev-parse'', ''HEAD'']) (\<lambda>previous.
     io_bind (io_ensure (\<not> starts_with ''-'' (ua_revision args) \<and> strip (ua_revision args) \<noteq> [])
       (UpdateFailure ''invalid revision'')) (\<lambda>_.
     io_bind (say h ''UPDATE preparing=1'') (\<lambda>_.
     io_bind (git h [''fetch'', ''--no-tags'', ''origin'', ua_revision args]) (\<lambda>_.
     io_bind (git h [''rev-parse'', ''--verify'', ''FETCH_HEAD^{commit}'']) (\<lambda>target.
     io_bind (say h (''UPDATE from='' @ take 12 previous @ '' to='' @ take 12 target)) (\<lambda>_.
     io_return (installation, previous, target)))))))))))"

text \<open>The new images in a private worktree, and the checks that the switch keeps the data.\<close>

definition build_target :: "host \<Rightarrow> string list \<Rightarrow> string \<Rightarrow> dict \<Rightarrow> string \<Rightarrow> dict \<Rightarrow> dict cmd" where
  "build_target h runtime_names project images target baseline =
     io_bind (step h (MakeTempDir (stage_path h))) (\<lambda>_.
     io_bind (step h (FileStep ''rmdir'' (stage_path h))) (\<lambda>_.
     io_bind (say h ''UPDATE phase=prepare_images current_gateway_running=1'') (\<lambda>_.
     io_bind (candidate h project target images runtime_names) (\<lambda>pins.
     io_bind (clean_checkout h) (\<lambda>_.
     io_bind (runtime_fingerprint h runtime_names) (\<lambda>now.
     io_bind (io_ensure (py_eq (JObj now) (JObj baseline))
       (UpdateFailure ''runtime files changed during preparation; retry the update'')) (\<lambda>_.
     io_bind (execute h False (Compose [''--project-name'', project, ''-f'', sub_path (h_root h) ''docker-compose.yml'']
       [''config'', ''--format'', ''json''])) (\<lambda>old_out.
     io_bind (io_lift (parse h old_out)) (\<lambda>old_config.
     io_bind (execute h False (Compose [''--project-name'', project] [''config'', ''--format'', ''json''])) (\<lambda>new_out.
     io_bind (io_lift (rbind (parse h new_out) (compare_configs old_config))) (\<lambda>_.
     io_return pins)))))))))))"

definition stage_target ::
    "host \<Rightarrow> string list \<Rightarrow> string \<times> dict \<times> dict \<Rightarrow> string \<Rightarrow> string \<Rightarrow> plan cmd" where
  "stage_target h runtime_names installation previous target =
     (case installation of (project, images, volumes) \<Rightarrow>
       io_bind (runtime_fingerprint h runtime_names) (\<lambda>baseline.
       io_bind (pin_images h project images) (\<lambda>retained.
       io_bind (build_target h runtime_names project images target baseline) (\<lambda>pins.
       io_return \<lparr>pl_previous = previous, pl_target = target, pl_retained = retained,
         pl_volumes = volumes, pl_pins = pins, pl_baseline = baseline\<rparr>))))"

text \<open>\<open>None\<close> when the target is the commit that runs already.\<close>

definition prepare :: "pyrt \<Rightarrow> host \<Rightarrow> string list \<Rightarrow> update_args \<Rightarrow> plan option cmd" where
  "prepare rt h runtime_names args =
     io_bind (identify rt h args) (\<lambda>(installation, previous, target).
     if target = previous then
       io_bind (say h (''UPDATE unchanged=1 commit='' @ target)) (\<lambda>_. io_return None)
     else
       io_bind (stage_target h runtime_names installation previous target) (\<lambda>plan. io_return (Some plan)))"

definition journal_of :: "plan \<Rightarrow> string \<Rightarrow> dict" where
  "journal_of plan phase =
     [(''phase'', JStr phase), (''previous_commit'', JStr (pl_previous plan)),
      (''target_commit'', JStr (pl_target plan)), (''previous_images'', JObj (pl_retained plan)),
      (''volumes'', JObj (pl_volumes plan))]"

text \<open>The switch itself, up to the start of the new containers, and the checks after it.\<close>

definition replace_containers :: "pyrt \<Rightarrow> host \<Rightarrow> plan \<Rightarrow> rat cmd" where
  "replace_containers rt h plan =
     io_bind (step h PrepareService) (\<lambda>_.
     io_bind (say h ''UPDATE phase=replace_containers'') (\<lambda>_.
     io_bind (service h ''stop'') (\<lambda>_.
     io_bind (git h [''checkout'', ''--detach'', pl_target plan]) (\<lambda>_.
     io_bind (atomic_json h (images_path h) (JObj (pl_pins plan))) (\<lambda>_.
     io_bind (observe (\<lambda>past. Inr (h_time h past))) (\<lambda>since.
     io_bind (compose rt h True [''up'', ''--detach'', ''--no-build'', ''--pull'', ''never'']) (\<lambda>_.
     io_bind (service h ''start'') (\<lambda>_. io_return since))))))))"

definition check_update :: "pyrt \<Rightarrow> host \<Rightarrow> string list \<Rightarrow> int \<Rightarrow> plan \<Rightarrow> rat \<Rightarrow> unit cmd" where
  "check_update rt h runtime_names timeout plan since =
     io_bind (say h ''UPDATE phase=check_readiness'') (\<lambda>_.
     io_bind (health rt h timeout (Some since)) (\<lambda>_.
     io_bind (current_installation rt h) (\<lambda>(_, _, after_volumes).
     io_bind (if py_eq (JObj after_volumes) (JObj (pl_volumes plan)) then runtime_fingerprint h runtime_names
              else io_raise (UpdateFailure ''runtime files or mounted volumes changed'')) (\<lambda>now.
     io_ensure (py_eq (JObj now) (JObj (pl_baseline plan)))
       (UpdateFailure ''runtime files or mounted volumes changed'')))))"

definition switch :: "pyrt \<Rightarrow> host \<Rightarrow> string list \<Rightarrow> update_args \<Rightarrow> plan \<Rightarrow> unit cmd" where
  "switch rt h runtime_names args plan =
     io_bind (replace_containers rt h plan) (\<lambda>since.
     io_bind (check_update rt h runtime_names (ua_timeout args) plan since) (\<lambda>_.
     io_bind (atomic_json h (journal_path h) (JObj (journal_of plan ''complete''))) (\<lambda>_.
     say h (''UPDATE PASS commit='' @ pl_target plan @ '' runtime_preserved=1''))))"

text \<open>
  The body up to the first change of the installation: \<open>None\<close> when there is nothing to switch
  (an earlier update was rolled back, or the target runs already). From the value \<open>Some\<close> on the
  journal is on disk and \<open>switched\<close> is true.
\<close>

definition begin_update :: "pyrt \<Rightarrow> host \<Rightarrow> string list \<Rightarrow> update_args \<Rightarrow> plan option cmd" where
  "begin_update rt h runtime_names args =
     io_bind (check_host h) (\<lambda>_.
     io_bind (interrupted h) (\<lambda>old.
     case old of
       Some journal \<Rightarrow>
         io_bind (io_ensure (ua_recover args)
           (UpdateFailure ''interrupted update found; run tgctl.py update --recover'')) (\<lambda>_.
         io_bind (restore rt h journal (ua_timeout args)) (\<lambda>_. io_return None))
     | None \<Rightarrow>
         io_bind (io_ensure (\<not> ua_recover args) (UpdateFailure ''no interrupted update to recover'')) (\<lambda>_.
         io_bind (prepare rt h runtime_names args) (\<lambda>found.
         case found of
           None \<Rightarrow> io_return None
         | Some plan \<Rightarrow>
             io_bind (atomic_json h (journal_path h) (JObj (journal_of plan ''switching''))) (\<lambda>_.
             io_return (Some plan))))))"

text \<open>\<open>str(error)\<close>.\<close>

definition message :: "host \<Rightarrow> exn \<Rightarrow> string" where
  "message h e = (case e of UpdateFailure m \<Rightarrow> m | UserError m \<Rightarrow> m | _ \<Rightarrow> h_message h e)"

definition restored_message :: string where
  "restored_message = ''update failed; previous version restored: ''"

definition unrecovered_message :: string where
  "unrecovered_message = ''update failed; automatic recovery failed; run update --recover: ''"

definition recover_switch :: "pyrt \<Rightarrow> host \<Rightarrow> int \<Rightarrow> plan \<Rightarrow> exn \<Rightarrow> unit cmd" where
  "recover_switch rt h timeout plan e past =
     (case restore rt h (JObj (journal_of plan ''switching'')) timeout past of
        (Inl e', past') \<Rightarrow> (Inl (UserError (unrecovered_message @ message h e')), past')
      | (Inr _, past') \<Rightarrow> (Inl (UserError (restored_message @ message h e)), past'))"

text \<open>The statement \<open>try ... except\<close>.\<close>

definition transaction :: "pyrt \<Rightarrow> host \<Rightarrow> string list \<Rightarrow> update_args \<Rightarrow> unit cmd" where
  "transaction rt h runtime_names args past =
     (case begin_update rt h runtime_names args past of
        (Inl e, past1) \<Rightarrow> (Inl (UserError (message h e)), past1)
      | (Inr None, past1) \<Rightarrow> (Inr (), past1)
      | (Inr (Some plan), past1) \<Rightarrow>
          (case switch rt h runtime_names args plan past1 of
             (Inl e, past2) \<Rightarrow> recover_switch rt h (ua_timeout args) plan e past2
           | (Inr _, past2) \<Rightarrow> (Inr (), past2)))"

text \<open>The \<open>finally\<close> clause: only the worktree of this run is removed, if it has one.\<close>

definition stage_created :: "host \<Rightarrow> event list \<Rightarrow> bool" where
  "stage_created h events \<longleftrightarrow> (MakeTempDir (stage_path h), True) \<in> set events"

definition remove_stage :: "host \<Rightarrow> unit res \<Rightarrow> unit cmd" where
  "remove_stage h r past =
     (case git h [''worktree'', ''remove'', ''--force'', stage_path h] past of
        (Inl (UpdateFailure _), past') \<Rightarrow> (r, past')
      | (Inl TimeoutExpired, past') \<Rightarrow> (r, past')
      | (Inl e, past') \<Rightarrow> (Inl e, past')
      | (Inr _, past') \<Rightarrow> (r, past'))"

definition with_cleanup :: "host \<Rightarrow> unit cmd \<Rightarrow> unit cmd" where
  "with_cleanup h m past =
     (case m past of (r, past') \<Rightarrow>
        if stage_created h (drop (length past) past') then remove_stage h r past' else (r, past'))"

definition lock_path :: "host \<Rightarrow> string" where
  "lock_path h = sub_path (directory h) ''lock''"

definition update :: "pyrt \<Rightarrow> host \<Rightarrow> string list \<Rightarrow> update_args \<Rightarrow> unit cmd" where
  "update rt h runtime_names args =
     io_bind (io_ensure (0 < ua_timeout args) (UserError ''--timeout must be positive'')) (\<lambda>_.
     io_bind (step h (FileStep ''mkdir'' (directory h))) (\<lambda>_.
     io_bind (step h (FileStep ''chmod'' (directory h))) (\<lambda>_.
     io_bind (step h (FileStep ''open'' (lock_path h))) (\<lambda>_.
     io_bind (io_ensure (\<not> h_locked h) (UserError ''another update is already running'')) (\<lambda>_.
     with_cleanup h (transaction rt h runtime_names args))))))"

end
