(* ===== verification/Update_Safety.thy ===== *)
theory Update_Safety
  imports Update_Txn
begin

text \<open>
  The safety of the transactional update: what each step adds to the log (\<open>emits\<close>), what a crash
  at any point leaves on disk, and what a returned or raised result says about the installation.
\<close>

section \<open>What a step adds to the log\<close>

lemma emits_step [emits_intros]: "(\<And>success. P (a, success)) \<Longrightarrow> emits P (step h a)"
  by (auto simp: emits_def step_def split: sum.splits)

lemma emits_execute [emits_intros]: "(\<And>success. P (a, success)) \<Longrightarrow> emits P (execute h v a)"
  by (auto simp: emits_def execute_def split: sum.splits prod.splits if_splits)

lemma emits_on_update_failure [emits_intros]:
  assumes "emits P m" shows "emits P (on_update_failure m d)"
proof (rule emitsI)
  fix past r past' assume run: "on_update_failure m d past = (r, past')"
  obtain q mid where first: "m past = (q, mid)" by fastforce
  then have "past' = mid"
    using run by (auto simp: on_update_failure_def split: sum.splits exn.splits)
  then show "\<exists>new. past' = past @ new \<and> list_all P new" using assms first by (metis emitsE)
qed

lemma emits_first_match [emits_intros]: "(\<And>x. emits P (m x)) \<Longrightarrow> emits P (first_match m checked xs)"
  by (induction m checked xs rule: first_match.induct) (auto intro!: emits_intros split: option.splits)

section \<open>Changes of the installation\<close>

text \<open>The actions that change what runs: containers, unit, checkout, pinned images.\<close>

fun destructive :: "host \<Rightarrow> action \<Rightarrow> bool" where
  "destructive h (Systemctl _) = True"
| "destructive h PrepareService = True"
| "destructive h (Compose _ (c # _)) = (c = ''up'' \<or> c = ''stop'')"
| "destructive h (Git (c # _)) = (c = ''checkout'')"
| "destructive h (Rename path _) = (path = images_path h)"
| "destructive h _ = False"

fun journal_write :: "host \<Rightarrow> action \<Rightarrow> bool" where
  "journal_write h (Rename path _) = (path = journal_path h)"
| "journal_write h _ = False"

definition quiet :: "host \<Rightarrow> event \<Rightarrow> bool" where
  "quiet h = (\<lambda>(a, _). \<not> destructive h a \<and> \<not> journal_write h a)"

definition unjournalled :: "host \<Rightarrow> event \<Rightarrow> bool" where
  "unjournalled h = (\<lambda>(a, _). \<not> journal_write h a)"

lemma quiet_unjournalled: "quiet h e \<Longrightarrow> unjournalled h e"
  by (auto simp: quiet_def unjournalled_def)

lemma directory_paths [simp]:
  "images_path h \<noteq> journal_path h" "journal_path h \<noteq> images_path h"
  "sub_path (stage_path h) name \<noteq> journal_path h" "sub_path (stage_path h) name \<noteq> images_path h"
  by (simp_all add: images_path_def journal_path_def stage_path_def sub_path_def)

lemma emits_git [emits_intros]: "(\<And>success. P (Git arguments, success)) \<Longrightarrow> emits P (git h arguments)"
  by (auto simp: git_def intro!: emits_intros)

lemma emits_atomic_json [emits_intros]:
  "(\<And>success. P (WriteTemp path v, success)) \<Longrightarrow> (\<And>success. P (Rename path v, success)) \<Longrightarrow> (\<And>success. P (SyncDir path, success)) \<Longrightarrow>
   emits P (atomic_json h path v)"
  by (auto simp: atomic_json_def intro!: emits_intros)

lemma emits_compose [emits_intros]:
  "(\<And>options success. P (Compose options arguments, success)) \<Longrightarrow> emits P (compose rt h visible arguments)"
  by (auto simp: compose_def compose_options_def intro!: emits_intros)

lemma emits_inspect [emits_intros]: "(\<And>arguments success. P (Docker arguments, success)) \<Longrightarrow> emits P (inspect h reference platform)"
  by (auto simp: inspect_def intro!: emits_intros)

lemma emits_container_image [emits_intros]:
  "(\<And>arguments success. P (Docker arguments, success)) \<Longrightarrow> emits P (container_image h row)"
  unfolding container_image_def search_image_def matching_def Let_def
  by (intro emits_intros) simp_all

lemma emits_scan_rows [emits_intros]:
  "(\<And>arguments success. P (Docker arguments, success)) \<Longrightarrow> emits P (scan_rows h rows services volumes)"
proof (induction rows arbitrary: services volumes)
  case Nil
  show ?case by (simp add: emits_intros)
next
  case (Cons row rows)
  show ?case
    by (subst scan_rows.simps(2)) (intro emits_intros Cons.IH Cons.prems)
qed

lemma emits_current_installation [emits_intros]: "emits (quiet h) (current_installation rt h)"
  unfolding current_installation_def Let_def
  by (intro emits_intros) (simp_all add: quiet_def)

lemma emits_pin_images [emits_intros]: "emits (quiet h) (pin_images h project images)"
  unfolding pin_images_def pin_image_def Let_def
  by (intro emits_intros) (simp_all add: quiet_def)

lemma emits_say [emits_intros]: "emits (quiet h) (say h line)"
  unfolding say_def by (intro emits_intros) (simp add: quiet_def)

lemma emits_health [emits_intros]: "emits (quiet h) (health rt h timeout since)"
  unfolding health_def by (intro emits_intros) (simp add: quiet_def)

lemma emits_runtime_fingerprint [emits_intros]: "emits P (runtime_fingerprint h names)"
  unfolding runtime_fingerprint_def fingerprint_of_def by (intro emits_intros)

lemma emits_clean_checkout [emits_intros]: "emits (quiet h) (clean_checkout h)"
  unfolding clean_checkout_def by (intro emits_intros) (simp add: quiet_def)

lemma emits_check_host [emits_intros]: "emits (quiet h) (check_host h)"
  unfolding check_host_def by (intro emits_intros)

lemma emits_candidate [emits_intros]: "emits (quiet h) (candidate h project commit previous names)"
  unfolding candidate_def copy_runtime_def pin_service_def image_of_pin_def Let_def
  by (intro emits_intros) (simp_all add: quiet_def)

lemma emits_stage_target [emits_intros]: "emits (quiet h) (stage_target h names installation previous target)"
  unfolding stage_target_def build_target_def
  by (intro emits_intros) (simp_all add: quiet_def)

lemma emits_prepare [emits_intros]: "emits (quiet h) (prepare rt h names args)"
  unfolding prepare_def identify_def
  by (intro emits_intros) (simp_all add: quiet_def)

section \<open>What the log says of the installation\<close>

text \<open>The commit that was checked out last.\<close>

fun checkout_event :: "string option \<Rightarrow> event \<Rightarrow> string option" where
  "checkout_event c (Git [act, detach, commit], True) = (if act = ''checkout'' then Some commit else c)"
| "checkout_event c _ = c"

definition checked_out :: "event list \<Rightarrow> string option" where
  "checked_out events = foldl checkout_event None events"

text \<open>A readiness check passed after the last change of the installation.\<close>

fun ready_event :: "host \<Rightarrow> bool \<Rightarrow> event \<Rightarrow> bool" where
  "ready_event h b (Tgctl script (act # _), success) = (if act = ''ready'' \<and> success then True else b)"
| "ready_event h b (a, _) = (if destructive h a then False else b)"

definition ready_now :: "host \<Rightarrow> event list \<Rightarrow> bool" where
  "ready_now h events = foldl (ready_event h) False events"

lemma ready_event_quiet: "\<not> destructive h a \<Longrightarrow> b \<Longrightarrow> ready_event h b (a, success)"
  by (cases "(h, b, (a, success))" rule: ready_event.cases) auto

lemma checkout_event_quiet: "\<not> destructive h a \<Longrightarrow> checkout_event c (a, success) = c"
  by (cases "(c, (a, success))" rule: checkout_event.cases) auto

lemma ready_now_quiet: "list_all (quiet h) new \<Longrightarrow> ready_now h past \<Longrightarrow> ready_now h (past @ new)"
  by (induction new rule: rev_induct) (auto simp: ready_now_def quiet_def intro: ready_event_quiet)

lemma checked_out_quiet: "list_all (quiet h) new \<Longrightarrow> checked_out (past @ new) = checked_out past"
  by (induction new rule: rev_induct) (auto simp: checked_out_def quiet_def checkout_event_quiet)

lemma replay_append: "replay fs (es @ fs') = replay (replay fs es) fs'"
  by (induction fs es rule: replay.induct) (simp_all add: fun_upd_def)

lemma file_now_append: "file_now h path (past @ new) = replay (replay (h_files h) past) new path"
  by (simp add: file_now_def replay_append)

lemma replay_untouched:
  "(\<And>v success. (Rename path v, success) \<notin> set es) \<Longrightarrow> replay fs es path = fs path"
proof (induction fs es rule: replay.induct)
  case (2 fs p v es)
  then have "p \<noteq> path" by force
  with 2 show ?case by (simp add: fun_upd_def)
qed (simp_all)

lemma file_now_quiet:
  assumes "list_all (quiet h) new"
  shows "file_now h (images_path h) (past @ new) = file_now h (images_path h) past"
    and "file_now h (journal_path h) (past @ new) = file_now h (journal_path h) past"
proof -
  have "(Rename (images_path h) v, success) \<notin> set new" "(Rename (journal_path h) v, success) \<notin> set new" for v success
    using assms by (auto simp: list_all_iff quiet_def)
  then show "file_now h (images_path h) (past @ new) = file_now h (images_path h) past"
    "file_now h (journal_path h) (past @ new) = file_now h (journal_path h) past"
    by (simp_all add: file_now_append replay_untouched) (simp_all add: file_now_def)
qed

lemma execute_Inr: "execute h v a past = (Inr out, past') \<Longrightarrow> past' = past @ [(a, True)]"
  by (auto simp: execute_def split: sum.splits prod.splits if_splits)

lemma step_Inr: "step h a past = (Inr u, past') \<Longrightarrow> past' = past @ [(a, True)]"
  by (auto simp: step_def split: sum.splits)

lemma git_Inr:
  "git h arguments past = (Inr out, past') \<Longrightarrow>
   past' = past @ [(Git arguments, True)] \<and> (\<exists>text. h_exec h past (Git arguments) = Inr (0, text) \<and> out = strip text)"
  unfolding git_def execute_def
  by (auto simp: io_simps split: sum.splits prod.splits if_splits)

lemma atomic_json_Inr:
  "atomic_json h path v past = (Inr u, past') \<Longrightarrow>
   past' = past @ [(WriteTemp path v, True), (Rename path v, True), (SyncDir path, True)]"
  unfolding atomic_json_def by (auto elim!: io_bindE dest!: step_Inr)

lemma compose_Inr:
  "compose rt h v arguments past = (Inr out, past') \<Longrightarrow> \<exists>options. past' = past @ [(Compose options arguments, True)]"
  unfolding compose_def compose_options_def observe_def
  by (auto elim!: io_bindE dest!: execute_Inr)

lemmas command_Inr = execute_Inr step_Inr atomic_json_Inr

lemma health_ready:
  assumes "health rt h timeout since past = (Inr out, past')"
  shows "ready_now h past'"
  using assms unfolding health_def
  by (auto dest!: execute_Inr simp: ready_now_def)

text \<open>A health check followed by inspections only.\<close>

lemma ready_after:
  assumes "io_bind (health rt h timeout since) f past = (Inr y, past')" "\<And>x. emits (quiet h) (f x)"
  shows "ready_now h past'"
proof -
  obtain x mid where "health rt h timeout since past = (Inr x, mid)" "f x mid = (Inr y, past')"
    using assms(1) by (rule io_bindE)
  then show ?thesis using assms(2) health_ready ready_now_quiet emitsE by metis
qed

section \<open>What a returned value says\<close>

lemma emits_any_installation: "emits (\<lambda>_. True) (current_installation rt h)"
  by (rule emits_mono [OF emits_current_installation]) simp

lemma identify_installation:
  assumes "identify rt h args past = (Inr (installation, previous, target), past')"
  shows "\<exists>c c' out. current_installation rt h c = (Inr installation, c') \<and> prefix c' past'
    \<and> h_exec h c' (Git [''rev-parse'', ''HEAD'']) = Inr (0, out) \<and> previous = strip out"
  using assms unfolding identify_def say_def
  by (elim io_bindE) (fastforce simp: io_return_eq io_ensure_Inr prefix_def dest!: git_Inr step_Inr)

text \<open>The pin of a service names a tag that was set, successfully, on the image of this service.\<close>

definition pinned :: "event list \<Rightarrow> string \<times> json \<Rightarrow> string \<times> json \<Rightarrow> bool" where
  "pinned events = (\<lambda>(service, image) (service', pin). service' = service \<and> (\<exists>identifier tag. image = JStr identifier
     \<and> pin = JObj [(''image'', JStr tag), (''pull_policy'', JStr ''never'')]
     \<and> (Docker [''tag'', identifier, tag], True) \<in> set events))"

lemma pinned_later: "pinned past x y \<Longrightarrow> prefix past events \<Longrightarrow> pinned events x y"
  by (auto simp: pinned_def prefix_def split: prod.splits)

lemma emits_pin_image: "emits (\<lambda>_. True) (pin_image h x)"
  unfolding pin_image_def Let_def by (intro emits_intros) simp

lemma pin_image_Inr: "pin_image h x past = (Inr y, past') \<Longrightarrow> pinned past' x y"
  unfolding pin_image_def pinned_def Let_def
  by (auto elim!: io_bindE dest!: execute_Inr simp: io_return_eq io_lift_eq text_of_Inr split: prod.splits)

lemma pin_images_pinned:
  assumes "pin_images h project images past = (Inr retained, past')"
  shows "\<exists>pins. retained = [(''name'', JStr project), (''services'', JObj pins)] \<and> list_all2 (pinned past') images pins"
proof -
  obtain pins where run: "for_each (pin_image h) images past = (Inr pins, past')"
    and retained: "retained = [(''name'', JStr project), (''services'', JObj pins)]"
    using assms unfolding pin_images_def by (auto elim!: io_bindE simp: io_return_eq)
  have "list_all2 (pinned past') images pins"
    using run
  proof (induction images arbitrary: past pins)
    case (Cons x images)
    then obtain y c ys where *: "pin_image h x past = (Inr y, c)" "for_each (pin_image h) images c = (Inr ys, past')" "pins = y # ys"
      by (auto elim!: io_bindE simp: io_return_eq)
    have "emits (\<lambda>_. True) (for_each (pin_image h) images)" by (rule emits_for_each) (rule emits_pin_image)
    then have "prefix c past'" using *(2) by (rule emits_prefix)
    then show ?case using pinned_later[OF pin_image_Inr[OF *(1)]] Cons.IH[OF *(2)] *(3) by simp
  qed (simp add: io_return_eq)
  then show ?thesis using retained by blast
qed

lemma emits_build_target: "emits (\<lambda>_. True) (build_target h names project images target baseline)"
  unfolding build_target_def candidate_def copy_runtime_def pin_service_def image_of_pin_def
    clean_checkout_def say_def pin_images_def pin_image_def Let_def
  by (intro emits_intros) simp_all

lemma stage_target_plan:
  assumes "stage_target h names (project, images, volumes) previous target past = (Inr plan, past')"
  shows "pl_previous plan = previous \<and> pl_target plan = target \<and> pl_volumes plan = volumes \<and>
    (\<exists>pins. pl_retained plan = [(''name'', JStr project), (''services'', JObj pins)] \<and>
      list_all2 (pinned past') images pins)"
proof -
  obtain c retained c' pins r where pin: "pin_images h project images c = (Inr retained, c')"
    and build: "build_target h names project images target pins c' = (r, past')"
    and plan: "pl_previous plan = previous" "pl_target plan = target" "pl_volumes plan = volumes" "pl_retained plan = retained"
    using assms unfolding stage_target_def by (auto elim!: io_bindE simp: io_return_eq)
  have later: "prefix c' past'" using emits_prefix[OF emits_build_target build] .
  obtain kept where "retained = [(''name'', JStr project), (''services'', JObj kept)]" "list_all2 (pinned c') images kept"
    using pin_images_pinned[OF pin] by blast
  then show ?thesis
    using plan pinned_later[OF _ later] by (auto elim: list_all2_mono)
qed

section \<open>The phases of a transaction\<close>

definition calm :: "host \<Rightarrow> event \<Rightarrow> bool" where
  "calm h = (\<lambda>(a, _). \<not> destructive h a)"

lemma quiet_calm: "quiet h e \<Longrightarrow> calm h e"
  by (auto simp: quiet_def calm_def)

text \<open>Every value written to the journal is in the set.\<close>

definition journal_values :: "host \<Rightarrow> json set \<Rightarrow> event \<Rightarrow> bool" where
  "journal_values h V = (\<lambda>(a, _). \<forall>v. a = Rename (journal_path h) v \<longrightarrow> v \<in> V)"

lemma unjournalled_values: "unjournalled h e \<Longrightarrow> journal_values h V e"
  by (auto simp: unjournalled_def journal_values_def)

lemma quiet_values: "quiet h e \<Longrightarrow> journal_values h V e"
  by (rule unjournalled_values) (rule quiet_unjournalled)

lemma journal_values_mono: "journal_values h V e \<Longrightarrow> V \<subseteq> W \<Longrightarrow> journal_values h W e"
  by (auto simp: journal_values_def)

lemma list_all_unjournalled:
  "list_all (unjournalled h) es \<Longrightarrow> list_all (journal_values h V) es"
  "list_all (quiet h) es \<Longrightarrow> list_all (unjournalled h) es"
  "list_all (quiet h) es \<Longrightarrow> list_all (calm h) es"
  using unjournalled_values quiet_unjournalled quiet_calm by (auto simp: list_all_iff)

lemma file_now_unjournalled:
  assumes "list_all (unjournalled h) new"
  shows "file_now h (journal_path h) (past @ new) = file_now h (journal_path h) past"
proof -
  have "(Rename (journal_path h) v, success) \<notin> set new" for v success
    using assms by (auto simp: list_all_iff unjournalled_def)
  then show ?thesis by (simp add: file_now_append replay_untouched) (simp add: file_now_def)
qed

lemma ready_now_calm: "list_all (calm h) new \<Longrightarrow> ready_now h past \<Longrightarrow> ready_now h (past @ new)"
  by (induction new rule: rev_induct) (auto simp: ready_now_def calm_def intro: ready_event_quiet)

lemma replay_values:
  assumes "list_all (journal_values h V) es" "fs (journal_path h) = Some (JText v)" "v \<in> V"
  shows "\<exists>w \<in> V. replay fs es (journal_path h) = Some (JText w)"
  using assms
proof (induction fs es arbitrary: v rule: replay.induct)
  case (2 fs path w es)
  show ?case
  proof (cases "path = journal_path h")
    case True
    then show ?thesis using 2 by (simp add: journal_values_def fun_upd_def)
  next
    case False
    then show ?thesis using 2 by (simp add: journal_values_def fun_upd_def)
  qed
qed auto

text \<open>With only one value to write, a file keeps its content or has that value.\<close>

lemma replay_one:
  "list_all (journal_values h {v}) es \<Longrightarrow>
   replay fs es (journal_path h) = fs (journal_path h) \<or> replay fs es (journal_path h) = Some (JText v)"
proof (induction fs es rule: replay.induct)
  case (2 fs path w es)
  then show ?case by (cases "path = journal_path h") (auto simp: journal_values_def fun_upd_def)
qed auto

lemma emits_reinstate: "emits (unjournalled h) (reinstate rt h journal timeout)"
  unfolding reinstate_def service_def say_def
  by (intro emits_intros) (simp_all add: unjournalled_def)

lemma emits_replace_containers: "emits (unjournalled h) (replace_containers rt h plan)"
  unfolding replace_containers_def service_def say_def
  by (intro emits_intros) (simp_all add: unjournalled_def)

lemma emits_check_update [emits_intros]: "emits (quiet h) (check_update rt h names timeout plan since)"
  unfolding check_update_def by (intro emits_intros)

lemmas emits_values =
  emits_mono [OF emits_reinstate unjournalled_values] emits_mono [OF emits_replace_containers unjournalled_values]
  emits_mono [OF emits_say quiet_values] emits_mono [OF emits_check_update quiet_values]

lemma emits_check_restored [emits_intros]: "emits (quiet h) (check_restored rt h journal timeout since)"
  unfolding check_restored_def by (intro emits_intros)

lemma check_restored_Inr:
  assumes "check_restored rt h journal timeout since past = (Inr m, past')"
  shows "journal = JObj m" "ready_now h past'"
proof -
  show "journal = JObj m"
    using assms unfolding check_restored_def
    by (auto elim!: io_bindE simp: io_lift_eq items_of_def split: json.splits)
  show "ready_now h past'"
    using assms unfolding check_restored_def by (rule ready_after) (intro emits_intros)
qed

text \<open>A restore up to the new journal, and from there on.\<close>

lemma restore_parts:
  assumes "restore rt h journal timeout past = (r, past')"
  shows "\<exists>pre post. past' = past @ pre @ post \<and> list_all (unjournalled h) pre \<and>
    (post = [] \<or> (ready_now h (past @ pre) \<and>
       (\<exists>m. journal = JObj m \<and> list_all (calm h) post \<and>
         list_all (journal_values h {JObj (set_item ''phase'' (JStr ''rolled_back'') m)}) post)))"
proof -
  obtain q1 c1 where reinstate: "reinstate rt h journal timeout past = (q1, c1)" by fastforce
  obtain pre1 where pre1: "c1 = past @ pre1" "list_all (unjournalled h) pre1"
    using emits_reinstate reinstate by (rule emitsE)
  show ?thesis
  proof (cases q1)
    case (Inl e)
    then show ?thesis using assms reinstate pre1 unfolding restore_def by auto
  next
    case (Inr since)
    obtain q2 c2 where check: "check_restored rt h journal timeout since c1 = (q2, c2)" by fastforce
    obtain pre2 where pre2: "c2 = c1 @ pre2" "list_all (quiet h) pre2"
      using emits_check_restored check by (rule emitsE)
    then have un: "list_all (unjournalled h) pre2"
      by (auto elim: list.pred_mono_strong intro: quiet_unjournalled)
    show ?thesis
    proof (cases q2)
      case (Inl e)
      then have "past' = past @ (pre1 @ pre2) @ []"
        using assms reinstate check pre1 pre2 \<open>q1 = Inr since\<close> unfolding restore_def by simp
      then show ?thesis using pre1 un by (intro exI[of _ "pre1 @ pre2"] exI[of _ "[]"]) simp
    next
      case (Inr m)
      let ?finish = "io_bind (atomic_json h (journal_path h) (JObj (set_item ''phase'' (JStr ''rolled_back'') m)))
          (\<lambda>_. say h ''ROLLBACK PASS previous_version_running=1'')"
      have run: "?finish c2 = (r, past')"
        using assms reinstate check \<open>q1 = Inr since\<close> Inr unfolding restore_def by simp
      have "emits (\<lambda>e. calm h e \<and> journal_values h {JObj (set_item ''phase'' (JStr ''rolled_back'') m)} e) ?finish"
        unfolding say_def by (intro emits_intros) (simp_all add: calm_def journal_values_def)
      then obtain post where "past' = c2 @ post"
        "list_all (\<lambda>e. calm h e \<and> journal_values h {JObj (set_item ''phase'' (JStr ''rolled_back'') m)} e) post"
        using run by (rule emitsE)
      then have "past' = past @ (pre1 @ pre2) @ post" "list_all (calm h) post"
        "list_all (journal_values h {JObj (set_item ''phase'' (JStr ''rolled_back'') m)}) post"
        using pre1 pre2 by (simp_all add: list_all_iff)
      moreover have "journal = JObj m" "ready_now h (past @ pre1 @ pre2)"
        using check_restored_Inr check Inr pre1 pre2 by simp_all
      ultimately show ?thesis
        using pre1 un by (intro exI[of _ "pre1 @ pre2"] exI[of _ post]) simp
    qed
  qed
qed

lemma emits_restore:
  "emits (journal_values h {JObj (set_item ''phase'' (JStr ''rolled_back'') m)}) (restore rt h (JObj m) timeout)"
proof (rule emitsI)
  fix past r past' assume "restore rt h (JObj m) timeout past = (r, past')"
  from restore_parts[OF this] show "\<exists>new. past' = past @ new \<and>
      list_all (journal_values h {JObj (set_item ''phase'' (JStr ''rolled_back'') m)}) new"
    using list_all_unjournalled by fastforce
qed

lemma emits_switch: "emits (journal_values h {JObj (journal_of plan ''complete'')}) (switch rt h names args plan)"
  unfolding switch_def
  by (intro emits_intros emits_values; simp add: journal_values_def)

definition journals :: "plan \<Rightarrow> json set" where
  "journals plan = (\<lambda>phase. JObj (journal_of plan phase)) ` {''switching'', ''complete'', ''rolled_back''}"

lemma journal_rolled_back: "set_item ''phase'' (JStr p) (journal_of plan q) = journal_of plan p"
  by (simp add: journal_of_def)

text \<open>The log between the journal and the end: only its three values are written.\<close>

lemma emits_recover_switch: "emits (journal_values h (journals plan)) (recover_switch rt h timeout plan e)"
proof (rule emitsI)
  fix past r past' assume run: "recover_switch rt h timeout plan e past = (r, past')"
  obtain q mid where first: "restore rt h (JObj (journal_of plan ''switching'')) timeout past = (q, mid)" by fastforce
  then have "past' = mid" using run by (auto simp: recover_switch_def split: sum.splits)
  moreover have "emits (journal_values h (journals plan)) (restore rt h (JObj (journal_of plan ''switching'')) timeout)"
    by (rule emits_mono[OF emits_restore]) (auto simp: journal_rolled_back journals_def elim: journal_values_mono)
  ultimately show "\<exists>new. past' = past @ new \<and> list_all (journal_values h (journals plan)) new"
    using first by (auto elim: emitsE)
qed

text \<open>Before the journal nothing is changed; afterwards it names the plan.\<close>

text \<open>
  The plan names the installation of before: at one moment of the log the running images and volumes
  were inspected and \<open>HEAD\<close> was read; the plan has this commit, these volumes, and a tag on
  the image of every service.
\<close>

definition old_installation :: "pyrt \<Rightarrow> host \<Rightarrow> event list \<Rightarrow> plan \<Rightarrow> bool" where
  "old_installation rt h early plan \<longleftrightarrow> (\<exists>c c' out project images pins.
     current_installation rt h c = (Inr (project, images, pl_volumes plan), c') \<and> prefix c' early
     \<and> h_exec h c' (Git [''rev-parse'', ''HEAD'']) = Inr (0, out) \<and> pl_previous plan = strip out
     \<and> pl_retained plan = [(''name'', JStr project), (''services'', JObj pins)] \<and> list_all2 (pinned early) images pins)"

definition journalled_run :: "pyrt \<Rightarrow> host \<Rightarrow> plan \<Rightarrow> event list \<Rightarrow> event list \<Rightarrow> bool" where
  "journalled_run rt h plan early late \<longleftrightarrow>
     list_all (calm h) early \<and> list_all (journal_values h (journals plan)) late \<and>
     file_now h (journal_path h) early = Some (JText (JObj (journal_of plan ''switching''))) \<and>
     old_installation rt h early plan"

lemma check_host_calm: "emits (calm h) (check_host h)"
  by (rule emits_mono [OF emits_check_host]) (rule quiet_calm)

lemma prepare_calm: "emits (calm h) (prepare rt h names args)"
  by (rule emits_mono [OF emits_prepare]) (rule quiet_calm)

lemma begin_update_calm:
  assumes "\<not> ua_recover args" shows "emits (calm h) (begin_update rt h names args)"
proof -
  have journal: "emits (calm h) (atomic_json h (journal_path h) v)" for v
    by (intro emits_intros) (simp_all add: calm_def)
  show ?thesis
    unfolding begin_update_def io_bind_ensure interrupted_def if_not_P[OF assms] if_P[OF assms]
    by (intro emits_intros check_host_calm prepare_calm journal)
qed

lemma begin_update_Some:
  assumes "begin_update rt h names args past = (Inr (Some plan), past')" "list_all (calm h) past"
  shows "journalled_run rt h plan past' []"
proof -
  obtain c c' where prepare: "prepare rt h names args c = (Inr (Some plan), c')"
    and journal: "atomic_json h (journal_path h) (JObj (journal_of plan ''switching'')) c' = (Inr (), past')"
    and check: "check_host h past = (Inr (), c)"
    using assms(1) unfolding begin_update_def interrupted_def observe_def
    by (auto elim!: io_bindE simp: io_return_eq io_ensure_Inr split: option.splits)
  obtain c1 c2 installation previous target where identify: "identify rt h args c = (Inr (installation, previous, target), c1)"
    and stage: "stage_target h names installation previous target c1 = (Inr plan, c')"
    using prepare unfolding prepare_def
    by (auto elim!: io_bindE simp: io_return_eq split: if_splits prod.splits)
  obtain project images volumes where installation: "installation = (project, images, volumes)"
    by (cases installation)
  have past': "past' = c' @ [(WriteTemp (journal_path h) (JObj (journal_of plan ''switching'')), True),
      (Rename (journal_path h) (JObj (journal_of plan ''switching'')), True), (SyncDir (journal_path h), True)]"
    using journal by (rule atomic_json_Inr)
  have pre: "prefix c1 c'" "prefix c' past'"
    using emits_prefix[OF emits_stage_target stage] past' by simp_all
  have "list_all (calm h) c"
    using emits_list_all[OF check_host_calm check] assms(2) by blast
  then have "list_all (calm h) c'"
    using emits_list_all[OF prepare_calm prepare] by blast
  then have "list_all (calm h) past'"
    using past' by (simp add: calm_def)
  moreover have "file_now h (journal_path h) past' = Some (JText (JObj (journal_of plan ''switching'')))"
    using past' by (simp add: file_now_def replay_append)
  moreover have "old_installation rt h past' plan"
  proof -
    obtain before after out where seen: "current_installation rt h before = (Inr (project, images, volumes), after)"
      "prefix after c1" "h_exec h after (Git [''rev-parse'', ''HEAD'']) = Inr (0, out)" "previous = strip out"
      using identify_installation[OF identify] installation by blast
    obtain pins where plan: "pl_previous plan = previous" "pl_volumes plan = volumes"
      "pl_retained plan = [(''name'', JStr project), (''services'', JObj pins)]" "list_all2 (pinned c') images pins"
      using stage_target_plan[OF stage[unfolded installation]] by blast
    have "prefix after past'" using seen(2) pre by (blast intro: prefix_order.trans)
    moreover have "list_all2 (pinned past') images pins"
      using plan(4) by (rule list_all2_mono) (rule pinned_later[OF _ pre(2)])
    ultimately show ?thesis
      using seen(1,3,4) plan(1-3) unfolding old_installation_def by blast
  qed
  ultimately show ?thesis by (simp add: journalled_run_def)
qed

lemma journalled_run_extend:
  "journalled_run rt h plan early late \<Longrightarrow> list_all (journal_values h (journals plan)) rest \<Longrightarrow>
   journalled_run rt h plan early (late @ rest)"
  by (simp add: journalled_run_def)

text \<open>Whatever part of the late events has happened, the journal is one of the three.\<close>

lemma journalled_on_disk:
  assumes "journalled_run rt h plan early (late @ lost)"
  shows "\<exists>phase. phase \<in> {''switching'', ''complete'', ''rolled_back''} \<and>
    file_now h (journal_path h) (early @ late) = Some (JText (JObj (journal_of plan phase)))"
proof -
  have "list_all (journal_values h (journals plan)) late"
    "replay (h_files h) early (journal_path h) = Some (JText (JObj (journal_of plan ''switching'')))"
    using assms by (simp_all add: journalled_run_def file_now_def list_all_append)
  then obtain w where "w \<in> journals plan" "replay (replay (h_files h) early) late (journal_path h) = Some (JText w)"
    using replay_values[of h "journals plan" late "replay (h_files h) early" "JObj (journal_of plan ''switching'')"]
    by (auto simp: journals_def)
  then show ?thesis
    unfolding file_now_append journals_def by blast
qed

lemma transaction_journalled:
  assumes run: "transaction rt h names args past = (r, events)"
    and args: "\<not> ua_recover args" and past: "list_all (calm h) past"
  shows "list_all (calm h) events \<or> (\<exists>plan early late. begin_update rt h names args past = (Inr (Some plan), early)
    \<and> events = early @ late \<and> journalled_run rt h plan early late)"
proof -
  obtain q mid where first: "begin_update rt h names args past = (q, mid)" by fastforce
  have calm: "list_all (calm h) mid"
    using emits_list_all[OF begin_update_calm[OF args] first] past by blast
  show ?thesis
  proof (cases "\<exists>plan. q = Inr (Some plan)")
    case False
    then have "events = mid"
      using run first by (auto simp: transaction_def split: sum.splits option.splits)
    then show ?thesis using calm by simp
  next
    case True
    then obtain plan where q: "q = Inr (Some plan)" ..
    have start: "journalled_run rt h plan mid []" using begin_update_Some first past q by blast
    obtain s mid2 where second: "switch rt h names args plan mid = (s, mid2)" by fastforce
    have switch: "emits (journal_values h (journals plan)) (switch rt h names args plan)"
      by (rule emits_mono[OF emits_switch]) (auto simp: journals_def elim: journal_values_mono)
    obtain new where new: "mid2 = mid @ new" "list_all (journal_values h (journals plan)) new"
      using switch second by (rule emitsE)
    obtain rest where "events = mid2 @ rest" "list_all (journal_values h (journals plan)) rest"
    proof (cases s)
      case (Inl e)
      then have "recover_switch rt h (ua_timeout args) plan e mid2 = (r, events)"
        using run first second q by (simp add: transaction_def)
      with emits_recover_switch show ?thesis by (rule emitsE) (rule that)
    next
      case (Inr x)
      then have "events = mid2 @ []" using run first second q by (simp add: transaction_def)
      then show ?thesis by (rule that) simp
    qed
    then show ?thesis
      using journalled_run_extend[OF start, of "new @ rest"] new first q by auto
  qed
qed

section \<open>What a finished restore or switch means\<close>

lemma say_Inr: "say h line past = (Inr u, past') \<Longrightarrow> past' = past @ [(Say line, True)]"
  unfolding say_def by (rule step_Inr)

lemma service_Inr: "service h act past = (Inr u, past') \<Longrightarrow> past' = past @ [(Systemctl act, True)]"
  unfolding service_def by (rule execute_Inr)

lemma reinstate_Inr:
  assumes "reinstate rt h journal timeout past = (Inr since, past')"
  shows "\<exists>previous images. subscript journal ''previous_commit'' = Inr (JStr previous) \<and>
    subscript journal ''previous_images'' = Inr images \<and> checked_out past' = Some previous \<and>
    file_now h (images_path h) past' = Some (JText images)"
  using assms unfolding reinstate_def
  by (elim io_bindE)
     (auto dest!: say_Inr compose_Inr service_Inr git_Inr atomic_json_Inr
       simp: io_lift_eq io_return_eq observe_def rbind_eq_Inr text_of_Inr checked_out_def file_now_def replay_append)

lemma restore_Inr:
  assumes "restore rt h journal timeout past = (Inr (), past')"
  shows "\<exists>m previous images. journal = JObj m \<and> subscript journal ''previous_commit'' = Inr (JStr previous) \<and>
    subscript journal ''previous_images'' = Inr images \<and> checked_out past' = Some previous \<and>
    file_now h (images_path h) past' = Some (JText images) \<and>
    file_now h (journal_path h) past' = Some (JText (JObj (set_item ''phase'' (JStr ''rolled_back'') m))) \<and>
    ready_now h past'"
proof -
  obtain since c1 c3 m where reinstate: "reinstate rt h journal timeout past = (Inr since, c1)"
    and check: "check_restored rt h journal timeout since c1 = (Inr m, c3)"
    and past': "past' = c3 @ [(WriteTemp (journal_path h) (JObj (set_item ''phase'' (JStr ''rolled_back'') m)), True),
       (Rename (journal_path h) (JObj (set_item ''phase'' (JStr ''rolled_back'') m)), True),
       (SyncDir (journal_path h), True), (Say ''ROLLBACK PASS previous_version_running=1'', True)]"
    using assms unfolding restore_def by (auto elim!: io_bindE dest!: say_Inr atomic_json_Inr)
  obtain new where new: "c3 = c1 @ new" "list_all (quiet h) new"
    using emits_check_restored check by (rule emitsE)
  obtain previous images where *: "subscript journal ''previous_commit'' = Inr (JStr previous)"
    "subscript journal ''previous_images'' = Inr images" "checked_out c1 = Some previous"
    "file_now h (images_path h) c1 = Some (JText images)"
    using reinstate_Inr[OF reinstate] by blast
  have "checked_out c3 = Some previous"
    using * new by (simp add: checked_out_quiet)
  then have "checked_out past' = Some previous"
    by (simp add: past' checked_out_def)
  moreover have "file_now h (images_path h) c3 = Some (JText images)"
    using * new file_now_quiet(1) by metis
  then have "file_now h (images_path h) past' = Some (JText images)"
    by (simp add: past' file_now_def replay_append)
  moreover have "ready_now h c3"
    by (rule check_restored_Inr(2)[OF check])
  then have "ready_now h past'"
    by (simp add: past' ready_now_def)
  moreover have "file_now h (journal_path h) past' = Some (JText (JObj (set_item ''phase'' (JStr ''rolled_back'') m)))"
    by (simp add: past' file_now_def replay_append)
  ultimately show ?thesis using * check_restored_Inr(1)[OF check] by blast
qed

lemma switch_Inr:
  assumes "switch rt h names args plan past = (Inr (), past')"
  shows "checked_out past' = Some (pl_target plan) \<and> file_now h (images_path h) past' = Some (JText (JObj (pl_pins plan))) \<and>
    file_now h (journal_path h) past' = Some (JText (JObj (journal_of plan ''complete''))) \<and> ready_now h past'"
proof -
  obtain since c1 c2 where replace: "replace_containers rt h plan past = (Inr since, c1)"
    and check: "check_update rt h names (ua_timeout args) plan since c1 = (Inr (), c2)"
    and past': "past' = c2 @ [(WriteTemp (journal_path h) (JObj (journal_of plan ''complete'')), True),
       (Rename (journal_path h) (JObj (journal_of plan ''complete'')), True),
       (SyncDir (journal_path h), True), (Say (''UPDATE PASS commit='' @ pl_target plan @ '' runtime_preserved=1''), True)]"
    using assms unfolding switch_def by (auto elim!: io_bindE dest!: say_Inr atomic_json_Inr)
  have *: "checked_out c1 = Some (pl_target plan)" "file_now h (images_path h) c1 = Some (JText (JObj (pl_pins plan)))"
    using replace unfolding replace_containers_def
    by (auto elim!: io_bindE dest!: say_Inr compose_Inr service_Inr git_Inr atomic_json_Inr step_Inr
        simp: io_return_eq observe_def checked_out_def file_now_def replay_append)
  obtain new where new: "c2 = c1 @ new" "list_all (quiet h) new"
    using emits_check_update check by (rule emitsE)
  have "ready_now h c2"
    using check unfolding check_update_def
    by (rule io_bindE) (erule ready_after, intro emits_intros)
  moreover have "checked_out c2 = Some (pl_target plan)"
    using * new by (simp add: checked_out_quiet)
  moreover have "file_now h (images_path h) c2 = Some (JText (JObj (pl_pins plan)))"
    using * new file_now_quiet(1) by metis
  ultimately show ?thesis
    by (simp add: past' ready_now_def checked_out_def file_now_def replay_append)
qed

lemma begin_update_None:
  assumes "begin_update rt h names args past = (Inr None, past')"
  shows "ready_now h past'"
proof (cases "\<exists>journal c. restore rt h journal (ua_timeout args) c = (Inr (), past')")
  case True
  then show ?thesis using restore_Inr by blast
next
  case False
  then obtain c where "prepare rt h names args c = (Inr None, past')"
    using assms unfolding begin_update_def
    by (auto elim!: io_bindE simp: io_return_eq split: option.splits)
  then obtain c1 installation previous target where identify: "identify rt h args c = (Inr (installation, previous, target), c1)"
    and say: "say h (''UPDATE unchanged=1 commit='' @ target) c1 = (Inr (), past')"
    unfolding prepare_def by (auto elim!: io_bindE simp: io_return_eq split: if_splits)
  have "ready_now h c1"
    using identify unfolding identify_def
    by (elim io_bindE[of "observe (h_runtime h)"] io_bindE[of "io_ensure _ _"])
       (erule ready_after, intro emits_intros; simp add: quiet_def)
  then show ?thesis
    using say_Inr[OF say] by (simp add: ready_now_def)
qed

lemma transaction_Inr:
  assumes "transaction rt h names args past = (Inr (), past')"
  shows "ready_now h past'"
  using assms begin_update_None switch_Inr
  by (auto simp: transaction_def recover_switch_def split: prod.splits sum.splits option.splits)

text \<open>The locking and the cleanup around the transaction change nothing.\<close>

lemma emits_remove_stage: "emits (quiet h) (remove_stage h r)"
proof (rule emitsI)
  fix past q past' assume run: "remove_stage h r past = (q, past')"
  obtain s mid where first: "git h [''worktree'', ''remove'', ''--force'', stage_path h] past = (s, mid)" by fastforce
  then have "past' = mid"
    using run by (auto simp: remove_stage_def split: sum.splits exn.splits)
  moreover have "emits (quiet h) (git h [''worktree'', ''remove'', ''--force'', stage_path h])"
    by (intro emits_intros) (simp add: quiet_def)
  ultimately show "\<exists>new. past' = past @ new \<and> list_all (quiet h) new"
    using first by (auto elim: emitsE)
qed

lemma with_cleanup_run:
  assumes "with_cleanup h m past = (r, past')"
  shows "\<exists>q mid tail. m past = (q, mid) \<and> past' = mid @ tail \<and> list_all (quiet h) tail \<and> (r = q \<or> (\<exists>e. r = Inl e))"
proof -
  obtain q mid where first: "m past = (q, mid)" by fastforce
  show ?thesis
  proof (cases "stage_created h (drop (length past) mid)")
    case True
    then have remove: "remove_stage h q mid = (r, past')" using assms first by (simp add: with_cleanup_def)
    then have "r = q \<or> (\<exists>e. r = Inl e)"
      by (auto simp: remove_stage_def split: prod.splits sum.splits exn.splits)
    then show ?thesis using emitsE[OF emits_remove_stage remove] first by metis
  next
    case False
    then show ?thesis using assms first by (simp add: with_cleanup_def)
  qed
qed

lemma update_runs:
  assumes "update rt h names args [] = (r, events)"
  shows "(list_all (quiet h) events \<and> (\<exists>e. r = Inl e)) \<or>
    (\<exists>past q mid tail. list_all (quiet h) past \<and> transaction rt h names args past = (q, mid) \<and>
       events = mid @ tail \<and> list_all (quiet h) tail \<and> (r = q \<or> (\<exists>e. r = Inl e)))"
proof -
  let ?start = "io_bind (step h (FileStep ''mkdir'' (directory h))) (\<lambda>_.
     io_bind (step h (FileStep ''chmod'' (directory h))) (\<lambda>_.
     io_bind (step h (FileStep ''open'' (lock_path h))) (\<lambda>_.
     io_ensure (\<not> h_locked h) (UserError ''another update is already running''))))"
  have quiet: "emits (quiet h) ?start" by (intro emits_intros) (simp_all add: quiet_def)
  have "update rt h names args = io_bind (io_ensure (0 < ua_timeout args) (UserError ''--timeout must be positive''))
      (\<lambda>_. io_bind ?start (\<lambda>_. with_cleanup h (transaction rt h names args)))"
    unfolding update_def by (rule ext) (auto simp: io_bind_def split: prod.splits sum.splits)
  then have run: "io_bind (io_ensure (0 < ua_timeout args) (UserError ''--timeout must be positive''))
      (\<lambda>_. io_bind ?start (\<lambda>_. with_cleanup h (transaction rt h names args))) [] = (r, events)"
    using assms by simp
  show ?thesis
  proof (cases "0 < ua_timeout args")
    case False
    then show ?thesis using run by (auto simp: io_bind_ensure io_raise_def)
  next
    case True
    then have run: "io_bind ?start (\<lambda>_. with_cleanup h (transaction rt h names args)) [] = (r, events)"
      using run by (simp only: io_bind_ensure if_True)
    obtain s past where prelude: "?start [] = (s, past)" by fastforce
    have past: "list_all (quiet h) past" using emits_list_all[OF quiet prelude] by simp
    show ?thesis
    proof (cases s)
      case (Inl e)
      then have "r = Inl e" "past = events" using run prelude by simp_all
      then show ?thesis using past by blast
    next
      case (Inr u)
      then have "with_cleanup h (transaction rt h names args) past = (r, events)"
        using run prelude by simp
      from with_cleanup_run[OF this] past show ?thesis by blast
    qed
  qed
qed

lemma recovery_begin:
  assumes "transaction rt h names args past = (q, mid)" "ua_recover args"
  shows "\<exists>s. begin_update rt h names args past = (s, mid) \<and> (\<nexists>plan. s = Inr (Some plan))"
proof -
  obtain s mid' where entry: "begin_update rt h names args past = (s, mid')" by fastforce
  have "s \<noteq> Inr (Some plan)" for plan
  proof
    assume "s = Inr (Some plan)"
    then show False using entry assms(2) unfolding begin_update_def
      by (auto elim!: io_bindE simp: io_return_eq io_ensure_Inr split: option.splits)
  qed
  then show ?thesis using assms(1) entry by (auto simp: transaction_def split: sum.splits option.splits)
qed

text \<open>A recovery before and after its new journal.\<close>

lemma recovery_parts:
  assumes "update rt h names args [] = (r, events)" "ua_recover args"
    and "h_files h (journal_path h) = Some t" "json_loads t = Inr (JObj m)"
  shows "\<exists>pre post. events = pre @ post \<and> list_all (unjournalled h) pre \<and>
    (post = [] \<or> (ready_now h pre \<and> list_all (calm h) post \<and>
      list_all (journal_values h {JObj (set_item ''phase'' (JStr ''rolled_back'') m)}) post))"
proof (cases "list_all (unjournalled h) events")
  case True
  then show ?thesis by (intro exI[of _ events] exI[of _ "[]"]) simp
next
  case False
  then obtain past q mid tail where past: "list_all (quiet h) past" and run: "transaction rt h names args past = (q, mid)"
    and events: "events = mid @ tail" and tail: "list_all (quiet h) tail"
    using update_runs[OF assms(1)] list_all_unjournalled(2) by blast
  have calm_tail: "list_all (unjournalled h) tail" "list_all (calm h) tail"
      "list_all (journal_values h V) tail" for V
    using tail list_all_unjournalled by blast+
  obtain s where entry: "begin_update rt h names args past = (s, mid)" and s: "\<nexists>plan. s = Inr (Some plan)"
    using recovery_begin[OF run assms(2)] by blast
  obtain q1 c where check: "check_host h past = (q1, c)" by fastforce
  obtain new where new: "c = past @ new" "list_all (quiet h) new"
    using emits_check_host check by (rule emitsE)
  have c: "list_all (unjournalled h) c" using new past list_all_unjournalled(2) by simp
  have c_file: "file_now h (journal_path h) c = Some t"
    using file_now_unjournalled[OF c, of "[]"] assms(3) by (simp add: file_now_def)
  have "mid \<noteq> c"
    using False c calm_tail(1) events by auto
  then obtain q2 where restore: "restore rt h (JObj m) (ua_timeout args) c = (q2, mid)"
    using entry check c_file assms(2,4) unfolding begin_update_def interrupted_def observe_def
    by (auto simp: io_bind_ensure io_raise_def io_bind_def io_return_def rbind_eq_Inr
        split: prod.splits sum.splits option.splits if_splits)
  obtain pre post where parts: "mid = c @ pre @ post" "list_all (unjournalled h) pre"
    "post = [] \<or> (ready_now h (c @ pre) \<and> list_all (calm h) post \<and>
       list_all (journal_values h {JObj (set_item ''phase'' (JStr ''rolled_back'') m)}) post)"
    using restore_parts[OF restore] by auto
  show ?thesis
  proof (cases "post = []")
    case True
    then have "list_all (unjournalled h) events" using events parts c calm_tail(1) by simp
    then show ?thesis using False by blast
  next
    case False
    then show ?thesis
      using parts events c calm_tail by (intro exI[of _ "c @ pre"] exI[of _ "post @ tail"]) simp
  qed
qed

section \<open>Properties\<close>

text \<open>
  C3. A crash of an update (without \<open>--recover\<close>) at any point after the first action that changes
  the installation (unit, containers, checkout or pinned images, even one that failed) leaves the
  journal of this update on disk. The journal names the installation of before the first change: the commit
  that \<open>HEAD\<close> was at, the mounted volumes, and for each running service a tag that was set on its image.
  (A journal that says \<open>complete\<close> too early is the subject of \<open>rollback_without_journal\<close> below.)
\<close>

theorem crash_leaves_journal:
  assumes "update rt h names args [] = (r, events)" "\<not> ua_recover args"
    and "events = crashed @ lost" "(a, success) \<in> set crashed" "destructive h a"
  shows "\<exists>plan phase early.
    file_now h (journal_path h) crashed = Some (JText (JObj (journal_of plan phase))) \<and>
    phase \<in> {''switching'', ''complete'', ''rolled_back''} \<and>
    prefix early crashed \<and> list_all (calm h) early \<and> old_installation rt h early plan"
proof -
  have not_calm: "\<not> list_all (calm h) crashed"
    using assms(4,5) by (auto simp: list_all_iff calm_def)
  have not_quiet: "\<not> list_all (quiet h) events"
    using assms(3-5) by (auto simp: list_all_iff quiet_def)
  then obtain past q mid tail where past: "list_all (quiet h) past" and run: "transaction rt h names args past = (q, mid)"
    and events: "events = mid @ tail" and tail: "list_all (quiet h) tail"
    using update_runs[OF assms(1)] by blast
  have past_calm: "list_all (calm h) past" using past by (rule list.pred_mono_strong) (rule quiet_calm)
  have tail_calm: "list_all (calm h) tail" using tail by (rule list.pred_mono_strong) (rule quiet_calm)
  have "\<not> list_all (calm h) mid"
    using not_calm tail_calm events assms(3) by (metis list_all_append)
  then obtain plan early late where mid: "mid = early @ late" and journalled: "journalled_run rt h plan early late"
    using transaction_journalled[OF run assms(2) past_calm] by blast
  have "list_all (journal_values h (journals plan)) tail"
    using tail by (rule list.pred_mono_strong) (rule quiet_values)
  then have whole: "journalled_run rt h plan early (late @ tail)"
    using journalled by (rule journalled_run_extend[rotated])
  have early_calm: "list_all (calm h) early" using journalled by (simp add: journalled_run_def)
  obtain us where us: "crashed = early @ us" "late @ tail = us @ lost"
  proof -
    have "crashed @ lost = early @ (late @ tail)" using assms(3) events mid by simp
    then show ?thesis
      using not_calm early_calm that unfolding append_eq_append_conv2 by (auto simp: list_all_append)
  qed
  obtain phase where "phase \<in> {''switching'', ''complete'', ''rolled_back''}"
    "file_now h (journal_path h) crashed = Some (JText (JObj (journal_of plan phase)))"
    using journalled_on_disk[of rt h plan early us lost] whole us by auto
  then show ?thesis
    using journalled us(1) unfolding journalled_run_def by (blast intro: prefixI)
qed

text \<open>
  C8. When \<open>update\<close> returns (a finished switch, a finished recovery, or nothing to do), a readiness
  check has passed after the last action that changed the installation.
\<close>

theorem update_returns_ready:
  assumes "update rt h names args [] = (Inr (), events)"
  shows "ready_now h events"
  using update_runs[OF assms] transaction_Inr ready_now_quiet by auto

text \<open>
  C7. An update that raises after it has changed the installation either ends with the installation of
  before the first change restored, and says so: the commit that \<open>HEAD\<close> was at is checked out, the tags
  on the images that ran then are pinned, a readiness check passed after that, and the journal is
  rolled back; or it says that the recovery failed, with the journal of this installation still on disk.
\<close>

theorem failed_update_rolls_back:
  assumes run: "transaction rt h names args past = (Inl e, events)"
    and "\<not> ua_recover args" "list_all (calm h) past" "(a, success) \<in> set events" "destructive h a"
  shows "\<exists>plan early m. prefix early events \<and> list_all (calm h) early \<and> old_installation rt h early plan \<and>
    ((e = UserError (restored_message @ m) \<and>
      checked_out events = Some (pl_previous plan) \<and>
      file_now h (images_path h) events = Some (JText (JObj (pl_retained plan))) \<and> ready_now h events \<and>
      file_now h (journal_path h) events = Some (JText (JObj (journal_of plan ''rolled_back'')))) \<or>
    (e = UserError (unrecovered_message @ m) \<and>
      (\<exists>phase. file_now h (journal_path h) events = Some (JText (JObj (journal_of plan phase))))))"
proof -
  have "\<not> list_all (calm h) events" using assms(4,5) by (auto simp: list_all_iff calm_def)
  then obtain plan early late where first: "begin_update rt h names args past = (Inr (Some plan), early)"
    and events: "events = early @ late" and journalled: "journalled_run rt h plan early late"
    using transaction_journalled[OF run assms(2,3)] by blast
  have before: "prefix early events" "list_all (calm h) early" "old_installation rt h early plan"
    using events journalled by (simp_all add: journalled_run_def)
  obtain e1 mid where "switch rt h names args plan early = (Inl e1, mid)"
    and recover: "recover_switch rt h (ua_timeout args) plan e1 mid = (Inl e, events)"
    using run first by (auto simp: transaction_def split: prod.splits sum.splits)
  let ?journal = "JObj (journal_of plan ''switching'')"
  show ?thesis
  proof (cases "fst (restore rt h ?journal (ua_timeout args) mid)")
    case (Inl e2)
    then have "e = UserError (unrecovered_message @ message h e2)"
      using recover by (auto simp: recover_switch_def split: prod.splits)
    moreover have "\<exists>phase. file_now h (journal_path h) events = Some (JText (JObj (journal_of plan phase)))"
      using journalled_on_disk[of rt h plan early late "[]"] journalled events by auto
    ultimately show ?thesis using before by blast
  next
    case (Inr u)
    then have restore: "restore rt h ?journal (ua_timeout args) mid = (Inr (), events)"
      and e: "e = UserError (restored_message @ message h e1)"
      using recover by (auto simp: recover_switch_def split: prod.splits sum.splits)
    have "subscript ?journal ''previous_commit'' = Inr (JStr (pl_previous plan))"
      "subscript ?journal ''previous_images'' = Inr (JObj (pl_retained plan))"
      by (simp_all add: subscript_def item_def journal_of_def)
    then have "checked_out events = Some (pl_previous plan)" "ready_now h events"
      "file_now h (images_path h) events = Some (JText (JObj (pl_retained plan)))"
      "file_now h (journal_path h) events = Some (JText (JObj (journal_of plan ''rolled_back'')))"
      using restore_Inr[OF restore] by (auto simp: journal_rolled_back)
    then show ?thesis using before e by blast
  qed
qed

text \<open>
  C22. A crash during \<open>update --recover\<close> leaves the journal of the interrupted update as it was,
  so that the recovery can be repeated, or marked as rolled back, and then a readiness check has
  passed after the last change.
\<close>

theorem recovery_is_repeatable:
  assumes "update rt h names args [] = (r, events)" "ua_recover args" "events = crashed @ lost"
    and "h_files h (journal_path h) = Some t" "json_loads t = Inr (JObj m)"
  shows "file_now h (journal_path h) crashed = Some t \<or>
    (file_now h (journal_path h) crashed = Some (JText (JObj (set_item ''phase'' (JStr ''rolled_back'') m))) \<and>
     ready_now h crashed)"
proof -
  have start: "file_now h (journal_path h) [] = Some t" using assms(4) by (simp add: file_now_def)
  obtain pre post where events: "events = pre @ post" and pre: "list_all (unjournalled h) pre"
    and post: "post = [] \<or> (ready_now h pre \<and> list_all (calm h) post \<and>
      list_all (journal_values h {JObj (set_item ''phase'' (JStr ''rolled_back'') m)}) post)"
    using recovery_parts[OF assms(1,2,4,5)] by blast
  from events assms(3) have "(\<exists>us. crashed = pre @ us \<and> post = us @ lost) \<or> (\<exists>us. pre = crashed @ us)"
    by (auto simp: append_eq_append_conv2)
  then show ?thesis
  proof (elim disjE exE conjE)
    fix us assume "pre = crashed @ us"
    then have "list_all (unjournalled h) crashed" using pre by simp
    then show ?thesis using file_now_unjournalled[of h crashed "[]"] start by simp
  next
    fix us assume us: "crashed = pre @ us" "post = us @ lost"
    have "file_now h (journal_path h) pre = Some t"
      using file_now_unjournalled[of h pre "[]"] pre start by simp
    moreover have "us = [] \<or> (ready_now h crashed \<and> list_all (journal_values h {JObj (set_item ''phase'' (JStr ''rolled_back'') m)}) us)"
      using post us ready_now_calm by auto
    ultimately show ?thesis
      using replay_one[of h _ us "replay (h_files h) pre"] us(1) by (auto simp: file_now_def replay_append)
  qed
qed

section \<open>Examples\<close>

text \<open>A host with one service; which commands fail is a parameter.\<close>

definition sample_config :: json where
  "sample_config = JObj [(''name'', JStr ''p''), (''services'', JObj [(''redis'', JObj [(''image'', JStr ''redis'')])])]"

definition sample_rows :: json where
  "sample_rows = JArr [JObj [(''Config'', JObj [(''Labels'', JObj [(container_label, JStr ''redis'')])]),
     (''State'', JObj [(''Running'', JBool True)]), (''Image'', JStr ''i''), (''Mounts'', JArr [])]]"

fun sample_output :: "action \<Rightarrow> string" where
  "sample_output (Git [_, flag]) = (if flag = ''HEAD'' then ''old'' else [])"
| "sample_output (Git [act, _, _]) = (if act = ''rev-parse'' then ''new'' else [])"
| "sample_output (Compose _ (act # _)) = (if act = ''config'' then ''config'' else ''c'')"
| "sample_output (Docker (act # _)) = (if act = ''inspect'' then ''rows'' else ''image'')"
| "sample_output _ = []"

definition sample_host :: "(event list \<Rightarrow> action \<Rightarrow> bool) \<Rightarrow> files \<Rightarrow> host" where
  "sample_host fails files = \<lparr>h_root = ''r'', h_files = files,
     h_exec = (\<lambda>past a. if \<not> fails past a then Inr (0, sample_output a)
       else case a of Say _ \<Rightarrow> Inl (OSError ''closed'') | _ \<Rightarrow> Inr (1, [])),
     h_exists = (\<lambda>past path. path = ''r/runtime/update/candidate-x/scripts/tgctl.py''),
     h_read = (\<lambda>past path. Inr ''UPDATE_API_VERSION = 1''),
     h_stat = (\<lambda>past path. Inr (0, 0, 0)), h_sha256 = (\<lambda>s. ''0''),
     h_json = (\<lambda>s. if s = ''config'' then JText sample_config else if s = ''rows'' then JText sample_rows
        else JText (JArr [JObj [(''Id'', JStr ''i'')]])),
     h_time = (\<lambda>past. 0), h_getenv = (\<lambda>name. None),
     h_systemd_unit = (\<lambda>past. Some ''WorkingDirectory=r''), h_runtime = (\<lambda>past. Inr Map.empty),
     h_temp_suffix = ''x'', h_locked = False, h_message = (\<lambda>e. [])\<rparr>"

text \<open>The new version never becomes ready; or the final line cannot be printed.\<close>

fun not_ready :: "event list \<Rightarrow> action \<Rightarrow> bool" where
  "not_ready past (Tgctl _ _) = (checked_out past = Some ''new'')"
| "not_ready _ _ = False"

fun closed_output :: "event list \<Rightarrow> action \<Rightarrow> bool" where
  "closed_output past (Say line) = starts_with ''UPDATE PASS'' line"
| "closed_output _ _ = False"

definition sample_args :: "bool \<Rightarrow> update_args" where
  "sample_args recover = \<lparr>ua_timeout = 60, ua_revision = ''main'', ua_recover = recover\<rparr>"

definition sample_run :: "(event list \<Rightarrow> action \<Rightarrow> bool) \<Rightarrow> unit res \<times> event list" where
  "sample_run fails = update plain_rt (sample_host fails Map.empty) [] (sample_args False) []"

lemma update_returns_ready_witness:
  "ready_now (sample_host (\<lambda>_ _. False) Map.empty) (snd (sample_run (\<lambda>_ _. False)))"
proof -
  have "fst (sample_run (\<lambda>_ _. False)) = Inr ()" by code_simp
  then have "sample_run (\<lambda>_ _. False) = (Inr (), snd (sample_run (\<lambda>_ _. False)))" by (simp add: prod_eq_iff)
  then show ?thesis unfolding sample_run_def by (rule update_returns_ready)
qed

lemma crash_leaves_journal_witness:
  "\<exists>plan phase early. file_now (sample_host not_ready Map.empty) (journal_path (sample_host not_ready Map.empty))
     (take 60 (snd (sample_run not_ready))) = Some (JText (JObj (journal_of plan phase)))
     \<and> old_installation plain_rt (sample_host not_ready Map.empty) early plan"
proof -
  have run: "sample_run not_ready = (fst (sample_run not_ready), snd (sample_run not_ready))" by simp
  have "\<not> ua_recover (sample_args False)" by (simp add: sample_args_def)
  moreover have "(Systemctl ''stop'', True) \<in> set (take 60 (snd (sample_run not_ready)))" by code_simp
  moreover have "destructive (sample_host not_ready Map.empty) (Systemctl ''stop'')" by simp
  ultimately show ?thesis
    using crash_leaves_journal[OF run[unfolded sample_run_def], of "take 60 (snd (sample_run not_ready))"
      "drop 60 (snd (sample_run not_ready))" "Systemctl ''stop''" True] unfolding sample_run_def append_take_drop_id by blast
qed

definition sample_transaction :: "unit res \<times> event list" where
  "sample_transaction = transaction plain_rt (sample_host not_ready Map.empty) [] (sample_args False) []"

lemma failed_update_rolls_back_witness:
  "\<exists>plan early. old_installation plain_rt (sample_host not_ready Map.empty) early plan \<and>
     checked_out (snd sample_transaction) = Some (pl_previous plan) \<and>
     ready_now (sample_host not_ready Map.empty) (snd sample_transaction)"
proof -
  have message: "fst sample_transaction = Inl (UserError (restored_message @ ''command failed: python3 r/scripts/tgctl.py ready''))"
    by code_simp
  then have "sample_transaction =
      (Inl (UserError (restored_message @ ''command failed: python3 r/scripts/tgctl.py ready'')), snd sample_transaction)"
    by (simp add: prod_eq_iff)
  note run = this[unfolded sample_transaction_def]
  have change: "(Systemctl ''stop'', True) \<in> set (snd sample_transaction)" by code_simp
  have "\<not> ua_recover (sample_args False)" "destructive (sample_host not_ready Map.empty) (Systemctl ''stop'')"
    by (simp_all add: sample_args_def)
  note rolled_back = failed_update_rolls_back[OF run this(1) list.pred_inject(1)
      change[unfolded sample_transaction_def] this(2), folded sample_transaction_def]
  have "UserError (restored_message @ n) \<noteq> UserError (unrecovered_message @ m)" for n m
    by (simp add: restored_message_def unrecovered_message_def)
  with rolled_back show ?thesis by blast
qed

definition sample_journal :: dict where
  "sample_journal = journal_of \<lparr>pl_previous = ''old'', pl_target = ''new'',
     pl_retained = [(''name'', JStr ''p''), (''services'', JObj [])], pl_volumes = [], pl_pins = [], pl_baseline = []\<rparr> ''switching''"

definition sample_recovery :: "unit res \<times> event list" where
  "sample_recovery = update plain_rt (sample_host not_ready [''r/runtime/update/transaction.json'' \<mapsto> JText (JObj sample_journal)])
     [] (sample_args True) []"

lemma recovery_is_repeatable_witness:
  "fst sample_recovery = Inr () \<and>
   (file_now (sample_host not_ready [''r/runtime/update/transaction.json'' \<mapsto> JText (JObj sample_journal)])
      ''r/runtime/update/transaction.json'' (take 8 (snd sample_recovery)) = Some (JText (JObj sample_journal)) \<or>
    ready_now (sample_host not_ready [''r/runtime/update/transaction.json'' \<mapsto> JText (JObj sample_journal)])
      (take 8 (snd sample_recovery)))"
proof -
  have path: "journal_path (sample_host not_ready [''r/runtime/update/transaction.json'' \<mapsto> JText (JObj sample_journal)]) =
      ''r/runtime/update/transaction.json''"
    by code_simp
  have "sample_recovery = (fst sample_recovery, snd sample_recovery)" by simp
  note run = this[unfolded sample_recovery_def]
  have "fst sample_recovery = Inr ()" by code_simp
  then show ?thesis
    using recovery_is_repeatable[OF run _ append_take_drop_id[symmetric, of _ 8], unfolded path, of "JText (JObj sample_journal)" sample_journal]
    unfolding sample_recovery_def by (auto simp: sample_args_def sample_host_def)
qed

text \<open>
  The journal says \<open>complete\<close> before the last line is printed. When that print fails, the rollback
  starts with a journal that a later run takes for a finished update: a crash in this rollback
  (here after the service was stopped) cannot be recovered.
\<close>

definition stopped_again :: "event list" where
  "stopped_again = takeWhile (\<lambda>e. e \<noteq> (Git [''checkout'', ''--detach'', ''old''], True)) (snd (sample_run closed_output))"

lemma rollback_without_journal:
  "prefix stopped_again (snd (sample_run closed_output)) \<and> last stopped_again = (Systemctl ''stop'', True) \<and>
   fst (interrupted (sample_host closed_output Map.empty) stopped_again) = Inr None"
proof (intro conjI)
  show "prefix stopped_again (snd (sample_run closed_output))"
    unfolding stopped_again_def by (metis prefixI takeWhile_dropWhile_id)
  show "last stopped_again = (Systemctl ''stop'', True)" by code_simp
  show "fst (interrupted (sample_host closed_output Map.empty) stopped_again) = Inr None" by code_simp
qed

end
