(* ===== verification/Fetcher.thy ===== *)
theory Fetcher
  imports Connectors Snapshot_Store
begin

text \<open>
  One cycle of the fetcher (\<open>validator/fetcher.py\<close>): load the connectors, collect, publish the raw
  snapshot. The lemmas follow a candidate through the published text, whose keys are sorted, back
  to the parser of the next worker.
\<close>

definition raw_snapshot :: "int \<Rightarrow> candidate list \<Rightarrow> dict" where
  "raw_snapshot now candidates =
     [(''generated_at'', JInt now),
      (''entries'', JArr (map (\<lambda>c. JObj (snapshot_without_validation c)) candidates))]"

definition fetch_cycle ::
  "pyrt \<Rightarrow> world \<Rightarrow> 'd redis \<Rightarrow> string \<Rightarrow> int \<Rightarrow> string \<Rightarrow> 'd \<Rightarrow> 'd \<times> nat res" where
  "fetch_cycle rt w cl config_path now uuid d =
     (case load_connectors rt w config_path (CONNECTOR_REGISTRY rt) of
        Inl e \<Rightarrow> (d, Inl e)
      | Inr connectors \<Rightarrow>
          (let candidates = collect_all (collect rt w) connectors in
           case publish_snapshot cl uuid RAW_KEY (raw_snapshot now candidates) d of
             (d', Inl e) \<Rightarrow> (d', Inl e)
           | (d', Inr _) \<Rightarrow> (d', Inr (length candidates))))"

text \<open>The loop of \<open>main\<close> goes on after these errors; any other one ends the worker.\<close>

definition worker_survives :: "'a res \<Rightarrow> bool" where
  "worker_survives r = (case r of Inr _ \<Rightarrow> True | Inl e \<Rightarrow> is_OSError e \<or> is_ValueError e)"

text \<open>What a reader of a snapshot parses: the entries that are dicts and that parse.\<close>

definition parse_entries :: "pyrt \<Rightarrow> string \<Rightarrow> json list \<Rightarrow> candidate list" where
  "parse_entries rt source entries = concat (map (\<lambda>m. ok_list (parse_candidate rt m source)) (dicts entries))"

section \<open>Through the published text\<close>

lemma insort_key_map: "insort_key f (g x) (map g xs) = map g (insort_key (f \<circ> g) x xs)"
  by (induction xs) auto

lemma sort_key_map: "sort_key f (map g xs) = map g (sort_key (f \<circ> g) xs)"
  by (induction xs) (simp_all add: insort_key_map comp_def)

text \<open>The candidate with the keys of its metadata in order.\<close>

definition sorted_candidate :: "candidate \<Rightarrow> candidate" where
  "sorted_candidate c = c\<lparr>c_metadata := sort_key fst (c_metadata c)\<rparr>"

lemma sort_keys_str_dict: "sort_keys (str_dict m) = str_dict (sort_key fst m)"
proof -
  let ?g = "\<lambda>(k :: string, v). (k, JStr v)"
  have "map (\<lambda>(k, v). (k, sort_keys v)) (map ?g m) = map ?g m"
    by (induction m) auto
  moreover have "fst \<circ> ?g = fst" by auto
  then have "sort_key fst (map ?g m) = map ?g (sort_key fst m)" by (simp only: sort_key_map)
  ultimately show ?thesis by (simp only: str_dict_def sort_keys.simps)
qed

lemma get_map_of: "map_of m k = Some v \<Longrightarrow> get m k = v"
  by (simp add: get_def get_default_def)

lemma sort_keys_opt_str: "sort_keys (opt_str x) = opt_str x"
  by (cases x) (simp_all add: opt_str_def)

lemma sorted_snapshot_carries:
  assumes "sort_keys (JObj (snapshot_without_validation c)) = JObj m"
  shows "carries m (sorted_candidate c)"
proof -
  let ?s = "snapshot_without_validation c"
  have d: "distinct (map fst ?s)" by (simp add: snapshot_without_validation_def)
  note mo = map_of_sort_keys [OF d assms]
  have f: "map_of ?s ''host'' = Some (JStr (c_host c))" "map_of ?s ''port'' = Some (JInt (c_port c))"
    "map_of ?s ''protocol'' = Some (JStr (c_protocol c))" "map_of ?s ''source'' = Some (JStr (c_source c))"
    "map_of ?s ''credential_ref'' = Some (opt_str (c_credential_ref c))"
    "map_of ?s ''metadata'' = Some (str_dict (c_metadata c))" "map_of ?s ''endpoint'' = Some (JStr (endpoint c))"
    by (simp_all add: snapshot_without_validation_def)
  have g: "get m k = sort_keys v" if "map_of ?s k = Some v" for k v
    using that by (intro get_map_of) (simp add: mo)
  have e: "endpoint (sorted_candidate c) = endpoint c" by (simp add: endpoint_def sorted_candidate_def)
  show ?thesis
    unfolding carries_def e f [THEN g]
    by (simp add: sorted_candidate_def sort_keys_str_dict sort_keys_opt_str)
qed

lemma sorted_candidate_wf: "candidate_wf rt c \<Longrightarrow> candidate_wf rt (sorted_candidate c)"
  by (simp add: candidate_wf_def sorted_candidate_def)

text \<open>A scope of an IPv6 address with a closing bracket is the one thing that does not survive.\<close>

definition printable :: "candidate \<Rightarrow> bool" where
  "printable c \<longleftrightarrow> CHR '']'' \<notin> set (c_host c)"

lemma parse_sorted:
  assumes "candidate_wf rt c" and "printable c"
    and "sort_keys (JObj (snapshot_without_validation c)) = JObj m"
  shows "parse_candidate rt m source = Inr (sorted_candidate c)"
  using sorted_snapshot_carries [OF assms(3)] sorted_candidate_wf [OF assms(1)] assms(2)
  by (intro parse_carried) (simp_all add: sorted_candidate_def printable_def)

lemma parse_entries_published:
  assumes "list_all (\<lambda>c. candidate_wf rt c \<and> printable c) cs"
  shows "parse_entries rt source (map (\<lambda>c. sort_keys (JObj (snapshot_without_validation c))) cs)
    = map sorted_candidate cs"
  using assms
proof (induction cs)
  case Nil
  then show ?case by (simp add: parse_entries_def)
next
  case (Cons c cs)
  obtain m where m: "sort_keys (JObj (snapshot_without_validation c)) = JObj m" by simp
  from Cons.prems have "parse_candidate rt m source = Inr (sorted_candidate c)"
    by (intro parse_sorted [OF _ _ m]) simp_all
  with Cons show ?case unfolding list.map m by (simp add: parse_entries_def)
qed

lemma raw_snapshot_facts:
  "distinct (map fst (raw_snapshot now cs))"
  "get (raw_snapshot now cs) ''entries'' = JArr (map (\<lambda>c. JObj (snapshot_without_validation c)) cs)"
  "map_of (raw_snapshot now cs) ''entries'' = Some (JArr (map (\<lambda>c. JObj (snapshot_without_validation c)) cs))"
  by (simp_all add: raw_snapshot_def)

section \<open>Properties\<close>

text \<open>
  C21. From the sources to the validator: after a fetch cycle on a store that answers, the raw
  snapshot that the validator reads holds, in order, exactly the collected candidates, and each
  parses back to itself (its metadata in key order).
\<close>

theorem fetch_then_parse:
  assumes "redis_laws cl" and "redis_up cl" and "idna_lower rt"
    and "load_connectors rt w config_path (CONNECTOR_REGISTRY rt) = Inr connectors"
    and "list_all printable (collect_all (collect rt w) connectors)"
  shows "\<exists>d' m es. fetch_cycle rt w cl config_path now uuid d
        = (d', Inr (length (collect_all (collect rt w) connectors)))
      \<and> read_snapshot cl RAW_KEY d' = Inr (Some m) \<and> get m ''entries'' = JArr es
      \<and> parse_entries rt source es = map sorted_candidate (collect_all (collect rt w) connectors)"
proof -
  let ?cs = "collect_all (collect rt w) connectors"
  let ?s = "raw_snapshot now ?cs"
  have c: "redis_client cl" using assms(1) by (rule redis_client.intro)
  from redis_client.publish_up [OF c assms(2)] obtain d' where
    p: "publish_snapshot cl uuid RAW_KEY ?s d = (d', Inr ())" by blast
  from redis_client.publish_read [OF c p raw_snapshot_facts(1,2)] obtain m where
    r: "read_snapshot cl RAW_KEY d' = Inr (Some m)" and mo: "\<forall>k. map_of m k = map_option sort_keys (map_of ?s k)"
    by blast
  let ?es = "map (\<lambda>c. sort_keys (JObj (snapshot_without_validation c))) ?cs"
  have "get m ''entries'' = JArr ?es"
    using mo raw_snapshot_facts(3) [of now ?cs] by (intro get_map_of) (simp add: comp_def)
  moreover have "fetch_cycle rt w cl config_path now uuid d = (d', Inr (length ?cs))"
    using assms(4) p by (simp add: fetch_cycle_def Let_def)
  moreover have "list_all (\<lambda>c. candidate_wf rt c \<and> printable c) ?cs"
    using assms(3,5) source.merged_good by (auto simp: list_all_iff)
  from parse_entries_published [OF this] have "parse_entries rt source ?es = map sorted_candidate ?cs" .
  ultimately show ?thesis using r by blast
qed

text \<open>A configuration with one inventory: a comment, a broken line and two candidates, one with metadata out of order.\<close>

definition second_candidate :: candidate where
  "second_candidate = sample_candidate\<lparr>c_host := ''second.example'', c_metadata := [(''zone'', ''eu''), (''city'', ''x'')]\<rparr>"

definition fetch_world :: world where
  "fetch_world = \<lparr>w_text = (\<lambda>p. Inr (if p = ''c.json'' then ''config''
       else join [LF] [''# proxies'', ''not json'', ''line'', ''other''])),
     w_json = (\<lambda>s. if s = ''config'' then JText sample_config
       else if s = ''line'' then JText (JObj (snapshot_without_validation sample_candidate))
       else if s = ''other'' then JText (JObj (snapshot_without_validation second_candidate)) else BadText),
     w_http = (\<lambda>u h. HttpFail TimeoutError)\<rparr>"

lemma fetch_world_collected:
  "collect_all (collect plain_rt fetch_world) [JsonlInventoryConnector ''a'' ''/inventory/a.jsonl'']
     = [sample_candidate, second_candidate]"
proof -
  have "splitlines (join [LF] [''# proxies'', ''not json'', ''line'', ''other'']) = [''# proxies'', ''not json'', ''line'', ''other'']"
    and "strip ''# proxies'' = ''# proxies''" "strip ''not json'' = ''not json''" "strip ''line'' = ''line''" "strip ''other'' = ''other''"
    by code_simp+
  moreover have "parse_candidate plain_rt (snapshot_without_validation sample_candidate) ''a'' = Inr sample_candidate"
    using carries_snapshot_without_validation sample_candidate_wf
    by (rule parse_carried) (simp add: sample_candidate_def)
  moreover have "candidate_wf plain_rt second_candidate" by code_simp
  then have "parse_candidate plain_rt (snapshot_without_validation second_candidate) ''a'' = Inr second_candidate"
    using carries_snapshot_without_validation
    by (intro parse_carried) (simp_all add: second_candidate_def sample_candidate_def)
  ultimately have "jsonl_collect plain_rt fetch_world ''a'' ''/inventory/a.jsonl'' = Inr [sample_candidate, second_candidate]"
    by (simp add: jsonl_collect_def jsonl_lines_total line_candidates_def jsonl_line_def loads_def fetch_world_def)
  moreover have "ident sample_candidate \<noteq> ident second_candidate" by code_simp
  ultimately show ?thesis by (simp add: collect_all_eq collected_def add_unique_def)
qed

lemma fetch_then_parse_witness:
  "\<exists>d' m es. fetch_cycle plain_rt fetch_world FakeRedis ''c.json'' 7 ''u'' (\<lambda>_. None) = (d', Inr 2)
      \<and> read_snapshot FakeRedis RAW_KEY d' = Inr (Some m) \<and> get m ''entries'' = JArr es
      \<and> parse_entries plain_rt ''fetcher'' es
          = [sample_candidate, second_candidate\<lparr>c_metadata := [(''city'', ''x''), (''zone'', ''eu'')]\<rparr>]"
proof -
  let ?conns = "[JsonlInventoryConnector ''a'' ''/inventory/a.jsonl'']"
  have l: "load_connectors plain_rt fetch_world ''c.json'' (CONNECTOR_REGISTRY plain_rt) = Inr ?conns"
    by (simp add: load_connectors_def fetch_world_def loads_def sample_config_def types_def create_def
        CONNECTOR_REGISTRY_def register_def jsonl_from_config_def jsonl_init_def Let_def)
  have "list_all printable (collect_all (collect plain_rt fetch_world) ?conns)"
    unfolding fetch_world_collected by code_simp
  from fetch_then_parse [OF FakeRedis_laws FakeRedis_up plain_rt_idna_lower l this, of 7 "''u''" "\<lambda>_. None" "''fetcher''"]
  have "\<exists>d' m es. fetch_cycle plain_rt fetch_world FakeRedis ''c.json'' 7 ''u'' (\<lambda>_. None) = (d', Inr 2)
      \<and> read_snapshot FakeRedis RAW_KEY d' = Inr (Some m) \<and> get m ''entries'' = JArr es
      \<and> parse_entries plain_rt ''fetcher'' es = map sorted_candidate [sample_candidate, second_candidate]"
    unfolding fetch_world_collected by (simp add: numeral_2_eq_2)
  moreover have "map sorted_candidate [sample_candidate, second_candidate]
      = [sample_candidate, second_candidate\<lparr>c_metadata := [(''city'', ''x''), (''zone'', ''eu'')]\<rparr>]"
    by (simp add: sorted_candidate_def sample_candidate_def second_candidate_def)
  ultimately show ?thesis by (simp only:)
qed

end
