(* ===== verification/Asn.thy ===== *)
theory Asn
  imports Py_Json Py_Ip Py_Float
begin

text \<open>
  The ASN database: the resolver that enriches an exit address (\<open>validator/asn_resolver.py\<close>) and
  the updater that downloads, verifies and installs the database (\<open>validator/asn_updater.py\<close>).
  The database reader, the clock, the file status, SHA-256 and the HTTP opener are arguments.
\<close>

section \<open>The resolver\<close>

text \<open>\<open>get_with_prefix_len\<close> of an open reader.\<close>

type_synonym mmdb = "string \<Rightarrow> (json \<times> nat) res"

record resolver =
  ar_max_age :: int
  ar_reader :: "mmdb option"

definition resolver_from_environment :: "string option \<Rightarrow> resolver res" where
  "resolver_from_environment max_age_text =
     rbind (of_option (ValueError ''invalid literal for int()'')
       (py_int (case max_age_text of None \<Rightarrow> ''259200'' | Some s \<Rightarrow> s))) (\<lambda>max_age.
     rbind (ensure (1 \<le> max_age) (ValueError ''ASN_MAX_DATABASE_AGE_SECONDS must be positive'')) (\<lambda>_.
     Inr \<lparr>ar_max_age = max_age, ar_reader = None\<rparr>))"

definition resolver_enter :: "rat res \<Rightarrow> rat \<Rightarrow> mmdb res \<Rightarrow> resolver \<Rightarrow> resolver res" where
  "resolver_enter mtime now opened r =
     rbind (catch mtime is_OSError (\<lambda>_. Inl (AsnDatabaseError ''ASN database is unavailable''))) (\<lambda>modified.
     rbind (ensure (fadd now (- modified) \<le> of_int (ar_max_age r))
       (AsnDatabaseError ''ASN database is stale'')) (\<lambda>_.
     rbind (catch opened (\<lambda>_. True) (\<lambda>_. Inl (AsnDatabaseError ''ASN database cannot be opened''))) (\<lambda>reader.
     Inr (r\<lparr>ar_reader := Some reader\<rparr>))))"

definition resolver_exit :: "resolver \<Rightarrow> resolver" where
  "resolver_exit r = r\<lparr>ar_reader := None\<rparr>"

definition unknown_network :: dict where
  "unknown_network =
     [(''asn_status'', JStr ''unknown''), (''asn'', JNull), (''organization'', JNull), (''prefix'', JNull)]"

text \<open>\<open>isinstance(number, int) and number >= 1\<close>, with the text of \<open>f"AS{number}"\<close>.\<close>

fun asn_number :: "json \<Rightarrow> string option" where
  "asn_number (JInt n) = (if n < 1 then None else Some (''AS'' @ str_of_int n))"
| "asn_number (JBool b) = (if b then Some ''ASTrue'' else None)"
| "asn_number _ = None"

definition resolve :: "pyrt \<Rightarrow> resolver \<Rightarrow> string \<Rightarrow> dict res" where
  "resolve rt r address =
     (case ar_reader r of
        None \<Rightarrow> Inl (AsnDatabaseError ''ASN resolver is not open'')
      | Some lookup \<Rightarrow>
          rbind (catch
              (rbind (of_option (ValueError ''not an IP address'') (ip_address address)) (\<lambda>ip.
               rbind (lookup (ip_str ip)) (\<lambda>p. Inr (ip, p))))
              (\<lambda>_. True)
              (\<lambda>e. Inl (if is_ValueError e then ValueError ''echo endpoint returned an invalid exit IP''
                        else AsnDatabaseError ''ASN lookup failed'')))
            (\<lambda>(ip, record, prefix_length).
            case record of
              JObj m \<Rightarrow>
                (case asn_number (get m ''autonomous_system_number'') of
                   None \<Rightarrow> Inr unknown_network
                 | Some asn \<Rightarrow>
                     rbind (of_option (ValueError ''invalid network'') (network_str ip prefix_length)) (\<lambda>network.
                     Inr [(''asn_status'', JStr ''verified''), (''asn'', JStr asn),
                       (''organization'', JStr (py_str rt (or_else (get m ''autonomous_system_organization'') (JStr [])))),
                       (''prefix'', JStr network)]))
            | _ \<Rightarrow> Inr unknown_network))"

section \<open>The updater\<close>

definition MAX_DATABASE_BYTES :: nat where
  "MAX_DATABASE_BYTES = 67108864"

text \<open>
  The effects of the file system on an update: the current database, the outcome of each call, and
  the temporary files that stay behind. \<open>uf_written\<close> is what reached the disk when a write fails.
\<close>

record update_fs =
  uf_database :: "string option"
  uf_leftover :: "string list"

record update_calls =
  uc_touch :: "unit res"
  uc_mkdir :: "unit res"
  uc_create :: "unit res"
  uc_write :: "unit res"
  uc_written :: string
  uc_chmod :: "unit res"
  uc_replace :: "unit res"

definition read_url :: "(string \<Rightarrow> string res) \<Rightarrow> string \<Rightarrow> nat \<Rightarrow> string res" where
  "read_url opener url limit =
     rbind (opener url) (\<lambda>data.
     let body = take (limit + 1) data in
     rbind (ensure (length body \<le> limit) (ValueError ''ASN download exceeds the configured size limit'')) (\<lambda>_.
     Inr body))"

definition expected_checksum :: "string \<Rightarrow> string res" where
  "expected_checksum data =
     rbind (ensure (list_all is_ascii data) UnicodeError) (\<lambda>_.
     case words data of
       [] \<Rightarrow> Inl IndexError
     | w # _ \<Rightarrow>
         rbind (ensure (length (lower w) = 64 \<and> list_all is_hexchar (lower w))
           (ValueError ''ASN checksum response is invalid'')) (\<lambda>_.
         Inr (lower w)))"

text \<open>
  The part that installs a verified body. The name of the temporary file is known to the clean-up
  only after its content is on disk, so a failed write leaves the file behind.
\<close>

definition install :: "update_calls \<Rightarrow> string \<Rightarrow> update_fs \<Rightarrow> update_fs \<times> bool res" where
  "install calls body fs =
     (case uc_mkdir calls of Inl e \<Rightarrow> (fs, Inl e) | Inr _ \<Rightarrow>
      case uc_create calls of Inl e \<Rightarrow> (fs, Inl e) | Inr _ \<Rightarrow>
      case uc_write calls of Inl e \<Rightarrow> (fs\<lparr>uf_leftover := uc_written calls # uf_leftover fs\<rparr>, Inl e) | Inr _ \<Rightarrow>
      case uc_chmod calls of Inl e \<Rightarrow> (fs, Inl e) | Inr _ \<Rightarrow>
      case uc_replace calls of Inl e \<Rightarrow> (fs, Inl e) | Inr _ \<Rightarrow>
      (fs\<lparr>uf_database := Some body\<rparr>, Inr True))"

definition update_once ::
  "(string \<Rightarrow> string) \<Rightarrow> (string \<Rightarrow> string res) \<Rightarrow> string \<Rightarrow> string \<Rightarrow> update_calls \<Rightarrow> update_fs \<Rightarrow>
   update_fs \<times> bool res" where
  "update_once sha256 opener database_url checksum_url calls fs =
     (case rbind (read_url opener checksum_url 4096) expected_checksum of
        Inl e \<Rightarrow> (fs, Inl e)
      | Inr expected \<Rightarrow>
          (case read_url opener database_url MAX_DATABASE_BYTES of
             Inl e \<Rightarrow> (fs, Inl e)
           | Inr body \<Rightarrow>
               if sha256 body \<noteq> expected then (fs, Inl (ValueError ''ASN database checksum mismatch''))
               else if map_option sha256 (uf_database fs) = Some (sha256 body) then
                 (fs, rbind (uc_touch calls) (\<lambda>_. Inr False))
               else install calls body fs))"

text \<open>The errors that the loop of \<open>main\<close> catches; any other one ends the process.\<close>

definition updater_survives :: "'a res \<Rightarrow> bool" where
  "updater_survives r =
     (case r of Inr _ \<Rightarrow> True | Inl e \<Rightarrow> is_OSError e \<or> e = UnicodeError \<or> is_ValueError e)"

section \<open>Lemmas\<close>

lemma read_url_Inr:
  "read_url opener url limit = Inr body \<longleftrightarrow> opener url = Inr body \<and> length body \<le> limit"
  by (cases "opener url") (auto simp: read_url_def Let_def rbind_eq_Inr ensure_eq_Inr)

lemma install_cases:
  "install calls body fs = (fs', r) \<Longrightarrow>
     (uf_database fs' = uf_database fs \<and> (\<exists>e. r = Inl e)) \<or> (uf_database fs' = Some body \<and> r = Inr True)"
  by (auto simp: install_def split: sum.splits)

lemma network_str_Some:
  assumes "network_str a p = Some s"
  shows "\<exists>b. s = ip_str b @ ''/'' @ dec p \<and> in_network a b p"
proof (cases a)
  case (V4 n)
  with assms show ?thesis
    by (intro exI [of _ "V4 (mask_low (32 - p) n)"]) (auto simp: mask_low_div split: if_splits)
next
  case (V6 n scope)
  with assms show ?thesis
    by (intro exI [of _ "V6 (mask_low (128 - p) n) (if mask_low (128 - p) n = n then scope else None)"])
      (auto simp: mask_low_div Let_def split: if_splits)
qed

lemma resolve_Inr:
  assumes "resolve rt r address = Inr d"
  obtains lookup ip v p where "ar_reader r = Some lookup" and "ip_address address = Some ip"
    and "lookup (ip_str ip) = Inr (v, p)"
    and "d = unknown_network \<or> (\<exists>m asn network. v = JObj m
       \<and> asn_number (get m ''autonomous_system_number'') = Some asn \<and> network_str ip p = Some network
       \<and> d = [(''asn_status'', JStr ''verified''), (''asn'', JStr asn),
           (''organization'', JStr (py_str rt (or_else (get m ''autonomous_system_organization'') (JStr [])))),
           (''prefix'', JStr network)])"
proof -
  from assms obtain lookup where l: "ar_reader r = Some lookup"
    by (auto simp: resolve_def split: option.splits)
  from assms obtain ip v p where *: "ip_address address = Some ip" "lookup (ip_str ip) = Inr (v, p)"
    and k: "(case v of
              JObj m \<Rightarrow>
                (case asn_number (get m ''autonomous_system_number'') of
                   None \<Rightarrow> Inr unknown_network
                 | Some asn \<Rightarrow>
                     rbind (of_option (ValueError ''invalid network'') (network_str ip p)) (\<lambda>network.
                     Inr [(''asn_status'', JStr ''verified''), (''asn'', JStr asn),
                       (''organization'', JStr (py_str rt (or_else (get m ''autonomous_system_organization'') (JStr [])))),
                       (''prefix'', JStr network)]))
            | _ \<Rightarrow> Inr unknown_network) = Inr d"
    unfolding resolve_def l by (auto simp: res_simps)
  have "d = unknown_network \<or> (\<exists>m asn network. v = JObj m
       \<and> asn_number (get m ''autonomous_system_number'') = Some asn \<and> network_str ip p = Some network
       \<and> d = [(''asn_status'', JStr ''verified''), (''asn'', JStr asn),
           (''organization'', JStr (py_str rt (or_else (get m ''autonomous_system_organization'') (JStr [])))),
           (''prefix'', JStr network)])"
  proof (cases v)
    case (JObj m)
    with k show ?thesis
      by (cases "asn_number (get m ''autonomous_system_number'')") (auto simp: res_simps)
  qed (use k in simp_all)
  with l * show thesis by (rule that)
qed

section \<open>Properties\<close>

text \<open>
  What the resolver returns has always the four members of the published schema, and a
  \<open>verified\<close> status is given only for an address whose record in the open database has a positive
  AS number; the published prefix is then a network that contains the exit address.
\<close>

theorem resolve_verified:
  assumes "resolve rt r address = Inr d"
  shows "map fst d = [''asn_status'', ''asn'', ''organization'', ''prefix'']
    \<and> (d = unknown_network \<or>
       (\<exists>ip lookup m p b. ip_address address = Some ip \<and> ar_reader r = Some lookup
          \<and> lookup (ip_str ip) = Inr (JObj m, p)
          \<and> get d ''asn_status'' = JStr ''verified''
          \<and> map_option JStr (asn_number (get m ''autonomous_system_number'')) = Some (get d ''asn'')
          \<and> get d ''prefix'' = JStr (ip_str b @ ''/'' @ dec p) \<and> in_network ip b p))"
  using assms
proof (rule resolve_Inr, goal_cases)
  case (1 lookup ip v p)
  from 1(4) show ?case
  proof
    assume "d = unknown_network"
    then show ?thesis by (simp add: unknown_network_def)
  next
    assume "\<exists>m asn network. v = JObj m
       \<and> asn_number (get m ''autonomous_system_number'') = Some asn \<and> network_str ip p = Some network
       \<and> d = [(''asn_status'', JStr ''verified''), (''asn'', JStr asn),
           (''organization'', JStr (py_str rt (or_else (get m ''autonomous_system_organization'') (JStr [])))),
           (''prefix'', JStr network)]"
    then obtain m asn network where *: "v = JObj m"
      "asn_number (get m ''autonomous_system_number'') = Some asn" "network_str ip p = Some network"
      and d: "d = [(''asn_status'', JStr ''verified''), (''asn'', JStr asn),
           (''organization'', JStr (py_str rt (or_else (get m ''autonomous_system_organization'') (JStr [])))),
           (''prefix'', JStr network)]"
      by blast
    from network_str_Some [OF *(3)] obtain b where "network = ip_str b @ ''/'' @ dec p" "in_network ip b p"
      by blast
    moreover have "map fst d = [''asn_status'', ''asn'', ''organization'', ''prefix'']"
      "get d ''asn_status'' = JStr ''verified''" "get d ''asn'' = JStr asn" "get d ''prefix'' = JStr network"
      by (simp_all add: d)
    moreover have "lookup (ip_str ip) = Inr (JObj m, p)" using 1(3) *(1) by (simp only:)
    moreover have "map_option JStr (asn_number (get m ''autonomous_system_number'')) = Some (JStr asn)"
      using *(2) by (simp only: option.map)
    ultimately show ?thesis using 1(1,2) by metis
  qed
qed

definition sample_resolver :: resolver where
  "sample_resolver = \<lparr>ar_max_age = 60, ar_reader = Some (\<lambda>_. Inr (JObj
     [(''autonomous_system_number'', JInt 64500), (''autonomous_system_organization'', JStr ''Example'')], 24))\<rparr>"

lemma resolve_verified_witness:
  "\<exists>d. resolve \<lparr>rt_repr = (\<lambda>_. []), rt_idna = (\<lambda>_. None)\<rparr> sample_resolver ''192.0.2.77'' = Inr d
     \<and> get d ''prefix'' = JStr ''192.0.2.0/24''
     \<and> map fst d = [''asn_status'', ''asn'', ''organization'', ''prefix'']"
proof -
  let ?rt = "\<lparr>rt_repr = (\<lambda>_. []), rt_idna = (\<lambda>_. None)\<rparr>"
  have a: "ip_address ''192.0.2.77'' = Some (V4 3221226061)"
    by (simp add: ip_address_def ipv4_of_string_def parse_octet_def is_digit_def digits_val_def
        digit_val_def Let_def)
  have "network_str (V4 3221226061) 24 = Some ''192.0.2.0/24''"
    by (simp add: ipv4_str_def octets_def mask_low_def digits.simps hexdigit_def)
  then have "\<exists>d. resolve ?rt sample_resolver ''192.0.2.77'' = Inr d \<and> get d ''prefix'' = JStr ''192.0.2.0/24''"
    using a by (simp add: resolve_def sample_resolver_def del: ip_str.simps network_str.simps)
  then show ?thesis using resolve_verified by metis
qed

text \<open>
  C20. The database is replaced atomically and only by verified content: whatever the servers send
  and whichever call fails, the installed file is afterwards the old one, or a complete download
  within the size limit whose SHA-256 is the published checksum; every error leaves the old one.
\<close>

theorem update_once_verified:
  assumes "update_once sha256 opener database_url checksum_url calls fs = (fs', r)"
  shows "(uf_database fs' = uf_database fs \<and> r \<noteq> Inr True)
    \<or> (r = Inr True \<and> (\<exists>body expected. uf_database fs' = Some body \<and> opener database_url = Inr body
         \<and> length body \<le> MAX_DATABASE_BYTES
         \<and> rbind (read_url opener checksum_url 4096) expected_checksum = Inr expected
         \<and> sha256 body = expected))"
proof (cases "rbind (read_url opener checksum_url 4096) expected_checksum")
  case (Inl e)
  with assms show ?thesis by (auto simp: update_once_def)
next
  case exp: (Inr expected)
  show ?thesis
  proof (cases "read_url opener database_url MAX_DATABASE_BYTES")
    case (Inl e)
    with assms exp show ?thesis by (auto simp: update_once_def)
  next
    case body: (Inr body)
    with assms exp have eq: "(if sha256 body \<noteq> expected then (fs, Inl (ValueError ''ASN database checksum mismatch''))
               else if map_option sha256 (uf_database fs) = Some (sha256 body) then
                 (fs, rbind (uc_touch calls) (\<lambda>_. Inr False))
               else install calls body fs) = (fs', r)"
      by (simp add: update_once_def)
    show ?thesis
    proof (cases "sha256 body = expected \<and> map_option sha256 (uf_database fs) \<noteq> Some (sha256 body)")
      case True
      then have "\<not> sha256 body \<noteq> expected" "map_option sha256 (uf_database fs) \<noteq> Some (sha256 body)"
        by blast+
      with eq have "install calls body fs = (fs', r)" by (simp only: if_False)
      from install_cases [OF this] show ?thesis using True exp body by (auto simp: read_url_Inr)
    next
      case False
      with eq show ?thesis by (auto simp: rbind_eq_Inr split: if_splits)
    qed
  qed
qed

definition ok_calls :: update_calls where
  "ok_calls = \<lparr>uc_touch = Inr (), uc_mkdir = Inr (), uc_create = Inr (), uc_write = Inr (), uc_written = [],
     uc_chmod = Inr (), uc_replace = Inr ()\<rparr>"

lemma update_once_verified_witness:
  "\<exists>fs' r. update_once (\<lambda>_. replicate 64 CHR ''a'') (\<lambda>u. Inr (if u = ''sum'' then replicate 64 CHR ''A'' else ''db''))
      ''db'' ''sum'' ok_calls \<lparr>uf_database = None, uf_leftover = []\<rparr> = (fs', r)
    \<and> uf_database fs' \<in> {None, Some ''db''}"
proof -
  let ?o = "\<lambda>u. Inr (if u = ''sum'' then replicate 64 CHR ''A'' else ''db'')"
  obtain fs' r where u: "update_once (\<lambda>_. replicate 64 CHR ''a'') ?o ''db'' ''sum'' ok_calls
      \<lparr>uf_database = None, uf_leftover = []\<rparr> = (fs', r)" by fastforce
  from update_once_verified [OF u] u show ?thesis by auto
qed

text \<open>
  An empty checksum document raises \<open>IndexError\<close>, which the loop of \<open>main\<close> does not catch.
\<close>

lemma empty_checksum_stops_updater:
  "\<not> updater_survives (snd (update_once sha256 (\<lambda>_. Inr []) database_url checksum_url calls fs))"
  by (simp add: update_once_def read_url_def expected_checksum_def words_def updater_survives_def)

text \<open>A write that fails leaves its temporary file in the directory of the database.\<close>

lemma failed_write_leaves_temporary:
  assumes "uc_mkdir calls = Inr ()" and "uc_create calls = Inr ()" and "uc_write calls = Inl e"
  shows "install calls body fs = (fs\<lparr>uf_leftover := uc_written calls # uf_leftover fs\<rparr>, Inl e)"
  using assms by (simp add: install_def)

end
