(* ===== verification/Validator.thy ===== *)
theory Validator
  imports Fetcher Credentials Proxy_Probe Asn
begin

text \<open>
  The validator (\<open>validator/validator.py\<close>): the probe of one candidate and the cycle that reads the
  raw snapshot, probes every candidate, carries the success streaks over and publishes the
  validated snapshot. The probes run concurrently and share nothing but the credential store, so
  each probe is given the state in which it finds that store.
\<close>

section \<open>One probe\<close>

record probe_net =
  pn_store :: cred_store
  pn_now :: rat
  pn_file :: "string res"
  pn_tls_now :: rat
  pn_tls_file :: "string res"
  pn_dial :: dial
  pn_in_time :: bool
  pn_started :: rat
  pn_ended :: rat

text \<open>\<open>except (OSError, ValueError, asyncio.TimeoutError, asyncio.IncompleteReadError)\<close>.\<close>

definition probe_catches :: "exn \<Rightarrow> bool" where
  "probe_catches e \<longleftrightarrow> is_OSError e \<or> is_ValueError e \<or> e = TimeoutError \<or> e = IncompleteReadError"

definition measure_candidate ::
  "pyrt \<Rightarrow> world \<Rightarrow> cred_env \<Rightarrow> candidate \<Rightarrow> check_target \<Rightarrow> string list \<Rightarrow> probe_net \<Rightarrow>
   (echo \<times> int \<times> string) option res" where
  "measure_candidate rt w env c target identities net =
     (case cred_get env (pn_now net) (pn_file net) (c_credential_ref c) (pn_store net) of (st, got) \<Rightarrow>
      rbind got (\<lambda>auth.
      rbind (if c_protocol c = ''https''
             then snd (tls_context env (pn_tls_now net) (pn_tls_file net) (c_credential_ref c) st)
             else Inr []) (\<lambda>_.
      rbind (proxy_observation rt w (pn_dial net) c target auth (pn_in_time net) (pn_started net) (pn_ended net))
        (\<lambda>(observation, latency_ms).
      rbind (classify_anonymity observation identities) (\<lambda>level.
      Inr (map_option (\<lambda>l. (observation, latency_ms, l)) level))))))"

definition enriched_metadata :: "pyrt \<Rightarrow> dict \<Rightarrow> dict" where
  "enriched_metadata rt snap =
     (let metadata = (case or_else (get snap ''metadata'') (JObj []) of JObj m \<Rightarrow> m | _ \<Rightarrow> []);
          source_asn = get metadata ''asn'';
          rest = pop_item ''asn'' metadata in
      if truthy source_asn then set_item ''source_asn'' (JStr (py_str rt source_asn)) rest else rest)"

definition probe ::
  "pyrt \<Rightarrow> world \<Rightarrow> cred_env \<Rightarrow> candidate \<Rightarrow> check_target \<Rightarrow> string list \<Rightarrow> resolver \<Rightarrow> probe_net \<Rightarrow>
   dict option res" where
  "probe rt w env c target identities resolver net =
     (case measure_candidate rt w env c target identities net of
        Inl e \<Rightarrow> if probe_catches e then Inr None else Inl e
      | Inr None \<Rightarrow> Inr None
      | Inr (Some (observation, latency_ms, level)) \<Rightarrow>
          (let snap = snapshot c latency_ms level;
               snap = set_item ''metadata'' (JObj (enriched_metadata rt snap)) snap;
               snap = set_item ''exit_ip'' (JStr (e_peer observation)) snap in
           rbind (resolve rt resolver (e_peer observation)) (\<lambda>network.
           Inr (Some (set_item ''network'' (JObj network) snap)))))"

section \<open>One cycle\<close>

record validator_env =
  ve_concurrency :: "string option"
  ve_timeout :: "rat res"
  ve_check_url :: string
  ve_lab_enabled :: string
  ve_client_ips :: string
  ve_lab_dial :: dial
  ve_lab_in_time :: bool
  ve_direct_dial :: dial
  ve_direct_in_time :: bool
  ve_resolver :: "resolver res"
  ve_net :: "nat \<Rightarrow> probe_net"
  ve_completed_at :: int
  ve_generated_at :: int
  ve_cycle_id :: string
  ve_uuid :: string

definition LAST_SUCCESS_KEY :: string where
  "LAST_SUCCESS_KEY = ''validator:last_success:v1''"

text \<open>\<open>str(entry.get("address"))\<close> to \<open>int(entry.get("success_streak", 0))\<close>; a later entry wins.\<close>

definition streak_items :: "pyrt \<Rightarrow> json list \<Rightarrow> (string \<times> int) list res" where
  "streak_items rt entries =
     rmap (\<lambda>entry. rbind (json_int (get_default entry ''success_streak'' (JInt 0)))
       (\<lambda>n. Inr (py_str rt (get entry ''address''), n))) (dicts entries)"

definition previous_streaks :: "pyrt \<Rightarrow> dict option \<Rightarrow> (string \<Rightarrow> int) res" where
  "previous_streaks rt previous =
     rbind (streak_items rt (case previous of None \<Rightarrow> [] | Some m \<Rightarrow>
         (case get m ''entries'' of JArr xs \<Rightarrow> xs | _ \<Rightarrow> []))) (\<lambda>kvs.
     Inr (\<lambda>a. case map_of (rev kvs) a of None \<Rightarrow> 0 | Some n \<Rightarrow> n))"

definition positive_concurrency :: "string option \<Rightarrow> unit res" where
  "positive_concurrency t =
     rbind (of_option (ValueError ''invalid literal for int()'')
       (py_int (case t of None \<Rightarrow> ''100'' | Some s \<Rightarrow> s))) (\<lambda>n.
     ensure (1 \<le> n) (ValueError ''VALIDATION_CONCURRENCY must be positive''))"

definition client_identities :: "string \<Rightarrow> string list" where
  "client_identities s = filter (\<lambda>v. v \<noteq> []) (map strip (split_on CHR '','' s))"

definition is_lab_proxy :: "candidate \<Rightarrow> bool" where
  "is_lab_proxy c \<longleftrightarrow>
     c_host c = ''172.30.40.11'' \<and> c_port c = 3128 \<and> c_credential_ref c = Some ''lab-proxy''"

text \<open>The targets and identities of a cycle: those of the lab, when enabled, and the public ones.\<close>

definition observe_baselines ::
  "pyrt \<Rightarrow> world \<Rightarrow> validator_env \<Rightarrow> ((check_target \<times> string list) option \<times> check_target \<times> string list) res" where
  "observe_baselines rt w env =
     rbind (positive_concurrency (ve_concurrency env)) (\<lambda>_.
     rbind (ve_timeout env) (\<lambda>timeout.
     rbind (ensure (0 < timeout) (ValueError ''PROXY_VALIDATION_TIMEOUT_SECONDS must be positive'')) (\<lambda>_.
     rbind (parse_target (ve_check_url env)) (\<lambda>target.
     rbind (if ve_lab_enabled env = ''1''
            then rbind (parse_target ''http://172.30.40.10:8000/'') (\<lambda>t.
                 rbind (direct_observation rt w (ve_lab_dial env) t (ve_lab_in_time env)) (\<lambda>o1.
                 Inr (Some (t, [e_peer o1]))))
            else Inr None) (\<lambda>lab.
     rbind (direct_observation rt w (ve_direct_dial env) target (ve_direct_in_time env)) (\<lambda>baseline.
     Inr (lab, target, e_peer baseline # client_identities (ve_client_ips env))))))))"

definition guarded ::
  "pyrt \<Rightarrow> world \<Rightarrow> cred_env \<Rightarrow> validator_env \<Rightarrow> (check_target \<times> string list) option \<Rightarrow> check_target \<Rightarrow>
   string list \<Rightarrow> resolver \<Rightarrow> nat \<times> candidate \<Rightarrow> dict option res" where
  "guarded rt w cenv env lab target identities resolver ic =
     (case ic of (i, c) \<Rightarrow>
        (case lab of
           Some (lab_target, lab_ids) \<Rightarrow>
             if is_lab_proxy c then probe rt w cenv c lab_target lab_ids resolver (ve_net env i)
             else probe rt w cenv c target identities resolver (ve_net env i)
         | None \<Rightarrow> probe rt w cenv c target identities resolver (ve_net env i)))"

definition with_streak :: "pyrt \<Rightarrow> (string \<Rightarrow> int) \<Rightarrow> dict \<Rightarrow> dict" where
  "with_streak rt streaks result =
     set_item ''success_streak'' (JInt (streaks (py_str rt (get result ''address'')) + 1)) result"

definition cycle_state :: "validator_env \<Rightarrow> nat \<Rightarrow> nat \<Rightarrow> dict" where
  "cycle_state env healthy checked =
     [(''id'', JStr (ve_cycle_id env)), (''completed_at'', JInt (ve_completed_at env)),
      (''healthy'', JInt (int healthy)), (''checked'', JInt (int checked))]"

definition validated_snapshot :: "validator_env \<Rightarrow> dict \<Rightarrow> nat \<Rightarrow> dict list \<Rightarrow> dict" where
  "validated_snapshot env raw checked entries =
     [(''validator_cycle'', JObj (cycle_state env (length entries) checked)),
      (''generated_at'', JInt (ve_generated_at env)), (''entries'', JArr (map JObj entries)),
      (''source_generated_at'', get raw ''generated_at'')]"

text \<open>Everything of the cycle that happens before the publication.\<close>

definition validate ::
  "pyrt \<Rightarrow> world \<Rightarrow> cred_env \<Rightarrow> validator_env \<Rightarrow> candidate list \<Rightarrow> (string \<Rightarrow> int) \<Rightarrow> dict list res" where
  "validate rt w cenv env candidates streaks =
     rbind (observe_baselines rt w env) (\<lambda>(lab, target, identities).
     rbind (ve_resolver env) (\<lambda>resolver.
     rbind (rmap (guarded rt w cenv env lab target identities resolver)
       (zip [0..<length candidates] candidates)) (\<lambda>checked.
     Inr (map (with_streak rt streaks) (List.map_filter (\<lambda>x. x) checked)))))"

definition validator_cycle ::
  "pyrt \<Rightarrow> world \<Rightarrow> cred_env \<Rightarrow> validator_env \<Rightarrow> 'd redis \<Rightarrow> 'd \<Rightarrow> 'd \<times> (nat \<times> nat) option res" where
  "validator_cycle rt w cenv env cl d =
     (case read_snapshot cl RAW_KEY d of
        Inl e \<Rightarrow> (d, Inl e)
      | Inr None \<Rightarrow> (d, Inr None)
      | Inr (Some raw) \<Rightarrow>
          (let raw_entries = (case get raw ''entries'' of JArr xs \<Rightarrow> xs | _ \<Rightarrow> []);
               candidates = parse_entries rt ''fetcher'' raw_entries in
           case rbind (read_snapshot cl VALIDATED_KEY d) (previous_streaks rt) of
             Inl e \<Rightarrow> (d, Inl e)
           | Inr streaks \<Rightarrow>
               (case validate rt w cenv env candidates streaks of
                  Inl e \<Rightarrow> (d, Inl e)
                | Inr entries \<Rightarrow>
                    (case publish_snapshot cl (ve_uuid env) VALIDATED_KEY
                            (validated_snapshot env raw (length candidates) entries) d of
                       (d', Inl e) \<Rightarrow> (d', Inl e)
                     | (d', Inr _) \<Rightarrow>
                         if entries = [] then (d', Inr (Some (0, length candidates)))
                         else (case r_exec cl (SET LAST_SUCCESS_KEY (json_dumps (JObj
                                  (cycle_state env (length entries) (length candidates))))) d' of
                                 Inl e \<Rightarrow> (d', Inl e)
                               | Inr d'' \<Rightarrow> (d'', Inr (Some (length entries, length candidates))))))))"

section \<open>Lemmas\<close>

lemma measure_candidate_Some:
  assumes "measure_candidate rt w env c target identities net = Inr (Some (observation, latency_ms, level))"
  obtains auth where
    "snd (cred_get env (pn_now net) (pn_file net) (c_credential_ref c) (pn_store net)) = Inr auth"
    and "proxy_observation rt w (pn_dial net) c target auth (pn_in_time net) (pn_started net) (pn_ended net)
      = Inr (observation, latency_ms)"
    and "classify_anonymity observation identities = Inr (Some level)"
  using assms
  by (auto simp: measure_candidate_def res_simps split: prod.splits)

lemma snapshot_gets:
  "get (snapshot c l a) ''address'' = JStr (address c)" "get (snapshot c l a) ''latency_ms'' = JInt l"
  "get (snapshot c l a) ''anonymity_level'' = JStr a"
  by (simp_all add: snapshot_def snapshot_without_validation_def)

text \<open>
  What a published entry says of the request that was made through its proxy: with the credentials
  of the candidate, to the target, within the time limit, and compared with the identities.
\<close>

definition observed_through ::
  "pyrt \<Rightarrow> world \<Rightarrow> cred_env \<Rightarrow> candidate \<Rightarrow> check_target \<Rightarrow> probe_net \<Rightarrow> echo \<Rightarrow> int \<Rightarrow> bool" where
  "observed_through rt w cenv c target net observation latency_ms \<longleftrightarrow>
     (\<exists>auth. snd (cred_get cenv (pn_now net) (pn_file net) (c_credential_ref c) (pn_store net)) = Inr auth
        \<and> proxy_observation rt w (pn_dial net) c target auth (pn_in_time net) (pn_started net) (pn_ended net)
            = Inr (observation, latency_ms))"

definition entry_for ::
  "pyrt \<Rightarrow> world \<Rightarrow> cred_env \<Rightarrow> candidate \<Rightarrow> check_target \<Rightarrow> string list \<Rightarrow> resolver \<Rightarrow> probe_net \<Rightarrow> dict \<Rightarrow> bool" where
  "entry_for rt w cenv c target identities resolver net m \<longleftrightarrow>
     (\<exists>observation latency_ms level network.
        observed_through rt w cenv c target net observation latency_ms
        \<and> classify_anonymity observation identities = Inr (Some level)
        \<and> resolve rt resolver (e_peer observation) = Inr network
        \<and> get m ''address'' = JStr (address c) \<and> get m ''exit_ip'' = JStr (e_peer observation)
        \<and> get m ''anonymity_level'' = JStr level \<and> get m ''network'' = JObj network
        \<and> get m ''latency_ms'' = JInt latency_ms \<and> 1 \<le> latency_ms)"

text \<open>
  What a candidate is checked against: the configured endpoint, with the peer that it reports of a direct
  request and the configured addresses; for the lab proxy, when enabled, the lab endpoint with its peer.
\<close>

definition check_of :: "pyrt \<Rightarrow> world \<Rightarrow> validator_env \<Rightarrow> candidate \<Rightarrow> check_target \<Rightarrow> string list \<Rightarrow> bool" where
  "check_of rt w env c target identities \<longleftrightarrow>
     (if ve_lab_enabled env = ''1'' \<and> is_lab_proxy c
      then parse_target ''http://172.30.40.10:8000/'' = Inr target
        \<and> (\<exists>direct. direct_observation rt w (ve_lab_dial env) target (ve_lab_in_time env) = Inr direct \<and> identities = [e_peer direct])
      else parse_target (ve_check_url env) = Inr target
        \<and> (\<exists>direct. direct_observation rt w (ve_direct_dial env) target (ve_direct_in_time env) = Inr direct
             \<and> identities = e_peer direct # client_identities (ve_client_ips env)))"

lemma latency_ge1: "1 \<le> latency started ended"
  by (simp add: latency_def)

lemma probe_Some:
  assumes "probe rt w env c target identities resolver net = Inr (Some m)"
  shows "entry_for rt w env c target identities resolver net m"
proof -
  from assms obtain observation latency_ms level where
    ms: "measure_candidate rt w env c target identities net = Inr (Some (observation, latency_ms, level))"
    by (auto simp: probe_def split: sum.splits option.splits if_splits)
  define snap where "snap = set_item ''exit_ip'' (JStr (e_peer observation))
    (set_item ''metadata'' (JObj (enriched_metadata rt (snapshot c latency_ms level))) (snapshot c latency_ms level))"
  from assms obtain network where n: "resolve rt resolver (e_peer observation) = Inr network"
    and m: "m = set_item ''network'' (JObj network) snap"
    by (auto simp: probe_def ms Let_def snap_def rbind_eq_Inr)
  from ms obtain auth where
    cr: "snd (cred_get env (pn_now net) (pn_file net) (c_credential_ref c) (pn_store net)) = Inr auth"
    and po: "proxy_observation rt w (pn_dial net) c target auth (pn_in_time net) (pn_started net) (pn_ended net)
      = Inr (observation, latency_ms)"
    and cl: "classify_anonymity observation identities = Inr (Some level)"
    by (rule measure_candidate_Some)
  from po have "1 \<le> latency_ms" using latency_ge1 by (auto simp: proxy_observation_def res_simps)
  moreover have "get m ''address'' = JStr (address c)" "get m ''exit_ip'' = JStr (e_peer observation)"
    "get m ''anonymity_level'' = JStr level" "get m ''network'' = JObj network" "get m ''latency_ms'' = JInt latency_ms"
    unfolding m snap_def by (simp_all add: get_update snapshot_gets)
  moreover have "observed_through rt w env c target net observation latency_ms"
    unfolding observed_through_def using cr po by blast
  ultimately show ?thesis using cl n unfolding entry_for_def by blast
qed

lemma entry_for_streak:
  "entry_for rt w cenv c target identities resolver net m \<Longrightarrow>
   entry_for rt w cenv c target identities resolver net (with_streak rt streaks m)"
  by (simp add: entry_for_def with_streak_def get_update)

lemma rmap_members:
  "rmap f xs = Inr ys \<Longrightarrow> y \<in> set ys \<Longrightarrow> \<exists>x \<in> set xs. f x = Inr y"
  by (induction xs arbitrary: ys) (auto simp: res_simps)

lemma guarded_Some:
  assumes "observe_baselines rt w env = Inr (lab, target, identities)"
    and "guarded rt w cenv env lab target identities resolver (i, c) = Inr (Some m)"
  obtains used known where "check_of rt w env c used known" "entry_for rt w cenv c used known resolver (ve_net env i) m"
proof -
  define used_lab where "used_lab \<longleftrightarrow> ve_lab_enabled env = ''1'' \<and> is_lab_proxy c"
  have "check_of rt w env c target identities \<or> used_lab"
    using assms(1) unfolding check_of_def used_lab_def observe_baselines_def
    by (auto simp: res_simps split: if_splits)
  moreover have "\<exists>t ids. lab = Some (t, ids) \<and> check_of rt w env c t ids" if used_lab
    using assms(1) that unfolding check_of_def used_lab_def observe_baselines_def by (auto simp: res_simps)
  moreover have "lab = None \<or> ve_lab_enabled env = ''1''"
    using assms(1) unfolding observe_baselines_def by (auto simp: res_simps split: if_splits)
  ultimately show thesis
    using assms(2) that probe_Some unfolding guarded_def used_lab_def
    by (auto split: option.splits if_splits)
qed

lemma validate_entries:
  assumes "validate rt w cenv env candidates streaks = Inr entries" and "m \<in> set entries"
  obtains i target identities resolver m0 where "i < length candidates" and "ve_resolver env = Inr resolver"
    and "m = with_streak rt streaks m0" and "check_of rt w env (candidates ! i) target identities"
    and "entry_for rt w cenv (candidates ! i) target identities resolver (ve_net env i) m0"
proof -
  from assms(1) obtain lab target identities resolver checked where
    o: "observe_baselines rt w env = Inr (lab, target, identities)" and r: "ve_resolver env = Inr resolver"
    and ch: "rmap (guarded rt w cenv env lab target identities resolver)
       (zip [0..<length candidates] candidates) = Inr checked"
    and en: "entries = map (with_streak rt streaks) (List.map_filter (\<lambda>x. x) checked)"
    by (auto simp: validate_def res_simps split: prod.splits)
  from assms(2) en obtain m0 where m: "m = with_streak rt streaks m0" and "Some m0 \<in> set checked"
    by (auto simp: List.map_filter_def)
  from rmap_members [OF ch this(2)] obtain i c where ic: "(i, c) \<in> set (zip [0..<length candidates] candidates)"
    and g: "guarded rt w cenv env lab target identities resolver (i, c) = Inr (Some m0)" by auto
  have "i < length candidates" "c = candidates ! i" using ic by (auto simp: set_zip)
  with guarded_Some [OF o g] r m that show thesis by metis
qed

text \<open>An entry's streak continues the one of the previous snapshot, or starts at one.\<close>

lemma with_streak_value:
  "get m ''address'' = JStr a \<Longrightarrow> get (with_streak rt streaks m) ''success_streak'' = JInt (streaks a + 1)"
  by (simp add: with_streak_def get_update)

lemma validator_cycle_Some:
  assumes "validator_cycle rt w cenv env cl d = (d', Inr (Some (healthy, checked)))"
  obtains raw xs streaks entries d1 where "read_snapshot cl RAW_KEY d = Inr (Some raw)"
    and "xs = (case get raw ''entries'' of JArr xs \<Rightarrow> xs | _ \<Rightarrow> [])"
    and "rbind (read_snapshot cl VALIDATED_KEY d) (previous_streaks rt) = Inr streaks"
    and "validate rt w cenv env (parse_entries rt ''fetcher'' xs) streaks = Inr entries"
    and "publish_snapshot cl (ve_uuid env) VALIDATED_KEY
      (validated_snapshot env raw (length (parse_entries rt ''fetcher'' xs)) entries) d = (d1, Inr ())"
    and "healthy = length entries" and "checked = length (parse_entries rt ''fetcher'' xs)"
    and "entries = [] \<and> d' = d1 \<or> (\<exists>v. r_exec cl (SET LAST_SUCCESS_KEY v) d1 = Inr d')"
proof -
  from assms obtain raw where raw: "read_snapshot cl RAW_KEY d = Inr (Some raw)"
    by (auto simp: validator_cycle_def split: sum.splits option.splits)
  define xs where "xs = (case get raw ''entries'' of JArr xs \<Rightarrow> xs | _ \<Rightarrow> [])"
  from assms obtain streaks where st: "rbind (read_snapshot cl VALIDATED_KEY d) (previous_streaks rt) = Inr streaks"
    by (cases "rbind (read_snapshot cl VALIDATED_KEY d) (previous_streaks rt)")
      (simp_all add: validator_cycle_def raw Let_def)
  from assms obtain entries where en: "validate rt w cenv env (parse_entries rt ''fetcher'' xs) streaks = Inr entries"
    by (cases "validate rt w cenv env (parse_entries rt ''fetcher'' xs) streaks")
      (simp_all add: validator_cycle_def raw st Let_def xs_def)
  obtain d1 r where p: "publish_snapshot cl (ve_uuid env) VALIDATED_KEY
      (validated_snapshot env raw (length (parse_entries rt ''fetcher'' xs)) entries) d = (d1, r)" by fastforce
  note eq = validator_cycle_def raw st en p sum.case option.case Let_def xs_def [symmetric] prod.case
  from assms obtain u where u: "r = Inr u" by (cases r) (simp_all add: eq)
  note fin = assms [unfolded eq u]
  show thesis
  proof (cases "entries = []")
    case True
    with fin have "d' = d1" "healthy = length entries" "checked = length (parse_entries rt ''fetcher'' xs)" by simp_all
    with True that [OF raw xs_def st en] p u show thesis by simp
  next
    case False
    with fin obtain v where v: "r_exec cl (SET LAST_SUCCESS_KEY v) d1 = Inr d'"
      and "healthy = length entries" "checked = length (parse_entries rt ''fetcher'' xs)"
      by (auto split: sum.splits)
    with that [OF raw xs_def st en] p u show thesis by auto
  qed
qed

lemma last_success_key_apart: "LAST_SUCCESS_KEY \<noteq> VALIDATED_KEY"
  by (simp add: LAST_SUCCESS_KEY_def VALIDATED_KEY_def)

section \<open>Properties\<close>

text \<open>
  C15. Only measured candidates are published: after a cycle that succeeds, the validated key holds
  a snapshot whose entries are each for a candidate of the raw snapshot to which a request for the check
  endpoint was made through its proxy. The level is what the comparison of this answer with the peer of the
  direct request and the configured addresses gave, the exit address is its peer with the network that the
  database gives for it, the latency is that of the request, and the success streak continues the
  previous snapshot's.
\<close>

theorem validator_publishes_measured:
  assumes "redis_laws cl" and "validator_cycle rt w cenv env cl d = (d', Inr (Some (healthy, checked)))"
  shows "\<exists>raw xs streaks entries. read_snapshot cl RAW_KEY d = Inr (Some raw)
    \<and> xs = (case get raw ''entries'' of JArr xs \<Rightarrow> xs | _ \<Rightarrow> [])
    \<and> rbind (read_snapshot cl VALIDATED_KEY d) (previous_streaks rt) = Inr streaks
    \<and> checked = length (parse_entries rt ''fetcher'' xs) \<and> healthy = length entries
    \<and> r_get cl d' VALIDATED_KEY = Some (json_dumps_sorted (JObj (validated_snapshot env raw checked entries)))
    \<and> list_all (\<lambda>m. \<exists>i c target identities resolver.
         i < length (parse_entries rt ''fetcher'' xs) \<and> c = parse_entries rt ''fetcher'' xs ! i
         \<and> check_of rt w env c target identities \<and> ve_resolver env = Inr resolver
         \<and> entry_for rt w cenv c target identities resolver (ve_net env i) m
         \<and> get m ''success_streak'' = JInt (streaks (address c) + 1)) entries"
proof -
  from assms(2) obtain raw xs streaks entries d1 where
    raw: "read_snapshot cl RAW_KEY d = Inr (Some raw)"
    and xs: "xs = (case get raw ''entries'' of JArr xs \<Rightarrow> xs | _ \<Rightarrow> [])"
    and st: "rbind (read_snapshot cl VALIDATED_KEY d) (previous_streaks rt) = Inr streaks"
    and en: "validate rt w cenv env (parse_entries rt ''fetcher'' xs) streaks = Inr entries"
    and p: "publish_snapshot cl (ve_uuid env) VALIDATED_KEY
      (validated_snapshot env raw (length (parse_entries rt ''fetcher'' xs)) entries) d = (d1, Inr ())"
    and n: "healthy = length entries" "checked = length (parse_entries rt ''fetcher'' xs)"
    and d': "entries = [] \<and> d' = d1 \<or> (\<exists>v. r_exec cl (SET LAST_SUCCESS_KEY v) d1 = Inr d')"
    by (rule validator_cycle_Some)
  have c: "redis_client cl" using assms(1) by (rule redis_client.intro)
  have "r_get cl d' VALIDATED_KEY = r_get cl d1 VALIDATED_KEY"
    using d' redis_client.get_SET [OF c] last_success_key_apart by fastforce
  also have "\<dots> = Some (json_dumps_sorted (JObj (validated_snapshot env raw checked entries)))"
    using redis_client.publish_get(1) [OF c p] n(2) by simp
  finally have get: "r_get cl d' VALIDATED_KEY
      = Some (json_dumps_sorted (JObj (validated_snapshot env raw checked entries)))" .
  have "\<exists>i c target identities resolver. i < length (parse_entries rt ''fetcher'' xs) \<and> c = parse_entries rt ''fetcher'' xs ! i
      \<and> check_of rt w env c target identities \<and> ve_resolver env = Inr resolver
      \<and> entry_for rt w cenv c target identities resolver (ve_net env i) m
      \<and> get m ''success_streak'' = JInt (streaks (address c) + 1)" if "m \<in> set entries" for m
  proof -
    from validate_entries [OF en that] obtain i target ids resolver m0 where
      i: "i < length (parse_entries rt ''fetcher'' xs)" "ve_resolver env = Inr resolver" "m = with_streak rt streaks m0"
        "check_of rt w env (parse_entries rt ''fetcher'' xs ! i) target ids"
      and e: "entry_for rt w cenv (parse_entries rt ''fetcher'' xs ! i) target ids resolver (ve_net env i) m0" .
    from e have "get m0 ''address'' = JStr (address (parse_entries rt ''fetcher'' xs ! i))" by (auto simp: entry_for_def)
    then have "get m ''success_streak'' = JInt (streaks (address (parse_entries rt ''fetcher'' xs ! i)) + 1)"
      unfolding i(3) by (rule with_streak_value)
    moreover have "entry_for rt w cenv (parse_entries rt ''fetcher'' xs ! i) target ids resolver (ve_net env i) m"
      unfolding i(3) by (rule entry_for_streak [OF e])
    ultimately show ?thesis
      using i(1,2,4) by (intro exI [of _ i] exI [of _ "parse_entries rt ''fetcher'' xs ! i"] exI [of _ target] exI [of _ ids]
        exI [of _ resolver] conjI refl)
  qed
  then show ?thesis using raw xs st n get by (auto simp: list_all_iff)
qed

definition http_candidate :: candidate where
  "http_candidate = \<lparr>c_host = ''proxy.example'', c_port = 3128, c_protocol = ''http'',
     c_source = ''inventory'', c_credential_ref = None, c_metadata = []\<rparr>"

definition sample_net :: probe_net where
  "sample_net = \<lparr>pn_store = demo_store, pn_now = 0, pn_file = Inr ''good'', pn_tls_now = 0,
     pn_tls_file = Inr ''good'', pn_dial = (\<lambda>_ _ _. Inr (sample_conn (sample_response ''{}''))),
     pn_in_time = True, pn_started = 0, pn_ended = 0\<rparr>"

definition sample_env :: validator_env where
  "sample_env = \<lparr>ve_concurrency = None, ve_timeout = Inr 8, ve_check_url = ''http://e/'', ve_lab_enabled = [],
     ve_client_ips = [], ve_lab_dial = (\<lambda>_ _ _. Inl TimeoutError), ve_lab_in_time = False,
     ve_direct_dial = (\<lambda>_ _ _. Inr (sample_conn (sample_response ''[]''))), ve_direct_in_time = True,
     ve_resolver = Inr sample_resolver, ve_net = (\<lambda>_. sample_net), ve_completed_at = 9,
     ve_generated_at = 9, ve_cycle_id = ''id'', ve_uuid = ''u''\<rparr>"

definition http_target :: check_target where
  "http_target = \<lparr>t_scheme = ''http'', t_host = ''e'', t_port = 80, t_path = ''/''\<rparr>"

lemma sample_conn_in [simp]: "cn_in (sample_conn s) = s"
  by (simp add: sample_conn_def)

lemma http_requests:
  "\<exists>q. request_bytes http_target False None = Inr q" "\<exists>q. request_bytes http_target True None = Inr q"
proof -
  have "ok (request_bytes http_target False None)" "ok (request_bytes http_target True None)" by code_simp+
  then show "\<exists>q. request_bytes http_target False None = Inr q" "\<exists>q. request_bytes http_target True None = Inr q"
    unfolding ok_iff .
qed

lemma sample_baseline:
  "observe_baselines plain_rt echo_world sample_env = Inr (None, http_target, [''5.6.7.8''])"
proof -
  have t: "parse_target ''http://e/'' = Inr http_target" and i: "client_identities [] = []"
    and n: "py_int ''100'' = Some 100" by code_simp+
  obtain q where "request_bytes http_target False None = Inr q" using http_requests by blast
  then have "fst (echo_exchange plain_rt echo_world http_target False None (sample_conn (sample_response ''[]'')))
      = Inr \<lparr>e_peer = ''5.6.7.8'', e_headers = []\<rparr>"
    using sample_echo [of "sample_conn (sample_response ''[]'')" "''[]''"] echo_parsed(2) by simp
  then have "direct_observation plain_rt echo_world (ve_direct_dial sample_env) http_target True
      = Inr \<lparr>e_peer = ''5.6.7.8'', e_headers = []\<rparr>"
    by (simp add: direct_observation_def wait_for_def sample_env_def)
  with t i n show ?thesis
    by (simp add: observe_baselines_def positive_concurrency_def sample_env_def)
qed

lemma sample_measured:
  "measure_candidate plain_rt echo_world demo_env http_candidate http_target [''5.6.7.8''] sample_net
   = Inr (Some (\<lparr>e_peer = ip_str (V4 16909060), e_headers = [(''via'', ''1.1 p'')]\<rparr>, latency 0 0, ''anonymous''))"
proof -
  obtain q where q: "request_bytes http_target True None = Inr q" using http_requests by blast
  have "fst (proxy_exchange plain_rt echo_world http_candidate http_target None (sample_conn (sample_response ''{}'')))
      = Inr \<lparr>e_peer = ip_str (V4 16909060), e_headers = [(''via'', ''1.1 p'')]\<rparr>"
    using sample_echo [of "sample_conn (sample_response ''{}'')" "''{}''" http_target True None q] q echo_parsed(1)
    by (simp add: proxy_exchange_def http_candidate_def http_target_def is_http_proxy_def tunnel_def
        io_bind_def io_return_def)
  then have "proxy_observation plain_rt echo_world (pn_dial sample_net) http_candidate http_target None True 0 0
      = Inr (\<lparr>e_peer = ip_str (V4 16909060), e_headers = [(''via'', ''1.1 p'')]\<rparr>, latency 0 0)"
    by (simp add: proxy_observation_def wait_for_def sample_net_def)
  then show ?thesis
    using classify_sample
    by (simp add: measure_candidate_def cred_get_def http_candidate_def sample_net_def del: ip_str.simps)
qed

lemma sample_resolved: "\<exists>n. resolve plain_rt sample_resolver (ip_str (V4 16909060)) = Inr n"
proof -
  have "ip_address (ip_str (V4 16909060)) = Some (V4 16909060)" by (rule ip_address_ip_str) simp
  moreover have "\<exists>s. network_str (V4 16909060) 24 = Some s" by simp
  ultimately show ?thesis by (auto simp: resolve_def sample_resolver_def simp del: ip_str.simps network_str.simps)
qed

lemma sample_probe:
  "\<exists>m. probe plain_rt echo_world demo_env http_candidate http_target [''5.6.7.8''] sample_resolver sample_net
     = Inr (Some m)"
  using sample_measured sample_resolved by (auto simp: probe_def Let_def simp del: ip_str.simps)

lemma http_candidate_facts: "candidate_wf plain_rt http_candidate" "printable http_candidate"
  "sorted_candidate http_candidate = http_candidate"
  by (code_simp, simp_all add: printable_def http_candidate_def sorted_candidate_def)

definition raw_store :: store where
  "raw_store = (\<lambda>_. None)(RAW_KEY \<mapsto> json_dumps_sorted (JObj (raw_snapshot 5 [http_candidate])))"

lemma raw_store_read:
  "\<exists>m. read_snapshot FakeRedis RAW_KEY raw_store = Inr (Some m)
     \<and> parse_entries plain_rt s (case get m ''entries'' of JArr xs \<Rightarrow> xs | _ \<Rightarrow> []) = [http_candidate]"
proof -
  have "r_get FakeRedis raw_store RAW_KEY = Some (json_dumps_sorted (JObj (raw_snapshot 5 [http_candidate])))"
    by (simp add: FakeRedis_def raw_store_def)
  from read_snapshot_encoded [OF raw_snapshot_facts(1,2) this] obtain m where
    r: "read_snapshot FakeRedis RAW_KEY raw_store = Inr (Some m)"
    and m: "\<forall>k. map_of m k = map_option sort_keys (map_of (raw_snapshot 5 [http_candidate]) k)" by blast
  have "get m ''entries'' = JArr (map (\<lambda>c. sort_keys (JObj (snapshot_without_validation c))) [http_candidate])"
    using m raw_snapshot_facts(3) [of 5 "[http_candidate]"] by (intro get_map_of) simp
  moreover have "parse_entries plain_rt s
      (map (\<lambda>c. sort_keys (JObj (snapshot_without_validation c))) [http_candidate]) = [http_candidate]"
    using parse_entries_published [of plain_rt "[http_candidate]" s] http_candidate_facts by simp
  ultimately show ?thesis using r by auto
qed

lemma sample_cycle:
  "\<exists>d'. validator_cycle plain_rt echo_world demo_env sample_env FakeRedis raw_store = (d', Inr (Some (1, 1)))"
proof -
  from raw_store_read [of "''fetcher''"] obtain raw where
    r: "read_snapshot FakeRedis RAW_KEY raw_store = Inr (Some raw)"
    and pe: "parse_entries plain_rt ''fetcher'' (case get raw ''entries'' of JArr xs \<Rightarrow> xs | _ \<Rightarrow> []) = [http_candidate]"
    by blast
  have "VALIDATED_KEY \<noteq> RAW_KEY" by (simp add: VALIDATED_KEY_def RAW_KEY_def)
  then have v: "read_snapshot FakeRedis VALIDATED_KEY raw_store = Inr None"
    by (simp add: read_snapshot_def FakeRedis_def raw_store_def)
  obtain m where m: "probe plain_rt echo_world demo_env http_candidate http_target [''5.6.7.8''] sample_resolver sample_net
     = Inr (Some m)" using sample_probe by blast
  have va: "\<exists>e. validate plain_rt echo_world demo_env sample_env [http_candidate] streaks = Inr [e]" for streaks
    using sample_baseline m
    by (simp add: validate_def guarded_def sample_env_def List.map_filter_def)
  have st: "\<exists>streaks. previous_streaks plain_rt None = Inr streaks"
    by (simp add: previous_streaks_def streak_items_def)
  then obtain streaks where "previous_streaks plain_rt None = Inr streaks" ..
  moreover from va obtain e where "validate plain_rt echo_world demo_env sample_env [http_candidate] streaks = Inr [e]"
    by blast
  moreover from fake.publish_up [OF FakeRedis_up] obtain d1 where
    "publish_snapshot FakeRedis (ve_uuid sample_env) VALIDATED_KEY (validated_snapshot sample_env raw 1 [e]) raw_store
      = (d1, Inr ())" by blast
  ultimately show ?thesis
    using r pe v by (simp add: validator_cycle_def Let_def FakeRedis_def)
qed

lemma validator_publishes_measured_witness:
  "\<exists>d'. validator_cycle plain_rt echo_world demo_env sample_env FakeRedis raw_store = (d', Inr (Some (1, 1)))
     \<and> (\<exists>raw m target identities resolver. d' VALIDATED_KEY
          = Some (json_dumps_sorted (JObj (validated_snapshot sample_env raw 1 [m])))
        \<and> entry_for plain_rt echo_world demo_env http_candidate target identities resolver sample_net m)"
proof -
  obtain d' where c: "validator_cycle plain_rt echo_world demo_env sample_env FakeRedis raw_store
      = (d', Inr (Some (1, 1)))" using sample_cycle by blast
  from raw_store_read [of "''fetcher''"] obtain raw0 where raw0: "read_snapshot FakeRedis RAW_KEY raw_store = Inr (Some raw0)"
    "parse_entries plain_rt ''fetcher'' (case get raw0 ''entries'' of JArr xs \<Rightarrow> xs | _ \<Rightarrow> []) = [http_candidate]" by blast
  from validator_publishes_measured [OF FakeRedis_laws c] obtain raw xs streaks entries where
    read: "read_snapshot FakeRedis RAW_KEY raw_store = Inr (Some raw)" "xs = (case get raw ''entries'' of JArr xs \<Rightarrow> xs | _ \<Rightarrow> [])"
    and one: "1 = length (entries :: dict list)"
    and stored: "r_get FakeRedis d' VALIDATED_KEY = Some (json_dumps_sorted (JObj (validated_snapshot sample_env raw 1 entries)))"
    and all: "list_all (\<lambda>m. \<exists>i c target identities resolver.
         i < length (parse_entries plain_rt ''fetcher'' xs) \<and> c = parse_entries plain_rt ''fetcher'' xs ! i
         \<and> check_of plain_rt echo_world sample_env c target identities \<and> ve_resolver sample_env = Inr resolver
         \<and> entry_for plain_rt echo_world demo_env c target identities resolver (ve_net sample_env i) m
         \<and> get m ''success_streak'' = JInt (streaks (address c) + 1)) entries"
    by blast
  obtain m where m: "entries = [m]" using one by (cases entries) auto
  have "parse_entries plain_rt ''fetcher'' xs = [http_candidate]" using read raw0 by simp
  moreover have "ve_net sample_env i = sample_net" for i by (simp add: sample_env_def)
  ultimately have "\<exists>target identities resolver. entry_for plain_rt echo_world demo_env http_candidate target identities resolver sample_net m"
    using all m by auto
  moreover have "d' VALIDATED_KEY = Some (json_dumps_sorted (JObj (validated_snapshot sample_env raw 1 [m])))"
    using stored m by (simp add: FakeRedis_def)
  ultimately show ?thesis using c by blast
qed

text \<open>
  A cycle that ends with an error never damages the pool: the validated key still has its old
  value, or already the complete new snapshot (when only the success marker could not be written).
\<close>

theorem validator_error_keeps_pool:
  assumes "redis_laws cl" and "validator_cycle rt w cenv env cl d = (d', Inl e)"
  shows "r_get cl d' VALIDATED_KEY = r_get cl d VALIDATED_KEY
    \<or> (\<exists>raw checked entries. r_get cl d' VALIDATED_KEY
         = Some (json_dumps_sorted (JObj (validated_snapshot env raw checked entries))) \<and> entries \<noteq> [])"
proof -
  have c: "redis_client cl" using assms(1) by (rule redis_client.intro)
  show ?thesis
  proof (cases "d' = d")
    case False
    with assms(2) obtain raw where raw: "read_snapshot cl RAW_KEY d = Inr (Some raw)"
      by (auto simp: validator_cycle_def split: sum.splits option.splits)
    define cs where "cs = parse_entries rt ''fetcher'' (case get raw ''entries'' of JArr xs \<Rightarrow> xs | _ \<Rightarrow> [])"
    from assms(2) False obtain streaks where
      st: "rbind (read_snapshot cl VALIDATED_KEY d) (previous_streaks rt) = Inr streaks"
      by (cases "rbind (read_snapshot cl VALIDATED_KEY d) (previous_streaks rt)")
        (simp_all add: validator_cycle_def raw Let_def)
    from assms(2) False obtain entries where en: "validate rt w cenv env cs streaks = Inr entries"
      by (cases "validate rt w cenv env cs streaks") (simp_all add: validator_cycle_def raw st Let_def cs_def)
    obtain d1 r where p: "publish_snapshot cl (ve_uuid env) VALIDATED_KEY
      (validated_snapshot env raw (length cs) entries) d = (d1, r)" by fastforce
    note eq = validator_cycle_def raw st en p sum.case option.case Let_def cs_def [symmetric] prod.case
    show ?thesis
    proof (cases r)
      case (Inl e1)
      with assms(2) have "d' = d1" by (simp add: eq)
      then show ?thesis using redis_client.publish_failed [OF c p [unfolded Inl], of VALIDATED_KEY] by simp
    next
      case (Inr u)
      with p have p': "publish_snapshot cl (ve_uuid env) VALIDATED_KEY
        (validated_snapshot env raw (length cs) entries) d = (d1, Inr ())" by simp
      from Inr assms(2) have "d' = d1" "entries \<noteq> []" by (auto simp: eq split: sum.splits if_splits)
      then show ?thesis using redis_client.publish_get(1) [OF c p'] by blast
    qed
  qed simp
qed

text \<open>
  A header block without an end that fills the buffer of the stream raises \<open>LimitOverrunError\<close>,
  which neither the probe nor the loop of \<open>main\<close> catches: one such proxy ends the worker.
\<close>

lemma overlong_header_escapes:
  assumes "split_at (CRLF @ CRLF) (cn_in c) = None" and "STREAM_LIMIT + 4 \<le> length (cn_in c)"
  shows "read_headers c = (Inl LimitOverrunError, c)"
    and "\<not> probe_catches LimitOverrunError" and "\<not> worker_survives (Inl LimitOverrunError)"
proof -
  have "readuntil STREAM_LIMIT (CRLF @ CRLF) c = (Inl LimitOverrunError, c)"
    using assms by (simp add: readuntil_def CRLF_def)
  then show "read_headers c = (Inl LimitOverrunError, c)" by (simp add: read_headers_def io_bind_def)
qed (simp_all add: probe_catches_def worker_survives_def)

lemma validator_error_keeps_pool_witness:
  "\<exists>e. snd (validator_cycle plain_rt echo_world demo_env sample_env FakeRedis ((\<lambda>_. None)(RAW_KEY \<mapsto> BadText))) = Inl e
     \<and> fst (validator_cycle plain_rt echo_world demo_env sample_env FakeRedis ((\<lambda>_. None)(RAW_KEY \<mapsto> BadText)))
        VALIDATED_KEY = None"
proof -
  let ?d = "(\<lambda>_. None)(RAW_KEY \<mapsto> BadText) :: store"
  have c: "validator_cycle plain_rt echo_world demo_env sample_env FakeRedis ?d = (?d, Inl JSONDecodeError)"
    by (simp add: validator_cycle_def read_snapshot_def FakeRedis_def)
  have "VALIDATED_KEY \<noteq> RAW_KEY" by (simp add: VALIDATED_KEY_def RAW_KEY_def)
  with validator_error_keeps_pool [OF FakeRedis_laws c] c show ?thesis by (simp add: FakeRedis_def)
qed

end
