(* ===== verification/Workers.thy ===== *)
theory Workers
  imports Validator Ranker
begin

text \<open>
  The processes of the pipeline (\<open>main\<close> of \<open>fetcher.py\<close>, \<open>validator.py\<close>, \<open>ranker.py\<close> and
  \<open>asn_updater.py\<close>): endless loops that run a cycle, go on after the errors they catch, and sleep.
  What changes from round to round (clock, network, identifiers) is a function of the round; what other
  processes do to the store meanwhile is done by the pause, which may also be cancelled.
\<close>

type_synonym 'd pause = "nat \<Rightarrow> int \<Rightarrow> 'd \<Rightarrow> 'd \<times> unit res"

section \<open>The loop\<close>

text \<open>
  A round gives the delay before the next one, or the exception that leaves the loop. The result of a
  worker that ends is the store, the number of complete rounds and the exception.
\<close>

partial_function (option) worker_loop ::
  "(nat \<Rightarrow> 'd \<Rightarrow> 'd \<times> int res) \<Rightarrow> 'd pause \<Rightarrow> nat \<Rightarrow> 'd \<Rightarrow> ('d \<times> nat \<times> exn) option" where
  "worker_loop step pause n d =
     (case step n d of
        (d1, Inl e) \<Rightarrow> Some (d1, n, e)
      | (d1, Inr delay) \<Rightarrow>
          (case pause n delay d1 of
             (d2, Inl e) \<Rightarrow> Some (d2, n, e)
           | (d2, Inr _) \<Rightarrow> worker_loop step pause (Suc n) d2))"

definition interval :: "string option \<Rightarrow> string \<Rightarrow> int res" where
  "interval t dflt = of_option (ValueError ''invalid literal for int()'') (py_int (case t of None \<Rightarrow> dflt | Some s \<Rightarrow> s))"

text \<open>The cycle of the validator and of the ranker gives \<open>None\<close> while there is nothing to work on.\<close>

definition polling_delay :: "int \<Rightarrow> 'a option res \<Rightarrow> int res" where
  "polling_delay delay r =
     (case r of
        Inr None \<Rightarrow> Inr (min delay 5)
      | Inr (Some _) \<Rightarrow> Inr delay
      | Inl e \<Rightarrow> if worker_survives r then Inr delay else Inl e)"

section \<open>The fetcher\<close>

record fetcher_env =
  fe_interval :: "string option"
  fe_config :: string
  fe_world :: "nat \<Rightarrow> world"
  fe_now :: "nat \<Rightarrow> int"
  fe_uuid :: "nat \<Rightarrow> string"

definition fetcher_round :: "pyrt \<Rightarrow> fetcher_env \<Rightarrow> 'd redis \<Rightarrow> nat \<Rightarrow> 'd \<Rightarrow> 'd \<times> int res" where
  "fetcher_round rt env cl n d =
     (case fetch_cycle rt (fe_world env n) cl (fe_config env) (fe_now env n) (fe_uuid env n) d of
        (d', r) \<Rightarrow> (d', case r of
           Inl e \<Rightarrow> if worker_survives r then interval (fe_interval env) ''900'' else Inl e
         | Inr _ \<Rightarrow> interval (fe_interval env) ''900''))"

definition fetcher_main :: "pyrt \<Rightarrow> fetcher_env \<Rightarrow> 'd redis \<Rightarrow> 'd pause \<Rightarrow> 'd \<Rightarrow> ('d \<times> nat \<times> exn) option" where
  "fetcher_main rt env cl pause = worker_loop (fetcher_round rt env cl) pause 0"

section \<open>The validator and the ranker\<close>

definition validator_round ::
  "pyrt \<Rightarrow> (nat \<Rightarrow> world) \<Rightarrow> (nat \<Rightarrow> cred_env) \<Rightarrow> (nat \<Rightarrow> validator_env) \<Rightarrow> string option \<Rightarrow> 'd redis
   \<Rightarrow> nat \<Rightarrow> 'd \<Rightarrow> 'd \<times> int res" where
  "validator_round rt w cenv env t cl n d =
     (case interval t ''300'' of
        Inl e \<Rightarrow> (d, Inl e)
      | Inr delay \<Rightarrow> (case validator_cycle rt (w n) (cenv n) (env n) cl d of (d', r) \<Rightarrow> (d', polling_delay delay r)))"

definition validator_main ::
  "pyrt \<Rightarrow> (nat \<Rightarrow> world) \<Rightarrow> (nat \<Rightarrow> cred_env) \<Rightarrow> (nat \<Rightarrow> validator_env) \<Rightarrow> string option \<Rightarrow> 'd redis
   \<Rightarrow> 'd pause \<Rightarrow> 'd \<Rightarrow> ('d \<times> nat \<times> exn) option" where
  "validator_main rt w cenv env t cl pause = worker_loop (validator_round rt w cenv env t cl) pause 0"

definition ranker_round ::
  "pyrt \<Rightarrow> (nat \<Rightarrow> ranker_env) \<Rightarrow> string option \<Rightarrow> 'd redis \<Rightarrow> nat \<Rightarrow> 'd \<Rightarrow> 'd \<times> int res" where
  "ranker_round rt env t cl n d =
     (case interval t ''60'' of
        Inl e \<Rightarrow> (d, Inl e)
      | Inr delay \<Rightarrow> (case ranker_cycle rt (env n) cl d of (d', r) \<Rightarrow> (d', polling_delay delay r)))"

definition ranker_main ::
  "pyrt \<Rightarrow> (nat \<Rightarrow> ranker_env) \<Rightarrow> string option \<Rightarrow> 'd redis \<Rightarrow> 'd pause \<Rightarrow> 'd \<Rightarrow> ('d \<times> nat \<times> exn) option" where
  "ranker_main rt env t cl pause = worker_loop (ranker_round rt env t cl) pause 0"

section \<open>The updater of the ASN database\<close>

record updater_env =
  ue_interval :: "string option"
  ue_database_url :: string
  ue_checksum_url :: string
  ue_opener :: "nat \<Rightarrow> string \<Rightarrow> string res"
  ue_calls :: "nat \<Rightarrow> update_calls"

definition updater_interval :: "updater_env \<Rightarrow> int res" where
  "updater_interval env =
     rbind (interval (ue_interval env) ''86400'') (\<lambda>n.
     rbind (ensure (300 \<le> n) (ValueError ''ASN_UPDATE_INTERVAL_SECONDS must be at least 300'')) (\<lambda>_. Inr n))"

definition updater_round :: "(string \<Rightarrow> string) \<Rightarrow> updater_env \<Rightarrow> int \<Rightarrow> nat \<Rightarrow> update_fs \<Rightarrow> update_fs \<times> int res" where
  "updater_round sha256 env delay n fs =
     (case update_once sha256 (ue_opener env n) (ue_database_url env) (ue_checksum_url env) (ue_calls env n) fs of
        (fs', r) \<Rightarrow> (fs', case r of Inl e \<Rightarrow> if updater_survives r then Inr delay else Inl e | Inr _ \<Rightarrow> Inr delay))"

definition updater_main ::
  "(string \<Rightarrow> string) \<Rightarrow> updater_env \<Rightarrow> update_fs pause \<Rightarrow> update_fs \<Rightarrow> (update_fs \<times> nat \<times> exn) option" where
  "updater_main sha256 env pause fs =
     (case updater_interval env of
        Inl e \<Rightarrow> Some (fs, 0, e)
      | Inr delay \<Rightarrow> worker_loop (updater_round sha256 env delay) pause 0 fs)"

section \<open>Rounds\<close>

text \<open>The store at the beginning of round \<open>n + k\<close>, when the worker gets there.\<close>

fun rounds :: "(nat \<Rightarrow> 'd \<Rightarrow> 'd \<times> int res) \<Rightarrow> 'd pause \<Rightarrow> nat \<Rightarrow> nat \<Rightarrow> 'd \<Rightarrow> 'd option" where
  "rounds step pause n 0 d = Some d"
| "rounds step pause n (Suc k) d =
     (case step n d of
        (d1, Inr delay) \<Rightarrow> (case pause n delay d1 of (d2, Inr _) \<Rightarrow> rounds step pause (Suc n) k d2 | _ \<Rightarrow> None)
      | _ \<Rightarrow> None)"

text \<open>A round that ends the worker: it raises, or its pause is cancelled.\<close>

definition last_round :: "(nat \<Rightarrow> 'd \<Rightarrow> 'd \<times> int res) \<Rightarrow> 'd pause \<Rightarrow> nat \<Rightarrow> 'd \<Rightarrow> 'd \<Rightarrow> exn \<Rightarrow> bool" where
  "last_round step pause n d d' e \<longleftrightarrow> step n d = (d', Inl e)
     \<or> (\<exists>d1 delay. step n d = (d1, Inr delay) \<and> pause n delay d1 = (d', Inl e))"

lemma worker_loop_rounds:
  "rounds step pause n k d = Some p \<Longrightarrow> worker_loop step pause n d = worker_loop step pause (n + k) p"
proof (induction k arbitrary: n d)
  case (Suc k)
  then obtain d1 delay d2 u where "step n d = (d1, Inr delay)" "pause n delay d1 = (d2, Inr u)" "rounds step pause (Suc n) k d2 = Some p"
    by (auto split: prod.splits sum.splits)
  then show ?case using Suc.IH[of "Suc n" d2] by (subst worker_loop.simps) simp
qed simp

lemma worker_loop_last: "last_round step pause n d d' e \<Longrightarrow> worker_loop step pause n d = Some (d', n, e)"
  by (subst worker_loop.simps) (auto simp: last_round_def)

lemma worker_loop_Some:
  assumes "worker_loop step pause n d = Some (d', m, e)"
  shows "n \<le> m \<and> (\<exists>p. rounds step pause n (m - n) d = Some p \<and> last_round step pause m p d' e)"
proof -
  let ?P = "\<lambda>step pause n d (y :: _ \<times> nat \<times> exn). n \<le> fst (snd y)
    \<and> (\<exists>p. rounds step pause n (fst (snd y) - n) d = Some p \<and> last_round step pause (fst (snd y)) p (fst y) (snd (snd y)))"
  have "?P step pause n d (d', m, e)"
  proof (rule worker_loop.raw_induct[of ?P, OF _ assms], goal_cases)
    case (1 f step pause n d y)
    obtain d1 r where step: "step n d = (d1, r)" by fastforce
    show ?case
    proof (cases r)
      case (Inl e)
      then show ?thesis using 1(2) step by (auto simp: last_round_def)
    next
      case (Inr delay)
      obtain d2 q where pause: "pause n delay d1 = (d2, q)" by fastforce
      show ?thesis
      proof (cases q)
        case (Inl e)
        then show ?thesis using 1(2) step Inr pause by (auto simp: last_round_def)
      next
        case (Inr u)
        then have "f step pause (Suc n) d2 = Some y" using 1(2) step \<open>r = Inr delay\<close> pause by simp
        from 1(1)[OF this] obtain p where later: "Suc n \<le> fst (snd y)" "rounds step pause (Suc n) (fst (snd y) - Suc n) d2 = Some p"
          "last_round step pause (fst (snd y)) p (fst y) (snd (snd y))" by blast
        have "fst (snd y) - n = Suc (fst (snd y) - Suc n)" using later(1) by simp
        then show ?thesis using later step \<open>r = Inr delay\<close> pause Inr by auto
      qed
    qed
  qed
  then show ?thesis by simp
qed

lemma worker_loop_iff:
  "worker_loop step pause 0 d = Some (d', n, e) \<longleftrightarrow>
     (\<exists>p. rounds step pause 0 n d = Some p \<and> last_round step pause n p d' e)"
proof
  assume "worker_loop step pause 0 d = Some (d', n, e)"
  from worker_loop_Some[OF this] show "\<exists>p. rounds step pause 0 n d = Some p \<and> last_round step pause n p d' e" by simp
next
  assume "\<exists>p. rounds step pause 0 n d = Some p \<and> last_round step pause n p d' e"
  then obtain p where p: "rounds step pause 0 n d = Some p" "last_round step pause n p d' e" by blast
  show "worker_loop step pause 0 d = Some (d', n, e)"
    unfolding worker_loop_rounds[OF p(1)] using worker_loop_last[OF p(2)] by simp
qed

text \<open>What every round and every pause keep, holds at the beginning of every round and at the end.\<close>

lemma rounds_keep:
  assumes "rounds step pause n k d = Some p" "I d"
    and "\<And>m x x' r. I x \<Longrightarrow> step m x = (x', r) \<Longrightarrow> I x'"
    and "\<And>m delay x x' r. I x \<Longrightarrow> pause m delay x = (x', r) \<Longrightarrow> I x'"
  shows "I p"
  using assms(1,2)
proof (induction k arbitrary: n d)
  case (Suc k)
  then obtain d1 delay d2 u where "step n d = (d1, Inr delay)" "pause n delay d1 = (d2, Inr u)" "rounds step pause (Suc n) k d2 = Some p"
    by (auto split: prod.splits sum.splits)
  then show ?case using Suc.IH Suc.prems(2) assms(3,4) by blast
qed simp

lemma last_round_keeps:
  assumes "last_round step pause n d d' e" "I d"
    and "\<And>m x x' r. I x \<Longrightarrow> step m x = (x', r) \<Longrightarrow> I x'"
    and "\<And>m delay x x' r. I x \<Longrightarrow> pause m delay x = (x', r) \<Longrightarrow> I x'"
  shows "I d'"
  using assms unfolding last_round_def by blast

section \<open>How the workers end\<close>

lemma polling_delay_simps [simp]:
  "polling_delay delay r = Inl e \<longleftrightarrow> r = Inl e \<and> \<not> is_OSError e \<and> \<not> is_ValueError e"
  by (auto simp: polling_delay_def worker_survives_def split: sum.splits option.splits)

lemma fetcher_round_Inl:
  "fetcher_round rt env cl n p = (d', Inl e) \<longleftrightarrow>
     (\<exists>r. fetch_cycle rt (fe_world env n) cl (fe_config env) (fe_now env n) (fe_uuid env n) p = (d', r)
        \<and> (r = Inl e \<and> \<not> is_OSError e \<and> \<not> is_ValueError e \<or> worker_survives r \<and> interval (fe_interval env) ''900'' = Inl e))"
  by (auto simp: fetcher_round_def worker_survives_def split: prod.splits sum.splits)

text \<open>An error in the interval of the fetcher is found after the first cycle, not before.\<close>

lemma fetcher_main_ends:
  "fetcher_main rt env cl pause d = Some (d', n, e) \<longleftrightarrow>
     (\<exists>p. rounds (fetcher_round rt env cl) pause 0 n d = Some p \<and> last_round (fetcher_round rt env cl) pause n p d' e)"
  unfolding fetcher_main_def by (rule worker_loop_iff)

lemma updater_main_ends:
  "updater_main sha256 env pause fs = Some (fs', n, e) \<longleftrightarrow>
     (updater_interval env = Inl e \<and> fs' = fs \<and> n = 0)
     \<or> (\<exists>delay p. updater_interval env = Inr delay \<and> 300 \<le> delay \<and> rounds (updater_round sha256 env delay) pause 0 n fs = Some p
          \<and> last_round (updater_round sha256 env delay) pause n p fs' e)"
  unfolding updater_main_def
  by (auto simp: worker_loop_iff updater_interval_def rbind_eq_Inr ensure_eq_Inr split: sum.splits)

definition cycle_ending ::
  "'d pause \<Rightarrow> string option \<Rightarrow> string \<Rightarrow> (nat \<Rightarrow> 'd \<Rightarrow> 'd \<times> 'a option res) \<Rightarrow> 'd \<Rightarrow> nat \<Rightarrow> 'd \<Rightarrow> exn \<Rightarrow> bool" where
  "cycle_ending pause t dflt cycle p n d' e \<longleftrightarrow>
     interval t dflt = Inl e \<and> d' = p
     \<or> (\<exists>delay r d1. interval t dflt = Inr delay \<and> cycle n p = (d1, r)
          \<and> (r = Inl e \<and> \<not> is_OSError e \<and> \<not> is_ValueError e \<and> d' = d1
             \<or> (\<exists>k. polling_delay delay r = Inr k \<and> k \<le> delay \<and> pause n k d1 = (d', Inl e))))"

text \<open>
  C39. The ranker and the validator never return normally. They end before their first cycle when the
  interval is no number; later only with an exception of the cycle that is neither an \<open>OSError\<close> nor a
  \<open>ValueError\<close>, in the state the cycle left, or when the pause is cancelled; and exactly then.
\<close>

theorem worker_mains_end:
  "(ranker_main rt env t cl pause d = Some (d', n, e) \<longleftrightarrow>
      (\<exists>p. rounds (ranker_round rt env t cl) pause 0 n d = Some p
         \<and> cycle_ending pause t ''60'' (\<lambda>n. ranker_cycle rt (env n) cl) p n d' e))
    \<and> (validator_main rt w cenv venv t cl pause d = Some (d', n, e) \<longleftrightarrow>
      (\<exists>p. rounds (validator_round rt w cenv venv t cl) pause 0 n d = Some p
         \<and> cycle_ending pause t ''300'' (\<lambda>n. validator_cycle rt (w n) (cenv n) (venv n) cl) p n d' e))"
proof -
  have small: "polling_delay delay r = Inr k \<Longrightarrow> k \<le> delay" for delay k and r :: "(nat \<times> nat) option res"
    by (auto simp: polling_delay_def split: sum.splits option.splits if_splits)
  have "last_round (ranker_round rt env t cl) pause n p d' e \<longleftrightarrow> cycle_ending pause t ''60'' (\<lambda>n. ranker_cycle rt (env n) cl) p n d' e"
    "last_round (validator_round rt w cenv venv t cl) pause n p d' e
       \<longleftrightarrow> cycle_ending pause t ''300'' (\<lambda>n. validator_cycle rt (w n) (cenv n) (venv n) cl) p n d' e" for p
    unfolding last_round_def cycle_ending_def ranker_round_def validator_round_def
    by (auto split: sum.splits prod.splits dest: small; blast dest: small)+
  then show ?thesis unfolding ranker_main_def validator_main_def worker_loop_iff by simp
qed

section \<open>What the gateway reads while the ranker runs\<close>

definition pool_served :: "(nat \<Rightarrow> ranker_env) \<Rightarrow> 'd redis \<Rightarrow> 'd \<Rightarrow> 'd \<Rightarrow> bool" where
  "pool_served env cl d x \<longleftrightarrow> r_get cl x GATEWAY_ACTIVE_KEY = r_get cl d GATEWAY_ACTIVE_KEY
     \<or> (\<exists>n validated active min_score pool_size ratio. int (length active) \<le> pool_size
          \<and> r_get cl x GATEWAY_ACTIVE_KEY
              = Some (json_dumps_sorted (JObj (active_snapshot (env n) validated active min_score pool_size ratio))))"

lemma ranker_cycle_serves:
  assumes laws: "redis_laws cl" and cycle: "ranker_cycle rt env cl d = (d', Inr (Some (a, b)))"
  shows "\<exists>validated active min_score pool_size ratio. int (length active) \<le> pool_size
    \<and> r_get cl d' GATEWAY_ACTIVE_KEY
        = Some (json_dumps_sorted (JObj (active_snapshot env validated active min_score pool_size ratio)))"
proof -
  obtain validated ranked reserve active snap d2 where
    pools: "rank_pools rt env validated = Inr (ranked, reserve, active, snap)"
    and published: "publish_snapshot cl (re_uuid_gateway env) GATEWAY_ACTIVE_KEY snap d2 = (d', Inr ())"
    using cycle by (rule ranker_cycle_Some)
  from pools obtain reserve_size pool_size min_score penalty ratio where
    select: "select_active_entries rt ranked pool_size ratio = Inr active"
    and snap: "snap = active_snapshot env validated active min_score pool_size ratio" and "1 \<le> pool_size"
    by (rule rank_pools_Inr)
  have "int (length active) \<le> pool_size"
    using select select_loop_length[of 0 pool_size] by (auto simp: select_active_Inr)
  then show ?thesis
    using redis_client.publish_get(1)[OF redis_client.intro[OF laws] published] snap by blast
qed

lemma ranker_round_serves:
  assumes laws: "redis_laws cl" and served: "pool_served env cl d x" and step: "ranker_round rt env t cl n x = (x', r)"
  shows "pool_served env cl d x'"
proof (cases "interval t ''60''")
  case (Inr delay)
  obtain q where cycle: "ranker_cycle rt (env n) cl x = (x', q)"
    using step Inr by (auto simp: ranker_round_def split: prod.splits)
  show ?thesis
  proof (cases q)
    case (Inl e)
    then show ?thesis using ranker_error_keeps_gateway[OF laws cycle[unfolded Inl]] served by (auto simp: pool_served_def)
  next
    case (Inr sizes)
    show ?thesis
    proof (cases sizes)
      case None
      then have "x' = x" using cycle Inr by (auto simp: ranker_cycle_def split: sum.splits option.splits prod.splits)
      then show ?thesis using served by simp
    next
      case (Some s)
      then obtain a b where "ranker_cycle rt (env n) cl x = (x', Inr (Some (a, b)))" using cycle Inr by (cases s) simp
      from ranker_cycle_serves[OF laws this] show ?thesis unfolding pool_served_def by blast
    qed
  qed
qed (use step served in \<open>simp add: ranker_round_def\<close>)

text \<open>
  C38. Whatever errors its cycles meet, at the beginning of every round of the ranker and when it ends,
  the gateway's key holds what it held when the ranker started or one complete active snapshot of a cycle,
  within its pool size, as long as no other process writes this key.
\<close>

theorem gateway_pool_served:
  assumes laws: "redis_laws cl"
    and others: "\<And>n delay x x' r. pause n delay x = (x', r) \<Longrightarrow> r_get cl x' GATEWAY_ACTIVE_KEY = r_get cl x GATEWAY_ACTIVE_KEY"
  shows "(rounds (ranker_round rt env t cl) pause 0 k d = Some p \<longrightarrow> pool_served env cl d p)
    \<and> (ranker_main rt env t cl pause d = Some (d', n, e) \<longrightarrow> pool_served env cl d d')"
proof -
  have start: "pool_served env cl d d" by (simp add: pool_served_def)
  have kept: "pool_served env cl d x'" if "pool_served env cl d x" "pause m delay x = (x', r)" for m delay x x' r
    using that others[OF that(2)] by (simp add: pool_served_def)
  have at: "pool_served env cl d q" if "rounds (ranker_round rt env t cl) pause 0 j d = Some q" for j q
    by (rule rounds_keep[where I = "pool_served env cl d", OF that start]) (use ranker_round_serves[OF laws] kept in blast)+
  moreover have "pool_served env cl d d'" if "ranker_main rt env t cl pause d = Some (d', n, e)"
  proof -
    have "\<exists>q. rounds (ranker_round rt env t cl) pause 0 n d = Some q \<and> last_round (ranker_round rt env t cl) pause n q d' e"
      using that unfolding ranker_main_def worker_loop_iff .
    then obtain q where q: "rounds (ranker_round rt env t cl) pause 0 n d = Some q"
      "last_round (ranker_round rt env t cl) pause n q d' e" by blast
    show ?thesis
      by (rule last_round_keeps[where I = "pool_served env cl d", OF q(2) at[OF q(1)]]) (use ranker_round_serves[OF laws] kept in blast)+
  qed
  ultimately show ?thesis by blast
qed

text \<open>A ranker that publishes once and is then cancelled in its pause.\<close>

definition cancelled :: "'d pause" where
  "cancelled n delay d = (d, Inl KeyboardInterrupt)"

lemma gateway_pool_served_witness:
  "\<exists>d'. ranker_main sample_rt (\<lambda>_. sample_ranker_env) None FakeRedis cancelled validated_store = Some (d', 0, KeyboardInterrupt)
     \<and> pool_served (\<lambda>_. sample_ranker_env) FakeRedis validated_store d' \<and> d' GATEWAY_ACTIVE_KEY \<noteq> None"
proof -
  obtain d' n k where cycle: "ranker_cycle sample_rt sample_ranker_env FakeRedis validated_store = (d', Inr (Some (n, k)))"
    using sample_ranker_cycle by blast
  have "interval None ''60'' = Inr 60" by code_simp
  then have run: "ranker_main sample_rt (\<lambda>_. sample_ranker_env) None FakeRedis cancelled validated_store = Some (d', 0, KeyboardInterrupt)"
    unfolding ranker_main_def by (intro worker_loop_last) (simp add: last_round_def ranker_round_def cycle polling_delay_def cancelled_def)
  have "d' GATEWAY_ACTIVE_KEY \<noteq> None" using ranker_cycle_serves[OF FakeRedis_laws cycle] by (auto simp: FakeRedis_def)
  moreover have "pool_served (\<lambda>_. sample_ranker_env) FakeRedis validated_store d'"
    using gateway_pool_served[OF FakeRedis_laws, of cancelled sample_rt "\<lambda>_. sample_ranker_env" None 0 validated_store validated_store d' 0 KeyboardInterrupt]
      run by (simp add: cancelled_def)
  ultimately show ?thesis using run by blast
qed

end
