(* ===== verification/Spec2Isabelle.thy ===== *)
theory Spec2Isabelle
  imports Egress_Relay Dns_Relays Readiness Tgctl Balance_Api Bootstrap Service_Install Update_Safety Workers Asn Credentials Proxy_Probe Ranking
begin

text \<open>
  The transparent gateway, translated from its Python sources and verified.

  \<^bold>\<open>The program.\<close> Connectors (\<open>validator/sources\<close>) collect proxy candidates; the fetcher publishes
  them in Redis as the raw pool; the validator measures each candidate through itself
  (\<open>validator/proxy_probe.py\<close>) and publishes the validated pool; the ranker orders it and publishes
  the reserve pool and the active pool; the egress relay (\<open>gateway/egress_relay.py\<close>) reads the
  active pool and tunnels the connections of the clients through it; two relays
  (\<open>gateway/udp2tcp_dns.py\<close>, \<open>gateway/doh_dns.py\<close>) answer intercepted DNS queries. Credentials
  (\<open>common/credentials.py\<close>) are read by the validator and by the relay. \<open>deploy/pool_health.py\<close>
  decides whether the pools of an installation are fresh, \<open>deploy/readiness.py\<close> adds the services
  and a request through the relay to it, and \<open>scripts/tg_update.py\<close> replaces a running installation
  by a new version, or restores the old one. \<open>scripts/tgctl.py\<close> is the command line of the operator,
  \<open>deploy/deploy.py\<close> installs a commit, \<open>deploy/service.py\<close> starts and supervises the installed
  release under systemd, \<open>deploy/cloud-init/bootstrap.py\<close> checks a fresh host, \<open>deploy/secret-transfer.py\<close> delivers the secrets of a host and
  \<open>deploy/install-service.py\<close> installs the supervision, and \<open>tg-balance-api.py\<close> switches the load
  balancer in front of the proxies.

  \<^bold>\<open>Theories.\<close> Shared: \<open>Gw_Prelude\<close> (exceptions, results, operations with a state, characters and
  strings), \<open>Py_Json\<close> (JSON values, dictionaries in insertion order), \<open>Py_Float\<close> (binary64 as
  rationals, rounded to nearest), \<open>Py_Ip\<close> (\<open>ipaddress\<close>), \<open>Py_Url\<close> (\<open>urllib.parse\<close>), \<open>Py_Stream\<close>
  (a byte stream with its limit of 64 KiB, end of input and timeouts). One theory per component:
  \<open>Candidate\<close> (\<open>validator/sources/base.py\<close>), \<open>Connectors\<close> (registry, JSONL and HTTP connectors),
  \<open>Snapshot_Store\<close> (\<open>validator/storage.py\<close>), \<open>Credentials\<close> (\<open>common/credentials.py\<close>), \<open>Asn\<close>
  (\<open>asn_resolver.py\<close>, \<open>asn_updater.py\<close>), \<open>Ranking\<close>, \<open>Ranker\<close>, \<open>Fetcher\<close>, \<open>Proxy_Probe\<close>,
  \<open>Validator\<close> (the modules of these names), \<open>Workers\<close> (the endless \<open>main\<close> of the four workers), \<open>Egress_Pool\<close> and \<open>Egress_Relay\<close>
  (\<open>gateway/egress_relay.py\<close>), \<open>Dns_Relays\<close>, \<open>Pool_Health\<close>, \<open>Update_Txn\<close> (the operations of
  \<open>tg_update.py\<close>) and \<open>Update_Safety\<close> (its theorems). Scripts that administer a host: \<open>Cmd_Log\<close>
  (operations on a log of events), \<open>Station\<close> (the host that answers them, programs that may run
  forever, and the locale \<open>polling\<close>), \<open>Readiness\<close>, \<open>Tgctl_Config\<close> and \<open>Tgctl\<close> (\<open>tgctl.py\<close>),
  \<open>Deploy_Config\<close> and \<open>Deploy\<close> (\<open>deploy.py\<close>), \<open>Bootstrap\<close> (\<open>bootstrap.py\<close>), \<open>Service\<close> (\<open>service.py\<close>), \<open>Secret_Transfer\<close>
  (\<open>secret-transfer.py\<close>), \<open>Service_Install\<close> (\<open>install-service.py\<close>) and \<open>Balance_Api\<close> (\<open>tg-balance-api.py\<close>). A definition has the name of the function,
  method or constant that it translates; a helper that stands for a part of a function says which.

  \<^bold>\<open>How the code is modelled.\<close> Exceptions are values of \<open>exn\<close>; a function that may raise returns
  \<open>'a res\<close>. Code that changes a state (a connection, the log of an update) is an operation
  \<open>('s, 'a) act\<close> that keeps the changes made before an exception. Mutable objects are records that
  are returned updated. Interleavings are lists of steps: Redis commands of several publishers in
  \<open>Snapshot_Store\<close>, choices and results of several connections in \<open>Egress_Pool\<close>, tasks of the relay
  in \<open>Dns_Relays\<close>. What the program does not decide is an argument: the clock, the network (what a
  peer sends, in which pieces, and what times out), files, environment variables, SHA-256, IDNA, the
  decimal printer of floats, the ASN database, the Redis server (laws in the locale of
  \<open>Snapshot_Store\<close>, with the store of the examples as its interpretation), TLS, Docker, Git and systemd.

  \<^bold>\<open>What the theorems show.\<close> Candidates: what is accepted is canonical and survives its snapshots.
  Connectors: only allowed types and origins, one candidate for each identity. Store: publication is
  atomic under interleaving, reading returns what was published. Probe: handshakes follow RFC 1928,
  RFC 1929 and HTTP, bodies are bounded, chunks are decoded exactly, credentials stay with the
  proxy, and an anonymity level is only given when no leak header holds an identity in the notation
  that the code searches (any, for IPv4). Ranking: it refines a greedy
  specification with penalties, takes every eligible entry once, and the active pool is a bounded
  part of it. Workers: cycles publish what they measured, a failed cycle changes nothing that
  the gateway reads, and a worker ends exactly with the errors that its \<open>main\<close> does not catch. Relay: choices are admissible and, for
  every port but that of DNS, fair, attempts are bounded and recorded, a
  failed candidate rests, and a client gets the 200 line only for an accepted tunnel. DNS: at most
  one answer for each query, to its sender. Health: re-ranking does not make old data fresh. Update:
  a crash leaves a journal that names the commit, the images and the volumes of before, a return means a passed readiness
  check, a failure is rolled back to them or reported. Readiness: what is accepted has all its services, four fresh pools and a relay whose exit
  the active pool names. Command line: an accepted configuration is one that the workers can use, \<open>up\<close>
  and \<open>ready\<close> return only after what they wait for was seen, and end. Deployment: files are replaced
  whole, also when a write is cut short (\<open>file_effect\<close> says what the file operations do), and a deployment is recorded only after the gate accepted it. Service: systemd is told
  \<open>READY\<close> only after the gate and the inspection of every container, the start ends, and the
  supervision ends exactly with the first error of a round, which a stopped, unhealthy or missing container is. Secrets: what is packed is what is staged,
  and a canonical file is replaced only after the staged set was validated. Bootstrap: a host is recorded as
  ready only after its release, packages, network and script were checked. Installation: the service is
  enabled only for a checked and recorded release. Load balancer: a request changes something
  only with the token, and in the order that keeps a refused configuration away.

  \<^bold>\<open>Bounds and fuel.\<close> No definition uses fuel: loops over a stream recurse on the bytes that are
  left, the attempts of the relay on the list of the allowed attempts (\<open>MAX_ATTEMPTS\<close> of the
  environment), the ranking on the entries that are left. Integers of the program are Python integers
  and stay unbounded; ports, lengths of frames and addresses are bounded by the checks of the code.

  The loops of the workers (\<open>worker_loop\<close>), the loops that wait for a host (\<open>wait_loop\<close>,
  \<open>ready_loop\<close>, \<open>deploy_loop\<close>, \<open>retry_loop\<close>) and the endless
  supervision are partial functions in the option monad: \<open>None\<close> is a run without end. The theorems that
  they end assume \<open>clock_law\<close> (a monotonic clock, sleeping takes its time), proved once in the locale
  \<open>polling\<close>, of which each of these loops is an interpretation.

  \<^bold>\<open>Not modelled.\<close> The start of the event loops and servers, socket options, what the workers print;
  argument parsers; the Proxmox and lab drivers and the acceptance scripts, which
  only drive external programs on other machines; shell scripts. The output of \<open>docker compose config\<close>, of Git and
  of \<open>ip\<close> is what the host answers.
\<close>

end
